(* ===== verification/Prelude.thy ===== *)
theory Prelude
  imports Complex_Main "HOL-Library.AList" "HOL-Library.Sublist" "HOL-Library.List_Lexorder"
    "HOL-Library.Char_ord"
begin

text \<open>
  Shared vocabulary of the development.

  Time is \<open>rat\<close>: Python's \<open>time.monotonic()\<close> and \<open>datetime\<close> values are read
  once per operation and passed in as an argument \<open>now\<close>; the model compares and subtracts
  them exactly (float rounding is not modelled).

  A Python \<open>dict\<close> whose order matters is an association list: \<open>AList.update\<close>
  overwrites in place and appends a new key at the end, \<open>AList.delete\<close> removes the
  key, \<open>map_of\<close> reads, exactly as CPython's insertion-ordered dict does.
  A \<open>dict\<close> whose order is never read is a map.
  Strings are lists of ASCII characters.
\<close>

type_synonym time = rat

type_synonym ('k, 'v) dict = "('k \<times> 'v) list"

named_theorems py_defs "definitions of the Python string helpers, for evaluation"
named_theorems frame "fields an operation leaves alone"
named_theorems inv_intros "invariant preservation, one rule per operation"

subsection \<open>Insertion-ordered dictionaries\<close>

definition dict_wf :: "('k, 'v) dict \<Rightarrow> bool" where
  "dict_wf d \<longleftrightarrow> distinct (map fst d)"

lemma dict_wf_Nil [simp, intro]: "dict_wf []"
  by (simp add: dict_wf_def)

lemma dict_wf_update [simp, intro]: "dict_wf d \<Longrightarrow> dict_wf (AList.update k v d)"
  by (simp add: dict_wf_def distinct_update)

lemma dict_wf_delete [simp, intro]: "dict_wf d \<Longrightarrow> dict_wf (AList.delete k d)"
  by (simp add: dict_wf_def AList.distinct_delete)

lemma dict_wf_filter [simp, intro]: "dict_wf d \<Longrightarrow> dict_wf (filter P d)"
  by (simp add: dict_wf_def distinct_map_filter)

lemma dict_wf_tl [simp, intro]: "dict_wf (x # d) \<Longrightarrow> dict_wf d"
  by (simp add: dict_wf_def)

lemma dict_wf_append_new:
  "dict_wf d \<Longrightarrow> k \<notin> fst ` set d \<Longrightarrow> dict_wf (d @ [(k, v)])"
  by (simp add: dict_wf_def)

lemma dict_get_iff: "dict_wf d \<Longrightarrow> map_of d k = Some v \<longleftrightarrow> (k, v) \<in> set d"
  by (simp add: dict_wf_def map_of_eq_Some_iff)

lemma update_new: "k \<notin> fst ` set d \<Longrightarrow> AList.update k v d = d @ [(k, v)]"
  by (induction d) auto

lemma delete_absent: "k \<notin> fst ` set d \<Longrightarrow> AList.delete k d = d"
  by (induction d) (auto simp: AList.delete_eq)

lemma map_of_None_keys: "map_of d k = None \<longleftrightarrow> k \<notin> fst ` set d"
  by (simp add: map_of_eq_None_iff)

lemma length_delete_wf:
  "dict_wf d \<Longrightarrow> k \<in> fst ` set d \<Longrightarrow> length (AList.delete k d) = length d - 1"
proof (induction d)
  case Nil
  then show ?case by simp
next
  case (Cons p d)
  show ?case
  proof (cases "fst p = k")
    case True
    with Cons.prems(1) have "k \<notin> fst ` set d" by (auto simp: dict_wf_def)
    with True show ?thesis by (cases p) (simp add: delete_absent)
  next
    case False
    with Cons.prems have "k \<in> fst ` set d" "dict_wf d" by (auto simp: dict_wf_def)
    with Cons.IH False show ?thesis
      by (cases p; cases d) auto
  qed
qed

subsection \<open>Python strings\<close>

definition startswith :: "string \<Rightarrow> string \<Rightarrow> bool" where
  [py_defs]: "startswith p s \<longleftrightarrow> take (length p) s = p"

definition lower_char :: "char \<Rightarrow> char" where
  [py_defs]: "lower_char c =
     (let n = of_char c :: nat in if 65 \<le> n \<and> n \<le> 90 then char_of (n + 32) else c)"

definition py_lower :: "string \<Rightarrow> string" where
  [py_defs]: "py_lower s = map lower_char s"

definition is_space :: "char \<Rightarrow> bool" where
  [py_defs]: "is_space c \<longleftrightarrow> (let n = of_char c :: nat in n = 32 \<or> (9 \<le> n \<and> n \<le> 13) \<or> (28 \<le> n \<and> n \<le> 31))"

definition py_lstrip :: "string \<Rightarrow> string" where
  [py_defs]: "py_lstrip s = dropWhile is_space s"

definition py_strip :: "string \<Rightarrow> string" where
  [py_defs]: "py_strip s = rev (dropWhile is_space (rev (dropWhile is_space s)))"

fun py_split :: "char \<Rightarrow> string \<Rightarrow> string list" where
  "py_split c [] = [[]]"
| "py_split c (x # xs) =
     (if x = c then [] # py_split c xs
      else (case py_split c xs of [] \<Rightarrow> [[x]] | w # ws \<Rightarrow> (x # w) # ws))"

fun py_join :: "string \<Rightarrow> string list \<Rightarrow> string" where
  "py_join sep [] = []"
| "py_join sep [x] = x"
| "py_join sep (x # y # zs) = x @ sep @ py_join sep (y # zs)"

lemma startswith_append [simp]: "startswith p (p @ s)"
  by (simp add: startswith_def)

lemma startswith_iff: "startswith p s \<longleftrightarrow> (\<exists>r. s = p @ r)"
  unfolding startswith_def by (metis append_take_drop_id append_eq_conv_conj)

subsection \<open>Sums as results\<close>

definition is_ok :: "'e + 'a \<Rightarrow> bool" where
  "is_ok r \<longleftrightarrow> (case r of Inl _ \<Rightarrow> False | Inr _ \<Rightarrow> True)"

lemma is_ok_simps [simp]: "is_ok (Inr x)" "\<not> is_ok (Inl e)"
  by (simp_all add: is_ok_def)

end
