(* ===== verification/Circuit_Breaker.thy ===== *)
theory Circuit_Breaker
  imports Prelude
begin

text \<open>
  The circuit breakers of the system: \<open>CircuitBreaker\<close> and \<open>CircuitRegistry\<close>
  (core/lifecycle/circuit_breaker.py), the hub's use of the registry
  (core/hub/hub_circuit_breaker.py) and \<open>NatsCircuitBreaker\<close>
  (packages/roxabi-nats circuit_breaker.py). The contract both breakers keep is the locale
  \<open>gate\<close>: a closed gate admits, a waiting gate rejects until its deadline, a probing
  gate admits one caller. It is interpreted on both.
\<close>

subsection \<open>The core breaker\<close>

datatype circuit_state = CLOSED | OPEN | HALF_OPEN

record circuit_status =
  st_name :: string
  st_state :: circuit_state
  st_failure_count :: int
  st_retry_after :: "time option"

record circuit_breaker =
  cb_name :: string
  failure_threshold :: int
  recovery_timeout :: int
  cb_state :: circuit_state
  failure_count :: int
  opened_at :: "time option"
  probe_in_flight :: bool

definition circuit_breaker_init :: "string \<Rightarrow> int \<Rightarrow> int \<Rightarrow> circuit_breaker" where
  "circuit_breaker_init name thr rec =
     \<lparr>cb_name = name, failure_threshold = thr, recovery_timeout = rec, cb_state = CLOSED,
      failure_count = 0, opened_at = None, probe_in_flight = False\<rparr>"

text \<open>The tail of \<open>is_open\<close>: the HALF_OPEN logic that the OPEN branch falls through to.\<close>

definition claim_probe :: "circuit_breaker \<Rightarrow> bool \<times> circuit_breaker" where
  "claim_probe cb =
     (if probe_in_flight cb then (True, cb) else (False, cb\<lparr>probe_in_flight := True\<rparr>))"

definition is_open :: "time \<Rightarrow> circuit_breaker \<Rightarrow> bool \<times> circuit_breaker" where
  "is_open now cb =
     (case cb_state cb of
        CLOSED \<Rightarrow> (False, cb)
      | OPEN \<Rightarrow>
          (case opened_at cb of
             None \<Rightarrow> claim_probe cb
           | Some t \<Rightarrow>
               (if of_int (recovery_timeout cb) \<le> now - t
                then claim_probe (cb\<lparr>cb_state := HALF_OPEN\<rparr>)
                else (True, cb)))
      | HALF_OPEN \<Rightarrow> claim_probe cb)"

definition record_success :: "circuit_breaker \<Rightarrow> circuit_breaker" where
  "record_success cb =
     (if cb_state cb \<noteq> HALF_OPEN then cb
      else cb\<lparr>cb_state := CLOSED, failure_count := 0, opened_at := None,
              probe_in_flight := False\<rparr>)"

definition record_failure :: "time \<Rightarrow> circuit_breaker \<Rightarrow> circuit_breaker" where
  "record_failure now cb0 =
     (let cb = cb0\<lparr>probe_in_flight := False, failure_count := failure_count cb0 + 1\<rparr>
      in case cb_state cb of
           HALF_OPEN \<Rightarrow> cb\<lparr>cb_state := OPEN, opened_at := Some now\<rparr>
         | CLOSED \<Rightarrow>
             (if failure_threshold cb \<le> failure_count cb
              then cb\<lparr>cb_state := OPEN, opened_at := Some now\<rparr> else cb)
         | OPEN \<Rightarrow> cb\<lparr>opened_at := Some now\<rparr>)"

definition release_probe :: "circuit_breaker \<Rightarrow> circuit_breaker" where
  "release_probe cb = cb\<lparr>probe_in_flight := False\<rparr>"

definition get_status :: "time \<Rightarrow> circuit_breaker \<Rightarrow> circuit_status" where
  "get_status now cb =
     \<lparr>st_name = cb_name cb, st_state = cb_state cb, st_failure_count = failure_count cb,
      st_retry_after =
        (if cb_state cb = OPEN \<or> cb_state cb = HALF_OPEN
         then map_option (\<lambda>t. max 0 (of_int (recovery_timeout cb) - (now - t))) (opened_at cb)
         else None)\<rparr>"

lemmas cb_ops = is_open_def claim_probe_def record_success_def record_failure_def
  release_probe_def

subsection \<open>One call on the breaker, and runs of calls\<close>

datatype cb_call = AskOpen time | Success | Failure time | Release

fun cb_step :: "circuit_breaker \<Rightarrow> cb_call \<Rightarrow> circuit_breaker" where
  "cb_step cb (AskOpen now) = snd (is_open now cb)"
| "cb_step cb Success = record_success cb"
| "cb_step cb (Failure now) = record_failure now cb"
| "cb_step cb Release = release_probe cb"

definition cb_run :: "circuit_breaker \<Rightarrow> cb_call list \<Rightarrow> circuit_breaker" where
  "cb_run = foldl cb_step"

lemma cb_run_simps [simp]:
  "cb_run cb [] = cb"
  "cb_run cb (c # cs) = cb_run (cb_step cb c) cs"
  by (simp_all add: cb_run_def)

lemma cb_run_append: "cb_run cb (xs @ ys) = cb_run (cb_run cb xs) ys"
  by (simp add: cb_run_def)

text \<open>
  The agreement between the fields: the timer runs exactly when the breaker is not closed,
  a probe is in flight only in HALF_OPEN, and a closed breaker is below its threshold.
\<close>

definition cb_wf :: "circuit_breaker \<Rightarrow> bool" where
  "cb_wf cb \<longleftrightarrow>
     (cb_state cb = CLOSED \<longleftrightarrow> opened_at cb = None) \<and>
     (probe_in_flight cb \<longrightarrow> cb_state cb = HALF_OPEN) \<and>
     0 \<le> failure_count cb \<and>
     (cb_state cb = CLOSED \<longrightarrow> failure_count cb < failure_threshold cb)"

lemma cb_wf_init: "0 < thr \<Longrightarrow> cb_wf (circuit_breaker_init name thr rec)"
  by (simp add: cb_wf_def circuit_breaker_init_def)

lemma cb_wf_is_open [inv_intros]: "cb_wf cb \<Longrightarrow> cb_wf (snd (is_open now cb))"
  by (auto simp: cb_wf_def cb_ops split: circuit_state.splits option.splits if_splits)

lemma cb_wf_record_success [inv_intros]:
  "cb_wf cb \<Longrightarrow> 0 < failure_threshold cb \<Longrightarrow> cb_wf (record_success cb)"
  by (auto simp: cb_wf_def cb_ops)

lemma cb_wf_record_failure [inv_intros]: "cb_wf cb \<Longrightarrow> cb_wf (record_failure now cb)"
  by (auto simp: cb_wf_def cb_ops Let_def split: circuit_state.splits)

lemma cb_wf_release [inv_intros]: "cb_wf cb \<Longrightarrow> cb_wf (release_probe cb)"
  by (auto simp: cb_wf_def cb_ops)

lemma cb_step_threshold [frame, simp]:
  "failure_threshold (cb_step cb c) = failure_threshold cb"
  by (cases c) (auto simp: cb_ops Let_def split: circuit_state.splits option.splits)

lemma cb_step_timeout [frame, simp]:
  "recovery_timeout (cb_step cb c) = recovery_timeout cb"
  by (cases c) (auto simp: cb_ops Let_def split: circuit_state.splits option.splits)

lemma cb_wf_step:
  "cb_wf cb \<Longrightarrow> 0 < failure_threshold cb \<Longrightarrow> cb_wf (cb_step cb c)"
  by (cases c) (auto intro: inv_intros)

lemma cb_wf_run:
  "cb_wf cb \<Longrightarrow> 0 < failure_threshold cb \<Longrightarrow> cb_wf (cb_run cb cs)"
  by (induction cs arbitrary: cb) (simp_all add: cb_wf_step)

subsection \<open>The contract of a breaker\<close>

text \<open>
  What a caller relies on. The abstraction \<open>gate\<close> of a breaker is \<open>Admitting\<close>
  (closed), \<open>Waiting u\<close> (rejecting until \<open>u\<close>) or \<open>Probing p\<close> (one probe
  allowed; \<open>p\<close> says whether it is taken).
\<close>

datatype gate = Admitting | Waiting time | Probing bool

fun gate_ask :: "time \<Rightarrow> gate \<Rightarrow> bool \<times> gate" where
  "gate_ask now Admitting = (False, Admitting)"
| "gate_ask now (Waiting u) = (if now < u then (True, Waiting u) else (False, Probing True))"
| "gate_ask now (Probing p) = (True \<and> p, Probing True)"

text \<open>Asking at each of a list of instants, and how many of the callers were admitted.\<close>

fun ask_all :: "(time \<Rightarrow> 's \<Rightarrow> bool \<times> 's) \<Rightarrow> 's \<Rightarrow> time list \<Rightarrow> bool list \<times> 's" where
  "ask_all ask s [] = ([], s)"
| "ask_all ask s (t # ts) =
     (let (r, s1) = ask t s; (rs, s2) = ask_all ask s1 ts in (r # rs, s2))"

definition admitted :: "bool list \<Rightarrow> nat" where
  "admitted rs = length (filter Not rs)"

lemma admitted_simps [simp]:
  "admitted [] = 0" "admitted (True # rs) = admitted rs" "admitted (False # rs) = Suc (admitted rs)"
  by (simp_all add: admitted_def)

locale breaker =
  fixes ask :: "time \<Rightarrow> 's \<Rightarrow> bool \<times> 's"
    and fail :: "time \<Rightarrow> 's \<Rightarrow> 's"
    and success :: "'s \<Rightarrow> 's"
    and gate :: "'s \<Rightarrow> gate"
    and inv :: "'s \<Rightarrow> bool"
    and wait_of :: "'s \<Rightarrow> time"
  assumes inv_ask: "inv s \<Longrightarrow> inv (snd (ask now s))"
    and ask_refines: "inv s \<Longrightarrow> (fst (ask now s), gate (snd (ask now s))) = gate_ask now (gate s)"
    and probe_fails: "inv s \<Longrightarrow> gate s = Probing True \<Longrightarrow> 0 \<le> now \<Longrightarrow>
           gate (fail now s) = Waiting (now + wait_of s)"
    and probe_succeeds: "inv s \<Longrightarrow> gate s = Probing True \<Longrightarrow> gate (success s) = Admitting"
begin

lemma ask_waiting:
  "inv s \<Longrightarrow> gate s = Waiting u \<Longrightarrow> now < u \<Longrightarrow>
     fst (ask now s) \<and> gate (snd (ask now s)) = Waiting u"
  using ask_refines [of s now] by simp

lemma ask_all_inv: "inv s \<Longrightarrow> inv (snd (ask_all ask s ts))"
  by (induction ts arbitrary: s) (auto simp: Let_def split_beta inv_ask)

lemma probe_taken_none:
  "inv s \<Longrightarrow> gate s = Probing True \<Longrightarrow> admitted (fst (ask_all ask s ts)) = 0"
proof (induction ts arbitrary: s)
  case Nil
  then show ?case by simp
next
  case (Cons t ts)
  have "fst (ask t s)" "gate (snd (ask t s)) = Probing True"
    using ask_refines [OF Cons.prems(1), of t] Cons.prems(2) by simp_all
  with Cons.IH [of "snd (ask t s)"] Cons.prems show ?case
    by (simp add: Let_def split_beta inv_ask)
qed

lemma tripped_admits_one:
  "inv s \<Longrightarrow> gate s \<noteq> Admitting \<Longrightarrow> admitted (fst (ask_all ask s ts)) \<le> 1"
proof (induction ts arbitrary: s)
  case Nil
  then show ?case by simp
next
  case (Cons t ts)
  let ?s = "snd (ask t s)"
  have inv: "inv ?s" by (rule inv_ask [OF Cons.prems(1)])
  have step: "(fst (ask t s), gate ?s) = gate_ask t (gate s)"
    by (rule ask_refines [OF Cons.prems(1)])
  show ?case
  proof (cases "fst (ask t s)")
    case True
    then have "gate ?s \<noteq> Admitting"
      using step Cons.prems(2) by (cases "gate s") (auto split: if_splits)
    with Cons.IH [OF inv] True show ?thesis by (simp add: Let_def split_beta)
  next
    case False
    then have "gate ?s = Probing True"
      using step Cons.prems(2) by (cases "gate s") (auto split: if_splits)
    with probe_taken_none [OF inv] False show ?thesis by (simp add: Let_def split_beta)
  qed
qed

lemma waiting_rejects_all:
  assumes "inv s" "gate s = Waiting u" "\<forall>t \<in> set ts. t < u"
  shows "admitted (fst (ask_all ask s ts)) = 0 \<and> gate (snd (ask_all ask s ts)) = Waiting u"
  using assms
proof (induction ts arbitrary: s)
  case Nil
  then show ?case by simp
next
  case (Cons t ts)
  have "fst (ask t s)" "gate (snd (ask t s)) = Waiting u"
    using ask_waiting [OF Cons.prems(1,2)] Cons.prems(3) by simp_all
  with Cons.IH [of "snd (ask t s)"] Cons.prems show ?case
    by (simp add: Let_def split_beta inv_ask)
qed

end

definition cb_gate :: "circuit_breaker \<Rightarrow> gate" where
  "cb_gate cb =
     (case cb_state cb of
        CLOSED \<Rightarrow> Admitting
      | OPEN \<Rightarrow> Waiting (the (opened_at cb) + of_int (recovery_timeout cb))
      | HALF_OPEN \<Rightarrow> Probing (probe_in_flight cb))"

interpretation cb: breaker is_open record_failure record_success cb_gate cb_wf
  "\<lambda>cb. of_int (recovery_timeout cb)"
proof unfold_locales
  fix s now
  show "cb_wf s \<Longrightarrow> cb_wf (snd (is_open now s))" by (rule cb_wf_is_open)
  show "cb_wf s \<Longrightarrow> (fst (is_open now s), cb_gate (snd (is_open now s))) = gate_ask now (cb_gate s)"
    by (auto simp: cb_wf_def cb_gate_def cb_ops algebra_simps
        split: circuit_state.splits if_splits)
  show "cb_wf s \<Longrightarrow> cb_gate s = Probing True \<Longrightarrow> 0 \<le> now \<Longrightarrow>
      cb_gate (record_failure now s) = Waiting (now + of_int (recovery_timeout s))"
    by (auto simp: cb_gate_def cb_ops Let_def split: circuit_state.splits)
  show "cb_wf s \<Longrightarrow> cb_gate s = Probing True \<Longrightarrow> cb_gate (record_success s) = Admitting"
    by (auto simp: cb_gate_def cb_ops split: circuit_state.splits)
qed

subsection \<open>The NATS breaker\<close>

text \<open>
  \<open>NatsCircuitBreaker\<close> has no state enum: a zero \<open>_open_until\<close> is the closed state
  (Python's falsy float), and the half-open flag is never released but by an outcome.
\<close>

record nats_breaker =
  nb_failure_threshold :: int
  nb_recovery_timeout :: time
  nb_failures :: int
  nb_open_until :: time
  nb_half_open_probe :: bool

definition nats_breaker_init :: "int \<Rightarrow> time \<Rightarrow> nats_breaker" where
  "nats_breaker_init thr rec =
     \<lparr>nb_failure_threshold = thr, nb_recovery_timeout = rec, nb_failures = 0,
      nb_open_until = 0, nb_half_open_probe = False\<rparr>"

definition nb_is_open :: "time \<Rightarrow> nats_breaker \<Rightarrow> bool \<times> nats_breaker" where
  "nb_is_open now nb =
     (if nb_open_until nb = 0 then (False, nb)
      else if now < nb_open_until nb then (True, nb)
      else if nb_half_open_probe nb then (True, nb)
      else (False, nb\<lparr>nb_half_open_probe := True\<rparr>))"

definition nb_record_success :: "nats_breaker \<Rightarrow> nats_breaker" where
  "nb_record_success nb = nb\<lparr>nb_failures := 0, nb_open_until := 0, nb_half_open_probe := False\<rparr>"

definition nb_record_failure :: "time \<Rightarrow> nats_breaker \<Rightarrow> nats_breaker" where
  "nb_record_failure now nb0 =
     (let nb = nb0\<lparr>nb_failures := nb_failures nb0 + 1\<rparr>
      in if nb_failure_threshold nb \<le> nb_failures nb
         then nb\<lparr>nb_open_until := now + nb_recovery_timeout nb, nb_half_open_probe := False\<rparr>
         else nb)"

lemmas nb_ops = nb_is_open_def nb_record_success_def nb_record_failure_def

definition nb_gate :: "nats_breaker \<Rightarrow> gate" where
  "nb_gate nb =
     (if nb_open_until nb = 0 then Admitting
      else if nb_half_open_probe nb then Probing True
      else Waiting (nb_open_until nb))"

text \<open>An open breaker has reached its threshold; only an open one has a probe.\<close>

definition nb_wf :: "nats_breaker \<Rightarrow> bool" where
  "nb_wf nb \<longleftrightarrow>
     (nb_open_until nb \<noteq> 0 \<longrightarrow> nb_failure_threshold nb \<le> nb_failures nb) \<and>
     (nb_half_open_probe nb \<longrightarrow> nb_open_until nb \<noteq> 0)"

definition nb_inv :: "nats_breaker \<Rightarrow> bool" where
  "nb_inv nb \<longleftrightarrow> nb_wf nb \<and> 0 < nb_recovery_timeout nb"

text \<open>
  Opening sets the deadline to a positive clock reading plus a positive timeout, so the
  sentinel 0 is never produced by a failure.
\<close>

interpretation nb: breaker nb_is_open nb_record_failure nb_record_success nb_gate nb_inv
  nb_recovery_timeout
proof unfold_locales
  fix s now
  show "nb_inv s \<Longrightarrow> nb_inv (snd (nb_is_open now s))"
    by (auto simp: nb_inv_def nb_wf_def nb_ops)
  show "nb_inv s \<Longrightarrow>
      (fst (nb_is_open now s), nb_gate (snd (nb_is_open now s))) = gate_ask now (nb_gate s)"
    by (auto simp: nb_inv_def nb_wf_def nb_gate_def nb_ops)
  show "nb_inv s \<Longrightarrow> nb_gate s = Probing True \<Longrightarrow> 0 \<le> now \<Longrightarrow>
      nb_gate (nb_record_failure now s) = Waiting (now + nb_recovery_timeout s)"
    by (auto simp: nb_inv_def nb_wf_def nb_gate_def nb_ops Let_def split: if_splits)
  show "nb_inv s \<Longrightarrow> nb_gate s = Probing True \<Longrightarrow> nb_gate (nb_record_success s) = Admitting"
    by (auto simp: nb_gate_def nb_ops split: if_splits)
qed

subsection \<open>The registry and the hub's use of it\<close>

type_synonym circuit_registry = "(string, circuit_breaker) dict"

datatype registry_error = KeyError string "string list"

definition register_circuit :: "circuit_breaker \<Rightarrow> circuit_registry \<Rightarrow> circuit_registry" where
  "register_circuit cb reg = AList.update (cb_name cb) cb reg"

definition circuit_get :: "circuit_registry \<Rightarrow> string \<Rightarrow> circuit_breaker option" where
  "circuit_get reg name = map_of reg name"

definition circuit_getitem :: "circuit_registry \<Rightarrow> string \<Rightarrow> registry_error + circuit_breaker" where
  "circuit_getitem reg name =
     (case map_of reg name of
        Some cb \<Rightarrow> Inr cb
      | None \<Rightarrow> Inl (KeyError name (sort (map fst reg))))"

definition get_all_status :: "time \<Rightarrow> circuit_registry \<Rightarrow> (string \<times> circuit_status) list" where
  "get_all_status now reg = map (\<lambda>(name, cb). (name, get_status now cb)) reg"

text \<open>
  The hub's breakers are named \<open>claude-cli\<close> and \<open>hub\<close>. Breakers are shared mutable
  objects of the registry: \<open>on_circuit\<close> writes the changed breaker back under its key.
\<close>

definition cli_circuit :: string where "cli_circuit = ''claude-cli''"
definition hub_circuit :: string where "hub_circuit = ''hub''"

definition on_circuit ::
    "string \<Rightarrow> (circuit_breaker \<Rightarrow> circuit_breaker) \<Rightarrow> circuit_registry \<Rightarrow> circuit_registry" where
  "on_circuit name f reg =
     (case circuit_get reg name of None \<Rightarrow> reg | Some cb \<Rightarrow> AList.update name (f cb) reg)"

text \<open>
  \<open>circuit_breaker_drop\<close>: whether the message is dropped, the retry delay put into the
  unavailable reply (\<open>None\<close> when no reply is sent), and the registry afterwards. Errors of
  the reply's dispatch are swallowed by the code and do not change the result.
\<close>

definition circuit_breaker_drop ::
    "time \<Rightarrow> circuit_registry option \<Rightarrow> bool \<times> int option \<times> circuit_registry option" where
  "circuit_breaker_drop now reg0 =
     (case reg0 of
        None \<Rightarrow> (False, None, None)
      | Some reg \<Rightarrow>
          (case circuit_get reg cli_circuit of
             None \<Rightarrow> (False, None, Some reg)
           | Some cb \<Rightarrow>
               (let (rejected, cb') = is_open now cb;
                    reg' = AList.update cli_circuit cb' reg
                in if \<not> rejected then (False, None, Some reg')
                   else (True, Some (case st_retry_after (get_status now cb') of
                                       None \<Rightarrow> 0 | Some r \<Rightarrow> \<lfloor>r\<rfloor>), Some reg'))))"

definition record_circuit_success :: "circuit_registry option \<Rightarrow> circuit_registry option" where
  "record_circuit_success reg0 =
     map_option (\<lambda>reg. on_circuit hub_circuit record_success
                         (on_circuit cli_circuit record_success reg)) reg0"

definition record_circuit_failure ::
    "time \<Rightarrow> bool \<Rightarrow> circuit_registry option \<Rightarrow> circuit_registry option" where
  "record_circuit_failure now is_provider_error reg0 =
     map_option (\<lambda>reg0.
        let reg = on_circuit hub_circuit (record_failure now) reg0
        in if is_provider_error then on_circuit cli_circuit (record_failure now) reg else reg) reg0"

lemma circuit_get_register [simp]:
  "circuit_get (register_circuit cb reg) n = (if n = cb_name cb then Some cb else circuit_get reg n)"
  by (simp add: circuit_get_def register_circuit_def update_conv)

lemma circuit_get_on_circuit [simp]:
  "circuit_get (on_circuit name f reg) n =
     (if n = name then map_option f (circuit_get reg n) else circuit_get reg n)"
  by (auto simp: circuit_get_def on_circuit_def update_conv split: option.splits)

lemma hub_neq_cli [simp]: "hub_circuit \<noteq> cli_circuit" "cli_circuit \<noteq> hub_circuit"
  by (simp_all add: hub_circuit_def cli_circuit_def)

subsection \<open>Runs of outcomes\<close>

fun is_failure :: "cb_call \<Rightarrow> bool" where
  "is_failure (Failure _) = True"
| "is_failure _ = False"

fun is_outcome :: "cb_call \<Rightarrow> bool" where
  "is_outcome (Failure _) = True"
| "is_outcome Success = True"
| "is_outcome _ = False"

definition failures :: "cb_call list \<Rightarrow> nat" where
  "failures cs = length (filter is_failure cs)"

lemma failures_simps [simp]:
  "failures [] = 0"
  "failures (c # cs) = (if is_failure c then Suc (failures cs) else failures cs)"
  by (simp_all add: failures_def)

lemma outcome_keeps_open:
  "is_outcome c \<Longrightarrow> cb_state cb = OPEN \<Longrightarrow> cb_state (cb_step cb c) = OPEN"
  by (cases c) (auto simp: cb_ops Let_def)

lemma outcomes_keep_open:
  "list_all is_outcome cs \<Longrightarrow> cb_state cb = OPEN \<Longrightarrow> cb_state (cb_run cb cs) = OPEN"
  by (induction cs arbitrary: cb) (simp_all add: outcome_keeps_open)

lemma outcomes_count:
  assumes "list_all is_outcome cs" "cb_state cb = CLOSED" "failure_count cb < failure_threshold cb"
  shows "cb_state (cb_run cb cs) =
           (if failure_count cb + int (failures cs) < failure_threshold cb then CLOSED else OPEN)"
  using assms
proof (induction cs arbitrary: cb)
  case Nil
  then show ?case by simp
next
  case (Cons c cs)
  show ?case
  proof (cases c)
    case (Failure now)
    show ?thesis
    proof (cases "failure_threshold cb \<le> failure_count cb + 1")
      case True
      with Failure Cons.prems have "cb_state (cb_step cb c) = OPEN"
        by (simp add: record_failure_def)
      with True Failure Cons.prems(1) show ?thesis by (simp add: outcomes_keep_open)
    next
      case False
      with Failure Cons.prems Cons.IH [of "cb_step cb c"] show ?thesis
        by (simp add: record_failure_def add.assoc)
    qed
  qed (use Cons in \<open>simp_all add: record_success_def\<close>)
qed

text \<open>The same for the NATS breaker, whose success does reset the streak.\<close>

datatype nb_call = NbSuccess | NbFailure time

fun nb_step :: "nats_breaker \<Rightarrow> nb_call \<Rightarrow> nats_breaker" where
  "nb_step nb NbSuccess = nb_record_success nb"
| "nb_step nb (NbFailure now) = nb_record_failure now nb"

fun streak :: "nat \<Rightarrow> nb_call list \<Rightarrow> nat" where
  "streak n [] = n"
| "streak n (NbSuccess # cs) = streak 0 cs"
| "streak n (NbFailure _ # cs) = streak (Suc n) cs"

fun nb_clock_ok :: "nb_call \<Rightarrow> bool" where
  "nb_clock_ok NbSuccess = True"
| "nb_clock_ok (NbFailure now) = (0 \<le> now)"

lemma nb_streak_run:
  assumes "list_all nb_clock_ok cs" "0 < nb_recovery_timeout nb"
    "nb_failures nb = int n" "nb_open_until nb \<noteq> 0 \<longleftrightarrow> nb_failure_threshold nb \<le> int n"
    "0 < nb_failure_threshold nb"
  shows "nb_failures (foldl nb_step nb cs) = int (streak n cs) \<and>
         (nb_open_until (foldl nb_step nb cs) \<noteq> 0 \<longleftrightarrow>
            nb_failure_threshold nb \<le> int (streak n cs))"
  using assms
proof (induction cs arbitrary: nb n)
  case Nil
  then show ?case by simp
next
  case (Cons c cs)
  show ?case
  proof (cases c)
    case NbSuccess
    with Cons.IH [of "nb_step nb c" 0] Cons.prems show ?thesis
      by (simp add: nb_record_success_def)
  next
    case (NbFailure now)
    let ?nb = "nb_step nb c"
    have "nb_recovery_timeout ?nb = nb_recovery_timeout nb" "nb_failures ?nb = int (Suc n)"
      "nb_failure_threshold ?nb = nb_failure_threshold nb"
      "nb_open_until ?nb \<noteq> 0 \<longleftrightarrow> nb_failure_threshold nb \<le> int (Suc n)"
      using NbFailure Cons.prems by (auto simp: nb_record_failure_def Let_def)
    with Cons.IH [of ?nb "Suc n"] Cons.prems NbFailure show ?thesis by simp
  qed
qed

subsection \<open>Properties\<close>

text \<open>
  in every state the core breaker can reach from its constructor, whatever the calls and
  their order, the recovery timer is set exactly when the breaker is not closed, a probe is in
  flight only while half open, and a closed breaker is strictly below its failure threshold.
\<close>

theorem cb_reachable_wf:
  assumes "0 < thr"
  shows "cb_wf (cb_run (circuit_breaker_init name thr rec) cs)"
  using assms by (intro cb_wf_run cb_wf_init) (simp_all add: circuit_breaker_init_def)

theorem cb_reachable_wf_witness:
  "(0::int) < 1 \<and>
   cb_wf (cb_run (circuit_breaker_init ''llm'' 1 60) [Failure 5, AskOpen 70, AskOpen 71])"
  using cb_reachable_wf [of 1 "''llm''" 60 "[Failure 5, AskOpen 70, AskOpen 71]"] by simp

text \<open>
  C1: once the core breaker has left the closed state, however it got there, at most one of any
  number of callers asking at any times is let through before an outcome is recorded: the
  half-open probe slot is never granted twice.
\<close>

theorem cb_single_probe:
  assumes "0 < thr" "cb_state (cb_run (circuit_breaker_init name thr rec) cs) \<noteq> CLOSED"
  shows "admitted (fst (ask_all is_open (cb_run (circuit_breaker_init name thr rec) cs) ts)) \<le> 1"
proof (rule cb.tripped_admits_one)
  show "cb_wf (cb_run (circuit_breaker_init name thr rec) cs)"
    using assms(1) by (intro cb_wf_run cb_wf_init) (simp_all add: circuit_breaker_init_def)
  show "cb_gate (cb_run (circuit_breaker_init name thr rec) cs) \<noteq> Admitting"
    using assms(2) by (auto simp: cb_gate_def split: circuit_state.splits)
qed

theorem cb_single_probe_witness:
  "admitted (fst (ask_all is_open
      (cb_run (circuit_breaker_init ''llm'' 1 60) [Failure 5]) [10, 70, 71, 72])) \<le> 1"
  by (rule cb_single_probe)
    (simp_all add: circuit_breaker_init_def record_failure_def)

text \<open>
  A failure that leaves the core breaker open makes every call of the following
  \<open>recovery_timeout\<close> seconds fail fast, however many callers ask: none is admitted and the
  breaker stays open.
\<close>

theorem cb_open_window:
  assumes "cb_wf cb" "cb_state (record_failure now cb) = OPEN"
    "\<forall>t \<in> set ts. t < now + of_int (recovery_timeout cb)"
  shows "admitted (fst (ask_all is_open (record_failure now cb) ts)) = 0 \<and>
         cb_state (snd (ask_all is_open (record_failure now cb) ts)) = OPEN"
proof -
  let ?cb = "record_failure now cb"
  have wf: "cb_wf ?cb" by (rule cb_wf_record_failure [OF assms(1)])
  have gate: "cb_gate ?cb = Waiting (now + of_int (recovery_timeout cb))"
    using assms(2) by (auto simp: cb_gate_def record_failure_def Let_def
      split: circuit_state.splits if_splits)
  from cb.waiting_rejects_all [OF wf gate assms(3)] show ?thesis
    by (auto simp: cb_gate_def split: circuit_state.splits)
qed

theorem cb_open_window_witness:
  "admitted (fst (ask_all is_open
      (record_failure 5 (circuit_breaker_init ''llm'' 1 60)) [6, 64])) = 0 \<and>
   cb_state (snd (ask_all is_open
      (record_failure 5 (circuit_breaker_init ''llm'' 1 60)) [6, 64])) = OPEN"
  by (rule cb_open_window)
    (simp_all add: cb_wf_def circuit_breaker_init_def record_failure_def)

text \<open>
  Failures trip the core breaker by their total number, not by a consecutive run. Over any
  sequence of recorded successes and failures from a new breaker, the breaker is open exactly
  when at least \<open>failure_threshold\<close> failures were recorded: a success recorded while closed
  resets nothing.
\<close>

theorem cb_trips_on_total_failures:
  assumes "0 < thr" "list_all is_outcome cs"
  shows "cb_state (cb_run (circuit_breaker_init name thr rec) cs) =
           (if int (failures cs) < thr then CLOSED else OPEN)"
  using outcomes_count [OF assms(2), of "circuit_breaker_init name thr rec"] assms(1)
  by (simp add: circuit_breaker_init_def)

theorem cb_trips_on_total_failures_witness:
  "cb_state (cb_run (circuit_breaker_init ''llm'' 2 60)
      [Failure 1, Success, Success, Success, Failure 9]) = OPEN"
  using cb_trips_on_total_failures
    [of 2 "[Failure 1, Success, Success, Success, Failure 9]" "''llm''" 60] by simp

text \<open>
  The NATS breaker counts consecutive failures. After any sequence of successes and failures
  (at clock readings not below 0) it is open exactly when the failures since the last success
  reach the threshold.
\<close>

theorem nb_opens_on_consecutive_failures:
  assumes "0 < thr" "0 < rec" "list_all nb_clock_ok cs"
  shows "nb_open_until (foldl nb_step (nats_breaker_init thr rec) cs) \<noteq> 0 \<longleftrightarrow>
           thr \<le> int (streak 0 cs)"
  using nb_streak_run [OF assms(3), of "nats_breaker_init thr rec" 0] assms(1,2)
  by (simp add: nats_breaker_init_def)

theorem nb_opens_on_consecutive_failures_witness:
  "nb_open_until (foldl nb_step (nats_breaker_init 2 60) [NbFailure 1, NbSuccess, NbFailure 9]) = 0"
  using nb_opens_on_consecutive_failures [of 2 60 "[NbFailure 1, NbSuccess, NbFailure 9]"] by simp

end
