(* ===== verification/Rate_Limiter.thy ===== *)
theory Rate_Limiter
  imports Prelude
begin

text \<open>
  The two sliding windows of the system: the hub's per-user limiter
  (core/hub/hub_rate_limit.py) and the pairing manager's limit on failed joins
  (infrastructure/stores/identity/pairing.py). Both keep one queue of timestamps per key, drop
  the expired front on access and append at the end; the locale \<open>window_log\<close> states that
  contract and proves, once, that the queue always holds exactly the events of the window.
\<close>

type_synonym 'k stamps = "'k \<rightharpoonup> time list"

text \<open>The loop \<open>while timestamps and timestamps[0] < window_start: popleft()\<close>.\<close>

definition pop_expired :: "time \<Rightarrow> time list \<Rightarrow> time list" where
  "pop_expired window_start ts = dropWhile (\<lambda>t. t < window_start) ts"

text \<open>Pruning one key, removing the entry when its queue empties.\<close>

definition prune_key :: "time \<Rightarrow> 'k \<Rightarrow> 'k stamps \<Rightarrow> 'k stamps" where
  "prune_key window_start key m =
     (case m key of
        None \<Rightarrow> m
      | Some ts \<Rightarrow>
          (let ts' = pop_expired window_start ts
           in if ts' = [] then m(key := None) else m(key \<mapsto> ts')))"

definition append_key :: "time \<Rightarrow> 'k \<Rightarrow> 'k stamps \<Rightarrow> 'k stamps" where
  "append_key now key m = m(key \<mapsto> (case m key of None \<Rightarrow> [] | Some ts \<Rightarrow> ts) @ [now])"

definition hits :: "'k stamps \<Rightarrow> 'k \<Rightarrow> time list" where
  "hits m key = (case m key of None \<Rightarrow> [] | Some ts \<Rightarrow> ts)"

subsection \<open>The window contract\<close>

datatype 'k window_event = Look time 'k | Hit time 'k

fun event_time :: "'k window_event \<Rightarrow> time" where
  "event_time (Look t _) = t"
| "event_time (Hit t _) = t"

fun hit_log :: "'k \<Rightarrow> 'k window_event list \<Rightarrow> time list" where
  "hit_log k [] = []"
| "hit_log k (Look _ _ # es) = hit_log k es"
| "hit_log k (Hit t k' # es) = (if k' = k then t # hit_log k es else hit_log k es)"

lemma hit_log_append: "hit_log k (xs @ ys) = hit_log k xs @ hit_log k ys"
  by (induction k xs rule: hit_log.induct) auto

lemma set_hit_log: "t \<in> set (hit_log k es) \<Longrightarrow> t \<in> event_time ` set es"
  by (induction k es rule: hit_log.induct) (auto split: if_splits)

lemma sorted_hit_log: "sorted (map event_time es) \<Longrightarrow> sorted (hit_log k es)"
  by (induction k es rule: hit_log.induct) (auto dest: set_hit_log)

lemma dropWhile_filter_sorted:
  "sorted ts \<Longrightarrow> dropWhile (\<lambda>t. t < (c::time)) ts = filter (\<lambda>t. c \<le> t) ts"
proof (induction ts)
  case Nil
  then show ?case by simp
next
  case (Cons x xs)
  show ?case
  proof (cases "x < c")
    case True
    with Cons show ?thesis by simp
  next
    case False
    with Cons.prems have "\<forall>t \<in> set (x # xs). c \<le> t" by auto
    then have "filter (\<lambda>t. c \<le> t) (x # xs) = x # xs" by (rule filter_True)
    with False show ?thesis by simp
  qed
qed

locale window_log =
  fixes look :: "time \<Rightarrow> 'k \<Rightarrow> 's \<Rightarrow> 's"
    and hit :: "time \<Rightarrow> 'k \<Rightarrow> 's \<Rightarrow> 's"
    and entries :: "'s \<Rightarrow> 'k \<Rightarrow> time list"
    and window :: time
  assumes window_nonneg: "0 \<le> window"
    and look_entries: "entries (look now k s) k' =
            (if k' = k then dropWhile (\<lambda>t. t < now - window) (entries s k) else entries s k')"
    and hit_entries: "entries (hit now k s) k' =
            (if k' = k then entries s k @ [now] else entries s k')"
begin

fun step :: "'s \<Rightarrow> 'k window_event \<Rightarrow> 's" where
  "step s (Look t k) = look t k s"
| "step s (Hit t k) = hit t k s"

definition run :: "'s \<Rightarrow> 'k window_event list \<Rightarrow> 's" where
  "run s es = foldl step s es"

definition kept :: "time \<Rightarrow> time list \<Rightarrow> time list" where
  "kept c ts = filter (\<lambda>t. c \<le> t) ts"

lemma run_snoc: "run s (es @ [e]) = step (run s es) e"
  by (simp add: run_def)

lemma kept_kept: "c \<le> c' \<Longrightarrow> kept c' (kept c ts) = kept c' ts"
  unfolding kept_def filter_filter by (rule filter_cong) auto

lemma entries_run:
  assumes "\<And>k. entries s0 k = []" "sorted (map event_time es)" "\<forall>e \<in> set es. event_time e \<le> now"
  shows "\<exists>c. c \<le> now - window \<and> entries (run s0 es) k = kept c (hit_log k es)"
  using assms(2,3)
proof (induction es arbitrary: now rule: rev_induct)
  case Nil
  show ?case by (rule exI [of _ "now - window"]) (simp add: run_def assms(1) kept_def)
next
  case (snoc e es)
  have le: "\<forall>x \<in> set es. event_time x \<le> event_time e" and srt: "sorted (map event_time es)"
    using snoc.prems(1) by (auto simp: sorted_append)
  from snoc.IH [OF srt le] obtain c where
    c: "c \<le> event_time e - window" "entries (run s0 es) k = kept c (hit_log k es)" by blast
  have now: "event_time e \<le> now" using snoc.prems(2) by simp
  show ?case
  proof (cases e)
    case (Look t k')
    show ?thesis
    proof (cases "k = k'")
      case True
      have "dropWhile (\<lambda>x. x < t - window) (kept c (hit_log k es)) =
          kept (t - window) (kept c (hit_log k es))"
        unfolding kept_def
        by (intro dropWhile_filter_sorted sorted_wrt_filter sorted_hit_log srt)
      with Look True c kept_kept [of c "t - window"] now show ?thesis
        by (intro exI [of _ "t - window"]) (simp add: run_snoc look_entries hit_log_append)
    next
      case False
      with Look c now show ?thesis
        by (intro exI [of _ c]) (simp add: run_snoc look_entries hit_log_append)
    qed
  next
    case (Hit t k')
    show ?thesis
    proof (cases "k = k'")
      case True
      have "c \<le> t" using c(1) Hit window_nonneg by simp
      with Hit True c now show ?thesis
        by (intro exI [of _ c]) (simp add: run_snoc hit_entries hit_log_append kept_def)
    next
      case False
      with Hit c now show ?thesis
        by (intro exI [of _ c]) (simp add: run_snoc hit_entries hit_log_append)
    qed
  qed
qed

lemma entries_after_look:
  assumes "\<And>k. entries s0 k = []" "sorted (map event_time es)" "\<forall>e \<in> set es. event_time e \<le> now"
  shows "entries (look now k (run s0 es)) k = kept (now - window) (hit_log k es)"
proof -
  from entries_run [OF assms, of k] obtain c where
    c: "c \<le> now - window" "entries (run s0 es) k = kept c (hit_log k es)" by blast
  have "dropWhile (\<lambda>x. x < now - window) (kept c (hit_log k es)) =
      kept (now - window) (kept c (hit_log k es))"
    unfolding kept_def
    by (intro dropWhile_filter_sorted sorted_wrt_filter sorted_hit_log assms(2))
  with c kept_kept [OF c(1)] show ?thesis by (simp add: look_entries)
qed

end

lemma hits_prune:
  "hits (prune_key ws k m) k' =
     (if k' = k then dropWhile (\<lambda>t. t < ws) (hits m k) else hits m k')"
  by (auto simp: hits_def prune_key_def pop_expired_def Let_def dropWhile_eq_Nil_conv [symmetric]
      simp del: dropWhile_eq_Nil_conv split: option.splits)

lemma hits_append:
  "hits (append_key now k m) k' = (if k' = k then hits m k @ [now] else hits m k')"
  by (auto simp: hits_def append_key_def split: option.splits)

interpretation stamps: window_log "\<lambda>now. prune_key (now - of_nat w)" append_key hits "of_nat w"
  for w :: nat
  by unfold_locales (simp_all add: hits_prune hits_append)

subsection \<open>The hub's limiter\<close>

record rate_limiter =
  rl_limit :: int
  rl_window :: int
  rl_timestamps :: "(string \<times> string \<times> string) stamps"

definition rate_limiter_init :: "int \<Rightarrow> int \<Rightarrow> rate_limiter" where
  "rate_limiter_init limit window =
     \<lparr>rl_limit = limit, rl_window = window, rl_timestamps = Map.empty\<rparr>"

definition is_limited_by_key ::
    "time \<Rightarrow> string \<times> string \<times> string \<Rightarrow> rate_limiter \<Rightarrow> bool \<times> rate_limiter" where
  "is_limited_by_key now key rl =
     (let m = prune_key (now - of_int (rl_window rl)) key (rl_timestamps rl)
      in case m key of
           Some ts \<Rightarrow>
             (if rl_limit rl \<le> int (length ts) then (True, rl\<lparr>rl_timestamps := m\<rparr>)
              else (False, rl\<lparr>rl_timestamps := append_key now key m\<rparr>))
         | None \<Rightarrow> (False, rl\<lparr>rl_timestamps := append_key now key m\<rparr>))"

text \<open>\<open>is_limited\<close> keys on the message's (platform, bot, user), never on its scope.\<close>

definition is_limited ::
    "time \<Rightarrow> string \<Rightarrow> string \<Rightarrow> string \<Rightarrow> rate_limiter \<Rightarrow> bool \<times> rate_limiter" where
  "is_limited now platform bot_id user_id rl = is_limited_by_key now (platform, bot_id, user_id) rl"

fun rl_run :: "rate_limiter \<Rightarrow> (time \<times> string \<times> string \<times> string) list \<Rightarrow> bool list \<times> rate_limiter" where
  "rl_run rl [] = ([], rl)"
| "rl_run rl ((now, key) # cs) =
     (let (r, rl1) = is_limited_by_key now key rl; (rs, rl2) = rl_run rl1 cs in (r # rs, rl2))"

subsection \<open>The pairing manager's limiter\<close>

definition check_rate_limit :: "int \<Rightarrow> int \<Rightarrow> time \<Rightarrow> string \<Rightarrow> string stamps \<Rightarrow> bool \<times> string stamps" where
  "check_rate_limit window attempts now identity m =
     (case m identity of
        None \<Rightarrow> (True, m)
      | Some ts \<Rightarrow>
          (let ts' = pop_expired (now - of_int window) ts
           in if ts' = [] then (True, m(identity := None))
              else if attempts \<le> int (length ts') then (False, m(identity \<mapsto> ts'))
              else (True, m(identity \<mapsto> ts'))))"

definition record_failed_attempt :: "time \<Rightarrow> string \<Rightarrow> string stamps \<Rightarrow> string stamps" where
  "record_failed_attempt now identity m =
     (let m' = (if m identity = None then m(identity \<mapsto> []) else m)
      in m'(identity \<mapsto> the (m' identity) @ [now]))"

lemma check_rate_limit_state:
  "snd (check_rate_limit window attempts now k m) = prune_key (now - of_int window) k m"
  by (auto simp: check_rate_limit_def prune_key_def Let_def split: option.splits)

lemma check_rate_limit_result:
  "fst (check_rate_limit window attempts now k m) \<longleftrightarrow>
     (let n = length (hits (prune_key (now - of_int window) k m) k)
      in n = 0 \<or> int n < attempts)"
  by (auto simp: check_rate_limit_def prune_key_def hits_def Let_def split: option.splits)

lemma record_failed_attempt_append: "record_failed_attempt now k m = append_key now k m"
  by (auto simp: record_failed_attempt_def append_key_def split: option.splits)

lemma is_limited_by_key_result:
  "fst (is_limited_by_key now k rl) \<longleftrightarrow>
     (let n = length (hits (prune_key (now - of_int (rl_window rl)) k (rl_timestamps rl)) k)
      in n \<noteq> 0 \<and> rl_limit rl \<le> int n)"
  by (auto simp: is_limited_by_key_def prune_key_def hits_def Let_def split: option.splits)

lemma is_limited_by_key_state:
  "rl_timestamps (snd (is_limited_by_key now k rl)) =
     (let m = prune_key (now - of_int (rl_window rl)) k (rl_timestamps rl)
      in if fst (is_limited_by_key now k rl) then m else append_key now k m)"
  by (auto simp: is_limited_by_key_def Let_def split: option.splits)

lemma is_limited_by_key_frame [simp]:
  "rl_window (snd (is_limited_by_key now k rl)) = rl_window rl"
  "rl_limit (snd (is_limited_by_key now k rl)) = rl_limit rl"
  by (auto simp: is_limited_by_key_def Let_def split: option.splits)

subsection \<open>The reference limiter: full history, nothing pruned\<close>

definition in_window :: "time \<Rightarrow> int \<Rightarrow> time list \<Rightarrow> nat" where
  "in_window now window ts = length (filter (\<lambda>t. now - of_int window \<le> t) ts)"

fun ref_run ::
    "int \<Rightarrow> int \<Rightarrow> ('k \<Rightarrow> time list) \<Rightarrow> (time \<times> 'k) list \<Rightarrow> bool list \<times> ('k \<Rightarrow> time list)" where
  "ref_run limit window hist [] = ([], hist)"
| "ref_run limit window hist ((now, key) # cs) =
     (let n = in_window now window (hist key);
          limited = (n \<noteq> 0 \<and> limit \<le> int n);
          (rs, hist') = ref_run limit window
             (if limited then hist else hist(key := hist key @ [now])) cs
      in (limited # rs, hist'))"

definition admitted_times :: "'k \<Rightarrow> (time \<times> 'k) list \<Rightarrow> bool list \<Rightarrow> time list" where
  "admitted_times k calls rs =
     map (fst \<circ> fst) (filter (\<lambda>((t, k'), r). k' = k \<and> \<not> r) (zip calls rs))"

fun stamps_step :: "int \<Rightarrow> 'k stamps \<Rightarrow> 'k window_event \<Rightarrow> 'k stamps" where
  "stamps_step window m (Look t k) = prune_key (t - of_int window) k m"
| "stamps_step window m (Hit t k) = append_key t k m"

definition stamps_run :: "int \<Rightarrow> 'k window_event list \<Rightarrow> 'k stamps" where
  "stamps_run window es = foldl (stamps_step window) Map.empty es"

lemma stamps_run_simps [simp]:
  "stamps_run w [] = Map.empty"
  "stamps_run w (es @ [e]) = stamps_step w (stamps_run w es) e"
  by (simp_all add: stamps_run_def)

lemma stamps_run_eq:
  assumes "0 \<le> w"
  shows "stamps_run w es =
    window_log.run (\<lambda>now. prune_key (now - of_nat (nat w))) append_key Map.empty es"
proof (induction es rule: rev_induct)
  case Nil
  then show ?case by (simp add: stamps.run_def)
next
  case (snoc e es)
  with assms show ?case by (cases e) (simp_all only: stamps.run_snoc stamps_run_simps
    stamps_step.simps stamps.step.simps, simp_all)
qed

lemma hits_empty [simp]: "hits (\<lambda>_. None) k = []"
  by (simp add: hits_def)

lemma length_kept [simp]:
  "0 \<le> w \<Longrightarrow> length (stamps.kept (now - of_int w) ts) = in_window now w ts"
  by (simp add: stamps.kept_def in_window_def)

lemma hits_after_prune:
  assumes "0 \<le> window" "sorted (map event_time es)" "\<forall>e \<in> set es. event_time e \<le> now"
  shows "length (hits (prune_key (now - of_int window) k (stamps_run window es)) k) =
           in_window now window (hit_log k es)"
  using stamps.entries_after_look [of Map.empty es now "nat window" k] assms
  by (simp add: stamps_run_eq)

lemma rl_run_refines:
  assumes "0 \<le> rl_window rl" "rl_timestamps rl = stamps_run (rl_window rl) es"
    "sorted (map event_time es @ map fst calls)"
    "\<And>k. hist k = hit_log k es"
  shows "fst (rl_run rl calls) = fst (ref_run (rl_limit rl) (rl_window rl) hist calls)"
  using assms
proof (induction calls arbitrary: rl es hist)
  case Nil
  then show ?case by simp
next
  case (Cons c calls)
  obtain now k where c: "c = (now, k)" by (cases c)
  let ?W = "rl_window rl" and ?r = "fst (is_limited_by_key now k rl)"
  let ?rl = "snd (is_limited_by_key now k rl)"
  let ?es = "es @ [Look now k] @ (if ?r then [] else [Hit now k])"
  let ?hist = "if ?r then hist else hist(k := hist k @ [now])"
  have le: "\<forall>e \<in> set es. event_time e \<le> now" and srt: "sorted (map event_time es)"
    using Cons.prems(3) c by (auto simp: sorted_append)
  have r: "?r \<longleftrightarrow> in_window now ?W (hist k) \<noteq> 0 \<and> rl_limit rl \<le> int (in_window now ?W (hist k))"
    using hits_after_prune [OF Cons.prems(1) srt le, of k] Cons.prems(2,4)
    by (simp add: is_limited_by_key_result Let_def)
  have m: "rl_timestamps ?rl = stamps_run (rl_window ?rl) ?es"
  proof (cases ?r)
    case True
    with Cons.prems(1,2) show ?thesis
      by (simp add: is_limited_by_key_state)
  next
    case False
    then have "?es = (es @ [Look now k]) @ [Hit now k]" by simp
    with False Cons.prems(1,2) show ?thesis
      by (simp only: stamps_run_simps is_limited_by_key_frame)
         (simp add: is_limited_by_key_state Let_def)
  qed
  have s: "sorted (map event_time ?es @ map fst calls)"
    using Cons.prems(3) c by (auto simp: sorted_append)
  have h: "\<And>k'. ?hist k' = hit_log k' ?es"
    using Cons.prems(4) by (simp add: hit_log_append)
  have w: "0 \<le> rl_window ?rl" using Cons.prems(1) by simp
  have "fst (rl_run ?rl calls) = fst (ref_run (rl_limit rl) ?W ?hist calls)"
    using Cons.IH [OF w m s h] by (simp only: is_limited_by_key_frame)
  with c r show ?case by (simp add: Let_def split_beta)
qed

lemma ref_run_length: "length (fst (ref_run limit window hist calls)) = length calls"
  by (induction calls arbitrary: hist) (auto simp: Let_def split_beta)

lemma ref_run_log:
  "snd (ref_run limit window hist calls) k =
     hist k @ admitted_times k calls (fst (ref_run limit window hist calls))"
proof (induction calls arbitrary: hist)
  case Nil
  then show ?case by (simp add: admitted_times_def)
next
  case (Cons c calls)
  then show ?case by (cases c) (simp add: Let_def split_beta admitted_times_def)
qed

text \<open>At most \<open>max 1 limit\<close> events in any window of the given width.\<close>

definition window_bounded :: "int \<Rightarrow> int \<Rightarrow> time list \<Rightarrow> bool" where
  "window_bounded limit window ts \<longleftrightarrow>
     (\<forall>t. int (length (filter (\<lambda>s. t - of_int window \<le> s \<and> s \<le> t) ts)) \<le> max 1 limit)"

lemma window_bounded_snoc:
  assumes "window_bounded limit window ts" "\<forall>s \<in> set ts. s \<le> now"
    "int (in_window now window ts) < limit \<or> in_window now window ts = 0"
  shows "window_bounded limit window (ts @ [now])"
  unfolding window_bounded_def
proof
  fix t
  let ?f = "\<lambda>s::time. t - of_int window \<le> s \<and> s \<le> t"
  show "int (length (filter ?f (ts @ [now]))) \<le> max 1 limit"
  proof (cases "?f now")
    case False
    then show ?thesis using assms(1) by (auto simp: window_bounded_def)
  next
    case True
    have "length (filter ?f ts) \<le> in_window now window ts"
      unfolding in_window_def
      using True by (induction ts) (auto intro: le_SucI)
    then show ?thesis using True assms(3) by auto
  qed
qed

lemma ref_run_bounded:
  assumes "\<And>k. window_bounded limit window (hist k)"
    "\<And>k. \<forall>s \<in> set (hist k). \<forall>c \<in> set calls. s \<le> fst c" "sorted (map fst calls)"
  shows "window_bounded limit window (snd (ref_run limit window hist calls) k)"
  using assms
proof (induction calls arbitrary: hist)
  case Nil
  then show ?case by simp
next
  case (Cons c calls)
  obtain now k' where c: "c = (now, k')" by (cases c)
  let ?n = "in_window now window (hist k')"
  let ?lim = "?n \<noteq> 0 \<and> limit \<le> int ?n"
  let ?hist = "if ?lim then hist else hist(k' := hist k' @ [now])"
  have "\<And>j. window_bounded limit window (?hist j)"
    using Cons.prems(1,2) c window_bounded_snoc [of limit window "hist k'" now] by auto
  moreover have "\<And>j. \<forall>s \<in> set (?hist j). \<forall>c \<in> set calls. s \<le> fst c"
    using Cons.prems(2,3) c by auto
  ultimately have "window_bounded limit window (snd (ref_run limit window ?hist calls) k)"
    using Cons.IH [of ?hist] Cons.prems(3) by simp
  with c show ?case by (simp add: Let_def split_beta)
qed

subsection \<open>Properties\<close>

lemma rl_run_init:
  "0 \<le> window \<Longrightarrow> sorted (map fst calls) \<Longrightarrow>
     fst (rl_run (rate_limiter_init limit window) calls) =
     fst (ref_run limit window (\<lambda>_. []) calls)"
  using rl_run_refines [of "rate_limiter_init limit window" "[]" calls "\<lambda>_. []"]
  by (simp add: rate_limiter_init_def)

text \<open>
  C2: the hub's limiter, which prunes its queues and drops empty entries, decides every call of
  any history of calls in clock order exactly as the reference limiter that keeps every admitted
  call: a call is limited when at least \<open>limit\<close> (and at least one) of the same user's
  admitted calls lie in the window before it. In particular other users' calls never count.
\<close>

theorem rate_limiter_refines_history:
  assumes "0 \<le> window" "sorted (map fst calls)"
  shows "fst (rl_run (rate_limiter_init limit window) calls) =
         fst (ref_run limit window (\<lambda>_. []) calls)"
  using assms by (rule rl_run_init)

theorem rate_limiter_refines_history_witness:
  "let u = (''telegram'', ''b'', ''u1''); v = (''telegram'', ''b'', ''u2'')
   in fst (rl_run (rate_limiter_init 2 60) [(0, u), (1, u), (2, v), (3, u), (70, u)]) =
        [False, False, False, True, False]"
  unfolding Let_def
  by (subst rate_limiter_refines_history) (simp_all add: in_window_def)

text \<open>
  whatever the traffic, no window of \<open>window\<close> seconds ever holds more than
  \<open>max 1 limit\<close> admitted messages of one user.
\<close>

theorem rate_limiter_window_bound:
  assumes "0 \<le> window" "sorted (map fst calls)"
  shows "window_bounded limit window
           (admitted_times k calls (fst (rl_run (rate_limiter_init limit window) calls)))"
  using ref_run_bounded [of limit window "\<lambda>_. []" calls k] assms(2)
    ref_run_log [of limit window "\<lambda>_. []" calls k]
  by (simp add: rl_run_init [OF assms] window_bounded_def [of limit window "[]"])

theorem rate_limiter_window_bound_witness:
  "let u = (''telegram'', ''b'', ''u1'')
   in window_bounded 1 60 (admitted_times u [(0, u), (1, u)]
        (fst (rl_run (rate_limiter_init 1 60) [(0, u), (1, u)])))"
  unfolding Let_def by (rule rate_limiter_window_bound) simp_all

fun pairing_step :: "int \<Rightarrow> string stamps \<Rightarrow> string window_event \<Rightarrow> string stamps" where
  "pairing_step window m (Look t k) = snd (check_rate_limit window 1 t k m)"
| "pairing_step window m (Hit t k) = record_failed_attempt t k m"

text \<open>
  The pairing limiter refuses a join exactly when the failures recorded for that identity in
  the last window reach the configured number of attempts: for every sequence of checks and
  recorded failures in clock order, of any identities.
\<close>

theorem pairing_limit_counts_window:
  assumes "0 \<le> window" "sorted (map event_time es)" "\<forall>e \<in> set es. event_time e \<le> now"
  shows "fst (check_rate_limit window attempts now k (foldl (pairing_step window) Map.empty es)) \<longleftrightarrow>
           (let n = in_window now window (hit_log k es) in n = 0 \<or> int n < attempts)"
proof -
  have step: "pairing_step window = stamps_step window"
  proof (rule ext, rule ext)
    fix m e
    show "pairing_step window m e = stamps_step window m e"
      by (cases e) (simp_all add: check_rate_limit_state record_failed_attempt_append)
  qed
  show ?thesis
    using hits_after_prune [OF assms, of k]
    by (simp add: check_rate_limit_result step stamps_run_def)
qed

theorem pairing_limit_counts_window_witness:
  "\<not> fst (check_rate_limit 300 2 20 ''tg:user:1''
      (foldl (pairing_step 300) Map.empty [Hit 0 ''tg:user:1'', Hit 10 ''tg:user:1'']))"
  by (subst pairing_limit_counts_window) (simp_all add: in_window_def)

end
