(* ===== verification/User_Store.thy ===== *)
theory User_Store
  imports Prelude
begin

text \<open>
  Platform keys (core/auth/platform_keys.py) and the canonical user registry
  (infrastructure/stores/identity/user_store.py, user_store_profile.py), with the link
  challenges of identity_alias_store.py.

  The two SQLite tables are association lists keyed by their primary keys, \<open>INSERT\<close>
  fails on a primary-key or unique violation; the two caches are maps beside them. A generated
  identifier (\<open>uuid4\<close>) is an argument \<open>fresh\<close> of the operation that draws it. The
  columns \<open>created_at\<close> and \<open>linked_at\<close>, which nothing computes with, are left out.
\<close>

subsection \<open>Platform keys\<close>

datatype user_error =
    InvalidPlatformKey string
  | UnknownPlatform string
  | EmptyField string
  | EmailTaken
  | UserNotFound string
  | AlreadyLinked string
  | IntegrityError

definition user_id_prefix :: string where
  "user_id_prefix = ''rx:user:''"

definition platform_prefixes :: "(string \<times> string) list" where
  "platform_prefixes =
     [(''tg:user:'', ''telegram''), (''dc:user:'', ''discord''), (''matrix:user:'', ''matrix'')]"

fun parse_with :: "(string \<times> string) list \<Rightarrow> string \<Rightarrow> (string \<times> string \<times> string) option" where
  "parse_with [] key = None"
| "parse_with ((pre, platform) # ps) key =
     (if startswith pre key \<and> drop (length pre) key \<noteq> []
      then Some (platform, drop (length pre) key, key)
      else parse_with ps key)"

definition parse_platform_key :: "string \<Rightarrow> (string \<times> string \<times> string) option" where
  "parse_platform_key key = parse_with platform_prefixes key"

definition format_platform_key :: "string \<Rightarrow> string \<Rightarrow> user_error + string" where
  "format_platform_key platform uid =
     (case find (\<lambda>(p, name). name = platform) platform_prefixes of
        None \<Rightarrow> Inl (UnknownPlatform platform)
      | Some (p, _) \<Rightarrow> Inr (p @ uid))"

definition is_platform_key :: "string \<Rightarrow> bool" where
  "is_platform_key key \<longleftrightarrow> parse_platform_key key \<noteq> None"

definition is_user_id :: "string \<Rightarrow> bool" where
  "is_user_id key \<longleftrightarrow> startswith user_id_prefix key \<and> length user_id_prefix < length key"

lemma parse_with_key: "parse_with ps key = Some (platform, uid, k) \<Longrightarrow> k = key \<and> uid \<noteq> []"
  by (induction ps key rule: parse_with.induct) (auto split: if_splits)

lemma parse_key_eq: "parse_platform_key key = Some (platform, uid, k) \<Longrightarrow> k = key \<and> uid \<noteq> []"
  unfolding parse_platform_key_def by (rule parse_with_key)

lemma format_cases:
  assumes "format_platform_key platform uid = Inr key"
  obtains "platform = ''telegram''" "key = ''tg:user:'' @ uid"
  | "platform = ''discord''" "key = ''dc:user:'' @ uid"
  | "platform = ''matrix''" "key = ''matrix:user:'' @ uid"
proof -
  have "(platform = ''telegram'' \<and> key = ''tg:user:'' @ uid) \<or>
        (platform = ''discord'' \<and> key = ''dc:user:'' @ uid) \<or>
        (platform = ''matrix'' \<and> key = ''matrix:user:'' @ uid)"
    using assms
    by (cases "''telegram'' = platform"; cases "''discord'' = platform";
        cases "''matrix'' = platform")
       (simp_all add: format_platform_key_def platform_prefixes_def)
  with that show ?thesis by blast
qed

lemma format_parse:
  assumes "format_platform_key platform uid = Inr key" "uid \<noteq> []"
  shows "parse_platform_key key = Some (platform, uid, key)"
  using assms(1)
  by (rule format_cases)
     (simp_all add: parse_platform_key_def platform_prefixes_def startswith_def assms(2))

lemma parse_with_prefix:
  "parse_with ps key = Some (platform, uid, k) \<Longrightarrow>
     \<exists>pre. (pre, platform) \<in> set ps \<and> key = pre @ uid"
  by (induction ps key rule: parse_with.induct)
     (auto simp: startswith_iff split: if_split_asm)

lemma parse_format:
  assumes "parse_platform_key key = Some (platform, uid, k)"
  shows "format_platform_key platform uid = Inr key"
proof -
  obtain pre where "(pre, platform) \<in> set platform_prefixes" and key: "key = pre @ uid"
    using assms parse_with_prefix by (fastforce simp: parse_platform_key_def)
  then consider "pre = ''tg:user:''" "platform = ''telegram''"
    | "pre = ''dc:user:''" "platform = ''discord''" | "pre = ''matrix:user:''" "platform = ''matrix''"
    by (simp add: platform_prefixes_def) blast
  then show ?thesis
    by cases (simp_all add: key format_platform_key_def platform_prefixes_def)
qed

lemma parse_unique:
  assumes "parse_platform_key k = Some (p, u, k)" "parse_platform_key k' = Some (p, u, k')"
  shows "k = k'"
  using parse_format [OF assms(1)] parse_format [OF assms(2)] by simp

lemma user_id_not_platform_key: "is_user_id key \<Longrightarrow> \<not> is_platform_key key"
proof -
  assume "is_user_id key"
  then obtain r where "key = ''rx:user:'' @ r"
    by (auto simp: is_user_id_def user_id_prefix_def startswith_iff)
  then show ?thesis
    by (simp add: is_platform_key_def parse_platform_key_def platform_prefixes_def startswith_def)
qed

subsection \<open>State\<close>

record user_row =
  ur_name :: "string option"
  ur_email :: "string option"

record platform_identity =
  pi_platform :: string
  pi_uid :: string
  pi_user :: string

type_synonym ident_table = "(string, platform_identity) dict"

record user_store =
  us_users :: "(string, user_row) dict"
  us_idents :: ident_table
  us_key_to_user :: "string \<rightharpoonup> string"
  us_user_to_keys :: "string \<rightharpoonup> string set"

definition user_store_init :: user_store where
  "user_store_init = \<lparr>us_users = [], us_idents = [], us_key_to_user = Map.empty,
                      us_user_to_keys = Map.empty\<rparr>"

text \<open>\<open>_user_to_keys.setdefault(user, set()).add(key)\<close>.\<close>

definition add_key :: "string \<Rightarrow> string \<Rightarrow> (string \<rightharpoonup> string set) \<Rightarrow> (string \<rightharpoonup> string set)" where
  "add_key u k m = m(u \<mapsto> insert k (case m u of None \<Rightarrow> {} | Some s \<Rightarrow> s))"

text \<open>\<open>_user_to_keys.get(user, set()).discard(key)\<close>: without an entry the default is thrown away.\<close>

definition discard_key :: "string \<Rightarrow> string \<Rightarrow> (string \<rightharpoonup> string set) \<Rightarrow> (string \<rightharpoonup> string set)" where
  "discard_key u k m = (case m u of None \<Rightarrow> m | Some s \<Rightarrow> m(u \<mapsto> s - {k}))"

definition cache_row :: "user_store \<Rightarrow> string \<times> platform_identity \<Rightarrow> user_store" where
  "cache_row st kr =
     (let (k, r) = kr
      in st\<lparr>us_key_to_user := (us_key_to_user st)(k \<mapsto> pi_user r),
            us_user_to_keys := add_key (pi_user r) k (us_user_to_keys st)\<rparr>)"

definition warm_cache :: "user_store \<Rightarrow> user_store" where
  "warm_cache st =
     foldl cache_row (st\<lparr>us_key_to_user := Map.empty, us_user_to_keys := Map.empty\<rparr>) (us_idents st)"

subsection \<open>Synchronous resolution, from the caches\<close>

definition resolve_user_id :: "user_store \<Rightarrow> string \<Rightarrow> string option" where
  "resolve_user_id st platform_key = us_key_to_user st platform_key"

definition resolve_platform_keys :: "user_store \<Rightarrow> string \<Rightarrow> string set" where
  "resolve_platform_keys st user_id =
     (case us_user_to_keys st user_id of None \<Rightarrow> {} | Some s \<Rightarrow> s)"

definition resolve_aliases :: "user_store \<Rightarrow> string \<Rightarrow> string set" where
  "resolve_aliases st platform_key =
     (case us_key_to_user st platform_key of
        None \<Rightarrow> {platform_key}
      | Some u \<Rightarrow>
          (case us_user_to_keys st u of None \<Rightarrow> {platform_key} | Some s \<Rightarrow> s) \<union> {platform_key})"

subsection \<open>Rows\<close>

definition insert_user_row :: "string \<Rightarrow> user_row \<Rightarrow> user_store \<Rightarrow> user_store option" where
  "insert_user_row uid row st =
     (if map_of (us_users st) uid \<noteq> None \<or>
         (ur_email row \<noteq> None \<and> list_ex (\<lambda>(_, r). ur_email r = ur_email row) (us_users st))
      then None
      else Some (st\<lparr>us_users := us_users st @ [(uid, row)]\<rparr>))"

definition insert_ident_row :: "string \<Rightarrow> platform_identity \<Rightarrow> user_store \<Rightarrow> user_store option" where
  "insert_ident_row key row st =
     (if map_of (us_idents st) key \<noteq> None \<or>
         list_ex (\<lambda>(_, r). pi_platform r = pi_platform row \<and> pi_uid r = pi_uid row) (us_idents st)
      then None
      else Some (st\<lparr>us_idents := us_idents st @ [(key, row)]\<rparr>))"

definition reassign_user :: "string \<Rightarrow> string \<Rightarrow> ident_table \<Rightarrow> ident_table" where
  "reassign_user keep_id drop_id =
     map (\<lambda>(k, r). (k, if pi_user r = drop_id then r\<lparr>pi_user := keep_id\<rparr> else r))"

definition reassign_key :: "string \<Rightarrow> string \<Rightarrow> ident_table \<Rightarrow> ident_table" where
  "reassign_key user_id key =
     map (\<lambda>(k, r). (k, if k = key then r\<lparr>pi_user := user_id\<rparr> else r))"

definition move_keys :: "string set \<Rightarrow> string \<Rightarrow> (string \<rightharpoonup> string) \<Rightarrow> (string \<rightharpoonup> string)" where
  "move_keys moved keep_id m = (\<lambda>k. if k \<in> moved then Some keep_id else m k)"

subsection \<open>Mutations\<close>

definition ensure_user ::
    "string \<Rightarrow> string \<Rightarrow> string option \<Rightarrow> user_store \<Rightarrow> (user_error + string) \<times> user_store" where
  "ensure_user fresh platform_key display_name st =
     (case parse_platform_key platform_key of
        None \<Rightarrow> (Inl (InvalidPlatformKey platform_key), st)
      | Some (platform, uid, key) \<Rightarrow>
          (case us_key_to_user st key of
             Some existing \<Rightarrow> (Inr existing, st)
           | None \<Rightarrow>
               (case insert_user_row fresh \<lparr>ur_name = display_name, ur_email = None\<rparr> st of
                  None \<Rightarrow> (Inl IntegrityError, st)
                | Some st1 \<Rightarrow>
                    (case insert_ident_row key
                            \<lparr>pi_platform = platform, pi_uid = uid, pi_user = fresh\<rparr> st1 of
                       None \<Rightarrow> (Inl IntegrityError, st1)
                     | Some st2 \<Rightarrow>
                         (Inr fresh,
                          st2\<lparr>us_key_to_user := (us_key_to_user st2)(key \<mapsto> fresh),
                              us_user_to_keys := add_key fresh key (us_user_to_keys st2)\<rparr>)))))"

definition merge_users :: "string \<Rightarrow> string \<Rightarrow> user_store \<Rightarrow> user_store" where
  "merge_users keep_id drop_id st =
     (let moved = resolve_platform_keys st drop_id;
          m = (us_user_to_keys st)(drop_id := None);
          target = (case m keep_id of None \<Rightarrow> {} | Some s \<Rightarrow> s)
      in st\<lparr>us_idents := reassign_user keep_id drop_id (us_idents st),
            us_users := AList.delete drop_id (us_users st),
            us_key_to_user := move_keys moved keep_id (us_key_to_user st),
            us_user_to_keys := m(keep_id \<mapsto> target \<union> moved)\<rparr>)"

definition link_platform_keys ::
    "string \<Rightarrow> string \<Rightarrow> string \<Rightarrow> string \<Rightarrow> user_store \<Rightarrow> (user_error + string) \<times> user_store" where
  "link_platform_keys fresh1 fresh2 primary_key secondary_key st =
     (if primary_key = secondary_key then ensure_user fresh1 primary_key None st
      else
        (case ensure_user fresh1 primary_key None st of
           (Inl e, st1) \<Rightarrow> (Inl e, st1)
         | (Inr primary_user, st1) \<Rightarrow>
             (case ensure_user fresh2 secondary_key None st1 of
                (Inl e, st2) \<Rightarrow> (Inl e, st2)
              | (Inr secondary_user, st2) \<Rightarrow>
                  (if primary_user = secondary_user then (Inr primary_user, st2)
                   else (Inr primary_user, merge_users primary_user secondary_user st2)))))"

definition unlink_platform_key ::
    "string \<Rightarrow> string \<Rightarrow> user_store \<Rightarrow> (user_error + bool) \<times> user_store" where
  "unlink_platform_key fresh platform_key st =
     (case parse_platform_key platform_key of
        None \<Rightarrow> (Inr False, st)
      | Some (_, _, key) \<Rightarrow>
          (case us_key_to_user st key of
             None \<Rightarrow> (Inr False, st)
           | Some old \<Rightarrow>
               (let siblings = resolve_platform_keys st old
                in if card siblings \<le> 1 then (Inr False, st)
                   else
                     (case insert_user_row fresh \<lparr>ur_name = None, ur_email = None\<rparr> st of
                        None \<Rightarrow> (Inl IntegrityError, st)
                      | Some st1 \<Rightarrow>
                          (let rest = siblings - {key};
                               m = (us_user_to_keys st1)(old \<mapsto> rest, fresh \<mapsto> {key});
                               st2 = st1\<lparr>us_idents := reassign_key fresh key (us_idents st1),
                                         us_key_to_user := (us_key_to_user st1)(key \<mapsto> fresh),
                                         us_user_to_keys := m\<rparr>
                           in (Inr True,
                               if rest = {}
                               then st2\<lparr>us_user_to_keys := m(old := None),
                                        us_users := AList.delete old (us_users st2)\<rparr>
                               else st2))))))"

fun ensure_from_platform_keys :: "(string \<times> string) list \<Rightarrow> user_store \<Rightarrow> user_error option \<times> user_store" where
  "ensure_from_platform_keys [] st = (None, st)"
| "ensure_from_platform_keys ((key, fresh) # ks) st =
     (if parse_platform_key key = None then ensure_from_platform_keys ks st
      else
        (case ensure_user fresh key None st of
           (Inl e, st1) \<Rightarrow> (Some e, st1)
         | (Inr _, st1) \<Rightarrow> ensure_from_platform_keys ks st1))"

definition get_user :: "string \<Rightarrow> user_store \<Rightarrow> (string \<times> user_row) option" where
  "get_user user_id st = map_option (Pair user_id) (map_of (us_users st) user_id)"

subsection \<open>Profile operations\<close>

definition normalize_email :: "string \<Rightarrow> string" where
  "normalize_email email = py_lower (py_strip email)"

definition create_profile_user ::
    "string \<Rightarrow> string \<Rightarrow> string \<Rightarrow> user_store \<Rightarrow> (user_error + string \<times> user_row) \<times> user_store" where
  "create_profile_user fresh display_name email st =
     (let name = py_strip display_name; normalized = normalize_email email
      in if name = [] then (Inl (EmptyField ''display_name''), st)
         else if normalized = [] then (Inl (EmptyField ''email''), st)
         else
           (let row = \<lparr>ur_name = Some name, ur_email = Some normalized\<rparr>
            in case insert_user_row fresh row st of
                 None \<Rightarrow> (Inl EmailTaken, st)
               | Some st1 \<Rightarrow> (Inr (fresh, row), st1)))"

definition delete_profile_user :: "string \<Rightarrow> user_store \<Rightarrow> bool \<times> user_store" where
  "delete_profile_user user_id st =
     (if map_of (us_users st) user_id = None then (False, st)
      else
        (let keys = map fst (filter (\<lambda>(_, r). pi_user r = user_id) (us_idents st))
         in (True,
             st\<lparr>us_idents := filter (\<lambda>(_, r). pi_user r \<noteq> user_id) (us_idents st),
                us_users := AList.delete user_id (us_users st),
                us_key_to_user := (\<lambda>k. if k \<in> set keys then None else us_key_to_user st k),
                us_user_to_keys := (us_user_to_keys st)(user_id := None)\<rparr>)))"

definition set_row :: "(user_row \<Rightarrow> user_row) \<Rightarrow> string \<Rightarrow> (string, user_row) dict \<Rightarrow> (string, user_row) dict" where
  "set_row f user_id = map (\<lambda>(i, r). (i, if i = user_id then f r else r))"

definition update_profile_user ::
    "string \<Rightarrow> string option \<Rightarrow> string option \<Rightarrow> user_store \<Rightarrow>
     (user_error + (string \<times> user_row) option) \<times> user_store" where
  "update_profile_user user_id display_name email st =
     (if display_name = None \<and> email = None then (Inr (get_user user_id st), st)
      else if map_of (us_users st) user_id = None then (Inr None, st)
      else
        (let name = map_option py_strip display_name; mail = map_option normalize_email email
         in if name = Some [] then (Inl (EmptyField ''display_name''), st)
            else if mail = Some [] then (Inl (EmptyField ''email''), st)
            else if mail \<noteq> None \<and>
                    list_ex (\<lambda>(i, r). i \<noteq> user_id \<and> ur_email r = mail) (us_users st)
              then (Inl EmailTaken, st)
            else
              (let f = (\<lambda>r. r\<lparr>ur_name := (if name = None then ur_name r else name),
                               ur_email := (if mail = None then ur_email r else mail)\<rparr>);
                   st1 = st\<lparr>us_users := set_row f user_id (us_users st)\<rparr>
               in (Inr (get_user user_id st1), st1))))"

definition drop_keys :: "string \<Rightarrow> string list \<Rightarrow> user_store \<Rightarrow> user_store" where
  "drop_keys user_id keys st =
     foldl (\<lambda>st k. st\<lparr>us_key_to_user := (us_key_to_user st)(k := None),
                       us_user_to_keys := discard_key user_id k (us_user_to_keys st)\<rparr>) st keys"

definition set_platform_identity ::
    "string \<Rightarrow> string \<Rightarrow> string option \<Rightarrow> user_store \<Rightarrow> user_error option \<times> user_store" where
  "set_platform_identity user_id platform platform_uid st =
     (if map_of (us_users st) user_id = None then (Some (UserNotFound user_id), st)
      else
        (let uid = py_strip (case platform_uid of None \<Rightarrow> [] | Some u \<Rightarrow> u);
             mine = (\<lambda>r. pi_user r = user_id \<and> pi_platform r = platform);
             old_keys = map fst (filter (\<lambda>(_, r). mine r) (us_idents st))
         in if uid = [] then
              (None,
               if old_keys = [] then st
               else drop_keys user_id old_keys
                      (st\<lparr>us_idents := filter (\<lambda>(_, r). \<not> mine r) (us_idents st)\<rparr>))
            else
              (case format_platform_key platform uid of
                 Inl e \<Rightarrow> (Some e, st)
               | Inr key \<Rightarrow>
                   (if us_key_to_user st key \<noteq> None \<and> us_key_to_user st key \<noteq> Some user_id
                    then (Some (AlreadyLinked key), st)
                    else
                      (let removed = filter (\<lambda>k. k \<noteq> key) old_keys;
                           st1 = (if removed = [] then st
                                  else drop_keys user_id removed
                                    (st\<lparr>us_idents :=
                                          filter (\<lambda>(k, r). \<not> (mine r \<and> k \<noteq> key)) (us_idents st)\<rparr>))
                       in if us_key_to_user st1 key \<noteq> None then (None, st1)
                          else
                            (case insert_ident_row key
                                    \<lparr>pi_platform = platform, pi_uid = uid, pi_user = user_id\<rparr> st1 of
                               None \<Rightarrow> (Some IntegrityError, st1)
                             | Some st2 \<Rightarrow>
                                 (None,
                                  st2\<lparr>us_key_to_user := (us_key_to_user st2)(key \<mapsto> user_id),
                                      us_user_to_keys :=
                                        add_key user_id key (us_user_to_keys st2)\<rparr>)))))))"

definition list_platform_identities :: "string \<Rightarrow> user_store \<Rightarrow> (string \<times> platform_identity) list" where
  "list_platform_identities user_id st = filter (\<lambda>(_, r). pi_user r = user_id) (us_idents st)"

subsection \<open>Who owns a key, according to the tables\<close>

definition owner :: "ident_table \<Rightarrow> string \<Rightarrow> string option" where
  "owner ids k = map_option pi_user (map_of ids k)"

definition keys_of :: "ident_table \<Rightarrow> string \<Rightarrow> string set" where
  "keys_of ids u = {k. owner ids k = Some u}"

lemma owner_Nil [simp]: "owner [] = (\<lambda>_. None)" "keys_of [] u = {}"
  by (auto simp: owner_def keys_of_def fun_eq_iff)

lemma owner_append_new:
  "map_of ids k = None \<Longrightarrow> owner (ids @ [(k, r)]) = (owner ids)(k \<mapsto> pi_user r)"
  by (auto simp: owner_def fun_eq_iff map_add_def split: option.splits)

lemma owner_reassign_user:
  "owner (reassign_user u d ids) k = map_option (\<lambda>x. if x = d then u else x) (owner ids k)"
  by (induction ids) (auto simp: owner_def reassign_user_def)

lemma owner_reassign_key:
  "owner (reassign_key u key ids) k = (if k = key \<and> owner ids k \<noteq> None then Some u else owner ids k)"
  by (induction ids) (auto simp: owner_def reassign_key_def)

lemma map_of_filter_wf:
  "dict_wf d \<Longrightarrow> map_of (filter P d) k =
     (case map_of d k of Some r \<Rightarrow> if P (k, r) then Some r else None | None \<Rightarrow> None)"
  by (induction d) (force simp: dict_wf_def map_of_eq_None_iff split: option.splits)+

lemma owner_filter:
  "dict_wf ids \<Longrightarrow> owner (filter P ids) k =
     (case map_of ids k of Some r \<Rightarrow> if P (k, r) then Some (pi_user r) else None | None \<Rightarrow> None)"
  by (auto simp: owner_def map_of_filter_wf split: option.splits)

lemma keys_reassign_user:
  "u \<noteq> d \<Longrightarrow> keys_of (reassign_user u d ids) x =
     (if x = d then {} else if x = u then keys_of ids u \<union> keys_of ids d else keys_of ids x)"
  by (auto simp: keys_of_def owner_reassign_user split: if_splits)

lemma keys_append_new:
  "map_of ids k = None \<Longrightarrow> keys_of (ids @ [(k, r)]) x =
     (if x = pi_user r then insert k (keys_of ids x) else keys_of ids x)"
  by (auto simp: keys_of_def owner_append_new) (simp add: owner_def)

lemma owner_some_row: "owner ids k = Some u \<Longrightarrow> \<exists>r. map_of ids k = Some r \<and> pi_user r = u"
  by (auto simp: owner_def)

lemma finite_keys_of: "finite (keys_of ids u)"
proof (rule finite_subset)
  show "keys_of ids u \<subseteq> fst ` set ids"
    by (auto simp: keys_of_def owner_def dest!: map_of_SomeD) force
qed simp

subsection \<open>The invariant: the caches are the tables\<close>

definition us_rows_ok :: "ident_table \<Rightarrow> bool" where
  "us_rows_ok ids \<longleftrightarrow>
     dict_wf ids \<and>
     list_all (\<lambda>(k, r). parse_platform_key k = Some (pi_platform r, pi_uid r, k)) ids"

definition us_inv :: "user_store \<Rightarrow> bool" where
  "us_inv st \<longleftrightarrow>
     dict_wf (us_users st) \<and> us_rows_ok (us_idents st) \<and>
     us_key_to_user st = owner (us_idents st) \<and>
     (\<forall>u. resolve_platform_keys st u = keys_of (us_idents st) u) \<and>
     (\<forall>k u. owner (us_idents st) k = Some u \<longrightarrow> map_of (us_users st) u \<noteq> None)"

lemma us_inv_init [simp]: "us_inv user_store_init"
  by (simp add: us_inv_def user_store_init_def us_rows_ok_def resolve_platform_keys_def)

lemma us_inv_dest:
  assumes "us_inv st"
  shows "dict_wf (us_users st)" "us_rows_ok (us_idents st)" "dict_wf (us_idents st)"
    "us_key_to_user st = owner (us_idents st)"
    "resolve_platform_keys st u = keys_of (us_idents st) u"
    "owner (us_idents st) k = Some u \<Longrightarrow> map_of (us_users st) u \<noteq> None"
  using assms by (auto simp: us_inv_def us_rows_ok_def)

lemma rows_ok_new_unique:
  assumes "us_rows_ok ids" "map_of ids k = None" "parse_platform_key k = Some (p, i, k)"
  shows "\<not> list_ex (\<lambda>(_, r). pi_platform r = p \<and> pi_uid r = i) ids"
proof
  assume "list_ex (\<lambda>(_, r). pi_platform r = p \<and> pi_uid r = i) ids"
  then obtain k' r where m: "(k', r) \<in> set ids" and r: "pi_platform r = p" "pi_uid r = i"
    by (auto simp: list_ex_iff)
  with assms(1) have "parse_platform_key k' = Some (p, i, k')"
    by (auto simp: us_rows_ok_def list_all_iff)
  with assms(3) have "k' = k" by (rule parse_unique [symmetric])
  with m assms(2) show False by (metis not_Some_eq weak_map_of_SomeI)
qed

lemma rows_ok_append:
  "us_rows_ok ids \<Longrightarrow> map_of ids k = None \<Longrightarrow>
     parse_platform_key k = Some (pi_platform r, pi_uid r, k) \<Longrightarrow> us_rows_ok (ids @ [(k, r)])"
  by (auto simp: us_rows_ok_def dict_wf_def map_of_eq_None_iff)

lemma rows_ok_filter: "us_rows_ok ids \<Longrightarrow> us_rows_ok (filter P ids)"
  by (auto simp: us_rows_ok_def list_all_iff)

lemma fst_reassign [simp]:
  "map fst (reassign_user u d ids) = map fst ids" "map fst (reassign_key u d ids) = map fst ids"
  by (induction ids) (auto simp: reassign_user_def reassign_key_def)

lemma rows_ok_reassign_user: "us_rows_ok ids \<Longrightarrow> us_rows_ok (reassign_user u d ids)"
  by (simp add: us_rows_ok_def dict_wf_def) (auto simp: list_all_iff reassign_user_def)

lemma rows_ok_reassign_key: "us_rows_ok ids \<Longrightarrow> us_rows_ok (reassign_key u d ids)"
  by (simp add: us_rows_ok_def dict_wf_def) (auto simp: list_all_iff reassign_key_def)

lemma resolve_keys_frame [simp]:
  "resolve_platform_keys (st\<lparr>us_users := x\<rparr>) u = resolve_platform_keys st u"
  "resolve_platform_keys (st\<lparr>us_idents := y\<rparr>) u = resolve_platform_keys st u"
  "resolve_platform_keys (st\<lparr>us_key_to_user := z\<rparr>) u = resolve_platform_keys st u"
  by (simp_all add: resolve_platform_keys_def)

lemma resolve_keys_add:
  "resolve_platform_keys (st\<lparr>us_user_to_keys := add_key u k (us_user_to_keys st)\<rparr>) x =
     (if x = u then insert k (resolve_platform_keys st u) else resolve_platform_keys st x)"
  by (simp add: resolve_platform_keys_def add_key_def)

lemma insert_user_row_inv:
  assumes "us_inv st" "insert_user_row u row st = Some st1"
  shows "us_inv st1 \<and> us_idents st1 = us_idents st \<and> us_key_to_user st1 = us_key_to_user st \<and>
         us_user_to_keys st1 = us_user_to_keys st \<and> map_of (us_users st1) u = Some row \<and>
         map_of (us_users st) u = None"
proof -
  have st1: "st1 = st\<lparr>us_users := us_users st @ [(u, row)]\<rparr>" and n: "map_of (us_users st) u = None"
    using assms(2) by (auto simp: insert_user_row_def split: if_split_asm)
  have "dict_wf (us_users st @ [(u, row)])"
    using us_inv_dest(1) [OF assms(1)] n by (auto simp: map_of_eq_None_iff intro: dict_wf_append_new)
  moreover have "\<And>x. map_of (us_users st) x \<noteq> None \<Longrightarrow> map_of (us_users st @ [(u, row)]) x \<noteq> None"
    by (auto simp: map_add_def split: option.splits)
  ultimately show ?thesis
    using assms(1) n by (auto simp: us_inv_def st1 map_add_def)
qed

text \<open>Adding an identity row together with its two cache entries.\<close>

definition with_identity :: "string \<Rightarrow> platform_identity \<Rightarrow> user_store \<Rightarrow> user_store" where
  "with_identity k r st =
     st\<lparr>us_idents := us_idents st @ [(k, r)],
        us_key_to_user := (us_key_to_user st)(k \<mapsto> pi_user r),
        us_user_to_keys := add_key (pi_user r) k (us_user_to_keys st)\<rparr>"

lemma insert_ident_row_inv:
  assumes inv: "us_inv st" and new: "map_of (us_idents st) k = None"
    and key: "parse_platform_key k = Some (p, i, k)"
  shows "insert_ident_row k \<lparr>pi_platform = p, pi_uid = i, pi_user = u\<rparr> st =
           Some (st\<lparr>us_idents := us_idents st @ [(k, \<lparr>pi_platform = p, pi_uid = i, pi_user = u\<rparr>)]\<rparr>)"
  using new rows_ok_new_unique [OF us_inv_dest(2) [OF inv] new key]
  by (simp add: insert_ident_row_def)

lemma with_identity_inv:
  assumes inv: "us_inv st" and new: "map_of (us_idents st) k = None"
    and key: "parse_platform_key k = Some (pi_platform r, pi_uid r, k)"
    and u: "map_of (us_users st) (pi_user r) \<noteq> None"
  shows "us_inv (with_identity k r st)" (is "us_inv ?st2")
proof -
  note d = us_inv_dest [OF inv]
  have "us_rows_ok (us_idents ?st2)"
    using rows_ok_append [OF d(2) new key] by (simp add: with_identity_def)
  moreover have "us_key_to_user ?st2 = owner (us_idents ?st2)"
    using d(4) by (simp add: owner_append_new [OF new] with_identity_def)
  moreover have "\<forall>x. resolve_platform_keys ?st2 x = keys_of (us_idents ?st2) x"
    using d(5) resolve_keys_add [where st = st and u = "pi_user r" and k = k]
    by (simp add: keys_append_new [OF new] resolve_platform_keys_def with_identity_def)
  moreover have "\<forall>k' x. owner (us_idents ?st2) k' = Some x \<longrightarrow> map_of (us_users ?st2) x \<noteq> None"
    using d(6) u by (auto simp: owner_append_new [OF new] with_identity_def)
  ultimately show "us_inv ?st2"
    using d(1) by (simp add: us_inv_def with_identity_def)
qed

subsection \<open>Every operation keeps the invariant\<close>

lemma insert_user_row_no_mail:
  "insert_user_row u \<lparr>ur_name = n, ur_email = None\<rparr> st =
     (if map_of (us_users st) u \<noteq> None then None
      else Some (st\<lparr>us_users := us_users st @ [(u, \<lparr>ur_name = n, ur_email = None\<rparr>)]\<rparr>))"
  by (simp add: insert_user_row_def)

lemma ensure_user_cases:
  assumes inv: "us_inv st"
  obtains (invalid) "parse_platform_key k = None"
      "ensure_user fresh k name st = (Inl (InvalidPlatformKey k), st)"
  | (known) u where "owner (us_idents st) k = Some u" "ensure_user fresh k name st = (Inr u, st)"
  | (clash) "owner (us_idents st) k = None" "map_of (us_users st) fresh \<noteq> None"
      "ensure_user fresh k name st = (Inl IntegrityError, st)"
  | (new) p i st' where "parse_platform_key k = Some (p, i, k)" "owner (us_idents st) k = None"
      "map_of (us_users st) fresh = None" "ensure_user fresh k name st = (Inr fresh, st')"
      "us_inv st'"
      "us_idents st' = us_idents st @ [(k, \<lparr>pi_platform = p, pi_uid = i, pi_user = fresh\<rparr>)]"
proof (cases "parse_platform_key k")
  case None
  then show ?thesis using invalid by (simp add: ensure_user_def)
next
  case (Some t)
  then obtain p i where pk: "parse_platform_key k = Some (p, i, k)"
    by (cases t) (auto dest: parse_key_eq)
  note d = us_inv_dest [OF inv]
  show ?thesis
  proof (cases "owner (us_idents st) k")
    case (Some u)
    then show ?thesis using known pk by (simp add: ensure_user_def d(4))
  next
    case own: None
    show ?thesis
    proof (cases "map_of (us_users st) fresh = None")
      case False
      with own pk show ?thesis
        using clash by (simp add: ensure_user_def d(4) insert_user_row_no_mail)
    next
      case True
      let ?row = "\<lparr>ur_name = name, ur_email = None\<rparr>"
      let ?st1 = "st\<lparr>us_users := us_users st @ [(fresh, ?row)]\<rparr>"
      let ?r = "\<lparr>pi_platform = p, pi_uid = i, pi_user = fresh\<rparr>"
      have ins: "insert_user_row fresh ?row st = Some ?st1"
        using True by (simp add: insert_user_row_no_mail)
      from insert_user_row_inv [OF inv ins]
      have inv1: "us_inv ?st1" and u1: "map_of (us_users ?st1) fresh \<noteq> None" by auto
      have new1: "map_of (us_idents ?st1) k = None" using own by (simp add: owner_def)
      have eq: "ensure_user fresh k name st = (Inr fresh, with_identity k ?r ?st1)"
        using own True insert_ident_row_inv [OF inv1 new1 pk, of fresh]
        by (simp add: ensure_user_def pk d(4) insert_user_row_no_mail with_identity_def)
      have inv2: "us_inv (with_identity k ?r ?st1)"
        by (rule with_identity_inv [OF inv1 new1]) (use pk u1 in simp_all)
      show ?thesis
        by (rule new [OF pk own True eq inv2]) (simp add: with_identity_def)
    qed
  qed
qed

lemma ensure_user_inv [inv_intros]:
  assumes "us_inv st"
  shows "us_inv (snd (ensure_user fresh k name st))"
  by (rule ensure_user_cases [OF assms, of k fresh name]) (use assms in auto)

lemma ensure_user_owner:
  assumes inv: "us_inv st" and eq: "ensure_user fresh k name st = (Inr u, st')"
  shows "owner (us_idents st') = (owner (us_idents st))(k \<mapsto> u) \<and>
    (owner (us_idents st) k = None \<longrightarrow> (\<forall>k'. owner (us_idents st) k' \<noteq> Some u))"
proof (rule ensure_user_cases [OF inv, of k fresh name], goal_cases)
  case (4 p i st'')
  then have "st'' = st'" "u = fresh" using eq by simp_all
  moreover have "\<forall>k'. owner (us_idents st) k' \<noteq> Some fresh"
    using us_inv_dest(6) [OF inv] 4(3) by blast
  moreover have "map_of (us_idents st) k = None" using 4(2) by (simp add: owner_def)
  ultimately show ?case
    using 4(6) by (simp add: owner_append_new)
qed (use eq in \<open>auto simp: fun_eq_iff\<close>)

lemma us_idents_merge [simp]:
  "us_idents (merge_users keep_id drop_id st) = reassign_user keep_id drop_id (us_idents st)"
  by (simp add: merge_users_def Let_def)

lemma merge_users_inv [inv_intros]:
  assumes inv: "us_inv st" and ne: "keep_id \<noteq> drop_id" and keep: "map_of (us_users st) keep_id \<noteq> None"
  shows "us_inv (merge_users keep_id drop_id st)" (is "us_inv ?st")
proof -
  note d = us_inv_dest [OF inv]
  have "us_key_to_user ?st = owner (us_idents ?st)"
  proof
    fix k
    have "us_key_to_user ?st k =
        (if owner (us_idents st) k = Some drop_id then Some keep_id else owner (us_idents st) k)"
      by (simp add: merge_users_def Let_def move_keys_def d(4,5) keys_of_def)
    then show "us_key_to_user ?st k = owner (us_idents ?st) k"
      by (cases "owner (us_idents st) k") (simp_all add: us_idents_merge owner_reassign_user)
  qed
  moreover have "\<forall>x. resolve_platform_keys ?st x = keys_of (us_idents ?st) x"
    using d(5) ne
    by (auto simp: merge_users_def Let_def keys_reassign_user resolve_platform_keys_def
        split: option.splits)
  moreover have "\<forall>k x. owner (us_idents ?st) k = Some x \<longrightarrow> map_of (us_users ?st) x \<noteq> None"
    using d(6) keep ne
    by (auto simp: merge_users_def Let_def owner_reassign_user AList.delete_conv' split: if_splits)
  ultimately show ?thesis
    using d(1) rows_ok_reassign_user [OF d(2)]
    by (simp add: us_inv_def merge_users_def Let_def)
qed

lemma resolve_aliases_alt:
  "resolve_aliases st k =
     (case us_key_to_user st k of None \<Rightarrow> {k} | Some u \<Rightarrow> insert k (resolve_platform_keys st u))"
  by (auto simp: resolve_aliases_def resolve_platform_keys_def split: option.splits)

lemma resolve_aliases_inv:
  assumes "us_inv st"
  shows "resolve_aliases st k =
     (case owner (us_idents st) k of None \<Rightarrow> {k} | Some u \<Rightarrow> keys_of (us_idents st) u)"
  using us_inv_dest(4,5) [OF assms]
  by (auto simp: resolve_aliases_alt keys_of_def split: option.splits)

text \<open>What a successful link leaves in the tables.\<close>

lemma link_platform_keys_owner:
  assumes inv: "us_inv st" and ne: "a \<noteq> b"
    and eq: "link_platform_keys f1 f2 a b st = (Inr u, st')"
  shows "us_inv st'" and "\<exists>ua ub. let o1 = (owner (us_idents st))(a \<mapsto> ua); o2 = o1(b \<mapsto> ub) in
     (owner (us_idents st) a = None \<longrightarrow> (\<forall>k. owner (us_idents st) k \<noteq> Some ua)) \<and>
     (o1 b = None \<longrightarrow> (\<forall>k. o1 k \<noteq> Some ub)) \<and>
     owner (us_idents st) a \<in> {None, Some ua} \<and> owner (us_idents st) b \<in> {None, Some ub} \<and>
     (\<forall>k. owner (us_idents st') k = map_option (\<lambda>x. if x = ub then ua else x) (o2 k))"
proof -
  obtain ua st1 where e1: "ensure_user f1 a None st = (Inr ua, st1)"
    using eq ne by (auto simp: link_platform_keys_def split: prod.splits sum.splits)
  obtain ub st2 where e2: "ensure_user f2 b None st1 = (Inr ub, st2)"
    using eq ne e1 by (auto simp: link_platform_keys_def split: prod.splits sum.splits)
  have st': "st' = (if ua = ub then st2 else merge_users ua ub st2)"
    using eq ne e1 e2 by (auto simp: link_platform_keys_def split: if_splits)
  have i1: "us_inv st1" using ensure_user_inv [OF inv, of f1 a None] e1 by simp
  have i2: "us_inv st2" using ensure_user_inv [OF i1, of f2 b None] e2 by simp
  note o1 = ensure_user_owner [OF inv e1] and o2 = ensure_user_owner [OF i1 e2]
  have "owner (us_idents st2) a = Some ua" using o1 o2 ne by simp
  then have ua: "map_of (us_users st2) ua \<noteq> None" by (rule us_inv_dest(6) [OF i2])
  show "us_inv st'"
    using i2 merge_users_inv [OF i2 _ ua] by (simp add: st')
  have "owner (us_idents st) a \<in> {None, Some ua}"
    by (rule ensure_user_cases [OF inv, of a f1 None]) (use e1 in auto)
  moreover have "owner (us_idents st1) b \<in> {None, Some ub}"
    by (rule ensure_user_cases [OF i1, of b f2 None]) (use e2 in auto)
  then have "owner (us_idents st) b \<in> {None, Some ub}" using o1 ne by simp
  moreover have "owner (us_idents st') k =
      map_option (\<lambda>x. if x = ub then ua else x) (owner (us_idents st2) k)" for k
    by (cases "owner (us_idents st2) k") (simp_all add: st' owner_reassign_user)
  ultimately show "\<exists>ua ub. let o1 = (owner (us_idents st))(a \<mapsto> ua); o2 = o1(b \<mapsto> ub) in
     (owner (us_idents st) a = None \<longrightarrow> (\<forall>k. owner (us_idents st) k \<noteq> Some ua)) \<and>
     (o1 b = None \<longrightarrow> (\<forall>k. o1 k \<noteq> Some ub)) \<and>
     owner (us_idents st) a \<in> {None, Some ua} \<and> owner (us_idents st) b \<in> {None, Some ub} \<and>
     (\<forall>k. owner (us_idents st') k = map_option (\<lambda>x. if x = ub then ua else x) (o2 k))"
    using o1 o2 by (intro exI [of _ ua] exI [of _ ub]) (simp add: Let_def)
qed

lemma link_platform_keys_inv [inv_intros]:
  assumes inv: "us_inv st"
  shows "us_inv (snd (link_platform_keys f1 f2 a b st))"
proof (cases "a = b")
  case True
  then show ?thesis using ensure_user_inv [OF inv] by (simp add: link_platform_keys_def)
next
  case False
  obtain r st' where eq: "link_platform_keys f1 f2 a b st = (r, st')" by fastforce
  show ?thesis
  proof (cases r)
    case (Inr u)
    then show ?thesis using link_platform_keys_owner(1) [OF inv False, of f1 f2 u st'] eq by simp
  next
    case (Inl e)
    obtain r1 st1 where e1: "ensure_user f1 a None st = (r1, st1)" by fastforce
    have i1: "us_inv st1" using ensure_user_inv [OF inv, of f1 a None] e1 by simp
    obtain r2 st2 where e2: "ensure_user f2 b None st1 = (r2, st2)" by fastforce
    have i2: "us_inv st2" using ensure_user_inv [OF i1, of f2 b None] e2 by simp
    from Inl eq False e1 e2 i1 i2 show ?thesis
      by (auto simp: link_platform_keys_def split: sum.splits if_splits)
  qed
qed

lemma unlink_platform_key_cases:
  assumes inv: "us_inv st"
  obtains (no) r where "unlink_platform_key fresh k st = (r, st)" "r \<noteq> Inr True"
  | (yes) old st' where "unlink_platform_key fresh k st = (Inr True, st')" "us_inv st'"
      "owner (us_idents st) k = Some old" "\<forall>k'. owner (us_idents st) k' \<noteq> Some fresh"
      "owner (us_idents st') = (owner (us_idents st))(k \<mapsto> fresh)"
proof (cases "unlink_platform_key fresh k st = (Inr False, st) \<or>
    unlink_platform_key fresh k st = (Inl IntegrityError, st)")
  case True
  then show ?thesis using no by auto
next
  case False
  note d = us_inv_dest [OF inv]
  let ?row = "\<lparr>ur_name = None, ur_email = None\<rparr>"
  from False obtain p i where pk: "parse_platform_key k = Some (p, i, k)"
    by (cases "parse_platform_key k") (auto simp: unlink_platform_key_def dest: parse_key_eq)
  from False obtain old where old: "owner (us_idents st) k = Some old"
    by (cases "owner (us_idents st) k") (auto simp: unlink_platform_key_def pk d(4))
  let ?S = "keys_of (us_idents st) old"
  from False have card: "\<not> card ?S \<le> 1"
    by (auto simp: unlink_platform_key_def pk d(4,5) old Let_def)
  then have rest: "?S - {k} \<noteq> {}"
    using card_mono [of "{k}" ?S] by auto
  have new: "map_of (us_users st) fresh = None"
  proof (rule ccontr)
    assume "map_of (us_users st) fresh \<noteq> None"
    then have "unlink_platform_key fresh k st = (Inl IntegrityError, st)"
      using card by (simp add: unlink_platform_key_def pk d(4,5) old Let_def insert_user_row_no_mail)
    with False show False by simp
  qed
  let ?st1 = "st\<lparr>us_users := us_users st @ [(fresh, ?row)]\<rparr>"
  let ?st2 = "?st1\<lparr>us_idents := reassign_key fresh k (us_idents st),
                   us_key_to_user := (us_key_to_user st)(k \<mapsto> fresh),
                   us_user_to_keys := (us_user_to_keys st)(old \<mapsto> ?S - {k}, fresh \<mapsto> {k})\<rparr>"
  have eq: "unlink_platform_key fresh k st = (Inr True, ?st2)"
    using card rest new
    by (simp add: unlink_platform_key_def pk d(4,5) old Let_def insert_user_row_no_mail)
  have i1: "us_inv ?st1"
    using insert_user_row_inv [OF inv, of fresh ?row] new by (simp add: insert_user_row_no_mail)
  have fresh: "\<forall>k'. owner (us_idents st) k' \<noteq> Some fresh" using d(6) new by blast
  have own: "owner (us_idents ?st2) = (owner (us_idents st))(k \<mapsto> fresh)"
    using old by (auto simp: owner_reassign_key)
  have "fresh \<noteq> old" using fresh old by auto
  then have keys: "keys_of (us_idents ?st2) x =
      (if x = fresh then {k} else if x = old then ?S - {k} else keys_of (us_idents st) x)" for x
    using fresh old own by (auto simp: keys_of_def split: if_splits)
  have "us_inv ?st2"
    using us_inv_dest [OF i1] own rows_ok_reassign_key [OF d(2)] d(5) keys
    by (auto simp: us_inv_def resolve_platform_keys_def)
  with yes [OF eq] old fresh own show ?thesis by simp
qed

lemma unlink_platform_key_inv [inv_intros]:
  "us_inv st \<Longrightarrow> us_inv (snd (unlink_platform_key fresh k st))"
  by (rule unlink_platform_key_cases [of st fresh k]) auto

lemma ensure_from_platform_keys_inv [inv_intros]:
  "us_inv st \<Longrightarrow> us_inv (snd (ensure_from_platform_keys ks st))"
proof (induction ks st rule: ensure_from_platform_keys.induct)
  case (2 key fresh ks st)
  then show ?case
    using ensure_user_inv [OF 2(3), of fresh key None]
    by (auto split: prod.splits sum.splits)
qed simp

lemma create_profile_user_inv [inv_intros]:
  "us_inv st \<Longrightarrow> us_inv (snd (create_profile_user fresh name email st))"
  using insert_user_row_inv [of st fresh]
  by (auto simp: create_profile_user_def Let_def split: option.splits)

lemma map_of_set_row:
  "map_of (set_row f u d) k = map_option (\<lambda>r. if k = u then f r else r) (map_of d k)"
  by (induction d) (auto simp: set_row_def)

lemma fst_set_row [simp]: "map fst (set_row f u d) = map fst d"
  by (induction d) (auto simp: set_row_def)

lemma update_profile_user_inv [inv_intros]:
  assumes "us_inv st"
  shows "us_inv (snd (update_profile_user u name email st))"
proof -
  have "us_inv (st\<lparr>us_users := set_row f u (us_users st)\<rparr>)" for f
    using assms by (auto simp: us_inv_def dict_wf_def map_of_set_row)
  with assms show ?thesis
    by (simp add: update_profile_user_def Let_def)
qed

text \<open>Rows leaving the identity table together with their cache entries.\<close>

lemma rows_removed_inv:
  assumes inv: "us_inv st"
    and k2u: "us_key_to_user st' = (\<lambda>k. if k \<in> K then None else us_key_to_user st k)"
    and u2k: "\<And>u. resolve_platform_keys st' u = resolve_platform_keys st u - K"
    and ids: "us_idents st' = filter (\<lambda>(k, r). \<not> P k r) (us_idents st)"
    and K: "K = {k. \<exists>r. map_of (us_idents st) k = Some r \<and> P k r}"
    and users: "dict_wf (us_users st')"
    and sub: "\<And>k r. map_of (us_idents st) k = Some r \<Longrightarrow> \<not> P k r \<Longrightarrow>
                map_of (us_users st') (pi_user r) \<noteq> None"
  shows "us_inv st'"
proof -
  note d = us_inv_dest [OF inv]
  have own: "owner (us_idents st') k = (if k \<in> K then None else owner (us_idents st) k)" for k
    by (simp add: ids owner_filter [OF d(3)] K) (auto simp: owner_def split: option.splits)
  have "us_key_to_user st' = owner (us_idents st')"
    by (auto simp: k2u own d(4))
  moreover have "resolve_platform_keys st' u = keys_of (us_idents st') u" for u
    by (auto simp: u2k d(5) keys_of_def own)
  moreover have "owner (us_idents st') k = Some u \<Longrightarrow> map_of (us_users st') u \<noteq> None" for k u
  proof -
    assume "owner (us_idents st') k = Some u"
    then have "k \<notin> K" "owner (us_idents st) k = Some u" by (auto simp: own split: if_splits)
    then obtain r where "map_of (us_idents st) k = Some r" "pi_user r = u" "\<not> P k r"
      by (auto simp: K owner_def)
    with sub show ?thesis by blast
  qed
  moreover have "us_rows_ok (us_idents st')" unfolding ids by (rule rows_ok_filter [OF d(2)])
  ultimately show ?thesis using users by (simp add: us_inv_def)
qed

lemma set_keys_where:
  "dict_wf d \<Longrightarrow> k \<in> fst ` set (filter P d) \<longleftrightarrow> (\<exists>r. map_of d k = Some r \<and> P (k, r))"
  by (force simp: dict_get_iff)

lemma delete_profile_user_inv [inv_intros]:
  assumes inv: "us_inv st"
  shows "us_inv (snd (delete_profile_user u st))"
proof (cases "map_of (us_users st) u")
  case None
  with inv show ?thesis by (simp add: delete_profile_user_def)
next
  case (Some row)
  note d = us_inv_dest [OF inv]
  let ?st = "snd (delete_profile_user u st)"
  have keys: "set (map fst (filter (\<lambda>(_, r). pi_user r = u) (us_idents st))) = keys_of (us_idents st) u"
    by (auto simp: keys_of_def owner_def dict_get_iff [OF d(3)] image_iff)
  show ?thesis
  proof (rule rows_removed_inv [OF inv, where P = "\<lambda>_ r. pi_user r = u" and K = "keys_of (us_idents st) u"])
    show "resolve_platform_keys ?st x = resolve_platform_keys st x - keys_of (us_idents st) u" for x
      using d(5) [of x] by (auto simp: delete_profile_user_def Some Let_def resolve_platform_keys_def
          keys_of_def split: option.splits)
    show "dict_wf (us_users ?st)"
      using d(1) by (simp add: delete_profile_user_def Some Let_def)
    fix k r
    assume "map_of (us_idents st) k = Some r" "pi_user r \<noteq> u"
    then show "map_of (us_users ?st) (pi_user r) \<noteq> None"
      using d(6) [of k "pi_user r"]
      by (simp add: delete_profile_user_def Some Let_def owner_def AList.delete_conv')
  qed (use keys in \<open>simp_all add: delete_profile_user_def Some Let_def\<close>,
       auto simp: keys_of_def owner_def)
qed

lemma drop_keys_simps:
  "us_users (drop_keys u ks st) = us_users st" "us_idents (drop_keys u ks st) = us_idents st"
  "us_key_to_user (drop_keys u ks st) = (\<lambda>k. if k \<in> set ks then None else us_key_to_user st k)"
  "resolve_platform_keys (drop_keys u ks st) x =
     (if x = u then resolve_platform_keys st u - set ks else resolve_platform_keys st x)"
  unfolding drop_keys_def
  by (induction ks arbitrary: st)
     (auto simp: fun_eq_iff discard_key_def resolve_platform_keys_def split: option.splits)

lemma drop_identities_inv:
  assumes inv: "us_inv st"
    and ks: "set ks = {k. \<exists>r. map_of (us_idents st) k = Some r \<and> P k r}"
    and P: "\<And>k r. P k r \<Longrightarrow> pi_user r = u"
  shows "us_inv (drop_keys u ks (st\<lparr>us_idents := filter (\<lambda>(k, r). \<not> P k r) (us_idents st)\<rparr>))"
proof (rule rows_removed_inv [OF inv, where P = P and K = "set ks"])
  note d = us_inv_dest [OF inv]
  fix x
  have "x \<noteq> u \<Longrightarrow> keys_of (us_idents st) x \<inter> set ks = {}"
    using P by (auto simp: ks keys_of_def owner_def)
  then show "resolve_platform_keys
      (drop_keys u ks (st\<lparr>us_idents := filter (\<lambda>(k, r). \<not> P k r) (us_idents st)\<rparr>)) x =
      resolve_platform_keys st x - set ks"
    using d(5) by (auto simp: drop_keys_simps)
next
  fix k r
  assume "map_of (us_idents st) k = Some r"
  then show "map_of (us_users (drop_keys u ks (st\<lparr>us_idents :=
      filter (\<lambda>(k, r). \<not> P k r) (us_idents st)\<rparr>))) (pi_user r) \<noteq> None"
    using us_inv_dest(6) [OF inv, of k "pi_user r"] by (simp add: drop_keys_simps owner_def)
qed (use us_inv_dest [OF inv] ks in \<open>auto simp: drop_keys_simps fun_eq_iff\<close>)

lemma set_platform_identity_inv [inv_intros]:
  assumes inv: "us_inv st"
  shows "us_inv (snd (set_platform_identity u platform puid st))"
proof -
  note d = us_inv_dest [OF inv]
  let ?uid = "py_strip (case puid of None \<Rightarrow> [] | Some u \<Rightarrow> u)"
  let ?mine = "\<lambda>r. pi_user r = u \<and> pi_platform r = platform"
  let ?old = "map fst (filter (\<lambda>(_, r). ?mine r) (us_idents st))"
  have old: "set ?old = {k. \<exists>r. map_of (us_idents st) k = Some r \<and> ?mine r}"
    using set_keys_where [OF d(3), of _ "\<lambda>(_, r). ?mine r"] by auto
  consider (nouser) "map_of (us_users st) u = None" | (clear) "map_of (us_users st) u \<noteq> None" "?uid = []"
    | (bad) e where "map_of (us_users st) u \<noteq> None" "?uid \<noteq> []" "format_platform_key platform ?uid = Inl e"
    | (ok) key where "map_of (us_users st) u \<noteq> None" "?uid \<noteq> []" "format_platform_key platform ?uid = Inr key"
    by (cases "format_platform_key platform ?uid") blast+
  then show ?thesis
  proof cases
    case clear
    have "us_inv (drop_keys u ?old (st\<lparr>us_idents := filter (\<lambda>(k, r). \<not> ?mine r) (us_idents st)\<rparr>))"
      by (rule drop_identities_inv [OF inv old]) simp
    with clear inv show ?thesis by (simp add: set_platform_identity_def Let_def)
  next
    case (ok key)
    let ?rm = "filter (\<lambda>k. k \<noteq> key) ?old"
    define st1 where "st1 = (if ?rm = [] then st
       else drop_keys u ?rm (st\<lparr>us_idents := filter (\<lambda>(k, r). \<not> (?mine r \<and> k \<noteq> key)) (us_idents st)\<rparr>))"
    have "us_inv (drop_keys u ?rm
        (st\<lparr>us_idents := filter (\<lambda>(k, r). \<not> (?mine r \<and> k \<noteq> key)) (us_idents st)\<rparr>))"
      by (rule drop_identities_inv [OF inv]) (use old in auto)
    with inv have i1: "us_inv st1" by (simp add: st1_def)
    have u1: "map_of (us_users st1) u \<noteq> None" using ok(1) by (simp add: drop_keys_simps st1_def)
    have pk: "parse_platform_key key = Some (platform, ?uid, key)"
      by (rule format_parse [OF ok(3,2)])
    let ?r = "\<lparr>pi_platform = platform, pi_uid = ?uid, pi_user = u\<rparr>"
    have eq: "set_platform_identity u platform puid st =
       (if us_key_to_user st key \<noteq> None \<and> us_key_to_user st key \<noteq> Some u
        then (Some (AlreadyLinked key), st)
        else if us_key_to_user st1 key \<noteq> None then (None, st1)
        else (case insert_ident_row key ?r st1 of
                None \<Rightarrow> (Some IntegrityError, st1)
              | Some st2 \<Rightarrow> (None, st2\<lparr>us_key_to_user := (us_key_to_user st2)(key \<mapsto> u),
                                us_user_to_keys := add_key u key (us_user_to_keys st2)\<rparr>)))"
      using ok(1,2) by (simp only: set_platform_identity_def Let_def st1_def ok(3) if_False sum.case)
    show ?thesis
    proof (cases "us_key_to_user st1 key")
      case None
      then have new: "map_of (us_idents st1) key = None"
        using us_inv_dest(4) [OF i1] by (simp add: owner_def)
      have "us_inv (with_identity key ?r st1)"
        by (rule with_identity_inv [OF i1 new]) (use pk u1 in simp_all)
      with insert_ident_row_inv [OF i1 new pk, of u] None inv show ?thesis
        unfolding eq by (simp add: with_identity_def)
    next
      case (Some x)
      with inv i1 show ?thesis unfolding eq by simp
    qed
  qed (use inv in \<open>simp_all add: set_platform_identity_def Let_def\<close>)
qed

lemma cache_row_simps [simp]:
  "us_users (cache_row st (k, r)) = us_users st" "us_idents (cache_row st (k, r)) = us_idents st"
  "us_key_to_user (cache_row st (k, r)) = (us_key_to_user st)(k \<mapsto> pi_user r)"
  "resolve_platform_keys (cache_row st (k, r)) u =
     (if u = pi_user r then insert k (resolve_platform_keys st u) else resolve_platform_keys st u)"
  by (simp_all add: cache_row_def resolve_platform_keys_def add_key_def)

lemma cache_rows:
  assumes "dict_wf ids" "us_key_to_user st = Map.empty" "us_user_to_keys st = Map.empty"
  shows "us_users (foldl cache_row st ids) = us_users st \<and>
    us_idents (foldl cache_row st ids) = us_idents st \<and>
    us_key_to_user (foldl cache_row st ids) = owner ids \<and>
    (\<forall>u. resolve_platform_keys (foldl cache_row st ids) u = keys_of ids u)"
  using assms(1)
proof (induction ids rule: rev_induct)
  case Nil
  with assms show ?case by (simp add: resolve_platform_keys_def)
next
  case (snoc p ids)
  obtain k r where p: "p = (k, r)" by (cases p)
  from snoc.prems have "dict_wf ids" and new: "map_of ids k = None"
    by (auto simp: p dict_wf_def map_of_eq_None_iff)
  with snoc.IH show ?case
    by (simp add: p owner_append_new [OF new] keys_append_new [OF new])
qed

lemma warm_cache_inv [inv_intros]: "us_inv st \<Longrightarrow> us_inv (warm_cache st)"
  using cache_rows [of "us_idents st" "st\<lparr>us_key_to_user := Map.empty, us_user_to_keys := Map.empty\<rparr>"]
  by (simp add: us_inv_def warm_cache_def us_rows_ok_def)

subsection \<open>Runs of operations\<close>

datatype user_op =
    EnsureUser string string "string option"
  | LinkKeys string string string string
  | UnlinkKey string string
  | EnsureAll "(string \<times> string) list"
  | CreateProfile string string string
  | DeleteProfile string
  | UpdateProfile string "string option" "string option"
  | SetIdentity string string "string option"
  | Rewarm

fun us_step :: "user_store \<Rightarrow> user_op \<Rightarrow> user_store" where
  "us_step st (EnsureUser fresh key name) = snd (ensure_user fresh key name st)"
| "us_step st (LinkKeys f1 f2 a b) = snd (link_platform_keys f1 f2 a b st)"
| "us_step st (UnlinkKey fresh key) = snd (unlink_platform_key fresh key st)"
| "us_step st (EnsureAll ks) = snd (ensure_from_platform_keys ks st)"
| "us_step st (CreateProfile fresh name email) = snd (create_profile_user fresh name email st)"
| "us_step st (DeleteProfile u) = snd (delete_profile_user u st)"
| "us_step st (UpdateProfile u name email) = snd (update_profile_user u name email st)"
| "us_step st (SetIdentity u platform uid) = snd (set_platform_identity u platform uid st)"
| "us_step st Rewarm = warm_cache st"

lemma us_step_inv: "us_inv st \<Longrightarrow> us_inv (us_step st op)"
  by (cases op) (simp_all add: inv_intros)

lemma us_run_inv: "us_inv st \<Longrightarrow> us_inv (foldl us_step st ops)"
  by (induction ops arbitrary: st) (simp_all add: us_step_inv)

subsection \<open>Link challenges\<close>

record challenge =
  ch_initiator :: string
  ch_platform :: string
  ch_expires :: time

type_synonym challenge_table = "(string, challenge) dict"

text \<open>
  \<open>DELETE ... WHERE expires_at < datetime('now')\<close> compares two texts: the stored one is
  \<open>isoformat()\<close> (date, \<open>T\<close>, time), SQLite's has a blank in place of the \<open>T\<close>. On the
  same date \<open>T\<close> is greater than the blank, so only rows of an earlier date are deleted.
\<close>

definition day_of :: "time \<Rightarrow> int" where
  "day_of t = \<lfloor>t / 86400\<rfloor>"

definition create_challenge ::
    "(string \<Rightarrow> string) \<Rightarrow> string \<Rightarrow> time \<Rightarrow> string \<Rightarrow> string \<Rightarrow> int \<Rightarrow> challenge_table \<Rightarrow>
     (user_error + string) \<times> challenge_table" where
  "create_challenge sha code now initiator platform ttl tbl =
     (let tbl1 = filter (\<lambda>(_, c). \<not> day_of (ch_expires c) < day_of now) tbl
      in if map_of tbl1 (sha code) \<noteq> None then (Inl IntegrityError, tbl1)
         else (Inr code,
               tbl1 @ [(sha code, \<lparr>ch_initiator = initiator, ch_platform = platform,
                                   ch_expires = now + of_int ttl\<rparr>)]))"

definition validate_challenge ::
    "(string \<Rightarrow> string) \<Rightarrow> time \<Rightarrow> string \<Rightarrow> challenge_table \<Rightarrow>
     (bool \<times> string \<times> string) \<times> challenge_table" where
  "validate_challenge sha now code tbl =
     (case map_of tbl (sha code) of
        None \<Rightarrow> ((False, [], []), tbl)
      | Some c \<Rightarrow>
          (let tbl1 = AList.delete (sha code) tbl
           in if ch_expires c < now then ((False, [], []), tbl1)
              else ((True, ch_initiator c, ch_platform c), tbl1)))"

lemma validate_challenge_gone:
  "map_of (snd (validate_challenge sha now code tbl)) (sha code) = None"
  by (auto simp: validate_challenge_def Let_def AList.delete_conv' split: option.splits)

lemma create_then_validate:
  assumes "create_challenge sha code now initiator platform ttl tbl = (Inr c, tbl1)"
  shows "fst (validate_challenge sha t code tbl1) =
           (if t \<le> now + of_int ttl then (True, initiator, platform) else (False, [], []))"
  using assms
  by (auto simp: create_challenge_def validate_challenge_def Let_def map_add_def split: if_split_asm)

subsection \<open>Properties\<close>


text \<open>
  linking two platform keys merges exactly their two alias classes: afterwards every key of
  either class has the union as its aliases, and no other key's aliases change.
\<close>

theorem link_merges_aliases:
  assumes "us_inv st" "a \<noteq> b" "link_platform_keys f1 f2 a b st = (Inr u, st')"
  shows "resolve_aliases st' k =
    (let ab = resolve_aliases st a \<union> resolve_aliases st b
     in if k \<in> ab then ab else resolve_aliases st k)"
proof -
  from link_platform_keys_owner(2) [OF assms] obtain ua ub where
    fa: "owner (us_idents st) a = None \<longrightarrow> (\<forall>k. owner (us_idents st) k \<noteq> Some ua)" and
    fb: "((owner (us_idents st))(a \<mapsto> ua)) b = None \<longrightarrow>
           (\<forall>k. ((owner (us_idents st))(a \<mapsto> ua)) k \<noteq> Some ub)" and
    oa: "owner (us_idents st) a \<in> {None, Some ua}" and ob: "owner (us_idents st) b \<in> {None, Some ub}" and
    own: "\<forall>k. owner (us_idents st') k = map_option (\<lambda>x. if x = ub then ua else x)
                  (((owner (us_idents st))(a \<mapsto> ua, b \<mapsto> ub)) k)"
    unfolding Let_def by (elim exE conjE) (rule that)
  let ?o = "owner (us_idents st)" and ?o' = "owner (us_idents st')"
  let ?A = "{j. j = a \<or> ?o j = Some ua}" and ?B = "{j. j = b \<or> ?o j = Some ub}"
  have fa': "?o a = None \<Longrightarrow> ?o j \<noteq> Some ua" for j
    using fa by simp
  have fb': "?o j \<noteq> Some ub" if "?o b = None" for j
  proof -
    have fresh: "(?o(a \<mapsto> ua)) k \<noteq> Some ub" for k using fb that assms(2) by simp
    show ?thesis
      using fresh [of j] fresh [of a] oa by (cases "j = a") auto
  qed
  have cls: "resolve_aliases st x = {j. j = x \<or> ?o j = Some ux}"
    if "?o x \<in> {None, Some ux}" "\<And>j. ?o x = None \<Longrightarrow> ?o j \<noteq> Some ux" for x ux
  proof (cases "?o x")
    case None
    with that(2) show ?thesis by (simp add: resolve_aliases_inv [OF assms(1)])
  next
    case (Some y)
    with that(1) show ?thesis
      by (simp add: resolve_aliases_inv [OF assms(1)] keys_of_def) blast
  qed
  have al: "resolve_aliases st a = ?A" "resolve_aliases st b = ?B"
    by (rule cls [OF oa fa'], assumption) (rule cls [OF ob fb'], assumption)
  have o': "?o' j = (if j \<in> ?A \<union> ?B then Some ua else ?o j)" for j
    using own oa ob by (cases "?o j") auto
  note inv' = link_platform_keys_owner(1) [OF assms]
  show ?thesis
  proof (cases "k \<in> ?A \<union> ?B")
    case True
    moreover have "keys_of (us_idents st') ua = ?A \<union> ?B"
      using o' oa by (auto simp: keys_of_def split: if_splits)
    moreover have "?o' k = Some ua" using True o' by simp
    ultimately have "resolve_aliases st' k = ?A \<union> ?B"
      by (simp add: resolve_aliases_inv [OF inv'])
    with True show ?thesis by (simp add: al Let_def)
  next
    case False
    then have "?o' k = ?o k" using o' by simp
    moreover have "keys_of (us_idents st') x = keys_of (us_idents st) x" if "?o k = Some x" for x
    proof -
      have "x \<noteq> ua" "x \<noteq> ub" using False that by auto
      then show ?thesis using o' oa ob by (auto simp: keys_of_def split: if_splits)
    qed
    ultimately have "resolve_aliases st' k = resolve_aliases st k"
      by (simp add: resolve_aliases_inv [OF inv'] resolve_aliases_inv [OF assms(1)]
          split: option.split)
    with False show ?thesis by (simp add: al Let_def)
  qed
qed

definition sample_users :: user_store where
  "sample_users = foldl us_step user_store_init
     [LinkKeys ''rx:user:1'' ''rx:user:2'' ''tg:user:7'' ''dc:user:8'']"

theorem link_merges_aliases_witness:
  "resolve_aliases (snd (link_platform_keys ''f'' ''rx:user:3'' ''dc:user:8'' ''matrix:user:9'' sample_users))
     ''tg:user:7'' = {''tg:user:7'', ''dc:user:8'', ''matrix:user:9''}"
proof -
  have inv: "us_inv sample_users" unfolding sample_users_def by (rule us_run_inv) simp
  have "fst (link_platform_keys ''f'' ''rx:user:3'' ''dc:user:8'' ''matrix:user:9'' sample_users) =
      Inr ''rx:user:1''"
    by code_simp
  then have "link_platform_keys ''f'' ''rx:user:3'' ''dc:user:8'' ''matrix:user:9'' sample_users =
      (Inr ''rx:user:1'', snd (link_platform_keys ''f'' ''rx:user:3'' ''dc:user:8'' ''matrix:user:9'' sample_users))"
    by (metis prod.collapse)
  note r = link_merges_aliases [OF inv _ this, of "''tg:user:7''"]
  have "resolve_aliases sample_users ''dc:user:8'' = {''tg:user:7'', ''dc:user:8''}" by code_simp
  moreover have "resolve_aliases sample_users ''matrix:user:9'' = {''matrix:user:9''}" by code_simp
  ultimately show ?thesis using r by (auto simp: Let_def)
qed

text \<open>
  A key that is unlinked ends up alone, every former alias loses exactly that key, and the
  aliases of unrelated keys stay as they were.
\<close>

theorem unlink_isolates:
  assumes "us_inv st" "unlink_platform_key fresh key st = (Inr True, st')"
  shows "resolve_aliases st' key = {key} \<and>
    (k \<noteq> key \<longrightarrow> resolve_aliases st' k = resolve_aliases st k - {key})"
proof (rule unlink_platform_key_cases [OF assms(1), of fresh key], goal_cases)
  case (1 r)
  then show ?case using assms(2) by simp
next
  case (2 old st'')
  then have st': "st'' = st'" using assms(2) by simp
  note own = 2(5) [unfolded st'] and inv' = 2(2) [unfolded st']
  have "keys_of (us_idents st') fresh = {key}"
    using 2(4) by (auto simp: keys_of_def own split: if_splits)
  moreover have "keys_of (us_idents st') x = keys_of (us_idents st) x - {key}" if "x \<noteq> fresh" for x
    using that by (auto simp: keys_of_def own split: if_splits)
  moreover have "owner (us_idents st) k \<noteq> Some fresh" using 2(4) by simp
  ultimately show ?case
    by (auto simp: resolve_aliases_inv [OF assms(1)] resolve_aliases_inv [OF inv'] own
        split: option.splits)
qed

theorem unlink_isolates_witness:
  "resolve_aliases (snd (unlink_platform_key ''rx:user:9'' ''dc:user:8'' sample_users)) ''dc:user:8'' =
     {''dc:user:8''}"
proof -
  have inv: "us_inv sample_users" unfolding sample_users_def by (rule us_run_inv) simp
  have "fst (unlink_platform_key ''rx:user:9'' ''dc:user:8'' sample_users) = Inr True"
    by code_simp
  then have "unlink_platform_key ''rx:user:9'' ''dc:user:8'' sample_users =
      (Inr True, snd (unlink_platform_key ''rx:user:9'' ''dc:user:8'' sample_users))"
    by (metis prod.collapse)
  from unlink_isolates [OF inv this] show ?thesis by blast
qed

text \<open>
  Formatting a platform and a non-empty uid and parsing the key gives both back, a parsed key
  formats to itself, and a canonical user id is never taken for a platform key.
\<close>

theorem platform_key_roundtrip:
  "(uid \<noteq> [] \<longrightarrow> format_platform_key platform uid = Inr key \<longrightarrow>
      parse_platform_key key = Some (platform, uid, key)) \<and>
   (parse_platform_key key = Some (platform, uid, key) \<longrightarrow>
      format_platform_key platform uid = Inr key) \<and>
   (is_user_id key \<longrightarrow> parse_platform_key key = None)"
proof (intro conjI impI)
  show "parse_platform_key key = Some (platform, uid, key)"
    if "uid \<noteq> []" "format_platform_key platform uid = Inr key"
    using that by (intro format_parse)
  show "format_platform_key platform uid = Inr key"
    if "parse_platform_key key = Some (platform, uid, key)"
    using that by (rule parse_format)
  show "parse_platform_key key = None" if "is_user_id key"
    using user_id_not_platform_key [OF that] unfolding is_platform_key_def by blast
qed

theorem platform_key_roundtrip_witness:
  "parse_platform_key ''tg:user:42'' = Some (''telegram'', ''42'', ''tg:user:42'')"
proof -
  have "format_platform_key ''telegram'' ''42'' = Inr ''tg:user:42''"
    by (simp add: format_platform_key_def platform_prefixes_def)
  with platform_key_roundtrip [of "''42''" "''telegram''" "''tg:user:42''"] show ?thesis by simp
qed

text \<open>
  A link challenge answers its own code with its initiator and platform exactly until it
  expires, and a code that was presented once is gone, whether it was accepted or had expired.
\<close>

theorem link_challenge_single_use:
  assumes "create_challenge sha code now initiator platform ttl tbl = (Inr c, tbl1)"
  shows "fst (validate_challenge sha t code tbl1) =
           (if t \<le> now + of_int ttl then (True, initiator, platform) else (False, [], [])) \<and>
         fst (validate_challenge sha t' code (snd (validate_challenge sha t code tbl1))) =
           (False, [], [])"
  using create_then_validate [OF assms] validate_challenge_gone [of sha t code tbl1]
  by (simp add: validate_challenge_def [of sha t'])

theorem link_challenge_single_use_witness:
  "let tbl = snd (create_challenge (\<lambda>s. ''h'' @ s) ''AB12CD'' 100 ''tg:user:7'' ''telegram'' 300 [])
   in fst (validate_challenge (\<lambda>s. ''h'' @ s) 200 ''AB12CD'' tbl) = (True, ''tg:user:7'', ''telegram'')"
proof -
  have "create_challenge (\<lambda>s. ''h'' @ s) ''AB12CD'' 100 ''tg:user:7'' ''telegram'' 300 [] =
      (Inr ''AB12CD'', snd (create_challenge (\<lambda>s. ''h'' @ s) ''AB12CD'' 100 ''tg:user:7'' ''telegram'' 300 []))"
    by (simp add: create_challenge_def Let_def)
  from link_challenge_single_use [OF this, of 200 0] show ?thesis
    by (simp add: Let_def)
qed

end
