(* ===== verification/Agent_Grants.thy ===== *)
theory Agent_Grants
  imports User_Store
begin

text \<open>
  Agent-scoped authorization: the grant models (core/auth/agent_grants.py), the grant store
  (infrastructure/stores/identity/agent_grant_store.py), the per-human grant
  (core/auth/grant_human.py) and pairing codes (infrastructure/stores/identity/pairing.py with
  core/stores/pairing_config.py). The store resolves identities through the user registry; the
  contract it relies on is the locale \<open>identity_port\<close>, interpreted on
  \<open>User_Store\<close>. The column \<open>created_at\<close>, which nothing computes with, is left out.
\<close>

subsection \<open>The identity port\<close>

locale identity_port =
  fixes inv :: "'s \<Rightarrow> bool"
    and user_of :: "'s \<Rightarrow> string \<Rightarrow> string option"
    and keys :: "'s \<Rightarrow> string \<Rightarrow> string set"
    and aliases :: "'s \<Rightarrow> string \<Rightarrow> string set"
  assumes keys_user: "inv s \<Longrightarrow> k \<in> keys s u \<longleftrightarrow> user_of s k = Some u"
    and aliases_user: "inv s \<Longrightarrow>
          aliases s k = (case user_of s k of None \<Rightarrow> {k} | Some u \<Rightarrow> keys s u)"
    and keys_platform: "inv s \<Longrightarrow> user_of s k = Some u \<Longrightarrow> is_platform_key k"
begin

text \<open>Everything a message from \<open>uid\<close> may be granted as.\<close>

definition principals :: "'s \<Rightarrow> string \<Rightarrow> string set" where
  "principals s uid =
     (if is_user_id uid then {uid} \<union> keys s uid
      else {uid} \<union> set_option (user_of s uid) \<union> aliases s uid)"

lemma self_principal: "uid \<in> principals s uid"
  by (simp add: principals_def)

lemma linked_principals:
  assumes "inv s" "user_of s k = Some u"
  shows "principals s k = insert u (keys s u)"
proof -
  have "\<not> is_user_id k"
    using keys_platform [OF assms] user_id_not_platform_key by blast
  moreover have "k \<in> keys s u" using assms keys_user by simp
  ultimately show ?thesis using assms by (auto simp: principals_def aliases_user)
qed

lemma human_principals:
  assumes "inv s" "is_user_id u"
  shows "principals s u = insert u (keys s u)"
  using assms by (simp add: principals_def)

lemma unlinked_principals:
  assumes "inv s" "user_of s k = None" "\<not> is_user_id k"
  shows "principals s k = {k}"
  using assms by (simp add: principals_def aliases_user)

end

lemma us_owner_platform_key:
  "us_inv st \<Longrightarrow> resolve_user_id st k = Some u \<Longrightarrow> is_platform_key k"
proof -
  assume inv: "us_inv st" and "resolve_user_id st k = Some u"
  then obtain r where "map_of (us_idents st) k = Some r"
    by (auto simp: resolve_user_id_def us_inv_dest(4) owner_def)
  then have "(k, r) \<in> set (us_idents st)" by (rule map_of_SomeD)
  with us_inv_dest(2) [OF inv] show ?thesis
    by (auto simp: us_rows_ok_def list_all_iff is_platform_key_def)
qed

interpretation us: identity_port us_inv resolve_user_id resolve_platform_keys resolve_aliases
proof unfold_locales
  fix s k u
  assume inv: "us_inv s"
  show "k \<in> resolve_platform_keys s u \<longleftrightarrow> resolve_user_id s k = Some u"
    using us_inv_dest(4,5) [OF inv] by (simp add: resolve_user_id_def keys_of_def)
  show "resolve_aliases s k =
      (case resolve_user_id s k of None \<Rightarrow> {k} | Some u \<Rightarrow> resolve_platform_keys s u)"
    using us_inv_dest(4,5) [OF inv]
    by (simp add: resolve_user_id_def resolve_aliases_inv [OF inv] split: option.split)
  show "resolve_user_id s k = Some u \<Longrightarrow> is_platform_key k"
    by (rule us_owner_platform_key [OF inv])
qed

subsection \<open>Grants\<close>

datatype principal_kind = USER | ROLE
datatype capability = USE | ADMIN

record principal =
  pr_kind :: principal_kind
  pr_id :: string

datatype grant_error =
    EmptyPrincipal
  | EmptyAgentName
  | EmptyProvenance
  | MissingAfterWrite string string
  | NoLinkedIdentities string
  | UserStoreError user_error

definition mk_principal :: "principal_kind \<Rightarrow> string \<Rightarrow> grant_error + principal" where
  "mk_principal kind i = (if i = [] then Inl EmptyPrincipal else Inr \<lparr>pr_kind = kind, pr_id = i\<rparr>)"

record agent_grant =
  ag_agent_name :: string
  ag_principal :: principal
  ag_capability :: capability
  ag_granted_by :: string
  ag_source :: string

datatype auth_decision = Allow string | Deny string

definition decision_allowed :: "auth_decision \<Rightarrow> bool" where
  "decision_allowed d = (case d of Allow _ \<Rightarrow> True | Deny _ \<Rightarrow> False)"

record grant_store =
  gs_rows :: "agent_grant list"
  gs_cache :: "string \<rightharpoonup> agent_grant list"

definition grant_store_init :: "agent_grant list \<Rightarrow> grant_store" where
  "grant_store_init rows = \<lparr>gs_rows = rows, gs_cache = Map.empty\<rparr>"

definition grants_warm_cache :: "grant_store \<Rightarrow> grant_store" where
  "grants_warm_cache gs =
     gs\<lparr>gs_cache := foldl (\<lambda>m g. m(ag_agent_name g \<mapsto>
          (case m (ag_agent_name g) of None \<Rightarrow> [] | Some l \<Rightarrow> l) @ [g])) Map.empty (gs_rows gs)\<rparr>"

definition agent_rows :: "string \<Rightarrow> agent_grant list \<Rightarrow> agent_grant list" where
  "agent_rows agent = filter (\<lambda>g. ag_agent_name g = agent)"

definition reload_agent :: "string \<Rightarrow> grant_store \<Rightarrow> grant_store" where
  "reload_agent agent gs =
     (let grants = agent_rows agent (gs_rows gs)
      in gs\<lparr>gs_cache := (gs_cache gs)(agent := (if grants \<noteq> [] then Some grants else None))\<rparr>)"

definition list_grants :: "string \<Rightarrow> grant_store \<Rightarrow> agent_grant list" where
  "list_grants agent gs = (case gs_cache gs agent of None \<Rightarrow> [] | Some l \<Rightarrow> l)"

definition expand_user_principals :: "user_store option \<Rightarrow> string \<Rightarrow> string set" where
  "expand_user_principals us user_id =
     (case us of
        None \<Rightarrow> {user_id}
      | Some st \<Rightarrow>
          if is_user_id user_id then {user_id} \<union> resolve_platform_keys st user_id
          else
            (let principals = (case resolve_user_id st user_id of
                   None \<Rightarrow> {user_id} | Some c \<Rightarrow> insert c {user_id})
             in principals \<union> resolve_aliases st user_id))"

fun scan_grants :: "agent_grant list \<Rightarrow> string set \<Rightarrow> string set \<Rightarrow> auth_decision option" where
  "scan_grants [] users roles = None"
| "scan_grants (g # gs) users roles =
     (if ag_capability g \<noteq> USE then scan_grants gs users roles
      else if pr_kind (ag_principal g) = USER \<and> pr_id (ag_principal g) \<in> users
        then Some (Allow (''use granted to user '' @ pr_id (ag_principal g)))
      else if pr_kind (ag_principal g) = ROLE \<and> pr_id (ag_principal g) \<in> roles
        then Some (Allow (''use granted via role '' @ pr_id (ag_principal g)))
      else scan_grants gs users roles)"

definition authorize ::
    "user_store option \<Rightarrow> string \<Rightarrow> string \<Rightarrow> string list \<Rightarrow> grant_store \<Rightarrow> auth_decision" where
  "authorize us agent user_id roles gs =
     (let grants = list_grants agent gs
      in if grants = [] then Deny (''no grants for agent '' @ agent)
         else
           (case scan_grants grants (expand_user_principals us user_id) (set roles) of
              Some d \<Rightarrow> d
            | None \<Rightarrow> Deny (''no use grant for principals on agent '' @ agent)))"

definition same_grant :: "string \<Rightarrow> principal \<Rightarrow> capability \<Rightarrow> agent_grant \<Rightarrow> bool" where
  "same_grant agent p cap g \<longleftrightarrow>
     ag_agent_name g = agent \<and> ag_principal g = p \<and> ag_capability g = cap"

definition overwrite_grant :: "agent_grant \<Rightarrow> agent_grant \<Rightarrow> agent_grant" where
  "overwrite_grant g r =
     (if same_grant (ag_agent_name g) (ag_principal g) (ag_capability g) r
      then r\<lparr>ag_granted_by := ag_granted_by g, ag_source := ag_source g\<rparr> else r)"

definition upsert_grant :: "agent_grant \<Rightarrow> agent_grant list \<Rightarrow> agent_grant list" where
  "upsert_grant g rows =
     (if list_ex (same_grant (ag_agent_name g) (ag_principal g) (ag_capability g)) rows
      then map (overwrite_grant g) rows
      else rows @ [g])"

definition grant ::
    "string \<Rightarrow> principal \<Rightarrow> capability \<Rightarrow> string \<Rightarrow> string \<Rightarrow> grant_store \<Rightarrow>
     (grant_error + agent_grant) \<times> grant_store" where
  "grant agent p cap granted_by source gs =
     (if agent = [] then (Inl EmptyAgentName, gs)
      else if granted_by = [] \<or> source = [] then (Inl EmptyProvenance, gs)
      else
        (let row = \<lparr>ag_agent_name = agent, ag_principal = p, ag_capability = cap,
                    ag_granted_by = granted_by, ag_source = source\<rparr>;
             gs' = reload_agent agent (gs\<lparr>gs_rows := upsert_grant row (gs_rows gs)\<rparr>)
         in (case find (\<lambda>g. ag_principal g = p \<and> ag_capability g = cap) (list_grants agent gs') of
               Some g \<Rightarrow> (Inr g, gs')
             | None \<Rightarrow> (Inl (MissingAfterWrite (pr_id p) agent), gs'))))"

definition revoke_grant ::
    "string \<Rightarrow> principal \<Rightarrow> capability \<Rightarrow> grant_store \<Rightarrow> (grant_error + bool) \<times> grant_store" where
  "revoke_grant agent p cap gs =
     (if agent = [] then (Inl EmptyAgentName, gs)
      else (Inr (list_ex (same_grant agent p cap) (gs_rows gs)),
            reload_agent agent
              (gs\<lparr>gs_rows := filter (\<lambda>g. \<not> same_grant agent p cap g) (gs_rows gs)\<rparr>)))"

text \<open>The loop of \<open>grant_human_platforms\<close> over the sorted keys; an error stops it.\<close>

fun grant_keys ::
    "string \<Rightarrow> string \<Rightarrow> string \<Rightarrow> string list \<Rightarrow> string list \<Rightarrow> grant_store \<Rightarrow>
     (grant_error + string list) \<times> grant_store" where
  "grant_keys agent granted_by source [] granted gs = (Inr granted, gs)"
| "grant_keys agent granted_by source (k # ks) granted gs =
     (case mk_principal USER k of
        Inl e \<Rightarrow> (Inl e, gs)
      | Inr p \<Rightarrow>
          (case grant agent p USE granted_by source gs of
             (Inl e, gs') \<Rightarrow> (Inl e, gs')
           | (Inr _, gs') \<Rightarrow> grant_keys agent granted_by source ks (granted @ [k]) gs'))"

definition grant_human_platforms ::
    "string \<Rightarrow> string \<Rightarrow> string \<Rightarrow> string \<Rightarrow> grant_store \<Rightarrow> user_store \<Rightarrow>
     (grant_error + string list) \<times> grant_store \<times> user_store" where
  "grant_human_platforms agent dash_user_id granted_by source gs us0 =
     (let us = warm_cache us0;
          ks = sorted_list_of_set (resolve_platform_keys us dash_user_id)
      in if ks = [] then (Inl (NoLinkedIdentities dash_user_id), gs, us)
         else (let (r, gs') = grant_keys agent granted_by source ks [] gs in (r, gs', us)))"

subsection \<open>Pairing codes\<close>

record pairing_code =
  pcd_created_by :: string
  pcd_expires :: time
  pcd_attempts :: int

type_synonym pairing_table = "(string, pairing_code) dict"

record pairing_config =
  pc_ttl_seconds :: int
  pc_max_pending :: int

definition default_pairing_config :: pairing_config where
  "default_pairing_config = \<lparr>pc_ttl_seconds = 3600, pc_max_pending = 3\<rparr>"

definition max_code_attempts :: int where "max_code_attempts = 10"

datatype pairing_error = MaxPending int string | CodeClash

definition count_pending :: "time \<Rightarrow> string \<Rightarrow> pairing_table \<Rightarrow> int" where
  "count_pending now admin tbl =
     int (length (filter (\<lambda>(_, c). pcd_created_by c = admin \<and> now < pcd_expires c) tbl))"

definition generate_code ::
    "(string \<Rightarrow> string) \<Rightarrow> pairing_config \<Rightarrow> time \<Rightarrow> string \<Rightarrow> string \<Rightarrow> pairing_table \<Rightarrow>
     (pairing_error + string) \<times> pairing_table" where
  "generate_code sha cfg now code admin tbl =
     (if pc_max_pending cfg \<le> count_pending now admin tbl
      then (Inl (MaxPending (pc_max_pending cfg) admin), tbl)
      else if map_of tbl (sha code) \<noteq> None then (Inl CodeClash, tbl)
      else (Inr code,
            tbl @ [(sha code, \<lparr>pcd_created_by = admin,
                               pcd_expires = now + of_int (pc_ttl_seconds cfg),
                               pcd_attempts = 0\<rparr>)]))"

text \<open>The transaction of \<open>validate_code\<close>: the message of a refusal, or None when the code is good.\<close>

definition claim_code :: "time \<Rightarrow> string \<Rightarrow> pairing_table \<Rightarrow> string option \<times> pairing_table" where
  "claim_code now code_hash tbl =
     (let counted = map (\<lambda>(h, c). (h, if h = code_hash then c\<lparr>pcd_attempts := pcd_attempts c + 1\<rparr>
                                     else c)) tbl
      in case map_of counted code_hash of
           None \<Rightarrow> (Some ''Invalid code.'', tbl)
         | Some c \<Rightarrow>
             (let deleted = AList.delete code_hash counted
              in if max_code_attempts \<le> pcd_attempts c
                 then (Some ''Code has been invalidated due to too many attempts.'', deleted)
                 else if pcd_expires c < now then (Some ''Code has expired.'', deleted)
                 else (None, deleted)))"

record pairing_manager =
  pm_codes :: pairing_table
  pm_grants :: "grant_store option"
  pm_users :: "user_store option"

text \<open>
  \<open>_SQLITE_STORE_ERRORS\<close> covers an integrity error and the missing-row RuntimeError; a
  ValueError (bad key, empty agent name) leaves \<open>validate_code\<close> as an exception.
\<close>

definition store_error :: "grant_error \<Rightarrow> bool" where
  "store_error e =
     (case e of MissingAfterWrite _ _ \<Rightarrow> True | UserStoreError IntegrityError \<Rightarrow> True | _ \<Rightarrow> False)"

definition persist_grant ::
    "string \<Rightarrow> string \<Rightarrow> string \<Rightarrow> string \<Rightarrow> grant_store \<Rightarrow> user_store \<Rightarrow>
     (grant_error + agent_grant) \<times> grant_store \<times> user_store" where
  "persist_grant fresh code_hash identity_key agent gs us =
     (case ensure_user fresh identity_key None us of
        (Inl e, us') \<Rightarrow> (Inl (UserStoreError e), gs, us')
      | (Inr rx_user, us') \<Rightarrow>
          (case mk_principal USER rx_user of
             Inl e \<Rightarrow> (Inl e, gs, us')
           | Inr p \<Rightarrow>
               (let (r, gs') = grant agent p USE ''invite'' code_hash gs in (r, gs', us'))))"

definition validate_code ::
    "(string \<Rightarrow> string) \<Rightarrow> time \<Rightarrow> string \<Rightarrow> string \<Rightarrow> string \<Rightarrow> string \<Rightarrow> pairing_manager \<Rightarrow>
     (grant_error + bool \<times> string) \<times> pairing_manager" where
  "validate_code sha now fresh code identity_key agent pm =
     (let (refusal, codes) = claim_code now (sha code) (pm_codes pm);
          pm1 = pm\<lparr>pm_codes := codes\<rparr>
      in case refusal of
           Some message \<Rightarrow> (Inr (False, message), pm1)
         | None \<Rightarrow>
             (case (pm_grants pm1, pm_users pm1) of
                (Some gs, Some us) \<Rightarrow>
                  (let (r, gs', us') = persist_grant fresh (sha code) identity_key agent gs us;
                       pm2 = pm1\<lparr>pm_grants := Some gs', pm_users := Some us'\<rparr>
                   in case r of
                        Inr _ \<Rightarrow> (Inr (True, ''Successfully paired.''), pm2)
                      | Inl e \<Rightarrow>
                          (if store_error e
                           then (Inr (False, ''Internal error persisting grant.''), pm2)
                           else (Inl e, pm2)))
              | _ \<Rightarrow> (Inr (True, ''Successfully paired.''), pm1)))"

definition revoke_session ::
    "string \<Rightarrow> string \<Rightarrow> pairing_manager \<Rightarrow> (grant_error + bool) \<times> pairing_manager" where
  "revoke_session identity_key agent pm =
     (case (pm_grants pm, pm_users pm) of
        (Some gs, Some us) \<Rightarrow>
          (let rx_user = (case resolve_user_id us identity_key of
                 Some u \<Rightarrow> Some u
               | None \<Rightarrow> if startswith user_id_prefix identity_key then Some identity_key else None)
           in case rx_user of
                None \<Rightarrow> (Inr False, pm)
              | Some u \<Rightarrow>
                  (case mk_principal USER u of
                     Inl e \<Rightarrow> (Inl e, pm)
                   | Inr p \<Rightarrow>
                       (let (r, gs') = revoke_grant agent p USE gs
                        in (r, pm\<lparr>pm_grants := Some gs'\<rparr>))))
      | _ \<Rightarrow> (Inr False, pm))"

subsection \<open>The cache against the table\<close>

definition gs_inv :: "grant_store \<Rightarrow> bool" where
  "gs_inv gs \<longleftrightarrow> (\<forall>a. list_grants a gs = agent_rows a (gs_rows gs))"

definition row_keys :: "agent_grant list \<Rightarrow> (string \<times> principal \<times> capability) list" where
  "row_keys = map (\<lambda>g. (ag_agent_name g, ag_principal g, ag_capability g))"

lemma gs_inv_warm [inv_intros]: "gs_inv (grants_warm_cache gs)"
proof -
  have "foldl (\<lambda>m g. m(ag_agent_name g \<mapsto>
          (case m (ag_agent_name g) of None \<Rightarrow> [] | Some l \<Rightarrow> l) @ [g])) m rows a =
        (if agent_rows a rows = [] then m a
         else Some ((case m a of None \<Rightarrow> [] | Some l \<Rightarrow> l) @ agent_rows a rows))" for m rows a
    by (induction rows arbitrary: m) (auto simp: agent_rows_def split: option.splits)
  then show ?thesis by (simp add: gs_inv_def grants_warm_cache_def list_grants_def)
qed

lemma gs_inv_reload:
  assumes "gs_inv gs" "\<And>a. a \<noteq> agent \<Longrightarrow> agent_rows a rows = agent_rows a (gs_rows gs)"
  shows "gs_inv (reload_agent agent (gs\<lparr>gs_rows := rows\<rparr>))"
  using assms by (auto simp: gs_inv_def reload_agent_def list_grants_def Let_def)

lemma same_grant_overwrite [simp]:
  "same_grant a p c (overwrite_grant g r) = same_grant a p c r"
  by (auto simp: overwrite_grant_def same_grant_def)

lemma agent_rows_upsert:
  assumes "a \<noteq> ag_agent_name g"
  shows "agent_rows a (upsert_grant g rows) = agent_rows a rows"
proof -
  have "agent_rows a (map (overwrite_grant g) rows) = agent_rows a rows"
    using assms by (induction rows) (auto simp: agent_rows_def overwrite_grant_def same_grant_def)
  with assms show ?thesis by (simp add: upsert_grant_def) (simp add: agent_rows_def)
qed

lemma agent_rows_remove:
  "a \<noteq> agent \<Longrightarrow> agent_rows a (filter (\<lambda>g. \<not> same_grant agent p cap g) rows) = agent_rows a rows"
  by (induction rows) (auto simp: agent_rows_def same_grant_def)

lemma grant_state:
  "snd (grant agent p cap grantor src gs) = gs \<or>
   snd (grant agent p cap grantor src gs) = reload_agent agent (gs\<lparr>gs_rows := upsert_grant
      \<lparr>ag_agent_name = agent, ag_principal = p, ag_capability = cap, ag_granted_by = grantor,
       ag_source = src\<rparr> (gs_rows gs)\<rparr>)"
  by (auto simp: grant_def Let_def split: option.split)

lemma gs_inv_grant [inv_intros]: "gs_inv gs \<Longrightarrow> gs_inv (snd (grant agent p cap g src gs))"
  using grant_state [of agent p cap g src gs]
  by (auto intro!: gs_inv_reload simp: agent_rows_upsert)

lemma gs_inv_revoke [inv_intros]: "gs_inv gs \<Longrightarrow> gs_inv (snd (revoke_grant agent p cap gs))"
  by (auto simp: revoke_grant_def intro!: gs_inv_reload agent_rows_remove)

lemma gs_inv_grant_keys [inv_intros]:
  "gs_inv gs \<Longrightarrow> gs_inv (snd (grant_keys agent g src ks acc gs))"
proof (induction agent g src ks acc gs rule: grant_keys.induct)
  case (2 agent g src k ks granted gs)
  show ?case
  proof (cases "mk_principal USER k")
    case (Inl e)
    with 2(2) show ?thesis by simp
  next
    case (Inr p)
    obtain r gs' where eq: "grant agent p USE g src gs = (r, gs')" by fastforce
    then have "gs_inv gs'" using gs_inv_grant [OF 2(2), of agent p USE g src] by simp
    with 2(1) [OF Inr eq [symmetric]] Inr eq show ?thesis by (cases r) simp_all
  qed
qed simp

text \<open>Who may reach an agent, read off the table.\<close>

definition table_allows :: "string set \<Rightarrow> string set \<Rightarrow> string \<Rightarrow> agent_grant list \<Rightarrow> bool" where
  "table_allows users roles agent rows \<longleftrightarrow>
     (\<exists>g\<in>set rows. ag_agent_name g = agent \<and> ag_capability g = USE \<and>
        pr_id (ag_principal g) \<in> (case pr_kind (ag_principal g) of USER \<Rightarrow> users | ROLE \<Rightarrow> roles))"

lemma scan_grants_iff:
  "(case scan_grants gs users roles of None \<Rightarrow> False | Some d \<Rightarrow> decision_allowed d) \<longleftrightarrow>
     (\<exists>g\<in>set gs. ag_capability g = USE \<and>
        pr_id (ag_principal g) \<in> (case pr_kind (ag_principal g) of USER \<Rightarrow> users | ROLE \<Rightarrow> roles))"
proof (induction gs)
  case (Cons g gs)
  then show ?case
    by (cases "pr_kind (ag_principal g)") (auto simp: decision_allowed_def)
qed simp

lemma authorize_iff:
  assumes "gs_inv gs"
  shows "decision_allowed (authorize us agent uid roles gs) \<longleftrightarrow>
     table_allows (expand_user_principals us uid) (set roles) agent (gs_rows gs)"
proof -
  have "decision_allowed (authorize us agent uid roles gs) \<longleftrightarrow>
      (case scan_grants (list_grants agent gs) (expand_user_principals us uid) (set roles) of
         None \<Rightarrow> False | Some d \<Rightarrow> decision_allowed d)"
    by (auto simp: authorize_def Let_def decision_allowed_def split: option.splits)
  also have "list_grants agent gs = agent_rows agent (gs_rows gs)"
    using assms by (simp add: gs_inv_def)
  finally show ?thesis
    by (auto simp: scan_grants_iff table_allows_def agent_rows_def)
qed

lemma expand_us: "expand_user_principals (Some st) uid = us.principals st uid"
  by (auto simp: expand_user_principals_def us.principals_def Let_def split: option.splits)

lemma upsert_has: "\<exists>r\<in>set (upsert_grant g rows).
    same_grant (ag_agent_name g) (ag_principal g) (ag_capability g) r"
  by (auto simp: upsert_grant_def list_ex_iff) (simp add: same_grant_def)

lemma upsert_keeps:
  "\<lbrakk>r \<in> set rows; same_grant a p c r\<rbrakk> \<Longrightarrow> \<exists>r'\<in>set (upsert_grant g rows). same_grant a p c r'"
  by (auto simp: upsert_grant_def)

definition grant_row :: "string \<Rightarrow> principal \<Rightarrow> capability \<Rightarrow> string \<Rightarrow> string \<Rightarrow> agent_grant" where
  "grant_row agent p cap g src =
     \<lparr>ag_agent_name = agent, ag_principal = p, ag_capability = cap, ag_granted_by = g,
      ag_source = src\<rparr>"

lemma grant_row_simps [simp]:
  "ag_agent_name (grant_row agent p cap g src) = agent"
  "ag_principal (grant_row agent p cap g src) = p"
  "ag_capability (grant_row agent p cap g src) = cap"
  by (simp_all add: grant_row_def)

lemma list_grants_reload [simp]:
  "list_grants agent (reload_agent agent gs) = agent_rows agent (gs_rows gs)"
  "gs_rows (reload_agent agent gs) = gs_rows gs"
  by (simp_all add: list_grants_def reload_agent_def Let_def)

text \<open>The row is always found again after the write.\<close>

lemma grant_result:
  assumes "agent \<noteq> []" "g \<noteq> []" "src \<noteq> []"
  shows "\<exists>r. grant agent p cap g src gs =
    (Inr r, reload_agent agent (gs\<lparr>gs_rows := upsert_grant (grant_row agent p cap g src) (gs_rows gs)\<rparr>))"
proof -
  let ?rows = "upsert_grant (grant_row agent p cap g src) (gs_rows gs)"
  obtain r where "r \<in> set ?rows" "same_grant agent p cap r"
    using upsert_has [of "grant_row agent p cap g src" "gs_rows gs"] by auto
  then have "find (\<lambda>g. ag_principal g = p \<and> ag_capability g = cap) (agent_rows agent ?rows) \<noteq> None"
    by (auto simp: find_None_iff agent_rows_def same_grant_def)
  with assms show ?thesis
    by (auto simp: grant_def grant_row_def [symmetric] Let_def)
qed

lemma grant_rows:
  assumes "grant agent p cap g src gs = (Inr r, gs')"
  shows "gs_rows gs' = upsert_grant (grant_row agent p cap g src) (gs_rows gs)"
proof -
  have "agent \<noteq> []" "g \<noteq> []" "src \<noteq> []"
    using assms unfolding grant_def by (auto split: if_split_asm)
  from grant_result [OF this, of p cap gs] assms show ?thesis by auto
qed

lemma grant_keys_result:
  assumes "grant_keys agent g src ks acc gs = (Inr ks', gs')" "gs_inv gs"
  shows "ks' = acc @ ks \<and>
    (\<forall>k\<in>set ks. \<exists>r\<in>set (gs_rows gs'). same_grant agent \<lparr>pr_kind = USER, pr_id = k\<rparr> USE r) \<and>
    (\<forall>a p c. (\<exists>r\<in>set (gs_rows gs). same_grant a p c r) \<longrightarrow> (\<exists>r\<in>set (gs_rows gs'). same_grant a p c r))"
  using assms
proof (induction agent g src ks acc gs rule: grant_keys.induct)
  case (2 agent g src k ks granted gs)
  obtain p where p: "mk_principal USER k = Inr p"
    using 2(2) by (cases "mk_principal USER k") auto
  then have pk: "p = \<lparr>pr_kind = USER, pr_id = k\<rparr>" by (auto simp: mk_principal_def split: if_splits)
  obtain r gs1 where g: "grant agent p USE g src gs = (Inr r, gs1)"
    using 2(2) p by (auto split: prod.splits sum.splits)
  have i1: "gs_inv gs1" using gs_inv_grant [OF 2(3), of agent p USE g src] g by simp
  have eq: "grant_keys agent g src ks (granted @ [k]) gs1 = (Inr ks', gs')"
    using 2(2) p g by simp
  note rows = grant_rows [OF g]
  from 2(1) [OF p g [symmetric] refl eq i1]
  have ih: "ks' = (granted @ [k]) @ ks"
      "\<forall>k\<in>set ks. \<exists>r\<in>set (gs_rows gs'). same_grant agent \<lparr>pr_kind = USER, pr_id = k\<rparr> USE r"
      "\<forall>a p c. (\<exists>r\<in>set (gs_rows gs1). same_grant a p c r) \<longrightarrow>
          (\<exists>r\<in>set (gs_rows gs'). same_grant a p c r)"
    by blast+
  have "\<exists>r\<in>set (gs_rows gs1). same_grant agent p USE r"
    using upsert_has [of "grant_row agent p USE g src" "gs_rows gs"] rows by simp
  moreover have "\<exists>r\<in>set (gs_rows gs1). same_grant a q c r"
    if "\<exists>r\<in>set (gs_rows gs). same_grant a q c r" for a q c
    using that upsert_keeps rows by metis
  ultimately show ?case using ih pk by auto
qed simp

subsection \<open>Runs\<close>

datatype grant_op =
    GGrant string principal capability string string
  | GRevoke string principal capability
  | GHuman string string string string user_store
  | GReconnect

fun grant_step :: "grant_store \<Rightarrow> grant_op \<Rightarrow> grant_store" where
  "grant_step gs (GGrant agent p cap g src) = snd (grant agent p cap g src gs)"
| "grant_step gs (GRevoke agent p cap) = snd (revoke_grant agent p cap gs)"
| "grant_step gs (GHuman agent u g src us) = fst (snd (grant_human_platforms agent u g src gs us))"
| "grant_step gs GReconnect = grants_warm_cache gs"

lemma grant_step_inv: "gs_inv gs \<Longrightarrow> gs_inv (grant_step gs op)"
  by (cases op) (auto simp: inv_intros grant_human_platforms_def Let_def split_beta)

lemma grant_run_inv: "gs_inv gs \<Longrightarrow> gs_inv (foldl grant_step gs ops)"
  by (induction ops arbitrary: gs) (simp_all add: grant_step_inv)

lemma gs_inv_init [simp]: "gs_inv (grant_store_init [])"
  by (simp add: gs_inv_def grant_store_init_def list_grants_def agent_rows_def)

lemma claim_code_gone: "map_of (snd (claim_code now h tbl)) h = None"
proof -
  have "map_of tbl h = None" if "map_of (map (\<lambda>(h', c). (h', if h' = h
      then c\<lparr>pcd_attempts := pcd_attempts c + 1\<rparr> else c)) tbl) h = None"
    using that by (induction tbl) (auto split: if_splits)
  then show ?thesis
    by (auto simp: claim_code_def Let_def AList.delete_conv' split: option.split)
qed

lemma map_of_counted:
  "map_of (map (\<lambda>(h', c). (h', if h' = h then f c else c)) tbl) h = map_option f (map_of tbl h)"
  by (induction tbl) auto

lemma claim_code_result:
  "fst (claim_code now h tbl) =
     (case map_of tbl h of
        None \<Rightarrow> Some ''Invalid code.''
      | Some c \<Rightarrow>
          if max_code_attempts \<le> pcd_attempts c + 1
          then Some ''Code has been invalidated due to too many attempts.''
          else if pcd_expires c < now then Some ''Code has expired.'' else None)"
  by (simp add: claim_code_def Let_def map_of_counted split: option.split)

definition fresh_codes :: "pairing_table \<Rightarrow> bool" where
  "fresh_codes tbl \<longleftrightarrow> list_all (\<lambda>(_, c). pcd_attempts c = 0) tbl"

lemma fresh_codes_generate:
  "fresh_codes tbl \<Longrightarrow> fresh_codes (snd (generate_code sha cfg now code admin tbl))"
  by (simp add: fresh_codes_def generate_code_def)

lemma fresh_codes_claim: "fresh_codes tbl \<Longrightarrow> fresh_codes (snd (claim_code now h tbl))"
proof -
  assume f: "fresh_codes tbl"
  have "fresh_codes (AList.delete h (map (\<lambda>(h', c). (h', if h' = h
      then c\<lparr>pcd_attempts := pcd_attempts c + 1\<rparr> else c)) tbl))"
    using f by (induction tbl) (auto simp: fresh_codes_def AList.delete_eq)
  with f show ?thesis by (simp add: claim_code_def Let_def split: option.split)
qed

datatype code_op =
    MintCode "string \<Rightarrow> string" pairing_config time string string
  | TryCode time string

fun code_step :: "pairing_table \<Rightarrow> code_op \<Rightarrow> pairing_table" where
  "code_step tbl (MintCode sha cfg now code admin) = snd (generate_code sha cfg now code admin tbl)"
| "code_step tbl (TryCode now h) = snd (claim_code now h tbl)"

lemma fresh_codes_run: "fresh_codes tbl \<Longrightarrow> fresh_codes (foldl code_step tbl ops)"
proof (induction ops arbitrary: tbl)
  case (Cons op ops)
  then show ?case by (cases op) (simp_all add: fresh_codes_generate fresh_codes_claim)
qed simp

subsection \<open>Properties\<close>

text \<open>
  C8: after any sequence of grants, revocations, per-human grants and reconnects, the cached
  decision for a user is exactly what the table says: some \<open>use\<close> row of that agent names one
  of the user's principals or roles. In particular an unknown agent or a missing grant denies.
\<close>

theorem authorize_reads_table:
  "let gs = foldl grant_step (grant_store_init []) ops
   in decision_allowed (authorize us agent uid roles gs) \<longleftrightarrow>
      table_allows (expand_user_principals us uid) (set roles) agent (gs_rows gs)"
  unfolding Let_def by (rule authorize_iff) (rule grant_run_inv, simp)

text \<open>
  in any reachable user registry, all platform keys linked to one user, and the canonical
  user id itself, get the same decision on every agent, so a grant to any one of them admits all.
\<close>

theorem linked_identities_share_access:
  assumes "us = foldl us_step user_store_init ops" "is_user_id u"
    "resolve_user_id us k1 = Some u" "resolve_user_id us k2 = Some u"
  shows "authorize (Some us) agent k1 roles gs = authorize (Some us) agent k2 roles gs \<and>
         authorize (Some us) agent k1 roles gs = authorize (Some us) agent u roles gs"
proof -
  have inv: "us_inv us" unfolding assms(1) by (rule us_run_inv) simp
  show ?thesis
    using us.linked_principals [OF inv assms(3)] us.linked_principals [OF inv assms(4)]
      us.human_principals [OF inv assms(2)]
    by (simp add: authorize_def expand_us Let_def)
qed

theorem linked_identities_share_access_witness:
  "let gs = snd (grant ''aria'' \<lparr>pr_kind = USER, pr_id = ''tg:user:7''\<rparr> USE ''admin'' ''cli''
               (grant_store_init []))
   in decision_allowed (authorize (Some sample_users) ''aria'' ''dc:user:8'' [] gs)"
proof -
  let ?gs = "snd (grant ''aria'' \<lparr>pr_kind = USER, pr_id = ''tg:user:7''\<rparr> USE ''admin'' ''cli''
               (grant_store_init []))"
  have "authorize (Some sample_users) ''aria'' ''tg:user:7'' [] ?gs =
        authorize (Some sample_users) ''aria'' ''dc:user:8'' [] ?gs"
    by (rule linked_identities_share_access [THEN conjunct1, of _ _ "''rx:user:1''"])
       (simp_all only: sample_users_def, code_simp+)
  moreover have "decision_allowed (authorize (Some sample_users) ''aria'' ''tg:user:7'' [] ?gs)"
    by code_simp
  ultimately show ?thesis by (simp add: Let_def)
qed

text \<open>
  Granting an agent to a dashboard user admits every one of the platform keys linked to that
  user at that moment, lists exactly those keys in sorted order, and takes no other grant away;
  a user without linked keys is refused and nothing is written.
\<close>

theorem grant_human_admits_all_keys:
  assumes "us_inv us" "gs_inv gs"
    "grant_human_platforms agent u granted_by source gs us = (r, gs', us')"
  shows "case r of
      Inr ks \<Rightarrow> set ks = resolve_platform_keys us u \<and> sorted ks \<and>
        (\<forall>k \<in> resolve_platform_keys us u. decision_allowed (authorize usx agent k roles gs')) \<and>
        (\<forall>a p. (\<exists>g\<in>set (gs_rows gs). same_grant a p USE g) \<longrightarrow>
           (\<exists>g\<in>set (gs_rows gs'). same_grant a p USE g))
    | Inl e \<Rightarrow> resolve_platform_keys us u = {} \<longrightarrow> e = NoLinkedIdentities u \<and> gs' = gs"
proof -
  have w: "us_inv (warm_cache us)" by (rule warm_cache_inv [OF assms(1)])
  have "us_idents (warm_cache us) = us_idents us"
    using cache_rows [of "us_idents us" "us\<lparr>us_key_to_user := Map.empty, us_user_to_keys := Map.empty\<rparr>"]
      us_inv_dest(3) [OF assms(1)] by (simp add: warm_cache_def)
  then have keys: "resolve_platform_keys (warm_cache us) u = resolve_platform_keys us u"
    using us_inv_dest(5) [OF assms(1)] us_inv_dest(5) [OF w] by simp
  have fin: "finite (resolve_platform_keys us u)"
    using finite_keys_of us_inv_dest(5) [OF assms(1)] by simp
  let ?ks = "sorted_list_of_set (resolve_platform_keys us u)"
  show ?thesis
  proof (cases "resolve_platform_keys us u = {}")
    case True
    with assms(3) show ?thesis by (auto simp: grant_human_platforms_def keys Let_def)
  next
    case False
    then have run: "grant_keys agent granted_by source ?ks [] gs = (r, gs')"
      using assms(3) fin by (auto simp: grant_human_platforms_def keys Let_def split_beta)
    show ?thesis
    proof (cases r)
      case (Inl e)
      with False show ?thesis by simp
    next
      case (Inr ks)
      with run have run: "grant_keys agent granted_by source ?ks [] gs = (Inr ks, gs')" by simp
      note res = grant_keys_result [OF run assms(2)]
      have inv': "gs_inv gs'" using gs_inv_grant_keys [OF assms(2)] run by (metis snd_conv)
      have ks: "ks = ?ks" using res by simp
      have "decision_allowed (authorize usx agent k roles gs')" if "k \<in> resolve_platform_keys us u" for k
      proof -
        have "k \<in> expand_user_principals usx k"
          by (auto simp: expand_user_principals_def Let_def split: option.split)
        moreover have "k \<in> set ?ks" using that fin by simp
        with res obtain g where "g \<in> set (gs_rows gs')"
          "same_grant agent \<lparr>pr_kind = USER, pr_id = k\<rparr> USE g"
          by blast
        ultimately show ?thesis
          by (auto simp: authorize_iff [OF inv'] table_allows_def same_grant_def intro!: bexI [of _ g])
      qed
      with res ks fin Inr show ?thesis by auto
    qed
  qed
qed

theorem grant_human_admits_all_keys_witness:
  "let gs' = fst (snd (grant_human_platforms ''aria'' ''rx:user:1'' ''admin'' ''dash''
               (grant_store_init []) sample_users))
   in decision_allowed (authorize None ''aria'' ''dc:user:8'' [] gs')"
proof -
  have inv: "us_inv sample_users" unfolding sample_users_def by (rule us_run_inv) simp
  let ?x = "grant_human_platforms ''aria'' ''rx:user:1'' ''admin'' ''dash''
               (grant_store_init []) sample_users"
  have r: "fst ?x = Inr [''dc:user:8'', ''tg:user:7'']" by code_simp
  have k: "''dc:user:8'' \<in> resolve_platform_keys sample_users ''rx:user:1''" by code_simp
  have "?x = (fst ?x, fst (snd ?x), snd (snd ?x))" by simp
  from grant_human_admits_all_keys [OF inv gs_inv_init this, of None "[]"] r k
  show ?thesis by (simp add: Let_def)
qed

text \<open>
  C9: a pairing code is good at most once: whatever \<open>validate_code\<close> answers, the code is gone
  afterwards and a second attempt is refused as invalid, without touching the table. In every table
  that minting and trying codes can reach, a code is refused only for being unknown or expired:
  the branch that counts attempts is never taken.
\<close>

theorem pairing_code_single_use:
  assumes "pm_codes pm = foldl code_step [] ops"
  shows "let (r, pm1) = validate_code sha now fresh code ident agent pm
   in validate_code sha t f code i a pm1 = (Inr (False, ''Invalid code.''), pm1) \<and>
      r \<noteq> Inr (False, ''Code has been invalidated due to too many attempts.'')"
proof -
  have pm1: "pm_codes (snd (validate_code sha now fresh code ident agent pm)) =
      snd (claim_code now (sha code) (pm_codes pm))"
    by (simp add: validate_code_def Let_def split_beta split: option.split sum.split)
  have "fresh_codes (pm_codes pm)" unfolding assms by (rule fresh_codes_run) (simp add: fresh_codes_def)
  then have z: "pcd_attempts c = 0" if "map_of (pm_codes pm) (sha code) = Some c" for c
    using map_of_SomeD [OF that] by (auto simp: fresh_codes_def list_all_iff)
  have "fst (claim_code now (sha code) (pm_codes pm)) \<noteq>
      Some ''Code has been invalidated due to too many attempts.''"
    using z by (auto simp: claim_code_result max_code_attempts_def split: option.split)
  then have "fst (validate_code sha now fresh code ident agent pm) \<noteq>
      Inr (False, ''Code has been invalidated due to too many attempts.'')"
    by (auto simp: validate_code_def Let_def split_beta split: option.splits sum.splits)
  moreover have "validate_code sha t f code i a pm1 = (Inr (False, ''Invalid code.''), pm1)"
    if "map_of (pm_codes pm1) (sha code) = None" for pm1
  proof -
    have "claim_code t (sha code) (pm_codes pm1) = (Some ''Invalid code.'', pm_codes pm1)"
      using that by (simp add: claim_code_def Let_def map_of_counted)
    then show ?thesis by (simp add: validate_code_def)
  qed
  ultimately show ?thesis
    using pm1 claim_code_gone [of now "sha code" "pm_codes pm"] by (simp add: split_beta Let_def)
qed

definition sample_pairing :: pairing_manager where
  "sample_pairing =
     \<lparr>pm_codes = foldl code_step [] [MintCode (\<lambda>s. ''h'' @ s) default_pairing_config 0 ''ABCD'' ''root''],
      pm_grants = Some (grant_store_init []), pm_users = Some user_store_init\<rparr>"

theorem pairing_code_single_use_witness:
  "let pm1 = snd (validate_code (\<lambda>s. ''h'' @ s) 60 ''rx:user:1'' ''ABCD'' ''tg:user:3'' ''aria'' sample_pairing)
   in fst (validate_code (\<lambda>s. ''h'' @ s) 61 ''rx:user:2'' ''ABCD'' ''tg:user:4'' ''aria'' pm1) =
      Inr (False, ''Invalid code.'')"
proof -
  have "pm_codes sample_pairing = foldl code_step []
      [MintCode (\<lambda>s. ''h'' @ s) default_pairing_config 0 ''ABCD'' ''root'']"
    by (simp add: sample_pairing_def)
  from pairing_code_single_use [OF this, of "\<lambda>s. ''h'' @ s" 60 "''rx:user:1''" "''ABCD''" "''tg:user:3''"
      "''aria''" 61 "''rx:user:2''" "''tg:user:4''" "''aria''"]
  show ?thesis by (simp add: Let_def split_beta)
qed

text \<open>
  a good code, presented with a platform key and with both stores wired, leaves its bearer
  authorized on the agent it was redeemed for; the fresh user id must not be taken yet when the
  bearer is new.
\<close>

theorem pairing_grants_access:
  assumes "us_inv us" "gs_inv gs" "pm_grants pm = Some gs" "pm_users pm = Some us"
    "validate_code sha now fresh code ident agent pm = (Inr (True, message), pm1)"
  shows "\<exists>gs1 us1. pm_grants pm1 = Some gs1 \<and> pm_users pm1 = Some us1 \<and>
     us_inv us1 \<and> decision_allowed (authorize (Some us1) agent ident [] gs1)"
proof -
  let ?h = "sha code"
  obtain r gs1 us1 where p: "persist_grant fresh ?h ident agent gs us = (r, gs1, us1)"
    using prod_cases3 by blast
  have st: "pm_grants pm1 = Some gs1" "pm_users pm1 = Some us1" and ok: "\<exists>g. r = Inr g"
    using assms(3-5) p
    by (auto simp: validate_code_def Let_def split_beta split: option.splits sum.splits if_splits)
  obtain x y where e0: "ensure_user fresh ident None us = (x, y)" by fastforce
  with p ok obtain rx where x: "x = Inr rx" by (cases x) (auto simp: persist_grant_def)
  let ?p = "\<lparr>pr_kind = USER, pr_id = rx\<rparr>"
  obtain x' y' where g0: "grant agent ?p USE ''invite'' ?h gs = (x', y')" by fastforce
  have "rx \<noteq> []" using p ok e0 x by (auto simp: persist_grant_def mk_principal_def)
  then have all: "r = x'" "gs1 = y'" "us1 = y"
    using p e0 x g0 by (auto simp: persist_grant_def mk_principal_def)
  with ok e0 x g0 obtain g where e: "ensure_user fresh ident None us = (Inr rx, us1)"
    and g: "grant agent ?p USE ''invite'' ?h gs = (Inr g, gs1)" by auto
  have inv1: "us_inv us1" using ensure_user_inv [OF assms(1), of fresh ident None] e by simp
  have ginv: "gs_inv gs1" using gs_inv_grant [OF assms(2), of agent ?p USE "''invite''" ?h] g by simp
  have "resolve_user_id us1 ident = Some rx"
    using ensure_user_owner [OF assms(1) e] us_inv_dest(4) [OF inv1] by (simp add: resolve_user_id_def)
  then have "rx \<in> expand_user_principals (Some us1) ident"
    by (simp add: expand_us us.linked_principals [OF inv1])
  moreover obtain row where "row \<in> set (gs_rows gs1)" "same_grant agent ?p USE row"
    using upsert_has [of "grant_row agent ?p USE ''invite'' ?h" "gs_rows gs"] grant_rows [OF g] by auto
  ultimately have "decision_allowed (authorize (Some us1) agent ident [] gs1)"
    by (auto simp: authorize_iff [OF ginv] table_allows_def same_grant_def intro!: bexI [of _ row])
  with st inv1 show ?thesis by blast
qed

theorem pairing_grants_access_witness:
  "\<exists>gs1 us1. pm_grants (snd (validate_code (\<lambda>s. ''h'' @ s) 60 ''rx:user:1'' ''ABCD'' ''tg:user:3'' ''aria''
      sample_pairing)) = Some gs1 \<and>
     pm_users (snd (validate_code (\<lambda>s. ''h'' @ s) 60 ''rx:user:1'' ''ABCD'' ''tg:user:3'' ''aria''
      sample_pairing)) = Some us1 \<and> us_inv us1 \<and>
     decision_allowed (authorize (Some us1) ''aria'' ''tg:user:3'' [] gs1)"
proof (rule pairing_grants_access [OF us_inv_init gs_inv_init])
  let ?v = "validate_code (\<lambda>s. ''h'' @ s) 60 ''rx:user:1'' ''ABCD'' ''tg:user:3'' ''aria'' sample_pairing"
  have "fst ?v = Inr (True, ''Successfully paired.'')" by code_simp
  then show "?v = (Inr (True, ''Successfully paired.''), snd ?v)" by (metis prod.collapse)
qed (simp_all add: sample_pairing_def)

end
