(* ===== verification/Auth.thy ===== *)
theory Auth
  imports User_Store
begin

text \<open>
  Trust: the levels (core/auth/trust.py), the resolved identity (core/auth/identity.py), the
  SQLite-backed grant store with its cache (infrastructure/stores/identity/auth_store.py) and the
  per-adapter resolver (core/auth/authenticator.py). A Python \<open>frozenset\<close> that is iterated is
  the list of its elements in the order the interpreter happens to choose; the theorems hold for
  every such order. A task scheduled on the event loop is an entry of a pending list.
\<close>

subsection \<open>Trust levels and identities\<close>

datatype trust_level = OWNER | TRUSTED | PUBLIC | BLOCKED

definition trust_value :: "trust_level \<Rightarrow> string" where
  "trust_value t = (case t of OWNER \<Rightarrow> ''owner'' | TRUSTED \<Rightarrow> ''trusted'' | PUBLIC \<Rightarrow> ''public''
                      | BLOCKED \<Rightarrow> ''blocked'')"

definition parse_trust :: "string \<Rightarrow> trust_level option" where
  "parse_trust s = find (\<lambda>t. trust_value t = s) [OWNER, TRUSTED, PUBLIC, BLOCKED]"

definition trust_order :: "trust_level \<Rightarrow> int" where
  "trust_order t = (case t of OWNER \<Rightarrow> 3 | TRUSTED \<Rightarrow> 2 | PUBLIC \<Rightarrow> 1 | BLOCKED \<Rightarrow> 0)"

record identity =
  id_user_id :: string
  id_trust_level :: trust_level
  id_is_admin :: bool

subsection \<open>The grant store\<close>

record auth_row =
  ar_trust :: trust_level
  ar_expires :: "time option"
  ar_granted_by :: string
  ar_source :: string

record auth_store =
  as_default :: trust_level
  as_rows :: "(string, auth_row) dict"
  as_cache :: "string \<rightharpoonup> trust_level \<times> time option"
  as_pending :: "string list"

definition auth_store_init :: "trust_level \<Rightarrow> (string, auth_row) dict \<Rightarrow> auth_store" where
  "auth_store_init dflt rows =
     \<lparr>as_default = dflt, as_rows = rows, as_cache = Map.empty, as_pending = []\<rparr>"

definition row_entry :: "auth_row \<Rightarrow> trust_level \<times> time option" where
  "row_entry r = (ar_trust r, ar_expires r)"

definition live_row :: "time \<Rightarrow> auth_row \<Rightarrow> bool" where
  "live_row now r = (case ar_expires r of None \<Rightarrow> True | Some e \<Rightarrow> now < e)"

definition auth_warm_cache :: "time \<Rightarrow> auth_store \<Rightarrow> auth_store" where
  "auth_warm_cache now st =
     st\<lparr>as_cache := foldl (\<lambda>m (k, r). m(k \<mapsto> row_entry r)) Map.empty
                      (filter (\<lambda>(_, r). live_row now r) (as_rows st))\<rparr>"

definition has_colon :: "string \<Rightarrow> bool" where
  "has_colon k \<longleftrightarrow> list_ex (\<lambda>c. c = CHR '':'') k"

definition cleanup_bare_ids :: "auth_store \<Rightarrow> auth_store" where
  "cleanup_bare_ids st =
     (let kept = filter (\<lambda>(k, _). has_colon k) (as_rows st);
          st1 = st\<lparr>as_rows := kept\<rparr>
      in if length kept < length (as_rows st)
         then st1\<lparr>as_cache := (\<lambda>k. if has_colon k then as_cache st k else None)\<rparr>
         else st1)"

definition auth_connect :: "time \<Rightarrow> auth_store \<Rightarrow> auth_store" where
  "auth_connect now st = cleanup_bare_ids (auth_warm_cache now st)"

definition auth_check :: "time \<Rightarrow> string \<Rightarrow> auth_store \<Rightarrow> trust_level \<times> auth_store" where
  "auth_check now key st =
     (case as_cache st key of
        None \<Rightarrow> (as_default st, st)
      | Some (trust, expires) \<Rightarrow>
          (case expires of
             None \<Rightarrow> (trust, st)
           | Some e \<Rightarrow>
               (if e < now
                then (as_default st, st\<lparr>as_cache := (as_cache st)(key := None),
                                        as_pending := as_pending st @ [key]\<rparr>)
                else (trust, st))))"

definition auth_upsert ::
    "string \<Rightarrow> trust_level \<Rightarrow> time option \<Rightarrow> string \<Rightarrow> string \<Rightarrow> auth_store \<Rightarrow> auth_store" where
  "auth_upsert key trust expires granted_by source st =
     (let row = \<lparr>ar_trust = trust, ar_expires = expires, ar_granted_by = granted_by,
                 ar_source = source\<rparr>;
          rows = (case map_of (as_rows st) key of
                    None \<Rightarrow> as_rows st @ [(key, row)]
                  | Some old \<Rightarrow> if ar_expires old \<noteq> None then AList.update key row (as_rows st)
                                else as_rows st);
          st1 = st\<lparr>as_rows := rows\<rparr>
      in case as_cache st key of
           None \<Rightarrow> st1\<lparr>as_cache := (as_cache st)(key \<mapsto> (trust, expires))\<rparr>
         | Some (_, e) \<Rightarrow>
             if e \<noteq> None then st1\<lparr>as_cache := (as_cache st)(key \<mapsto> (trust, expires))\<rparr> else st1)"

definition auth_revoke :: "string \<Rightarrow> auth_store \<Rightarrow> bool \<times> auth_store" where
  "auth_revoke key st =
     (map_of (as_rows st) key \<noteq> None,
      st\<lparr>as_rows := AList.delete key (as_rows st), as_cache := (as_cache st)(key := None)\<rparr>)"

text \<open>The event loop running the scheduled revocations, first scheduled first.\<close>

definition run_pending :: "auth_store \<Rightarrow> auth_store" where
  "run_pending st =
     foldl (\<lambda>st k. snd (auth_revoke k st)) (st\<lparr>as_pending := []\<rparr>) (as_pending st)"

subsection \<open>The cache against the table\<close>

definition as_inv :: "auth_store \<Rightarrow> bool" where
  "as_inv st \<longleftrightarrow>
     dict_wf (as_rows st) \<and>
     (\<forall>k e. as_cache st k = Some e \<longrightarrow> map_option row_entry (map_of (as_rows st) k) = Some e) \<and>
     (\<forall>k r. map_of (as_rows st) k = Some r \<longrightarrow> ar_expires r = None \<longrightarrow>
        as_cache st k = Some (row_entry r))"

lemma as_inv_cached:
  assumes "as_inv st" "as_cache st k = Some e"
  obtains r where "map_of (as_rows st) k = Some r" "row_entry r = e"
proof -
  have "map_option row_entry (map_of (as_rows st) k) = Some e"
    using assms unfolding as_inv_def by blast
  with that show ?thesis by (cases "map_of (as_rows st) k") auto
qed

lemma foldl_cache:
  "dict_wf rows \<Longrightarrow>
     foldl (\<lambda>m (k, r). m(k \<mapsto> row_entry r)) m rows =
     (\<lambda>k. case map_of rows k of Some r \<Rightarrow> Some (row_entry r) | None \<Rightarrow> m k)"
proof (induction rows arbitrary: m)
  case (Cons p rows)
  obtain a b where p: "p = (a, b)" by (cases p)
  with Cons.prems have "dict_wf rows" "map_of rows a = None"
    by (auto simp: dict_wf_def map_of_eq_None_iff)
  with Cons.IH show ?case by (auto simp: p fun_eq_iff)
qed simp

lemma auth_warm_cache_inv [inv_intros]:
  assumes "dict_wf (as_rows st)"
  shows "as_inv (auth_warm_cache now st)"
  using assms
  by (auto simp: as_inv_def auth_warm_cache_def foldl_cache map_of_filter_wf live_row_def
      split: option.splits if_splits)

lemma cleanup_bare_ids_inv [inv_intros]: "as_inv st \<Longrightarrow> as_inv (cleanup_bare_ids st)"
proof -
  assume inv: "as_inv st"
  show ?thesis
  proof (cases "length (filter (\<lambda>(k, _). has_colon k) (as_rows st)) < length (as_rows st)")
    case True
    let ?st = "cleanup_bare_ids st"
    have wf: "dict_wf (as_rows st)" using inv by (simp add: as_inv_def)
    have rows: "map_of (as_rows ?st) k = (if has_colon k then map_of (as_rows st) k else None)" for k
      by (auto simp: cleanup_bare_ids_def Let_def map_of_filter_wf [OF wf] split: option.splits)
    have cache: "as_cache ?st k = (if has_colon k then as_cache st k else None)" for k
      using True by (simp add: cleanup_bare_ids_def Let_def)
    have "dict_wf (as_rows ?st)" using wf by (simp add: cleanup_bare_ids_def Let_def)
    then show ?thesis
      using inv unfolding as_inv_def rows cache by simp
  next
    case False
    then have "filter (\<lambda>(k, _). has_colon k) (as_rows st) = as_rows st"
      by (metis (no_types, lifting) filter_id_conv le_neq_implies_less length_filter_le
          length_filter_less)
    with inv show ?thesis by (simp add: cleanup_bare_ids_def Let_def)
  qed
qed

lemma auth_check_inv [inv_intros]:
  assumes inv: "as_inv st"
  shows "as_inv (snd (auth_check now key st))"
proof (cases "snd (auth_check now key st) = st")
  case False
  then obtain t e where c: "as_cache st key = Some (t, Some e)"
    and st': "snd (auth_check now key st) =
      st\<lparr>as_cache := (as_cache st)(key := None), as_pending := as_pending st @ [key]\<rparr>"
    by (auto simp: auth_check_def split: option.splits if_splits)
  have "ar_expires r \<noteq> None" if "map_of (as_rows st) key = Some r" for r
    using c that by (elim as_inv_cached [OF inv]) (auto simp: row_entry_def)
  with inv show ?thesis unfolding st' by (auto simp: as_inv_def)
qed (use inv in simp)

text \<open>An upsert writes the row and the cache entry together, or neither.\<close>

definition pinned :: "auth_store \<Rightarrow> string \<Rightarrow> bool" where
  "pinned st key \<longleftrightarrow>
     (case map_of (as_rows st) key of None \<Rightarrow> False | Some old \<Rightarrow> ar_expires old = None)"

lemma auth_upsert_state:
  fixes key t e g s
  assumes inv: "as_inv st"
  defines "row \<equiv> \<lparr>ar_trust = t, ar_expires = e, ar_granted_by = g, ar_source = s\<rparr>"
  defines "st' \<equiv> auth_upsert key t e g s st"
  shows "map_of (as_rows st') = (if pinned st key then map_of (as_rows st)
                                 else (map_of (as_rows st))(key \<mapsto> row))"
    and "as_cache st' = (if pinned st key then as_cache st else (as_cache st)(key \<mapsto> (t, e)))"
    and "dict_wf (as_rows st')"
proof -
  have wf: "dict_wf (as_rows st)" using inv by (simp add: as_inv_def)
  show "map_of (as_rows st') = (if pinned st key then map_of (as_rows st)
                                 else (map_of (as_rows st))(key \<mapsto> row))"
  proof (cases "map_of (as_rows st) key")
    case None
    then show ?thesis
      by (auto simp: st'_def row_def auth_upsert_def Let_def pinned_def map_add_def fun_eq_iff
          split: option.splits)
  next
    case (Some old)
    then show ?thesis
      by (cases "ar_expires old")
         (auto simp: st'_def row_def auth_upsert_def Let_def pinned_def update_conv' split: option.splits)
  qed
  have "as_cache st key = Some c \<Longrightarrow> snd c = None \<longleftrightarrow> pinned st key" for c
    by (erule as_inv_cached [OF inv]) (auto simp: pinned_def row_entry_def)
  moreover have "as_cache st key = None \<Longrightarrow> \<not> pinned st key"
    using inv by (fastforce simp: pinned_def as_inv_def split: option.splits)
  ultimately show "as_cache st' = (if pinned st key then as_cache st else (as_cache st)(key \<mapsto> (t, e)))"
    by (cases "as_cache st key") (auto simp: st'_def auth_upsert_def Let_def)
  show "dict_wf (as_rows st')"
  proof -
    have "as_rows st' = (case map_of (as_rows st) key of
        None \<Rightarrow> as_rows st @ [(key, row)]
      | Some old \<Rightarrow> if ar_expires old \<noteq> None then AList.update key row (as_rows st) else as_rows st)"
      by (simp add: st'_def auth_upsert_def Let_def row_def split: option.split)
    with wf show ?thesis
      by (cases "map_of (as_rows st) key") (simp_all add: map_of_eq_None_iff dict_wf_append_new)
  qed
qed

lemma auth_upsert_inv [inv_intros]:
  assumes inv: "as_inv st"
  shows "as_inv (auth_upsert key t e g s st)"
  unfolding as_inv_def auth_upsert_state(1,2) [OF inv]
  using inv auth_upsert_state(3) [OF inv]
  by (cases "pinned st key") (simp_all add: as_inv_def row_entry_def)

lemma auth_revoke_inv [inv_intros]: "as_inv st \<Longrightarrow> as_inv (snd (auth_revoke key st))"
  by (auto simp: as_inv_def auth_revoke_def AList.delete_conv')

lemma as_inv_pending [simp]: "as_inv (st\<lparr>as_pending := p\<rparr>) = as_inv st"
  by (simp add: as_inv_def)

lemma run_pending_inv [inv_intros]: "as_inv st \<Longrightarrow> as_inv (run_pending st)"
proof -
  have "as_inv s \<Longrightarrow> as_inv (foldl (\<lambda>st k. snd (auth_revoke k st)) s ks)" for s ks
    by (induction ks arbitrary: s) (simp_all add: auth_revoke_inv)
  then show "as_inv st \<Longrightarrow> as_inv (run_pending st)" by (simp add: run_pending_def)
qed

datatype auth_op =
    ACheck time string
  | AUpsert string trust_level "time option" string string
  | ARevoke string
  | APending
  | AConnect time

fun auth_step :: "auth_store \<Rightarrow> auth_op \<Rightarrow> auth_store" where
  "auth_step st (ACheck now k) = snd (auth_check now k st)"
| "auth_step st (AUpsert k t e b s) = auth_upsert k t e b s st"
| "auth_step st (ARevoke k) = snd (auth_revoke k st)"
| "auth_step st APending = run_pending st"
| "auth_step st (AConnect now) = auth_connect now st"

lemma auth_step_inv: "as_inv st \<Longrightarrow> as_inv (auth_step st op)"
  by (cases op) (simp_all add: inv_intros auth_connect_def as_inv_def [of st])

subsection \<open>The authenticator\<close>

datatype store_dep = NoStore | BlockEveryoneStore | Stored auth_store

fun store_check :: "time \<Rightarrow> string \<Rightarrow> store_dep \<Rightarrow> trust_level option \<times> store_dep" where
  "store_check now key NoStore = (None, NoStore)"
| "store_check now key BlockEveryoneStore = (Some BLOCKED, BlockEveryoneStore)"
| "store_check now key (Stored st) = (let (t, st') = auth_check now key st in (Some t, Stored st'))"

record authenticator =
  au_store :: store_dep
  au_role_map :: "(string, trust_level) dict"
  au_default :: trust_level
  au_public_commands :: "string list"
  au_admin_user_ids :: "string list"
  au_aliases :: "(string \<Rightarrow> string list) option"

definition authenticator_init ::
    "store_dep \<Rightarrow> (string, trust_level) dict \<Rightarrow> trust_level \<Rightarrow> string list option \<Rightarrow> string list \<Rightarrow>
     (string \<Rightarrow> string list) option \<Rightarrow> authenticator" where
  "authenticator_init store role_map dflt public_commands admins aliases =
     \<lparr>au_store = store, au_role_map = role_map, au_default = dflt,
      au_public_commands = (case public_commands of None \<Rightarrow> [''/join''] | Some cs \<Rightarrow> cs),
      au_admin_user_ids = admins, au_aliases = aliases\<rparr>"

definition store_level :: "time \<Rightarrow> string \<Rightarrow> store_dep \<Rightarrow> trust_level option \<times> store_dep" where
  "store_level now user_id dep =
     (let (level, dep') = store_check now user_id dep
      in if level \<in> {Some OWNER, Some TRUSTED, Some BLOCKED} then (level, dep') else (None, dep'))"

definition best_role_level :: "authenticator \<Rightarrow> string list \<Rightarrow> trust_level option" where
  "best_role_level au roles =
     foldl (\<lambda>best role.
        case map_of (au_role_map au) role of
          None \<Rightarrow> best
        | Some c \<Rightarrow>
            (case best of None \<Rightarrow> Some c
             | Some b \<Rightarrow> if trust_order b < trust_order c then Some c else best)) None roles"

fun any_blocked :: "time \<Rightarrow> string list \<Rightarrow> store_dep \<Rightarrow> bool \<times> store_dep" where
  "any_blocked now [] dep = (False, dep)"
| "any_blocked now (a # as) dep =
     (let (level, dep') = store_level now a dep
      in if level = Some BLOCKED then (True, dep') else any_blocked now as dep')"

definition aliases_of :: "authenticator \<Rightarrow> string \<Rightarrow> string list" where
  "aliases_of au user_id = (case au_aliases au of None \<Rightarrow> [user_id] | Some f \<Rightarrow> f user_id)"

definition resolve_trust ::
    "time \<Rightarrow> string option \<Rightarrow> string option \<Rightarrow> authenticator \<Rightarrow> trust_level \<times> authenticator" where
  "resolve_trust now user_id command au =
     (case user_id of
        None \<Rightarrow> (BLOCKED, au)
      | Some u \<Rightarrow>
          (let (blocked, dep) = any_blocked now (aliases_of au u) (au_store au);
               au' = au\<lparr>au_store := dep\<rparr>
           in if blocked then (BLOCKED, au')
              else if command \<noteq> None \<and> the command \<in> set (au_public_commands au) then (PUBLIC, au')
              else (TRUSTED, au')))"

definition auth_resolve ::
    "time \<Rightarrow> string option \<Rightarrow> string option \<Rightarrow> authenticator \<Rightarrow> identity \<times> authenticator" where
  "auth_resolve now user_id command au =
     (let (trust, au') = resolve_trust now user_id command au;
          uid = (case user_id of None \<Rightarrow> [] | Some u \<Rightarrow> u);
          aliases = (if au_aliases au \<noteq> None \<and> uid \<noteq> [] then aliases_of au uid else [uid]);
          is_admin = (uid \<noteq> [] \<and> list_ex (\<lambda>a. a \<in> set (au_admin_user_ids au)) aliases)
      in (\<lparr>id_user_id = uid, id_trust_level = trust, id_is_admin = is_admin\<rparr>, au'))"

definition cli_sentinel :: "store_dep \<Rightarrow> string list \<Rightarrow> (string \<Rightarrow> string list) option \<Rightarrow> authenticator" where
  "cli_sentinel store admins aliases = authenticator_init store [] OWNER None admins aliases"

record auth_section =
  sec_default :: string
  sec_trusted_roles :: "string list"

datatype auth_config_error = InvalidDefault string

definition build_from_section_cfg ::
    "auth_section \<Rightarrow> store_dep \<Rightarrow> string list \<Rightarrow> (string \<Rightarrow> string list) option \<Rightarrow>
     auth_config_error + authenticator" where
  "build_from_section_cfg cfg store admins aliases =
     (case parse_trust (sec_default cfg) of
        None \<Rightarrow> Inl (InvalidDefault (sec_default cfg))
      | Some dflt \<Rightarrow>
          Inr (authenticator_init store
                 (foldl (\<lambda>m role. AList.update role TRUSTED m) [] (sec_trusted_roles cfg))
                 dflt None admins aliases))"

definition from_config ::
    "(string, auth_section) dict \<Rightarrow> string \<Rightarrow> store_dep \<Rightarrow> string list \<Rightarrow>
     (string \<Rightarrow> string list) option \<Rightarrow> auth_config_error + authenticator option" where
  "from_config auth_block section store admins aliases =
     (case map_of auth_block section of
        None \<Rightarrow>
          if section = ''cli'' then Inr (Some (cli_sentinel NoStore admins aliases)) else Inr None
      | Some cfg \<Rightarrow> map_sum id Some (build_from_section_cfg cfg store admins aliases))"

text \<open>The bot store is read once: whether it exists, and whether it has the bot's row.\<close>

definition from_bot_store ::
    "string \<Rightarrow> string \<Rightarrow> (string \<Rightarrow> string \<Rightarrow> bool) option \<Rightarrow> store_dep \<Rightarrow> string list \<Rightarrow>
     (string \<Rightarrow> string list) option \<Rightarrow> authenticator option" where
  "from_bot_store platform bot_id bot_rows store admins aliases =
     (if platform = ''cli'' then Some (cli_sentinel NoStore admins aliases)
      else
        (case bot_rows of
           None \<Rightarrow> None
         | Some has_row \<Rightarrow>
             if has_row platform bot_id
             then Some (authenticator_init store [] BLOCKED None admins aliases) else None))"

definition deny_all :: authenticator where
  "deny_all = authenticator_init BlockEveryoneStore [] BLOCKED None [] None"

definition allow_all :: authenticator where
  "allow_all = authenticator_init NoStore [] PUBLIC None [] None"

lemma auth_check_other:
  "fst (auth_check now a (snd (auth_check now b st))) = fst (auth_check now a st)"
  by (auto simp: auth_check_def split: option.splits)

lemma store_check_other:
  "fst (store_check now a (snd (store_check now b dep))) = fst (store_check now a dep)"
  by (cases dep) (simp_all add: split_beta auth_check_other)

definition is_banned :: "time \<Rightarrow> store_dep \<Rightarrow> string \<Rightarrow> bool" where
  "is_banned now dep a \<longleftrightarrow> fst (store_check now a dep) = Some BLOCKED"

lemma any_blocked_iff: "fst (any_blocked now as dep) \<longleftrightarrow> list_ex (is_banned now dep) as"
proof (induction as arbitrary: dep)
  case (Cons a as)
  have "is_banned now (snd (store_check now a dep)) = is_banned now dep"
    by (simp add: is_banned_def fun_eq_iff store_check_other)
  with Cons show ?case
    by (simp add: store_level_def split_beta Let_def is_banned_def [of now dep a])
qed simp

lemma auth_resolve_fst:
  "fst (auth_resolve now user_id command au) =
     (let uid = (case user_id of None \<Rightarrow> [] | Some u \<Rightarrow> u);
          aliases = (if au_aliases au \<noteq> None \<and> uid \<noteq> [] then aliases_of au uid else [uid])
      in \<lparr>id_user_id = uid, id_trust_level = fst (resolve_trust now user_id command au),
          id_is_admin = (uid \<noteq> [] \<and> list_ex (\<lambda>a. a \<in> set (au_admin_user_ids au)) aliases)\<rparr>)"
  by (simp add: auth_resolve_def split_beta Let_def)

subsection \<open>Properties\<close>

text \<open>
  C5: whatever order a user's aliases are checked in, and although every check may evict an
  expired grant, the resolved trust is BLOCKED exactly when no user is given or some alias is
  banned now; otherwise PUBLIC for a public command and TRUSTED for everything else. Admin status
  depends only on the aliases being listed, not on trust or command.
\<close>

theorem authenticator_resolves:
  assumes "set (aliases_of au u) = A"
  shows "let i = fst (auth_resolve now (Some u) command au)
   in id_trust_level i =
        (if \<exists>a\<in>A. is_banned now (au_store au) a then BLOCKED
         else if command \<in> Some ` set (au_public_commands au) then PUBLIC else TRUSTED) \<and>
      (id_is_admin i \<longleftrightarrow> u \<noteq> [] \<and> (\<exists>a\<in>A. a \<in> set (au_admin_user_ids au))) \<and>
      fst (resolve_trust now None command au) = BLOCKED"
proof -
  have blk: "fst (any_blocked now (aliases_of au u) (au_store au)) \<longleftrightarrow>
      (\<exists>a\<in>A. is_banned now (au_store au) a)"
    using assms by (simp add: any_blocked_iff list_ex_iff)
  have "fst (resolve_trust now (Some u) command au) =
      (if \<exists>a\<in>A. is_banned now (au_store au) a then BLOCKED
       else if command \<in> Some ` set (au_public_commands au) then PUBLIC else TRUSTED)"
    by (cases command) (auto simp add: resolve_trust_def split_beta Let_def blk)
  moreover have "id_is_admin (fst (auth_resolve now (Some u) command au)) \<longleftrightarrow>
      u \<noteq> [] \<and> (\<exists>a\<in>A. a \<in> set (au_admin_user_ids au))"
    using assms by (cases "au_aliases au")
      (auto simp: auth_resolve_fst Let_def list_ex_iff aliases_of_def)
  ultimately show ?thesis
    by (simp add: auth_resolve_fst Let_def resolve_trust_def)
qed

definition banned_sample :: authenticator where
  "banned_sample = authenticator_init
     (Stored (auth_upsert ''dc:user:2'' BLOCKED None ''admin'' ''cli'' (auth_store_init PUBLIC [])))
     [] BLOCKED None [''tg:user:1''] (Some (\<lambda>u. [''tg:user:1'', ''dc:user:2'']))"

theorem authenticator_resolves_witness:
  "let i = fst (auth_resolve 5 (Some ''tg:user:1'') (Some ''/join'') banned_sample)
   in id_trust_level i = BLOCKED \<and> id_is_admin i"
proof -
  have "set (aliases_of banned_sample ''tg:user:1'') = {''tg:user:1'', ''dc:user:2''}"
    by (simp add: banned_sample_def authenticator_init_def aliases_of_def)
  from authenticator_resolves [OF this, of 5 "Some ''/join''"] show ?thesis
    by (simp add: Let_def is_banned_def banned_sample_def authenticator_init_def auth_check_def
        auth_upsert_def auth_store_init_def split_beta)
qed

fun touches_key :: "string \<Rightarrow> auth_op \<Rightarrow> bool" where
  "touches_key k (ARevoke k') \<longleftrightarrow> k' = k"
| "touches_key k _ \<longleftrightarrow> False"

definition permanent :: "string \<Rightarrow> trust_level \<Rightarrow> auth_store \<Rightarrow> bool" where
  "permanent k t st \<longleftrightarrow> as_inv st \<and> k \<notin> set (as_pending st) \<and> has_colon k \<and>
     as_cache st k = Some (t, None)"

lemma foldl_revoke_other:
  "k \<notin> set ks \<Longrightarrow> as_cache (foldl (\<lambda>st k. snd (auth_revoke k st)) st ks) k = as_cache st k"
  "as_pending (foldl (\<lambda>st k. snd (auth_revoke k st)) st ks) = as_pending st"
  by (induction ks arbitrary: st) (simp_all add: auth_revoke_def)

lemma permanent_step:
  assumes p: "permanent k t st" and op: "\<not> touches_key k op"
  shows "permanent k t (auth_step st op)"
proof -
  have inv: "as_inv st" and c: "as_cache st k = Some (t, None)" and pe: "k \<notin> set (as_pending st)"
    and col: "has_colon k"
    using p by (auto simp: permanent_def)
  have wf: "dict_wf (as_rows st)" using inv by (simp add: as_inv_def)
  obtain r where r: "map_of (as_rows st) k = Some r" "row_entry r = (t, None)"
    by (rule as_inv_cached [OF inv c])
  have "as_cache (auth_step st op) k = Some (t, None) \<and> k \<notin> set (as_pending (auth_step st op))"
  proof (cases op)
    case (ACheck now k')
    with c pe show ?thesis by (auto simp: auth_check_def split: option.splits)
  next
    case (AUpsert k' t' e b s)
    with c pe show ?thesis by (auto simp: auth_upsert_def Let_def split: option.splits)
  next
    case (ARevoke k')
    with c pe op show ?thesis by (auto simp: auth_revoke_def)
  next
    case APending
    with c pe show ?thesis by (simp add: run_pending_def foldl_revoke_other)
  next
    case (AConnect now)
    have "as_cache (auth_warm_cache now st) k = Some (t, None)"
      using r by (simp add: auth_warm_cache_def foldl_cache wf map_of_filter_wf live_row_def)
        (simp add: row_entry_def)
    with AConnect col pe show ?thesis
      by (simp add: auth_connect_def cleanup_bare_ids_def Let_def auth_warm_cache_def)
  qed
  with p col auth_step_inv [OF inv, of op] show ?thesis by (simp add: permanent_def)
qed

lemma permanent_run:
  "permanent k t st \<Longrightarrow> list_all (\<lambda>op. \<not> touches_key k op) ops \<Longrightarrow>
     permanent k t (foldl auth_step st ops)"
  by (induction ops arbitrary: st) (simp_all add: permanent_step)



text \<open>
  C7: a check that finds an expired grant schedules a revocation of the key, and a new grant or
  ban written before the event loop runs it is deleted again: the key is back at the default.
\<close>

theorem regrant_lost_to_scheduled_revoke:
  assumes "as_pending st = []" "as_cache st key = Some (old, Some e)" "e < now"
  shows "let st1 = auth_upsert key trust expires granted_by source (snd (auth_check now key st))
         in fst (auth_check now key (run_pending st1)) = as_default st \<and>
            map_of (as_rows (run_pending st1)) key = None"
  using assms
  by (simp add: Let_def auth_check_def auth_upsert_def run_pending_def auth_revoke_def
      AList.delete_conv' split: option.splits)

theorem regrant_lost_to_scheduled_revoke_witness:
  "let st = auth_upsert ''tg:user:5'' TRUSTED (Some 10) ''a'' ''b'' (auth_store_init PUBLIC []);
       st1 = auth_upsert ''tg:user:5'' BLOCKED None ''admin'' ''cli'' (snd (auth_check 20 ''tg:user:5'' st))
   in fst (auth_check 20 ''tg:user:5'' st1) = BLOCKED \<and>
      fst (auth_check 20 ''tg:user:5'' (run_pending st1)) = PUBLIC"
proof -
  let ?st = "auth_upsert ''tg:user:5'' TRUSTED (Some 10) ''a'' ''b'' (auth_store_init PUBLIC [])"
  have "as_pending ?st = []" "as_cache ?st ''tg:user:5'' = Some (TRUSTED, Some 10)"
    by (simp_all add: auth_upsert_def auth_store_init_def)
  from regrant_lost_to_scheduled_revoke [OF this, of 20 BLOCKED None "''admin''" "''cli''"]
  show ?thesis
    by (simp add: Let_def) (simp add: auth_check_def auth_upsert_def auth_store_init_def)
qed

end
