(* ===== verification/Message.thy ===== *)
theory Message
  imports Auth
begin

text \<open>
  The inbound envelope (core/messaging/message.py), the command parser
  (core/commands/command_parser.py) and the debouncer that aggregates bursts
  (core/lifecycle/debouncer.py). Fields of the envelope that no modelled operation reads are left
  out; attachments are opaque strings, an audio payload is its blob reference when it has one. The queue a debouncer reads is the list of arrivals with
  their arrival times: everything up to the current time is already queued, the rest comes later.
\<close>

subsection \<open>Envelope\<close>

datatype platform = Telegram | Discord | Web

definition platform_value :: "platform \<Rightarrow> string" where
  "platform_value p = (case p of Telegram \<Rightarrow> ''telegram'' | Discord \<Rightarrow> ''discord'' | Web \<Rightarrow> ''web'')"

definition parse_platform :: "string \<Rightarrow> platform option" where
  "parse_platform s = find (\<lambda>p. platform_value p = s) [Telegram, Discord, Web]"

lemma parse_platform_value [simp]: "parse_platform (platform_value p) = Some p"
  by (cases p) (simp_all add: parse_platform_def platform_value_def)

lemma parse_platform_Some: "parse_platform s = Some p \<Longrightarrow> s = platform_value p"
  by (auto simp: parse_platform_def split: if_splits)

record command_context =
  cc_prefix :: string
  cc_name :: string
  cc_args :: string
  cc_raw :: string

record inbound_message =
  m_id :: string
  m_platform :: string
  m_bot_id :: string
  m_scope_id :: string
  m_user_id :: string
  m_is_mention :: bool
  m_text :: string
  m_text_raw :: string
  m_trust_level :: trust_level
  m_is_admin :: bool
  m_roles :: "string list"
  m_attachments :: "string list"
  m_reply_to_id :: "string option"
  m_command :: "command_context option"
  m_has_session_update_fn :: bool
  m_trace_id :: "string option"
  m_modality :: "string option"
  m_audio :: "string option option"
  m_language :: "string option"

subsection \<open>Commands\<close>

text \<open>\<open>s.split(None, 1)\<close> of a text whose first character is not a blank.\<close>

definition split_first_word :: "string \<Rightarrow> string \<times> string" where
  "split_first_word s = (takeWhile (\<lambda>c. \<not> is_space c) s, py_lstrip (dropWhile (\<lambda>c. \<not> is_space c) s))"

fun parse_command_with :: "string list \<Rightarrow> string \<Rightarrow> command_context option" where
  "parse_command_with [] text = None"
| "parse_command_with (pre # ps) text =
     (if startswith pre text \<and> length pre < length text \<and>
         \<not> is_space (hd (drop (length pre) text))
      then (let (name, args) = split_first_word (drop (length pre) text)
            in Some \<lparr>cc_prefix = pre, cc_name = py_lower name, cc_args = args, cc_raw = text\<rparr>)
      else parse_command_with ps text)"

definition command_prefixes :: "string list" where "command_prefixes = [''/'', ''!'']"

definition parse_command :: "string \<Rightarrow> command_context option" where
  "parse_command text = parse_command_with command_prefixes text"

subsection \<open>The debouncer\<close>

record debouncer =
  debounce_ms :: int
  max_merged_chars :: int

definition debouncer_default :: debouncer where
  "debouncer_default = \<lparr>debounce_ms = 300, max_merged_chars = 4096\<rparr>"

type_synonym arrivals = "(time \<times> inbound_message) list"

definition queued :: "time \<Rightarrow> arrivals \<Rightarrow> arrivals \<times> arrivals" where
  "queued now xs = (takeWhile (\<lambda>(t, _). t \<le> now) xs, dropWhile (\<lambda>(t, _). t \<le> now) xs)"

text \<open>
  The loop over \<open>wait_for(inbox.get(), timeout)\<close>: what it takes, what stays, and when it gives
  up. A message that arrives exactly at the deadline is counted as too late.
\<close>

fun drain_window :: "time \<Rightarrow> time \<Rightarrow> arrivals \<Rightarrow> arrivals \<times> arrivals \<times> time" where
  "drain_window timeout now [] = ([], [], now + timeout)"
| "drain_window timeout now ((t, m) # xs) =
     (if t \<le> now \<or> t - now < timeout
      then (let (taken, rest, e) = drain_window timeout (max now t) xs in ((t, m) # taken, rest, e))
      else ([], (t, m) # xs, now + timeout))"

definition drain_followups ::
    "debouncer \<Rightarrow> time \<Rightarrow> arrivals \<Rightarrow> inbound_message list \<times> arrivals \<times> time" where
  "drain_followups db now xs =
     (if debounce_ms db \<le> 0
      then (let (taken, rest) = queued now xs in (map snd taken, rest, now))
      else (let (taken, rest, e) = drain_window (of_int (debounce_ms db) / 1000) now xs
            in (map snd taken, rest, e)))"

text \<open>\<open>collect\<close> blocks for the first message; with no message ever coming it never returns.\<close>

definition collect ::
    "debouncer \<Rightarrow> time \<Rightarrow> arrivals \<Rightarrow> (inbound_message list \<times> arrivals \<times> time) option" where
  "collect db now xs =
     (case xs of
        [] \<Rightarrow> None
      | (t, m) # ys \<Rightarrow>
          (let now' = max now t
           in if debounce_ms db \<le> 0
              then (let (taken, rest) = queued now' ys in Some (m # map snd taken, rest, now'))
              else (let (taken, rest, e) = drain_window (of_int (debounce_ms db) / 1000) now' ys
                    in Some (m # map snd taken, rest, e))))"

text \<open>\<open>s[:n]\<close> with Python's reading of a negative bound.\<close>

definition py_upto :: "int \<Rightarrow> 'a list \<Rightarrow> 'a list" where
  "py_upto n s = (if 0 \<le> n then take (nat n) s else take (nat (int (length s) + n)) s)"

datatype merge_error = EmptyMessages

definition merge :: "debouncer \<Rightarrow> inbound_message list \<Rightarrow> merge_error + inbound_message" where
  "merge db ms =
     (if ms = [] then Inl EmptyMessages
      else if length ms = 1 then Inr (hd ms)
      else Inr ((last ms)\<lparr>
             m_text := py_upto (max_merged_chars db) (py_join [CHR 0x0A] (map m_text ms)),
             m_text_raw := py_upto (max_merged_chars db) (py_join [CHR 0x0A] (map m_text_raw ms)),
             m_is_mention := list_ex m_is_mention ms,
             m_attachments := concat (map m_attachments ms)\<rparr>))"

subsection \<open>Windows\<close>

lemma drain_window_split:
  "drain_window timeout now xs = (taken, rest, e) \<Longrightarrow> xs = taken @ rest"
  by (induction timeout now xs arbitrary: taken rest e rule: drain_window.induct)
     (auto split: if_splits prod.splits)

text \<open>Each message arrives within the timeout of the one before it, counted from \<open>now\<close>.\<close>

fun in_burst :: "time \<Rightarrow> time \<Rightarrow> time list \<Rightarrow> bool" where
  "in_burst timeout now [] = True"
| "in_burst timeout now (t # ts) \<longleftrightarrow> t < now + timeout \<and> in_burst timeout (max now t) ts"

fun last_time :: "time \<Rightarrow> time list \<Rightarrow> time" where
  "last_time now [] = now"
| "last_time now (t # ts) = last_time (max now t) ts"

lemma drain_window_spec:
  assumes "0 < timeout" "drain_window timeout now xs = (taken, rest, e)"
  shows "in_burst timeout now (map fst taken) \<and> e = last_time now (map fst taken) + timeout \<and>
         (rest \<noteq> [] \<longrightarrow> e \<le> fst (hd rest))"
  using assms
proof (induction timeout now xs arbitrary: taken rest e rule: drain_window.induct)
  case (2 timeout now t m xs)
  show ?case
  proof (cases "t \<le> now \<or> t - now < timeout")
    case True
    with 2 show ?thesis by (force split: prod.splits)
  next
    case False
    with 2 show ?thesis by auto
  qed
qed auto

subsection \<open>Merging\<close>

lemma py_join_append:
  "xs \<noteq> [] \<Longrightarrow> ys \<noteq> [] \<Longrightarrow> py_join sep (xs @ ys) = py_join sep xs @ sep @ py_join sep ys"
proof (induction sep xs rule: py_join.induct)
  case (2 sep x)
  then show ?case by (cases ys) auto
qed auto

lemma take_pieces:
  "take n (take n x @ s @ take n y) = take n (x @ s @ y)"
  by (cases "length x \<le> n") (auto simp: min_def)

text \<open>What one group contributes to a merge: its text, possibly already cut.\<close>

lemma merge_Inr: "ms \<noteq> [] \<Longrightarrow> \<exists>m. merge db ms = Inr m"
  by (simp add: merge_def)

lemma merge_fields_all:
  assumes "merge db ms = Inr m" "0 \<le> max_merged_chars db"
  defines "n \<equiv> nat (max_merged_chars db)"
  shows "take n (m_text m) = take n (py_join [CHR 0x0A] (map m_text ms)) \<and>
    take n (m_text_raw m) = take n (py_join [CHR 0x0A] (map m_text_raw ms)) \<and>
    m_is_mention m = list_ex m_is_mention ms \<and> m_attachments m = concat (map m_attachments ms) \<and>
    m\<lparr>m_text := [], m_text_raw := [], m_is_mention := False, m_attachments := []\<rparr> =
       (last ms)\<lparr>m_text := [], m_text_raw := [], m_is_mention := False, m_attachments := []\<rparr>"
proof (cases "length ms = 1")
  case True
  then obtain x where "ms = [x]" by (cases ms) auto
  with assms(1) show ?thesis by (simp add: merge_def)
next
  case False
  with assms(1,2) show ?thesis by (auto simp: merge_def py_upto_def n_def split: if_split_asm)
qed

lemmas merge_fields = merge_fields_all [THEN conjunct1] merge_fields_all [THEN conjunct2, THEN conjunct1]
  merge_fields_all [THEN conjunct2, THEN conjunct2, THEN conjunct1]
  merge_fields_all [THEN conjunct2, THEN conjunct2, THEN conjunct2, THEN conjunct1]
  merge_fields_all [THEN conjunct2, THEN conjunct2, THEN conjunct2, THEN conjunct2]

lemma merge_two:
  "0 \<le> max_merged_chars db \<Longrightarrow> merge db (x # y # zs) = Inr ((last (y # zs))\<lparr>
      m_text := take (nat (max_merged_chars db)) (py_join [CHR 0x0A] (map m_text (x # y # zs))),
      m_text_raw := take (nat (max_merged_chars db)) (py_join [CHR 0x0A] (map m_text_raw (x # y # zs))),
      m_is_mention := list_ex m_is_mention (x # y # zs),
      m_attachments := concat (map m_attachments (x # y # zs))\<rparr>)"
  by (simp add: merge_def py_upto_def)

lemma take_join_cong:
  assumes "take n x = take n x'" "take n y = take n y'"
  shows "take n (x @ s @ y) = take n (x' @ s @ y')"
  by (metis assms take_pieces)

lemma merge_regroups:
  assumes m: "0 \<le> max_merged_chars db" and x: "merge db xs = Inr mx" and y: "merge db ys = Inr my"
  shows "merge db [mx, my] = merge db (xs @ ys)"
proof -
  have ne: "xs \<noteq> []" "ys \<noteq> []" using x y by (auto simp: merge_def)
  then obtain a b zs where abz: "xs @ ys = a # b # zs"
    by (cases xs; cases "tl xs @ ys") (auto simp: neq_Nil_conv Cons_eq_append_conv)
  note fx = merge_fields [OF x m] and fy = merge_fields [OF y m]
  let ?n = "nat (max_merged_chars db)"
  have t: "take ?n (py_join [CHR 0x0A] [m_text mx, m_text my]) =
      take ?n (py_join [CHR 0x0A] (map m_text (xs @ ys)))"
    using take_join_cong [OF fx(1) fy(1), of "[CHR 0x0A]"] ne by (simp add: py_join_append)
  have r: "take ?n (py_join [CHR 0x0A] [m_text_raw mx, m_text_raw my]) =
      take ?n (py_join [CHR 0x0A] (map m_text_raw (xs @ ys)))"
    using take_join_cong [OF fx(2) fy(2), of "[CHR 0x0A]"] ne by (simp add: py_join_append)
  have l: "last (b # zs) = last ys" using abz ne by (metis last_ConsR last_append list.distinct(1))
  have "merge db (xs @ ys) = Inr ((last ys)\<lparr>
      m_text := take ?n (py_join [CHR 0x0A] (map m_text (xs @ ys))),
      m_text_raw := take ?n (py_join [CHR 0x0A] (map m_text_raw (xs @ ys))),
      m_is_mention := list_ex m_is_mention (xs @ ys),
      m_attachments := concat (map m_attachments (xs @ ys))\<rparr>)"
    unfolding abz merge_two [OF m] l by (rule refl)
  moreover have "merge db [mx, my] = Inr (my\<lparr>
      m_text := take ?n (py_join [CHR 0x0A] [m_text mx, m_text my]),
      m_text_raw := take ?n (py_join [CHR 0x0A] [m_text_raw mx, m_text_raw my]),
      m_is_mention := list_ex m_is_mention (xs @ ys),
      m_attachments := concat (map m_attachments (xs @ ys))\<rparr>)"
    using fx(3,4) fy(3,4) by (simp add: merge_two [OF m])
  moreover have "my\<lparr>m_text := u, m_text_raw := v, m_is_mention := w, m_attachments := z\<rparr> =
      (last ys)\<lparr>m_text := u, m_text_raw := v, m_is_mention := w, m_attachments := z\<rparr>" for u v w z
    using fy(5) by (cases my; cases "last ys") simp
  ultimately show ?thesis unfolding t r by simp
qed

subsection \<open>Properties\<close>

text \<open>
  \<open>collect\<close> loses, duplicates and reorders nothing: it takes a non-empty prefix of the
  arrivals. With a positive window every message of the batch came within the window of the one
  before it, and the next message, if any, came no earlier than the window after the last one.
\<close>

theorem collect_takes_one_burst:
  assumes "collect db now xs = Some (batch, rest, e)" "0 < debounce_ms db"
  shows "\<exists>pre. xs = pre @ rest \<and> pre \<noteq> [] \<and> batch = map snd pre \<and>
    (let w = of_int (debounce_ms db) / 1000; start = max now (fst (hd pre))
     in in_burst w start (map fst (tl pre)) \<and>
        e = last_time start (map fst (tl pre)) + w \<and> (rest \<noteq> [] \<longrightarrow> e \<le> fst (hd rest)))"
proof -
  let ?w = "of_int (debounce_ms db) / 1000 :: time"
  obtain t m ys where xs: "xs = (t, m) # ys"
    using assms(1) by (cases xs) (auto simp: collect_def)
  obtain taken where d: "drain_window ?w (max now t) ys = (taken, rest, e)"
    and b: "batch = m # map snd taken"
    using assms by (auto simp: collect_def xs Let_def split: prod.splits)
  have w: "0 < ?w" using assms(2) by simp
  from drain_window_spec [OF w d] drain_window_split [OF d] show ?thesis
    by (intro exI [of _ "(t, m) # taken"]) (auto simp: xs b Let_def)
qed

definition sample_message :: "string \<Rightarrow> string \<Rightarrow> inbound_message" where
  "sample_message i text =
     \<lparr>m_id = i, m_platform = ''telegram'', m_bot_id = ''main'', m_scope_id = ''chat:1'',
      m_user_id = ''tg:user:7'', m_is_mention = False, m_text = text, m_text_raw = text,
      m_trust_level = PUBLIC, m_is_admin = False, m_roles = [], m_attachments = [],
      m_reply_to_id = None, m_command = None, m_has_session_update_fn = False, m_trace_id = None,
      m_modality = None, m_audio = None, m_language = None\<rparr>"

theorem collect_takes_one_burst_witness:
  "\<exists>pre. [(1, sample_message ''a'' ''hi''), (6 / 5, sample_message ''b'' ''you''), (3, sample_message ''c'' ''?'')] =
      pre @ [(3, sample_message ''c'' ''?'')] \<and>
     map snd pre = [sample_message ''a'' ''hi'', sample_message ''b'' ''you'']"
proof -
  have "collect debouncer_default 0
      [(1, sample_message ''a'' ''hi''), (6 / 5, sample_message ''b'' ''you''), (3, sample_message ''c'' ''?'')] =
      Some ([sample_message ''a'' ''hi'', sample_message ''b'' ''you''], [(3, sample_message ''c'' ''?'')], 3 / 2)"
    by (simp add: collect_def debouncer_default_def Let_def)
  from collect_takes_one_burst [OF this] show ?thesis
    by (auto simp: debouncer_default_def)
qed

text \<open>
  Merging in two goes gives the same message as merging at once, truncation included: the
  groups can be cut anywhere.
\<close>

theorem merge_in_groups:
  assumes "0 \<le> max_merged_chars db" "xs \<noteq> []" "ys \<noteq> []"
  shows "\<exists>mx my. merge db xs = Inr mx \<and> merge db ys = Inr my \<and>
           merge db [mx, my] = merge db (xs @ ys)"
  using merge_Inr [OF assms(2)] merge_Inr [OF assms(3)] merge_regroups [OF assms(1)] by blast

theorem merge_in_groups_witness:
  "\<exists>mx my. merge debouncer_default [sample_message ''a'' ''hi'', sample_message ''b'' ''you''] = Inr mx \<and>
     merge debouncer_default [sample_message ''c'' ''?''] = Inr my \<and>
     merge debouncer_default [mx, my] = merge debouncer_default
       ([sample_message ''a'' ''hi'', sample_message ''b'' ''you''] @ [sample_message ''c'' ''?''])"
  by (rule merge_in_groups) (simp_all add: debouncer_default_def)

text \<open>
  A parsed command begins with its prefix, has a non-empty lower-case name without blanks, and
  its arguments are a suffix of the text without leading blanks; trailing blanks stay. Text
  without a prefix, or with a blank right after it, is no command.
\<close>

lemma parse_command_shape:
  "case parse_command text of
     Some c \<Rightarrow> cc_prefix c \<in> {''/'', ''!''} \<and> cc_raw c = text \<and> cc_name c \<noteq> [] \<and>
       list_all (\<lambda>x. \<not> is_space x) (takeWhile (\<lambda>x. \<not> is_space x) (tl text)) \<and>
       cc_name c = py_lower (takeWhile (\<lambda>x. \<not> is_space x) (tl text)) \<and>
       (\<exists>gap. list_all is_space gap \<and>
          text = cc_prefix c @ takeWhile (\<lambda>x. \<not> is_space x) (tl text) @ gap @ cc_args c) \<and>
       (cc_args c \<noteq> [] \<longrightarrow> \<not> is_space (hd (cc_args c)))
   | None \<Rightarrow> text = [] \<or> hd text \<notin> {CHR ''/'', CHR ''!''} \<or> tl text = [] \<or> is_space (hd (tl text))"
proof (cases "text")
  case Nil
  then show ?thesis by (simp add: parse_command_def command_prefixes_def)
next
  case (Cons p r)
  let ?ok = "p \<in> {CHR ''/'', CHR ''!''} \<and> r \<noteq> [] \<and> \<not> is_space (hd r)"
  have eq: "parse_command text = (if ?ok then Some \<lparr>cc_prefix = [p],
      cc_name = py_lower (takeWhile (\<lambda>c. \<not> is_space c) r),
      cc_args = dropWhile is_space (dropWhile (\<lambda>c. \<not> is_space c) r), cc_raw = text\<rparr> else None)"
    by (auto simp: Cons parse_command_def command_prefixes_def startswith_def split_first_word_def
        py_lstrip_def)
  show ?thesis
  proof (cases ?ok)
    case True
    let ?name = "takeWhile (\<lambda>x. \<not> is_space x) r" and ?more = "dropWhile (\<lambda>x. \<not> is_space x) r"
    have tl: "tl text = r" by (simp add: Cons)
    have "?name \<noteq> []" using True by (cases r) auto
    moreover have "list_all (\<lambda>x. \<not> is_space x) ?name"
      by (auto simp: list_all_iff dest: set_takeWhileD)
    moreover have "\<exists>gap. list_all is_space gap \<and> text = [p] @ ?name @ gap @ dropWhile is_space ?more"
      by (rule exI [of _ "takeWhile is_space ?more"])
         (auto simp: Cons list_all_iff dest: set_takeWhileD)
    moreover have "dropWhile is_space ?more \<noteq> [] \<longrightarrow> \<not> is_space (hd (dropWhile is_space ?more))"
      by (simp add: hd_dropWhile)
    ultimately show ?thesis
      using True unfolding eq tl by (auto simp: py_lower_def)
  next
    case False
    then show ?thesis unfolding eq by (auto simp: Cons)
  qed
qed

end
