(* ===== verification/Pool_Manager.thy ===== *)
theory Pool_Manager
  imports Message
begin

text \<open>
  Conversation pools: the state of a pool that the hub reads (core/pool/pool.py) and the manager
  that creates, touches and evicts them (core/hub/pipeline/pool_manager.py). The ordered dict of
  pools is an association list, least recently used first. Work handed to other parts is recorded:
  the flush tasks started and the CLI entries evicted. A generated session id is an argument.
\<close>

subsection \<open>Pools\<close>

record pool_config =
  pcf_turn_timeout :: "time option"
  pcf_debounce_ms :: int
  pcf_turn_timeout_ceiling :: "time option"
  pcf_safe_dispatch_timeout :: time
  pcf_max_merged_chars :: int
  pcf_cancel_on_new_message :: bool

definition default_pool_config :: pool_config where
  "default_pool_config =
     \<lparr>pcf_turn_timeout = None, pcf_debounce_ms = 300, pcf_turn_timeout_ceiling = None,
      pcf_safe_dispatch_timeout = 10, pcf_max_merged_chars = 4096,
      pcf_cancel_on_new_message = False\<rparr>"

record pool =
  pl_pool_id :: string
  pl_agent_name :: string
  pl_turn_timeout :: "time option"
  pl_debouncer :: debouncer
  pl_cancel_on_new_message :: bool
  pl_inbox :: "inbound_message list"
  pl_busy :: bool
  pl_last_active :: time
  pl_session_id :: string
  pl_user_id :: string
  pl_medium :: string
  pl_message_count :: int
  pl_configured :: bool
  pl_has_update_fn :: bool
  pl_has_resume_fn :: bool
  pl_pending_session_id :: "string option"

text \<open>The ceiling is the default turn timeout and clamps a configured one.\<close>

definition effective_turn_timeout :: "time option \<Rightarrow> time option \<Rightarrow> time option" where
  "effective_turn_timeout turn_timeout ceil =
     (case (turn_timeout, ceil) of
        (Some t, Some c) \<Rightarrow> Some (if c < t then c else t)
      | (Some t, None) \<Rightarrow> Some t
      | (None, Some c) \<Rightarrow> Some c
      | (None, None) \<Rightarrow> None)"

definition pool_new :: "time \<Rightarrow> string \<Rightarrow> string \<Rightarrow> string \<Rightarrow> pool_config \<Rightarrow> pool" where
  "pool_new now fresh pool_id agent_name cfg =
     \<lparr>pl_pool_id = pool_id, pl_agent_name = agent_name,
      pl_turn_timeout = effective_turn_timeout (pcf_turn_timeout cfg) (pcf_turn_timeout_ceiling cfg),
      pl_debouncer = \<lparr>debounce_ms = pcf_debounce_ms cfg, max_merged_chars = pcf_max_merged_chars cfg\<rparr>,
      pl_cancel_on_new_message = pcf_cancel_on_new_message cfg,
      pl_inbox = [], pl_busy = False, pl_last_active = now, pl_session_id = fresh,
      pl_user_id = [], pl_medium = [], pl_message_count = 0, pl_configured = False,
      pl_has_update_fn = False, pl_has_resume_fn = False, pl_pending_session_id = None\<rparr>"

definition pool_touch :: "time \<Rightarrow> pool \<Rightarrow> pool" where
  "pool_touch now p = p\<lparr>pl_last_active := now\<rparr>"

definition is_idle :: "pool \<Rightarrow> bool" where
  "is_idle p \<longleftrightarrow> \<not> pl_busy p"

text \<open>\<open>submit\<close>: queue the message, and start the processing task when none runs.\<close>

definition pool_submit :: "time \<Rightarrow> inbound_message \<Rightarrow> pool \<Rightarrow> pool" where
  "pool_submit now msg p = (pool_touch now p)\<lparr>pl_inbox := pl_inbox p @ [msg], pl_busy := True\<rparr>"

definition pool_append :: "inbound_message \<Rightarrow> pool \<Rightarrow> pool" where
  "pool_append msg p =
     (let p1 = (if pl_user_id p = []
                then p\<lparr>pl_user_id := m_user_id msg, pl_medium := m_platform msg\<rparr> else p)
      in p1\<lparr>pl_message_count := pl_message_count p1 + 1\<rparr>)"

subsection \<open>The manager\<close>

datatype flush_reason = Idle | Lru | Ended

record pool_manager =
  pmg_config :: pool_config
  pmg_pools :: "(string, pool) dict"
  pmg_last_eviction_check :: time
  pmg_max_pools :: int
  pmg_pool_ttl :: time
  pmg_flushing_agents :: "string list"
  pmg_has_cli_pool :: bool
  pmg_flushes :: "(string \<times> flush_reason) list"
  pmg_cli_evictions :: "string list"

definition pool_manager_init :: "pool_config \<Rightarrow> int \<Rightarrow> time \<Rightarrow> string list \<Rightarrow> bool \<Rightarrow> pool_manager" where
  "pool_manager_init cfg max_pools ttl agents cli =
     \<lparr>pmg_config = cfg, pmg_pools = [], pmg_last_eviction_check = 0, pmg_max_pools = max_pools,
      pmg_pool_ttl = ttl, pmg_flushing_agents = agents, pmg_has_cli_pool = cli,
      pmg_flushes = [], pmg_cli_evictions = []\<rparr>"

definition evict_pool_locked ::
    "string \<Rightarrow> flush_reason \<Rightarrow> pool_manager \<Rightarrow> pool option \<times> pool_manager" where
  "evict_pool_locked pool_id reason pm =
     (case map_of (pmg_pools pm) pool_id of
        None \<Rightarrow> (None, pm)
      | Some pool \<Rightarrow>
          (let pm1 = pm\<lparr>pmg_pools := AList.delete pool_id (pmg_pools pm)\<rparr>;
               pm2 = (if pl_user_id pool \<noteq> [] \<and> pl_agent_name pool \<in> set (pmg_flushing_agents pm1)
                      then pm1\<lparr>pmg_flushes := pmg_flushes pm1 @ [(pool_id, reason)]\<rparr> else pm1);
               pm3 = (if pmg_has_cli_pool pm2
                      then pm2\<lparr>pmg_cli_evictions := pmg_cli_evictions pm2 @ [pool_id]\<rparr> else pm2)
           in (Some pool, pm3)))"

text \<open>\<open>popitem(last=False)\<close>, then the eviction of the very id that was just popped.\<close>

definition evict_lru_locked :: "pool_manager \<Rightarrow> pool_manager" where
  "evict_lru_locked pm =
     (case pmg_pools pm of
        [] \<Rightarrow> pm
      | (pid, _) # rest \<Rightarrow> snd (evict_pool_locked pid Lru (pm\<lparr>pmg_pools := rest\<rparr>)))"

definition stale_pools :: "time \<Rightarrow> pool_manager \<Rightarrow> string list" where
  "stale_pools now pm =
     map fst (filter (\<lambda>(_, p). is_idle p \<and> pmg_pool_ttl pm < now - pl_last_active p) (pmg_pools pm))"

definition evict_stale_pools :: "time \<Rightarrow> pool_manager \<Rightarrow> pool_manager" where
  "evict_stale_pools now pm0 =
     (if now - pmg_last_eviction_check pm0 < pmg_pool_ttl pm0 / 10 then pm0
      else
        (let pm = pm0\<lparr>pmg_last_eviction_check := now\<rparr>
         in foldl (\<lambda>pm pid. snd (evict_pool_locked pid Idle pm)) pm (stale_pools now pm)))"

text \<open>The loop \<open>while len(pools) >= max_pools: evict_lru()\<close>; with \<open>max_pools \<le> 0\<close> it never ends.\<close>

partial_function (option) evict_to_cap :: "pool_manager \<Rightarrow> pool_manager option" where
  "evict_to_cap pm =
     (if pmg_max_pools pm \<le> int (length (pmg_pools pm)) then evict_to_cap (evict_lru_locked pm)
      else Some pm)"

declare evict_to_cap.simps [code]

definition move_to_end :: "'k \<Rightarrow> 'v \<Rightarrow> ('k, 'v) dict \<Rightarrow> ('k, 'v) dict" where
  "move_to_end k v d = AList.delete k d @ [(k, v)]"

definition get_or_create_pool ::
    "time \<Rightarrow> string \<Rightarrow> string \<Rightarrow> string \<Rightarrow> pool_manager \<Rightarrow> (pool \<times> pool_manager) option" where
  "get_or_create_pool now fresh pool_id agent_name pm0 =
     (let pm = evict_stale_pools now pm0
      in case map_of (pmg_pools pm) pool_id of
           Some p \<Rightarrow>
             (let p' = pool_touch now p
              in Some (p', pm\<lparr>pmg_pools := move_to_end pool_id p' (pmg_pools pm)\<rparr>))
         | None \<Rightarrow>
             (case evict_to_cap pm of
                None \<Rightarrow> None
              | Some pm1 \<Rightarrow>
                  (let p = pool_new now fresh pool_id agent_name (pmg_config pm1)
                   in Some (p, pm1\<lparr>pmg_pools := AList.update pool_id p (pmg_pools pm1)\<rparr>))))"

definition flush_pool :: "string \<Rightarrow> pool_manager \<Rightarrow> pool_manager" where
  "flush_pool pool_id pm =
     (case map_of (pmg_pools pm) pool_id of
        None \<Rightarrow> pm
      | Some pool \<Rightarrow>
          (let pm1 = pm\<lparr>pmg_pools := AList.delete pool_id (pmg_pools pm)\<rparr>
           in if pl_agent_name pool \<in> set (pmg_flushing_agents pm) \<and> pl_user_id pool \<noteq> []
              then pm1\<lparr>pmg_flushes := pmg_flushes pm1 @ [(pool_id, Ended)]\<rparr> else pm1))"

definition on_pools :: "(pool \<Rightarrow> pool) \<Rightarrow> pool_manager \<Rightarrow> pool_manager" where
  "on_pools f pm = pm\<lparr>pmg_pools := map (\<lambda>(k, p). (k, f p)) (pmg_pools pm)\<rparr>"

definition set_debounce_ms :: "int \<Rightarrow> pool_manager \<Rightarrow> pool_manager" where
  "set_debounce_ms ms pm =
     on_pools (\<lambda>p. p\<lparr>pl_debouncer := (pl_debouncer p)\<lparr>debounce_ms := ms\<rparr>\<rparr>)
       (pm\<lparr>pmg_config := (pmg_config pm)\<lparr>pcf_debounce_ms := ms\<rparr>\<rparr>)"

definition set_cancel_on_new_message :: "bool \<Rightarrow> pool_manager \<Rightarrow> pool_manager" where
  "set_cancel_on_new_message enabled pm =
     on_pools (\<lambda>p. p\<lparr>pl_cancel_on_new_message := enabled\<rparr>)
       (pm\<lparr>pmg_config := (pmg_config pm)\<lparr>pcf_cancel_on_new_message := enabled\<rparr>\<rparr>)"

definition touch_pool :: "time \<Rightarrow> string \<Rightarrow> pool_manager \<Rightarrow> bool \<times> pool_manager" where
  "touch_pool now pool_id pm =
     (case map_of (pmg_pools pm) pool_id of
        Some p \<Rightarrow> (True, pm\<lparr>pmg_pools := move_to_end pool_id (pool_touch now p) (pmg_pools pm)\<rparr>)
      | None \<Rightarrow> (False, pm))"

text \<open>A pool's own code running: any change of its state that keeps its identity.\<close>

definition update_pool :: "string \<Rightarrow> (pool \<Rightarrow> pool) \<Rightarrow> pool_manager \<Rightarrow> pool_manager" where
  "update_pool pool_id f pm =
     pm\<lparr>pmg_pools := map (\<lambda>(k, p). (k, if k = pool_id then f p else p)) (pmg_pools pm)\<rparr>"

subsection \<open>Frames and the invariant\<close>

definition pmg_inv :: "pool_manager \<Rightarrow> bool" where
  "pmg_inv pm \<longleftrightarrow> dict_wf (pmg_pools pm) \<and> int (length (pmg_pools pm)) \<le> pmg_max_pools pm \<and>
     0 < pmg_max_pools pm"

lemma evict_pool_frame [simp]:
  "pmg_max_pools (snd (evict_pool_locked pid r pm)) = pmg_max_pools pm"
  "pmg_config (snd (evict_pool_locked pid r pm)) = pmg_config pm"
  "pmg_pool_ttl (snd (evict_pool_locked pid r pm)) = pmg_pool_ttl pm"
  "pmg_pools (snd (evict_pool_locked pid r pm)) = AList.delete pid (pmg_pools pm)"
  by (auto simp: evict_pool_locked_def Let_def map_of_eq_None_iff delete_absent split: option.splits)

text \<open>Because the entry is already gone, the second lookup fails: nothing else happens.\<close>

lemma evict_lru_eq:
  assumes "dict_wf (pmg_pools pm)"
  shows "evict_lru_locked pm = pm\<lparr>pmg_pools := tl (pmg_pools pm)\<rparr>"
proof (cases "pmg_pools pm")
  case (Cons p rest)
  then have "map_of rest (fst p) = None"
    using assms by (auto simp: dict_wf_def map_of_eq_None_iff)
  with Cons show ?thesis
    by (cases p) (simp add: evict_lru_locked_def evict_pool_locked_def)
qed (simp add: evict_lru_locked_def)

lemma dict_wf_drop [simp, intro]: "dict_wf d \<Longrightarrow> dict_wf (drop n d)"
  by (simp add: dict_wf_def drop_map [symmetric])

lemma evict_to_cap_result:
  assumes "dict_wf (pmg_pools pm)" "0 < pmg_max_pools pm"
  shows "evict_to_cap pm = Some (pm\<lparr>pmg_pools :=
     drop (nat (int (length (pmg_pools pm)) - pmg_max_pools pm + 1)) (pmg_pools pm)\<rparr>)"
  using assms
proof (induction "length (pmg_pools pm)" arbitrary: pm)
  case 0
  then show ?case by (subst evict_to_cap.simps) simp
next
  case (Suc n)
  obtain x xs where xs: "pmg_pools pm = x # xs" using Suc.hyps(2) by (cases "pmg_pools pm") auto
  show ?case
  proof (cases "pmg_max_pools pm \<le> int (length (pmg_pools pm))")
    case False
    then show ?thesis by (subst evict_to_cap.simps) simp
  next
    case True
    let ?pm = "pm\<lparr>pmg_pools := xs\<rparr>"
    have "evict_to_cap pm = evict_to_cap ?pm"
      using True Suc.prems by (subst evict_to_cap.simps) (simp add: evict_lru_eq xs)
    also have "\<dots> = Some (?pm\<lparr>pmg_pools :=
        drop (nat (int (length xs) - pmg_max_pools pm + 1)) xs\<rparr>)"
      using Suc.hyps(1) [of ?pm] Suc.hyps(2) Suc.prems xs by (auto simp: dict_wf_def)
    also have "drop (nat (int (length xs) - pmg_max_pools pm + 1)) xs =
        drop (nat (int (length (pmg_pools pm)) - pmg_max_pools pm + 1)) (pmg_pools pm)"
    proof -
      have "nat (int (length (pmg_pools pm)) - pmg_max_pools pm + 1) =
          Suc (nat (int (length xs) - pmg_max_pools pm + 1))"
        using True by (simp add: xs)
      then show ?thesis by (simp add: xs)
    qed
    finally show ?thesis by simp
  qed
qed

lemma dict_wf_on: "dict_wf (map (\<lambda>(k, p). (k, f k p)) d) = dict_wf d"
proof -
  have "map fst (map (\<lambda>(k, p). (k, f k p)) d) = map fst d" by (induction d) auto
  then show ?thesis by (simp only: dict_wf_def)
qed

lemma evict_stale_frame [simp]:
  "pmg_max_pools (evict_stale_pools now pm) = pmg_max_pools pm"
  "pmg_config (evict_stale_pools now pm) = pmg_config pm"
proof -
  have *: "pmg_max_pools (foldl (\<lambda>pm pid. snd (evict_pool_locked pid Idle pm)) pm ids) = pmg_max_pools pm \<and>
      pmg_config (foldl (\<lambda>pm pid. snd (evict_pool_locked pid Idle pm)) pm ids) = pmg_config pm" for pm ids
    by (induction ids arbitrary: pm) simp_all
  show "pmg_max_pools (evict_stale_pools now pm) = pmg_max_pools pm"
    "pmg_config (evict_stale_pools now pm) = pmg_config pm"
    by (simp_all add: evict_stale_pools_def Let_def *)
qed

lemma length_delete_le: "length (AList.delete k d) \<le> length d"
  by (simp add: AList.delete_eq)

lemma evict_stale_inv [inv_intros]: "pmg_inv pm \<Longrightarrow> pmg_inv (evict_stale_pools now pm)"
proof -
  have *: "pmg_inv pm \<Longrightarrow> pmg_inv (foldl (\<lambda>pm pid. snd (evict_pool_locked pid Idle pm)) pm ids)" for pm ids
  proof (induction ids arbitrary: pm)
    case (Cons pid ids)
    have "pmg_inv (snd (evict_pool_locked pid Idle pm))"
      using Cons.prems length_delete_le [of pid "pmg_pools pm"] by (auto simp: pmg_inv_def)
    with Cons.IH show ?case by simp
  qed simp
  assume "pmg_inv pm"
  then show ?thesis
    using * [of "pm\<lparr>pmg_last_eviction_check := now\<rparr>"]
    by (simp add: evict_stale_pools_def Let_def pmg_inv_def)
qed

lemma move_to_end_wf: "dict_wf d \<Longrightarrow> dict_wf (move_to_end k v d)"
  by (auto simp: move_to_end_def AList.delete_eq intro!: dict_wf_append_new)

lemma length_move_to_end:
  "dict_wf d \<Longrightarrow> k \<in> fst ` set d \<Longrightarrow> length (move_to_end k v d) = length d"
proof -
  assume "dict_wf d" "k \<in> fst ` set d"
  moreover from this have "0 < length d" by (cases d) auto
  ultimately show ?thesis by (simp add: move_to_end_def length_delete_wf)
qed

text \<open>What \<open>get_or_create_pool\<close> returns, on both branches.\<close>

lemma get_or_create_cases:
  assumes inv: "pmg_inv pm"
  obtains (hit) p where "map_of (pmg_pools (evict_stale_pools now pm)) pid = Some p"
      "get_or_create_pool now fresh pid agent pm =
         Some (pool_touch now p, (evict_stale_pools now pm)\<lparr>pmg_pools :=
           move_to_end pid (pool_touch now p) (pmg_pools (evict_stale_pools now pm))\<rparr>)"
  | (miss) n where "map_of (pmg_pools (evict_stale_pools now pm)) pid = None"
      "n = nat (int (length (pmg_pools (evict_stale_pools now pm))) - pmg_max_pools pm + 1)"
      "get_or_create_pool now fresh pid agent pm =
         Some (pool_new now fresh pid agent (pmg_config pm), (evict_stale_pools now pm)\<lparr>pmg_pools :=
           drop n (pmg_pools (evict_stale_pools now pm)) @
             [(pid, pool_new now fresh pid agent (pmg_config pm))]\<rparr>)"
proof (cases "map_of (pmg_pools (evict_stale_pools now pm)) pid")
  case (Some p)
  with hit show ?thesis by (simp add: get_or_create_pool_def Let_def)
next
  case None
  let ?e = "evict_stale_pools now pm"
  let ?n = "nat (int (length (pmg_pools ?e)) - pmg_max_pools pm + 1)"
  have "pmg_inv ?e" by (rule evict_stale_inv [OF inv])
  then have cap: "evict_to_cap ?e = Some (?e\<lparr>pmg_pools := drop ?n (pmg_pools ?e)\<rparr>)"
    using evict_to_cap_result [of ?e] by (simp add: pmg_inv_def)
  have "pid \<notin> fst ` set (drop ?n (pmg_pools ?e))"
    using None by (auto simp: map_of_eq_None_iff dest: in_set_dropD)
  with None cap show ?thesis
    by (intro miss) (simp_all add: get_or_create_pool_def Let_def update_new)
qed

lemma get_or_create_inv:
  assumes inv: "pmg_inv pm" and eq: "get_or_create_pool now fresh pid agent pm = Some (p, pm')"
  shows "pmg_inv pm' \<and> pmg_pools pm' \<noteq> [] \<and> last (pmg_pools pm') = (pid, p)"
proof (rule get_or_create_cases [OF inv, of now pid fresh agent])
  let ?e = "evict_stale_pools now pm"
  have e: "dict_wf (pmg_pools ?e)" "int (length (pmg_pools ?e)) \<le> pmg_max_pools pm" "0 < pmg_max_pools pm"
    using evict_stale_inv [OF inv, of now] by (auto simp: pmg_inv_def)
  {
    fix q
    assume q: "map_of (pmg_pools ?e) pid = Some q" and r: "get_or_create_pool now fresh pid agent pm =
         Some (pool_touch now q, ?e\<lparr>pmg_pools := move_to_end pid (pool_touch now q) (pmg_pools ?e)\<rparr>)"
    have "pid \<in> fst ` set (pmg_pools ?e)" using q by (force dest: map_of_SomeD)
    with r eq e show ?thesis
      by (auto simp: pmg_inv_def move_to_end_wf length_move_to_end) (simp_all add: move_to_end_def)
  next
    fix n
    assume q: "map_of (pmg_pools ?e) pid = None"
      and n: "n = nat (int (length (pmg_pools ?e)) - pmg_max_pools pm + 1)"
      and r: "get_or_create_pool now fresh pid agent pm =
         Some (pool_new now fresh pid agent (pmg_config pm), ?e\<lparr>pmg_pools :=
           drop n (pmg_pools ?e) @ [(pid, pool_new now fresh pid agent (pmg_config pm))]\<rparr>)"
    have "pid \<notin> fst ` set (drop n (pmg_pools ?e))"
      using q by (auto simp: map_of_eq_None_iff dest: in_set_dropD)
    then have "dict_wf (drop n (pmg_pools ?e) @ [(pid, pool_new now fresh pid agent (pmg_config pm))])"
      by (intro dict_wf_append_new) (use e in auto)
    moreover have "int (length (drop n (pmg_pools ?e))) + 1 \<le> pmg_max_pools pm"
      using e n by (simp add: of_nat_diff nat_le_iff)
    ultimately show ?thesis using r eq e by (auto simp: pmg_inv_def)
  }
qed

subsection \<open>Runs\<close>

datatype pool_op =
    GetOrCreate time string string string
  | Touch time string
  | FlushPool string
  | SetDebounce int
  | SetCancel bool
  | PoolRuns string "pool \<Rightarrow> pool"

fun pmg_step :: "pool_manager \<Rightarrow> pool_op \<Rightarrow> pool_manager" where
  "pmg_step pm (GetOrCreate now fresh pid agent) =
     (case get_or_create_pool now fresh pid agent pm of Some (_, pm') \<Rightarrow> pm' | None \<Rightarrow> pm)"
| "pmg_step pm (Touch now pid) = snd (touch_pool now pid pm)"
| "pmg_step pm (FlushPool pid) = flush_pool pid pm"
| "pmg_step pm (SetDebounce ms) = set_debounce_ms ms pm"
| "pmg_step pm (SetCancel b) = set_cancel_on_new_message b pm"
| "pmg_step pm (PoolRuns pid f) = update_pool pid f pm"

lemma on_pools_inv: "pmg_inv pm \<Longrightarrow> pmg_inv (on_pools f pm)"
  by (simp add: pmg_inv_def on_pools_def dict_wf_on [of "\<lambda>_. f"])

lemma pmg_step_inv: "pmg_inv pm \<Longrightarrow> pmg_inv (pmg_step pm op)"
proof (cases op)
  case (GetOrCreate now fresh pid agent)
  assume inv: "pmg_inv pm"
  show ?thesis
  proof (cases "get_or_create_pool now fresh pid agent pm")
    case (Some r)
    with get_or_create_inv [OF inv, of now fresh pid agent "fst r" "snd r"] GetOrCreate show ?thesis
      by (simp add: split_beta)
  qed (use inv GetOrCreate in simp)
next
  case (Touch now pid)
  assume inv: "pmg_inv pm"
  show ?thesis
  proof (cases "map_of (pmg_pools pm) pid")
    case (Some p)
    then have "pid \<in> fst ` set (pmg_pools pm)" by (force dest: map_of_SomeD)
    with inv Some Touch show ?thesis
      by (simp add: touch_pool_def pmg_inv_def move_to_end_wf length_move_to_end)
  qed (use inv Touch in \<open>simp add: touch_pool_def\<close>)
next
  case (FlushPool pid)
  assume "pmg_inv pm"
  moreover have "pmg_pools (flush_pool pid pm) = AList.delete pid (pmg_pools pm)"
    "pmg_max_pools (flush_pool pid pm) = pmg_max_pools pm"
    by (auto simp: flush_pool_def Let_def map_of_eq_None_iff delete_absent split: option.split)
  ultimately show ?thesis
    using FlushPool length_delete_le [of pid "pmg_pools pm"] by (simp add: pmg_inv_def)
next
  case (SetDebounce ms)
  assume "pmg_inv pm"
  then have "pmg_inv (pm\<lparr>pmg_config := (pmg_config pm)\<lparr>pcf_debounce_ms := ms\<rparr>\<rparr>)"
    by (simp add: pmg_inv_def)
  with SetDebounce show ?thesis by (simp add: set_debounce_ms_def on_pools_inv)
next
  case (SetCancel b)
  assume "pmg_inv pm"
  then have "pmg_inv (pm\<lparr>pmg_config := (pmg_config pm)\<lparr>pcf_cancel_on_new_message := b\<rparr>\<rparr>)"
    by (simp add: pmg_inv_def)
  with SetCancel show ?thesis by (simp add: set_cancel_on_new_message_def on_pools_inv)
next
  case (PoolRuns pid f)
  assume "pmg_inv pm"
  with PoolRuns show ?thesis
    by (simp add: update_pool_def pmg_inv_def dict_wf_on [of "\<lambda>k p. if k = pid then f p else p"])
qed

lemma pmg_run_inv: "pmg_inv pm \<Longrightarrow> pmg_inv (foldl pmg_step pm ops)"
  by (induction ops arbitrary: pm) (simp_all add: pmg_step_inv)

lemma pmg_inv_init: "0 < n \<Longrightarrow> pmg_inv (pool_manager_init cfg n ttl agents cli)"
  by (simp add: pmg_inv_def pool_manager_init_def)

subsection \<open>Properties\<close>

text \<open>
  C30: with a positive cap, after any traffic a request for a pool returns, the pool it returns is
  the one filed under the asked id, most recently used, no id is filed twice, and the number of
  pools never exceeds the cap.
\<close>

theorem get_or_create_returns_within_cap:
  assumes "0 < max_pools" "pm = foldl pmg_step (pool_manager_init cfg max_pools ttl agents cli) ops"
  shows "\<exists>p pm'. get_or_create_pool now fresh pid agent pm = Some (p, pm') \<and>
     last (pmg_pools pm') = (pid, p) \<and> dict_wf (pmg_pools pm') \<and>
     int (length (pmg_pools pm')) \<le> pmg_max_pools pm'"
proof -
  have inv: "pmg_inv pm" unfolding assms(2) by (rule pmg_run_inv [OF pmg_inv_init [OF assms(1)]])
  obtain p pm' where "get_or_create_pool now fresh pid agent pm = Some (p, pm')"
    by (rule get_or_create_cases [OF inv, of now pid fresh agent]) auto
  with get_or_create_inv [OF inv] show ?thesis by (auto simp: pmg_inv_def)
qed

theorem get_or_create_returns_within_cap_witness:
  "\<exists>p pm'. get_or_create_pool 9 ''s3'' ''c'' ''aria''
       (foldl pmg_step (pool_manager_init default_pool_config 2 600 [] False)
         [GetOrCreate 1 ''s1'' ''a'' ''aria'', GetOrCreate 2 ''s2'' ''b'' ''aria'']) = Some (p, pm') \<and>
     last (pmg_pools pm') = (''c'', p) \<and> dict_wf (pmg_pools pm') \<and>
     int (length (pmg_pools pm')) \<le> pmg_max_pools pm'"
  by (rule get_or_create_returns_within_cap [OF _ refl]) simp

text \<open>
  C31: a pool evicted for capacity just disappears: neither is its session flushed nor its CLI entry
  evicted, whatever user it served, whereas the same pool evicted for being idle has both done.
\<close>

theorem lru_eviction_skips_flush:
  assumes "dict_wf (pmg_pools pm)" "pmg_pools pm = (pid, p) # rest" "pl_user_id p \<noteq> []"
    "pl_agent_name p \<in> set (pmg_flushing_agents pm)" "pmg_has_cli_pool pm"
  shows "evict_lru_locked pm = pm\<lparr>pmg_pools := rest\<rparr> \<and>
     snd (evict_pool_locked pid Idle pm) = pm\<lparr>pmg_pools := rest,
       pmg_flushes := pmg_flushes pm @ [(pid, Idle)],
       pmg_cli_evictions := pmg_cli_evictions pm @ [pid]\<rparr>"
proof -
  have "pid \<notin> fst ` set rest" using assms(1,2) by (simp add: dict_wf_def)
  with assms show ?thesis
    by (simp add: evict_lru_eq) (simp add: evict_pool_locked_def delete_absent)
qed

definition served_pool :: pool where
  "served_pool = (pool_new 0 ''s'' ''p'' ''aria'' default_pool_config)\<lparr>pl_user_id := ''tg:user:7''\<rparr>"

theorem lru_eviction_skips_flush_witness:
  "let pm = (pool_manager_init default_pool_config 1 600 [''aria''] True)\<lparr>pmg_pools := [(''p'', served_pool)]\<rparr>
   in pmg_flushes (evict_lru_locked pm) = [] \<and>
      pmg_flushes (snd (evict_pool_locked ''p'' Idle pm)) = [(''p'', Idle)]"
proof -
  let ?pm = "(pool_manager_init default_pool_config 1 600 [''aria''] True)\<lparr>pmg_pools := [(''p'', served_pool)]\<rparr>"
  have "dict_wf (pmg_pools ?pm)" "pmg_pools ?pm = (''p'', served_pool) # []"
    "pl_user_id served_pool \<noteq> []" "pl_agent_name served_pool \<in> set (pmg_flushing_agents ?pm)"
    "pmg_has_cli_pool ?pm"
    by (simp_all add: dict_wf_def pool_manager_init_def served_pool_def pool_new_def)
  from lru_eviction_skips_flush [OF this] show ?thesis
    by (simp add: Let_def pool_manager_init_def)
qed

end
