(* ===== verification/Event_Bus.thy ===== *)
theory Event_Bus
  imports Prelude
begin

text \<open>
  The telemetry bus (core/hub/event_bus.py) and its events (core/hub/pipeline/pipeline_events.py).
  A subscriber is the index of its queue; a queue is the list of its events, oldest first. The
  warning log of a bus records the subscriber and time of every warning it wrote.
\<close>

datatype pipeline_event =
    MessageReceived string string string string
  | StageCompleted string string
  | MessageDropped string string string
  | CommandDispatched string string
  | PoolSubmitted string string string string

record 'e event_bus =
  eb_maxsize :: int
  eb_queues :: "'e list list"
  eb_last_warn :: "nat \<rightharpoonup> time"
  eb_warnings :: "(nat \<times> time) list"

definition event_bus_init :: "int \<Rightarrow> 'e event_bus" where
  "event_bus_init maxsize =
     \<lparr>eb_maxsize = maxsize, eb_queues = [], eb_last_warn = Map.empty, eb_warnings = []\<rparr>"

definition drop_warn_interval :: time where "drop_warn_interval = 60"

definition subscribe :: "'e event_bus \<Rightarrow> nat \<times> 'e event_bus" where
  "subscribe eb = (length (eb_queues eb), eb\<lparr>eb_queues := eb_queues eb @ [[]]\<rparr>)"

text \<open>\<open>asyncio.Queue(maxsize)\<close> is full when \<open>maxsize > 0\<close> items wait in it.\<close>

definition queue_full :: "int \<Rightarrow> 'e list \<Rightarrow> bool" where
  "queue_full maxsize q \<longleftrightarrow> 0 < maxsize \<and> maxsize \<le> int (length q)"

definition warn_drop :: "time \<Rightarrow> nat \<Rightarrow> 'e event_bus \<Rightarrow> 'e event_bus" where
  "warn_drop now q eb =
     (let last = (case eb_last_warn eb q of None \<Rightarrow> 0 | Some t \<Rightarrow> t)
      in if drop_warn_interval \<le> now - last
         then eb\<lparr>eb_last_warn := (eb_last_warn eb)(q \<mapsto> now),
                 eb_warnings := eb_warnings eb @ [(q, now)]\<rparr>
         else eb)"

definition put_nowait :: "time \<Rightarrow> 'e \<Rightarrow> nat \<Rightarrow> 'e event_bus \<Rightarrow> 'e event_bus" where
  "put_nowait now event q eb =
     (if queue_full (eb_maxsize eb) (eb_queues eb ! q) then warn_drop now q eb
      else eb\<lparr>eb_queues := (eb_queues eb)[q := (eb_queues eb ! q) @ [event]]\<rparr>)"

definition emit :: "time \<Rightarrow> 'e \<Rightarrow> 'e event_bus \<Rightarrow> 'e event_bus" where
  "emit now event eb = fold (put_nowait now event) [0..<length (eb_queues eb)] eb"

text \<open>The consumer's side of a queue.\<close>

definition get_event :: "nat \<Rightarrow> 'e event_bus \<Rightarrow> 'e event_bus" where
  "get_event q eb = eb\<lparr>eb_queues := (eb_queues eb)[q := tl (eb_queues eb ! q)]\<rparr>"

datatype 'e bus_op = Subscribe | Emit time 'e | Get nat

fun bus_step :: "'e event_bus \<Rightarrow> 'e bus_op \<Rightarrow> 'e event_bus" where
  "bus_step eb Subscribe = snd (subscribe eb)"
| "bus_step eb (Emit now e) = emit now e eb"
| "bus_step eb (Get q) = get_event q eb"

subsection \<open>Queues and warnings\<close>

definition bus_inv :: "'e event_bus \<Rightarrow> bool" where
  "bus_inv eb \<longleftrightarrow>
     (0 < eb_maxsize eb \<longrightarrow> list_all (\<lambda>q. int (length q) \<le> eb_maxsize eb) (eb_queues eb)) \<and>
     (\<forall>q t. (q, t) \<in> set (eb_warnings eb) \<longrightarrow>
        (\<exists>u. eb_last_warn eb q = Some u \<and> t \<le> u)) \<and>
     sorted_wrt (\<lambda>(q, t) (q', t'). q = q' \<longrightarrow> t + drop_warn_interval \<le> t') (eb_warnings eb)"

lemma warn_drop_inv: "bus_inv eb \<Longrightarrow> bus_inv (warn_drop now q eb)"
proof -
  assume inv: "bus_inv eb"
  show ?thesis
  proof (cases "warn_drop now q eb = eb")
    case False
    then have eq: "warn_drop now q eb = eb\<lparr>eb_last_warn := (eb_last_warn eb)(q \<mapsto> now),
        eb_warnings := eb_warnings eb @ [(q, now)]\<rparr>"
      and late: "\<And>u. eb_last_warn eb q = Some u \<Longrightarrow> u + drop_warn_interval \<le> now"
      by (auto simp: warn_drop_def Let_def split: if_splits)
    have old: "t + drop_warn_interval \<le> now" if mem: "(q, t) \<in> set (eb_warnings eb)" for t
    proof -
      obtain u where "eb_last_warn eb q = Some u" "t \<le> u"
        using inv mem unfolding bus_inv_def by blast
      then show ?thesis using late [of u] by simp
    qed
    show ?thesis
      using inv old unfolding eq bus_inv_def
      by (auto simp: sorted_wrt_append drop_warn_interval_def) (force+)?
  qed (use inv in simp)
qed

lemma put_nowait_inv: "bus_inv eb \<Longrightarrow> q < length (eb_queues eb) \<Longrightarrow> bus_inv (put_nowait now e q eb)"
  by (auto simp: put_nowait_def warn_drop_inv)
     (auto simp: bus_inv_def queue_full_def list_all_iff dest!: set_update_subset_insert [THEN subsetD])

lemma put_nowait_queues [simp]:
  "length (eb_queues (put_nowait now e q eb)) = length (eb_queues eb)"
  "eb_maxsize (put_nowait now e q eb) = eb_maxsize eb"
  by (auto simp: put_nowait_def warn_drop_def Let_def)

lemma put_nowait_queue:
  "q < length (eb_queues eb) \<Longrightarrow> eb_queues (put_nowait now e q eb) =
     (if queue_full (eb_maxsize eb) (eb_queues eb ! q) then eb_queues eb
      else (eb_queues eb)[q := eb_queues eb ! q @ [e]])"
  by (auto simp: put_nowait_def warn_drop_def Let_def)

lemma fold_put:
  assumes "bus_inv eb" "n \<le> length (eb_queues eb)"
  shows "bus_inv (fold (put_nowait now e) [0..<n] eb) \<and>
    eb_maxsize (fold (put_nowait now e) [0..<n] eb) = eb_maxsize eb \<and>
    eb_queues (fold (put_nowait now e) [0..<n] eb) =
      map (\<lambda>q. if queue_full (eb_maxsize eb) q then q else q @ [e]) (take n (eb_queues eb)) @
      drop n (eb_queues eb)"
  using assms(2)
proof (induction n)
  case 0
  with assms(1) show ?case by simp
next
  case (Suc n)
  let ?eb = "fold (put_nowait now e) [0..<n] eb"
  let ?f = "\<lambda>q. if queue_full (eb_maxsize eb) q then q else q @ [e]"
  have n: "n < length (eb_queues eb)" using Suc.prems by simp
  have ih: "bus_inv ?eb" "eb_maxsize ?eb = eb_maxsize eb"
      "eb_queues ?eb = map ?f (take n (eb_queues eb)) @ drop n (eb_queues eb)"
    using Suc by auto
  have len: "length (eb_queues ?eb) = length (eb_queues eb)" using ih(3) n by simp
  have at: "eb_queues ?eb ! n = eb_queues eb ! n" using ih(3) n by (simp add: nth_append)
  have dr: "drop n (eb_queues eb) = eb_queues eb ! n # drop (Suc n) (eb_queues eb)"
    using n by (simp add: Cons_nth_drop_Suc)
  have "eb_queues (put_nowait now e n ?eb) =
      map ?f (take n (eb_queues eb)) @ ?f (eb_queues eb ! n) # drop (Suc n) (eb_queues eb)"
    using n len at ih(2,3) dr by (simp add: put_nowait_queue list_update_append)
  also have "\<dots> = map ?f (take (Suc n) (eb_queues eb)) @ drop (Suc n) (eb_queues eb)"
    using n by (simp add: take_Suc_conv_app_nth)
  finally show ?case
    using ih n len put_nowait_inv [OF ih(1), of n now e] by simp
qed

lemma emit_queues:
  "bus_inv eb \<Longrightarrow> eb_queues (emit now e eb) =
     map (\<lambda>q. if queue_full (eb_maxsize eb) q then q else q @ [e]) (eb_queues eb)"
  using fold_put [of eb "length (eb_queues eb)" now e] by (simp add: emit_def)

lemma bus_step_inv: "bus_inv eb \<Longrightarrow> bus_inv (bus_step eb op)"
proof (cases op)
  case Subscribe
  assume "bus_inv eb"
  with Subscribe show ?thesis by (simp add: subscribe_def bus_inv_def)
next
  case (Emit now e)
  assume "bus_inv eb"
  with Emit fold_put [of eb "length (eb_queues eb)" now e] show ?thesis by (simp add: emit_def)
next
  case (Get q)
  assume inv: "bus_inv eb"
  have "list_all (\<lambda>q. int (length q) \<le> eb_maxsize eb) ((eb_queues eb)[q := tl (eb_queues eb ! q)])"
    if "list_all (\<lambda>q. int (length q) \<le> eb_maxsize eb) (eb_queues eb)"
  proof (cases "q < length (eb_queues eb)")
    case True
    with that have "int (length (tl (eb_queues eb ! q))) \<le> eb_maxsize eb"
      by (force simp: list_all_length)
    with that show ?thesis
      by (auto simp: list_all_iff dest!: set_update_subset_insert [THEN subsetD])
  qed (use that in \<open>simp add: list_update_beyond\<close>)
  with inv Get show ?thesis by (auto simp: get_event_def bus_inv_def)
qed

lemma bus_run_inv: "bus_inv eb \<Longrightarrow> bus_inv (foldl bus_step eb ops)"
  by (induction ops arbitrary: eb) (simp_all add: bus_step_inv)

lemma fold_put_maxsize: "eb_maxsize (fold (put_nowait now e) qs eb) = eb_maxsize eb"
  by (induction qs arbitrary: eb) simp_all

lemma bus_run_maxsize: "eb_maxsize (foldl bus_step eb ops) = eb_maxsize eb"
proof (induction ops arbitrary: eb)
  case (Cons op ops)
  then show ?case
    by (cases op) (simp_all add: subscribe_def emit_def fold_put_maxsize get_event_def)
qed simp

lemma bus_inv_init [simp]: "bus_inv (event_bus_init n)"
  by (simp add: bus_inv_def event_bus_init_def)

subsection \<open>Properties\<close>

text \<open>
  Whatever subscribers do, a bus of positive size never holds more than its size in a queue, an
  emit appends the event to every queue that has room and leaves the full ones as they were, and
  two warnings about one subscriber are at least a minute apart.
\<close>

theorem event_bus_bounded:
  assumes "0 < maxsize" "eb = foldl bus_step (event_bus_init maxsize) ops"
  shows "list_all (\<lambda>q. int (length q) \<le> maxsize) (eb_queues eb) \<and>
    eb_queues (emit now e eb) =
      map (\<lambda>q. if int (length q) < maxsize then q @ [e] else q) (eb_queues eb) \<and>
    sorted_wrt (\<lambda>(q, t) (q', t'). q = q' \<longrightarrow> t + 60 \<le> t') (eb_warnings eb)"
proof -
  have inv: "bus_inv eb" unfolding assms(2) by (rule bus_run_inv) simp
  have "eb_maxsize eb = maxsize"
    unfolding assms(2) by (simp add: bus_run_maxsize) (simp add: event_bus_init_def)
  with inv assms(1) emit_queues [OF inv, of now e] show ?thesis
    by (auto simp: bus_inv_def drop_warn_interval_def queue_full_def)
qed

theorem event_bus_bounded_witness:
  "eb_queues (emit 5 (3 :: int) (foldl bus_step (event_bus_init 1) [Subscribe, Emit 1 1, Subscribe])) =
     [[1], [3]]"
proof -
  let ?eb = "foldl bus_step (event_bus_init 1) [Subscribe, Emit 1 1, Subscribe] :: int event_bus"
  have "eb_queues ?eb = [[1], []]"
    by (simp add: event_bus_init_def subscribe_def emit_def put_nowait_def queue_full_def)
  with event_bus_bounded [of 1 ?eb "[Subscribe, Emit 1 1, Subscribe]" 5 3] show ?thesis by simp
qed

end
