(* ===== verification/Hub_Pipeline.thy ===== *)
theory Hub_Pipeline
  imports Circuit_Breaker Rate_Limiter Agent_Grants Pool_Manager Event_Bus
begin

text \<open>
  The inbound pipeline of the hub: registration (core/hub/hub_registration.py), identity and binding
  resolution (core/hub/identity_resolver.py, hub_protocol.py), the middleware chain
  (core/hub/middleware/*.py) and the dispatch of its result (core/hub/hub_dispatch.py).

  A stage takes the rest of the chain as an argument, as in the code, and threads the hub. What is
  plugged into the hub (command routers, the speech-to-text service, the authorizer and link-checker
  ports, the session stores) is a function in its state; one message reads the clock once. Replies,
  telemetry and session resumes are recorded in the hub.
\<close>

subsection \<open>Routing\<close>

type_synonym routing_key = "platform \<times> string \<times> string"

definition to_pool_id :: "routing_key \<Rightarrow> string" where
  "to_pool_id key = (case key of (p, bid, scope) \<Rightarrow> platform_value p @ '':'' @ bid @ '':'' @ scope)"

record binding =
  bd_agent_name :: string
  bd_pool_id :: string
  bd_public_bot :: "string option"

datatype binding_error = PoolAlreadyBound string string

definition register_binding ::
    "platform \<Rightarrow> string \<Rightarrow> string \<Rightarrow> string \<Rightarrow> string \<Rightarrow> string option \<Rightarrow> (routing_key, binding) dict \<Rightarrow>
     binding_error + (routing_key, binding) dict" where
  "register_binding p bid scope agent pool_id public_bot bs =
     (case find (\<lambda>((p', bid', scope'), b). p' = p \<and> bid' = bid \<and> scope' \<noteq> scope \<and> bd_pool_id b = pool_id) bs of
        Some ((_, _, scope'), _) \<Rightarrow> Inl (PoolAlreadyBound pool_id scope')
      | None \<Rightarrow> Inr (AList.update (p, bid, scope)
                  \<lparr>bd_agent_name = agent, bd_pool_id = pool_id, bd_public_bot = public_bot\<rparr> bs))"

definition resolve_binding :: "(routing_key, binding) dict \<Rightarrow> inbound_message \<Rightarrow> binding option" where
  "resolve_binding bs msg =
     (case parse_platform (m_platform msg) of
        None \<Rightarrow> None
      | Some p \<Rightarrow>
          (case map_of bs (p, m_bot_id msg, m_scope_id msg) of
             Some b \<Rightarrow> Some b
           | None \<Rightarrow>
               (case map_of bs (p, m_bot_id msg, ''*'') of
                  Some wb \<Rightarrow> Some (wb\<lparr>bd_pool_id := to_pool_id (p, m_bot_id msg, m_scope_id msg)\<rparr>)
                | None \<Rightarrow> None)))"

subsection \<open>The hub\<close>

datatype dispatch_outcome = Handled string | Fallthrough | DispatchFailed

record router =
  rt_prepare :: "inbound_message \<Rightarrow> inbound_message"
  rt_is_command :: "inbound_message \<Rightarrow> bool"
  rt_dispatch :: "inbound_message \<Rightarrow> pool \<Rightarrow> dispatch_outcome \<times> pool"

record agent =
  agt_router :: "router option"
  agt_configures_pool :: bool
  agt_backend_alive :: "string \<Rightarrow> bool"

datatype stt_outcome =
    Transcript string "string option"
  | SttTimeout
  | SttNoise
  | SttUnavailable
  | SttFailed

record hub =
  h_authenticators :: "(platform \<times> string, authenticator) dict"
  h_bindings :: "(routing_key, binding) dict"
  h_adapters :: "(platform \<times> string) list"
  h_agents :: "string \<rightharpoonup> agent"
  h_circuits :: "circuit_registry option"
  h_rate_limiter :: rate_limiter
  h_pools :: pool_manager
  h_link_checker :: "(string \<Rightarrow> bool) option"
  h_authorizer :: "(string \<Rightarrow> string \<Rightarrow> string list \<Rightarrow> auth_decision) option"
  h_msg_manager :: bool
  h_stt :: "(string \<Rightarrow> stt_outcome) option"
  h_message_index :: "(string \<Rightarrow> string \<Rightarrow> unit + string option) option"
  h_turn_store :: "(string \<Rightarrow> unit + string option) option"
  h_resume_publisher :: bool
  h_events :: "pipeline_event list"
  h_replies :: "(string \<times> string) list"
  h_resumes :: "(string \<times> string) list"

datatype pipeline_result =
    Drop
  | CommandHandled string
  | SubmitToPool string inbound_message
  | StageError string
  | NeverReturns

record pipeline_context =
  cx_key :: "routing_key option"
  cx_binding :: "binding option"
  cx_agent :: "agent option"
  cx_pool_id :: "string option"
  cx_router :: "router option"

definition empty_context :: pipeline_context where
  "empty_context = \<lparr>cx_key = None, cx_binding = None, cx_agent = None, cx_pool_id = None, cx_router = None\<rparr>"

type_synonym next_stage = "inbound_message \<Rightarrow> pipeline_context \<Rightarrow> hub \<Rightarrow> pipeline_result \<times> hub"
type_synonym stage = "next_stage \<Rightarrow> next_stage"

definition event :: "pipeline_event \<Rightarrow> hub \<Rightarrow> hub" where
  "event e h = h\<lparr>h_events := h_events h @ [e]\<rparr>"

definition dropped :: "inbound_message \<Rightarrow> string \<Rightarrow> string \<Rightarrow> hub \<Rightarrow> hub" where
  "dropped msg st reason h = event (MessageDropped (m_id msg) st reason) h"

definition reply :: "inbound_message \<Rightarrow> string \<Rightarrow> hub \<Rightarrow> hub" where
  "reply msg key h = h\<lparr>h_replies := h_replies h @ [(m_id msg, key)]\<rparr>"

subsection \<open>Identity\<close>

definition resolve_identity ::
    "time \<Rightarrow> string option \<Rightarrow> string \<Rightarrow> string \<Rightarrow> hub \<Rightarrow> identity \<times> hub" where
  "resolve_identity now user_id plat bot_id h =
     (let public = \<lparr>id_user_id = (case user_id of None \<Rightarrow> [] | Some u \<Rightarrow> u), id_trust_level = PUBLIC,
                    id_is_admin = False\<rparr>
      in case parse_platform plat of
           None \<Rightarrow> (public, h)
         | Some p \<Rightarrow>
             (case map_of (h_authenticators h) (p, bot_id) of
                None \<Rightarrow> (public, h)
              | Some au \<Rightarrow>
                  (let (i, au') = auth_resolve now user_id None au
                   in (i, h\<lparr>h_authenticators := AList.update (p, bot_id) au' (h_authenticators h)\<rparr>))))"

definition resolve_message_trust :: "time \<Rightarrow> inbound_message \<Rightarrow> hub \<Rightarrow> inbound_message \<times> hub" where
  "resolve_message_trust now msg h =
     (case parse_platform (m_platform msg) of
        None \<Rightarrow> (msg, h)
      | Some p \<Rightarrow>
          (case map_of (h_authenticators h) (p, m_bot_id msg) of
             None \<Rightarrow> (msg, h)
           | Some au \<Rightarrow>
               (let (i, au') = auth_resolve now (if m_user_id msg = [] then None else Some (m_user_id msg)) None au;
                    h' = h\<lparr>h_authenticators := AList.update (p, m_bot_id msg) au' (h_authenticators h)\<rparr>
                in if id_trust_level i = m_trust_level msg \<and> id_is_admin i = m_is_admin msg then (msg, h')
                   else (msg\<lparr>m_trust_level := id_trust_level i, m_is_admin := id_is_admin i\<rparr>, h'))))"

subsection \<open>Guards\<close>

definition trace_stage :: "string \<Rightarrow> stage" where
  "trace_stage trace_id nxt msg cx h = nxt (msg\<lparr>m_trace_id := Some trace_id\<rparr>) cx h"

definition validate_platform_stage :: stage where
  "validate_platform_stage nxt msg cx h =
     (if parse_platform (m_platform msg) = None
      then (Drop, dropped msg ''ValidatePlatformMiddleware'' ''unknown_platform'' h)
      else nxt msg cx h)"

definition resolve_identity_stage :: "time \<Rightarrow> stage" where
  "resolve_identity_stage now nxt msg0 cx h0 =
     (let (msg, h) = resolve_message_trust now msg0 h0
      in if m_trust_level msg = BLOCKED
         then (Drop, dropped msg ''ResolveIdentityMiddleware'' ''trust_blocked'' h)
         else nxt msg cx h)"

definition link_cmd_prefixes :: "string list" where
  "link_cmd_prefixes =
     [''/link'', ''/join'', ''/invite'', ''/unpair'', ''/unlink'', ''!link'', ''!join'']"

definition platform_requires_link :: "string \<Rightarrow> bool" where
  "platform_requires_link p \<longleftrightarrow> py_lower p \<in> {''telegram'', ''discord''}"

definition is_link_text :: "string \<Rightarrow> bool" where
  "is_link_text txt \<longleftrightarrow> list_ex (\<lambda>p. startswith p (py_lower (py_strip txt))) link_cmd_prefixes"

definition unlinked_refusal :: string where
  "unlinked_refusal = ''Account not linked for chat.''"

definition platform_link_stage :: stage where
  "platform_link_stage nxt msg cx h =
     (if \<not> platform_requires_link (m_platform msg) then nxt msg cx h
      else if is_link_text (m_text msg) then nxt msg cx h
      else
        (case h_link_checker h of
           None \<Rightarrow> nxt msg cx h
         | Some ready \<Rightarrow>
             if ready (m_user_id msg) then nxt msg cx h
             else (CommandHandled unlinked_refusal,
                   dropped msg ''PlatformLinkMiddleware'' ''platform_unlinked'' h)))"

definition rate_limit_stage :: "time \<Rightarrow> stage" where
  "rate_limit_stage now nxt msg cx h =
     (case parse_platform (m_platform msg) of
        None \<Rightarrow> (StageError ''ValueError'', h)
      | Some p \<Rightarrow>
          (let cx1 = cx\<lparr>cx_key := Some (p, m_bot_id msg, m_scope_id msg)\<rparr>;
               (limited, rl) = is_limited now (m_platform msg) (m_bot_id msg) (m_user_id msg) (h_rate_limiter h);
               h1 = h\<lparr>h_rate_limiter := rl\<rparr>
           in if limited then (Drop, dropped msg ''RateLimitMiddleware'' ''rate_limited'' h1)
              else nxt msg cx1 h1))"

subsection \<open>Speech to text\<close>

definition max_transcript_len :: nat where "max_transcript_len = 8000"

text \<open>The microphone sign and a blank, in UTF-8.\<close>

definition mic_prefix :: string where
  "mic_prefix = [CHR 0xF0, CHR 0x9F, CHR 0x8E, CHR 0xA4, CHR '' '']"

definition stt_stage :: stage where
  "stt_stage nxt msg cx h =
     (if m_modality msg \<noteq> Some ''voice'' then nxt msg cx h
      else if m_text msg \<noteq> [] then nxt msg cx h
      else if \<not> h_msg_manager h then (Drop, reply msg ''stt_unsupported'' h)
      else
        (case h_stt h of
           None \<Rightarrow> (Drop, reply msg ''stt_unsupported'' h)
         | Some transcribe \<Rightarrow>
             (case m_audio msg of
                None \<Rightarrow> (Drop, h)
              | Some None \<Rightarrow> (Drop, reply msg ''stt_failed'' h)
              | Some (Some blob) \<Rightarrow>
                  (case transcribe blob of
                     SttTimeout \<Rightarrow> (Drop, reply msg ''stt_failed'' h)
                   | SttNoise \<Rightarrow> (Drop, reply msg ''stt_noise'' h)
                   | SttUnavailable \<Rightarrow> (Drop, reply msg ''stt_unavailable'' h)
                   | SttFailed \<Rightarrow> (Drop, reply msg ''stt_failed'' h)
                   | Transcript raw lang \<Rightarrow>
                       (let transcript = py_strip raw
                        in if startswith ''/'' transcript then (Drop, reply msg ''stt_invalid'' h)
                           else if max_transcript_len < length transcript
                             then (Drop, reply msg ''stt_too_long'' h)
                           else nxt (msg\<lparr>m_text := transcript, m_text_raw := mic_prefix @ transcript,
                                         m_language := lang, m_audio := None\<rparr>) cx
                                  (reply msg (mic_prefix @ transcript) h))))))"

subsection \<open>Binding, authorization\<close>

definition resolve_binding_stage :: stage where
  "resolve_binding_stage nxt msg cx h =
     (if cx_key cx = None then (StageError ''RateLimitMiddleware must precede'', h)
      else
        (case resolve_binding (h_bindings h) msg of
           None \<Rightarrow> (Drop, dropped msg ''ResolveBindingMiddleware'' ''no_binding'' h)
         | Some b \<Rightarrow>
             (case h_agents h (bd_agent_name b) of
                None \<Rightarrow> (Drop, dropped msg ''ResolveBindingMiddleware'' ''no_agent'' h)
              | Some a \<Rightarrow> nxt msg (cx\<lparr>cx_binding := Some b, cx_agent := Some a\<rparr>) h)))"

definition refusal_text :: "binding \<Rightarrow> string" where
  "refusal_text b =
     (case bd_public_bot b of Some p \<Rightarrow> if p \<noteq> [] then p else ''https://factory.roxabi.dev''
                            | None \<Rightarrow> ''https://factory.roxabi.dev'')"

definition authorize_agent_stage :: stage where
  "authorize_agent_stage nxt msg cx h =
     (case (cx_binding cx, cx_agent cx, h_authorizer h) of
        (Some b, Some a, Some auth) \<Rightarrow>
          (if m_is_admin msg then nxt msg cx h
           else if decision_allowed (auth (bd_agent_name b) (m_user_id msg) (m_roles msg)) then nxt msg cx h
           else (CommandHandled (refusal_text b),
                 dropped msg ''AuthorizeAgentMiddleware'' ''agent_unauthorized'' h))
      | _ \<Rightarrow> nxt msg cx h)"

subsection \<open>Pool, commands\<close>

definition message_prep_stage :: "time \<Rightarrow> string \<Rightarrow> stage" where
  "message_prep_stage now fresh nxt msg cx h =
     (case (cx_binding cx, cx_agent cx) of
        (Some b, Some a) \<Rightarrow>
          (case get_or_create_pool now fresh (bd_pool_id b) (bd_agent_name b) (h_pools h) of
             None \<Rightarrow> (NeverReturns, h)
           | Some (pool, pm) \<Rightarrow>
               (let configures = (case h_agents h (pl_agent_name pool) of
                                    None \<Rightarrow> False | Some ag \<Rightarrow> agt_configures_pool ag);
                    set_up = (\<lambda>p. p\<lparr>pl_configured := pl_configured p \<or> configures,
                                   pl_has_resume_fn := pl_has_resume_fn p \<or> h_resume_publisher h\<rparr>);
                    h1 = h\<lparr>h_pools := update_pool (bd_pool_id b) set_up pm\<rparr>;
                    cx1 = cx\<lparr>cx_pool_id := Some (bd_pool_id b), cx_router := agt_router a\<rparr>;
                    msg1 = (case parse_command (m_text msg) of
                              None \<Rightarrow> msg | Some c \<Rightarrow> msg\<lparr>m_command := Some c\<rparr>);
                    msg2 = (case agt_router a of None \<Rightarrow> msg1 | Some r \<Rightarrow> rt_prepare r msg1)
                in nxt msg2 cx1 h1))
      | _ \<Rightarrow> (StageError ''ResolveBindingMiddleware must precede'', h))"

definition pool_at :: "hub \<Rightarrow> string \<Rightarrow> pool option" where
  "pool_at h pid = map_of (pmg_pools (h_pools h)) pid"

definition first_word :: "string \<Rightarrow> string" where
  "first_word txt = fst (split_first_word (py_lstrip txt))"

definition command_stage :: stage where
  "command_stage nxt msg cx h =
     (case (cx_pool_id cx, cx_key cx) of
        (Some pid, Some key) \<Rightarrow>
          (case (cx_router cx, pool_at h pid) of
             (Some r, Some pool) \<Rightarrow>
               (if rt_is_command r msg
                then
                  (let (outcome, pool') = rt_dispatch r msg pool;
                       h1 = h\<lparr>h_pools := update_pool pid (\<lambda>_. pool') (h_pools h)\<rparr>
                   in case outcome of
                        DispatchFailed \<Rightarrow> (CommandHandled ''generic'', h1)
                      | Fallthrough \<Rightarrow> nxt msg cx h1
                      | Handled response \<Rightarrow>
                          (CommandHandled response,
                           event (CommandDispatched (m_id msg) (first_word (m_text msg))) h1))
                else nxt msg cx h)
           | _ \<Rightarrow> nxt msg cx h)
      | _ \<Rightarrow> (StageError ''MessagePrepMiddleware must precede'', h))"

subsection \<open>Session resume and submission\<close>

datatype resume_status = Resumed | Skipped

definition on_pool :: "string \<Rightarrow> (pool \<Rightarrow> pool) \<Rightarrow> hub \<Rightarrow> hub" where
  "on_pool pid f h = h\<lparr>h_pools := update_pool pid f (h_pools h)\<rparr>"

definition resume_session :: "string \<Rightarrow> string \<Rightarrow> hub \<Rightarrow> hub" where
  "resume_session pid sid h = h\<lparr>h_resumes := h_resumes h @ [(pid, sid)]\<rparr>"

text \<open>\<open>Inl ()\<close> is the RuntimeError of a store that is not connected.\<close>

definition resume_path1 ::
    "inbound_message \<Rightarrow> string \<Rightarrow> pool \<Rightarrow> hub \<Rightarrow> (unit + resume_status option) \<times> hub" where
  "resume_path1 msg pid pool h =
     (case (m_reply_to_id msg, h_message_index h) of
        (Some reply_to, Some resolve) \<Rightarrow>
          (case resolve pid reply_to of
             Inl _ \<Rightarrow> (Inl (), h)
           | Inr None \<Rightarrow> (Inr None, h)
           | Inr (Some sid) \<Rightarrow>
               if \<not> is_idle pool
               then (Inr (Some Skipped), on_pool pid (\<lambda>p. p\<lparr>pl_pending_session_id := Some sid\<rparr>) h)
               else (Inr (Some Resumed), resume_session pid sid h))
      | _ \<Rightarrow> (Inr None, h))"

definition resume_path3 :: "string \<Rightarrow> pool \<Rightarrow> hub \<Rightarrow> (unit + resume_status option) \<times> hub" where
  "resume_path3 pid pool h =
     (case h_turn_store h of
        None \<Rightarrow> (Inr None, h)
      | Some last_session \<Rightarrow>
          if \<not> is_idle pool then (Inr None, h)
          else
            (case last_session pid of
               Inl _ \<Rightarrow> (Inl (), h)
             | Inr None \<Rightarrow> (Inr None, h)
             | Inr (Some sid) \<Rightarrow>
                 if sid = pl_session_id pool
                 then (if (case h_agents h (pl_agent_name pool) of
                             None \<Rightarrow> True | Some a \<Rightarrow> agt_backend_alive a pid)
                       then (Inr (Some Skipped), h) else (Inr None, h))
                 else (Inr (Some Resumed), resume_session pid sid h)))"

definition resolve_context ::
    "inbound_message \<Rightarrow> string \<Rightarrow> pool \<Rightarrow> hub \<Rightarrow> (unit + resume_status) \<times> hub" where
  "resolve_context msg pid pool h =
     (case resume_path1 msg pid pool h of
        (Inl _, h1) \<Rightarrow> (Inl (), h1)
      | (Inr (Some s), h1) \<Rightarrow> (Inr s, h1)
      | (Inr None, h1) \<Rightarrow>
          (case resume_path3 pid pool h1 of
             (Inl _, h2) \<Rightarrow> (Inl (), h2)
           | (Inr (Some s), h2) \<Rightarrow> (Inr s, h2)
           | (Inr None, h2) \<Rightarrow> (Inr Skipped, h2)))"

definition resume_value :: "resume_status \<Rightarrow> string" where
  "resume_value s = (case s of Resumed \<Rightarrow> ''resumed'' | Skipped \<Rightarrow> ''skipped'')"

definition submit_stage :: "time \<Rightarrow> stage" where
  "submit_stage now nxt msg cx h =
     (case (cx_pool_id cx, cx_key cx) of
        (Some pid, Some (p, _, _)) \<Rightarrow>
          (if (p, m_bot_id msg) \<notin> set (h_adapters h)
           then (Drop, dropped msg ''SubmitToPoolMiddleware'' ''no_adapter'' h)
           else
             (let (tripped, retry, circuits) = circuit_breaker_drop now (h_circuits h);
                  h1 = h\<lparr>h_circuits := circuits\<rparr>
              in if tripped
                 then (Drop, dropped msg ''SubmitToPoolMiddleware'' ''circuit_open'' (reply msg ''unavailable'' h1))
                 else
                   (case pool_at h1 pid of
                      None \<Rightarrow> (StageError ''no pool'', h1)
                    | Some pool \<Rightarrow>
                        (let h2 = on_pool pid (\<lambda>p. p\<lparr>pl_has_update_fn :=
                               pl_has_update_fn p \<or> m_has_session_update_fn msg\<rparr>) h1;
                             (r, h3) = resolve_context msg pid pool h2;
                             status = (case r of Inl _ \<Rightarrow> Skipped | Inr s \<Rightarrow> s);
                             agent = (case cx_binding cx of None \<Rightarrow> [] | Some b \<Rightarrow> bd_agent_name b)
                         in (SubmitToPool pid msg,
                             event (PoolSubmitted (m_id msg) pid agent (resume_value status)) h3)))))
      | _ \<Rightarrow> (StageError ''MessagePrepMiddleware must precede'', h))"

subsection \<open>The chain\<close>

fun returned :: "pipeline_result \<Rightarrow> bool" where
  "returned (StageError _) = False"
| "returned NeverReturns = False"
| "returned _ = True"

fun run_stages :: "(string \<times> stage) list \<Rightarrow> next_stage" where
  "run_stages [] msg cx h = (Drop, h)"
| "run_stages ((name, st) # sts) msg cx h =
     (let (r, h') = st (run_stages sts) msg cx h
      in (r, if returned r then event (StageCompleted (m_id msg) name) h' else h'))"

definition default_pipeline :: "time \<Rightarrow> string \<Rightarrow> string \<Rightarrow> (string \<times> stage) list" where
  "default_pipeline now fresh trace_id =
     [(''TraceMiddleware'', trace_stage trace_id),
      (''ValidatePlatformMiddleware'', validate_platform_stage),
      (''ResolveIdentityMiddleware'', resolve_identity_stage now),
      (''PlatformLinkMiddleware'', platform_link_stage),
      (''RateLimitMiddleware'', rate_limit_stage now),
      (''SttMiddleware'', stt_stage),
      (''ResolveBindingMiddleware'', resolve_binding_stage),
      (''AuthorizeAgentMiddleware'', authorize_agent_stage),
      (''MessagePrepMiddleware'', message_prep_stage now fresh),
      (''CommandMiddleware'', command_stage),
      (''SubmitToPoolMiddleware'', submit_stage now)]"

definition process :: "time \<Rightarrow> string \<Rightarrow> string \<Rightarrow> inbound_message \<Rightarrow> hub \<Rightarrow> pipeline_result \<times> hub" where
  "process now fresh trace_id msg h =
     run_stages (default_pipeline now fresh trace_id) msg empty_context
       (event (MessageReceived (m_id msg) (m_platform msg) (m_user_id msg) (m_scope_id msg)) h)"

definition dispatch_pipeline_result ::
    "time \<Rightarrow> inbound_message \<Rightarrow> pipeline_result \<Rightarrow> hub \<Rightarrow> hub" where
  "dispatch_pipeline_result now msg result h =
     (case result of
        CommandHandled text \<Rightarrow> if text = [] then h else reply msg text h
      | SubmitToPool pid m \<Rightarrow> on_pool pid (pool_submit now m) h
      | _ \<Rightarrow> h)"

text \<open>One turn of \<open>Hub.run\<close>: an exception of the pipeline is logged and the loop goes on.\<close>

definition handle_message :: "time \<Rightarrow> string \<Rightarrow> string \<Rightarrow> inbound_message \<Rightarrow> hub \<Rightarrow> hub" where
  "handle_message now fresh trace_id msg h =
     (let (r, h') = process now fresh trace_id msg h in dispatch_pipeline_result now msg r h')"

subsection \<open>What each stage lets through\<close>

lemma run_stages_submit:
  "run_stages ((name, st) # sts) msg cx h = (SubmitToPool pid m, h') \<Longrightarrow>
     \<exists>h1. st (run_stages sts) msg cx h = (SubmitToPool pid m, h1)"
  by (auto simp: Let_def split: prod.splits)

lemma event_frame [simp]:
  "h_bindings (event e h) = h_bindings h" "h_agents (event e h) = h_agents h"
  "h_adapters (event e h) = h_adapters h" "h_authorizer (event e h) = h_authorizer h"
  "h_circuits (event e h) = h_circuits h" "h_link_checker (event e h) = h_link_checker h"
  "h_rate_limiter (event e h) = h_rate_limiter h" "h_authenticators (event e h) = h_authenticators h"
  "h_pools (event e h) = h_pools h"
  by (simp_all add: event_def)

lemma reply_frame [simp]:
  "h_bindings (reply msg k h) = h_bindings h" "h_agents (reply msg k h) = h_agents h"
  "h_adapters (reply msg k h) = h_adapters h" "h_authorizer (reply msg k h) = h_authorizer h"
  "h_circuits (reply msg k h) = h_circuits h"
  by (simp_all add: reply_def)

lemma trust_frame:
  assumes "resolve_message_trust now msg h = (msg1, h1)"
  shows "msg1 = msg\<lparr>m_trust_level := m_trust_level msg1, m_is_admin := m_is_admin msg1\<rparr>"
    "h1 = h\<lparr>h_authenticators := h_authenticators h1\<rparr>"
  using assms
  by (auto simp: resolve_message_trust_def Let_def split: option.splits prod.splits if_splits)

text \<open>The parts of the hub and the message that the guards read and nothing before them changes.\<close>

definition same_wiring :: "hub \<Rightarrow> hub \<Rightarrow> bool" where
  "same_wiring h h' \<longleftrightarrow> h_bindings h' = h_bindings h \<and> h_agents h' = h_agents h \<and>
     h_adapters h' = h_adapters h \<and> h_authorizer h' = h_authorizer h \<and> h_circuits h' = h_circuits h"

definition same_sender :: "inbound_message \<Rightarrow> inbound_message \<Rightarrow> bool" where
  "same_sender m m' \<longleftrightarrow> m_platform m' = m_platform m \<and> m_bot_id m' = m_bot_id m \<and>
     m_scope_id m' = m_scope_id m \<and> m_user_id m' = m_user_id m \<and> m_roles m' = m_roles m \<and>
     m_is_admin m' = m_is_admin m"

lemma stt_submit:
  assumes "stt_stage nxt msg cx h = (SubmitToPool pid m, h')"
  shows "\<exists>msg1 h1. nxt msg1 cx h1 = (SubmitToPool pid m, h') \<and> same_sender msg msg1 \<and> same_wiring h h1"
proof -
  have refl: "same_sender msg msg" "same_wiring h h" by (simp_all add: same_sender_def same_wiring_def)
  show ?thesis
  proof (cases "m_modality msg \<noteq> Some ''voice'' \<or> m_text msg \<noteq> []")
    case True
    with assms refl show ?thesis by (auto simp: stt_stage_def split: if_splits)
  next
    case False
    then obtain f b raw lang where f: "h_stt h = Some f" "m_audio msg = Some (Some b)"
        "f b = Transcript raw lang"
      using assms by (auto simp: stt_stage_def split: if_splits option.splits stt_outcome.splits)
    with False assms have "nxt (msg\<lparr>m_text := py_strip raw, m_text_raw := mic_prefix @ py_strip raw,
        m_language := lang, m_audio := None\<rparr>) cx (reply msg (mic_prefix @ py_strip raw) h) =
        (SubmitToPool pid m, h')"
      by (simp add: stt_stage_def Let_def split: if_splits)
    then show ?thesis
      by (intro exI conjI) (assumption, simp_all add: same_sender_def same_wiring_def)
  qed
qed

lemma binding_submit:
  assumes "resolve_binding_stage nxt msg cx h = (SubmitToPool pid m, h')"
  obtains b a where "resolve_binding (h_bindings h) msg = Some b" "h_agents h (bd_agent_name b) = Some a"
    "nxt msg (cx\<lparr>cx_binding := Some b, cx_agent := Some a\<rparr>) h = (SubmitToPool pid m, h')"
  using assms by (auto simp: resolve_binding_stage_def split: if_splits option.splits)

lemma authorize_submit:
  assumes "authorize_agent_stage nxt msg cx h = (SubmitToPool pid m, h')"
    "cx_binding cx = Some b" "cx_agent cx = Some a"
  shows "nxt msg cx h = (SubmitToPool pid m, h')"
    "(case h_authorizer h of None \<Rightarrow> True
      | Some auth \<Rightarrow> m_is_admin msg \<or>
          decision_allowed (auth (bd_agent_name b) (m_user_id msg) (m_roles msg)))"
  using assms by (auto simp: authorize_agent_stage_def split: if_splits option.splits)

lemma prep_submit:
  assumes "message_prep_stage now fresh nxt msg cx h = (SubmitToPool pid m, h')"
    "cx_binding cx = Some b" "cx_agent cx = Some a"
  shows "\<exists>msg1 h1. nxt msg1 (cx\<lparr>cx_pool_id := Some (bd_pool_id b), cx_router := agt_router a\<rparr>) h1 =
     (SubmitToPool pid m, h') \<and> same_wiring h h1"
proof -
  obtain pool pm where g: "get_or_create_pool now fresh (bd_pool_id b) (bd_agent_name b) (h_pools h) =
      Some (pool, pm)"
    using assms by (auto simp: message_prep_stage_def split: option.splits)
  from assms(1) show ?thesis
    unfolding message_prep_stage_def assms(2,3) g option.case prod.case Let_def
    by (intro exI conjI) (assumption, simp add: same_wiring_def)
qed

lemma command_submit:
  assumes "command_stage nxt msg cx h = (SubmitToPool pid m, h')"
  shows "\<exists>h1. nxt msg cx h1 = (SubmitToPool pid m, h') \<and> same_wiring h h1"
  using assms
  by (auto simp: command_stage_def Let_def same_wiring_def
      split: option.splits prod.splits if_splits dispatch_outcome.splits)

lemma submit_submit:
  assumes "submit_stage now nxt msg cx h = (SubmitToPool pid m, h')"
  shows "cx_pool_id cx = Some pid \<and> m = msg \<and> \<not> fst (circuit_breaker_drop now (h_circuits h)) \<and>
    (\<exists>p bid sc. cx_key cx = Some (p, bid, sc) \<and> (p, m_bot_id msg) \<in> set (h_adapters h))"
  using assms
  by (auto simp: submit_stage_def Let_def split: option.splits prod.splits if_splits)

lemma rate_limit_submit:
  assumes "rate_limit_stage now nxt msg cx h = (SubmitToPool pid m, h')"
  obtains p where "parse_platform (m_platform msg) = Some p"
    "\<not> fst (is_limited now (m_platform msg) (m_bot_id msg) (m_user_id msg) (h_rate_limiter h))"
    "nxt msg (cx\<lparr>cx_key := Some (p, m_bot_id msg, m_scope_id msg)\<rparr>)
       (h\<lparr>h_rate_limiter := snd (is_limited now (m_platform msg) (m_bot_id msg) (m_user_id msg)
                                   (h_rate_limiter h))\<rparr>) = (SubmitToPool pid m, h')"
  using assms by (auto simp: rate_limit_stage_def Let_def split: if_splits option.splits prod.splits)

lemma link_submit:
  assumes "platform_link_stage nxt msg cx h = (SubmitToPool pid m, h')"
  shows "nxt msg cx h = (SubmitToPool pid m, h')"
    "\<not> platform_requires_link (m_platform msg) \<or> is_link_text (m_text msg) \<or>
       (case h_link_checker h of None \<Rightarrow> True | Some ready \<Rightarrow> ready (m_user_id msg))"
  using assms by (auto simp: platform_link_stage_def split: if_splits option.splits)

text \<open>Everything a message that reaches a pool has passed.\<close>

definition cleared :: "time \<Rightarrow> hub \<Rightarrow> inbound_message \<Rightarrow> string \<Rightarrow> inbound_message \<Rightarrow> bool" where
  "cleared now h msg pid m \<longleftrightarrow>
     (let msg1 = fst (resolve_message_trust now msg h)
      in m_trust_level msg1 \<noteq> BLOCKED \<and>
         (\<not> platform_requires_link (m_platform msg) \<or> is_link_text (m_text msg) \<or>
            (case h_link_checker h of None \<Rightarrow> True | Some ready \<Rightarrow> ready (m_user_id msg))) \<and>
         \<not> fst (is_limited now (m_platform msg) (m_bot_id msg) (m_user_id msg) (h_rate_limiter h)) \<and>
         (\<exists>p b a. parse_platform (m_platform msg) = Some p \<and>
            resolve_binding (h_bindings h) msg = Some b \<and> bd_pool_id b = pid \<and>
            h_agents h (bd_agent_name b) = Some a \<and>
            (case h_authorizer h of None \<Rightarrow> True
             | Some auth \<Rightarrow> m_is_admin msg1 \<or>
                 decision_allowed (auth (bd_agent_name b) (m_user_id msg) (m_roles msg))) \<and>
            (p, m_bot_id m) \<in> set (h_adapters h)) \<and>
         \<not> fst (circuit_breaker_drop now (h_circuits h)))"

lemma resolve_binding_same:
  "same_sender m m' \<Longrightarrow> resolve_binding bs m' = resolve_binding bs m"
  by (simp add: resolve_binding_def same_sender_def cong: option.case_cong)

lemma tail_submit:
  assumes run: "run_stages
      [(n1, resolve_binding_stage), (n2, authorize_agent_stage), (n3, message_prep_stage now fresh),
       (n4, command_stage), (n5, submit_stage now)] msg cx h = (SubmitToPool pid m, h')"
    and key: "cx_key cx = Some (p, bid, sc)"
  shows "\<exists>b a. resolve_binding (h_bindings h) msg = Some b \<and> bd_pool_id b = pid \<and>
     h_agents h (bd_agent_name b) = Some a \<and>
     (case h_authorizer h of None \<Rightarrow> True
      | Some auth \<Rightarrow> m_is_admin msg \<or>
          decision_allowed (auth (bd_agent_name b) (m_user_id msg) (m_roles msg))) \<and>
     (p, m_bot_id m) \<in> set (h_adapters h) \<and> \<not> fst (circuit_breaker_drop now (h_circuits h))"
proof -
  from run_stages_submit [OF run] obtain b a h1 where b: "resolve_binding (h_bindings h) msg = Some b"
      "h_agents h (bd_agent_name b) = Some a"
    and r1: "run_stages [(n2, authorize_agent_stage), (n3, message_prep_stage now fresh),
        (n4, command_stage), (n5, submit_stage now)] msg (cx\<lparr>cx_binding := Some b, cx_agent := Some a\<rparr>) h =
        (SubmitToPool pid m, h1)"
    by (auto elim: binding_submit)
  let ?cx = "cx\<lparr>cx_binding := Some b, cx_agent := Some a\<rparr>"
  have cx: "cx_binding ?cx = Some b" "cx_agent ?cx = Some a" by simp_all
  from run_stages_submit [OF r1] obtain h2 where
    "authorize_agent_stage (run_stages [(n3, message_prep_stage now fresh), (n4, command_stage),
       (n5, submit_stage now)]) msg ?cx h = (SubmitToPool pid m, h2)" by blast
  note auth = authorize_submit [OF this cx]
  from run_stages_submit [OF auth(1)] obtain h3 where
    "message_prep_stage now fresh (run_stages [(n4, command_stage), (n5, submit_stage now)]) msg ?cx h =
       (SubmitToPool pid m, h3)" by blast
  from prep_submit [OF this cx] obtain msg4 h4 where
    r4: "run_stages [(n4, command_stage), (n5, submit_stage now)] msg4
       (?cx\<lparr>cx_pool_id := Some (bd_pool_id b), cx_router := agt_router a\<rparr>) h4 = (SubmitToPool pid m, h3)"
    and w4: "same_wiring h h4" by blast
  let ?cx4 = "?cx\<lparr>cx_pool_id := Some (bd_pool_id b), cx_router := agt_router a\<rparr>"
  from run_stages_submit [OF r4] obtain h5 where
    "command_stage (run_stages [(n5, submit_stage now)]) msg4 ?cx4 h4 = (SubmitToPool pid m, h5)" by blast
  from command_submit [OF this] obtain h6 where
    r6: "run_stages [(n5, submit_stage now)] msg4 ?cx4 h6 = (SubmitToPool pid m, h5)"
    and w6: "same_wiring h4 h6" by blast
  from run_stages_submit [OF r6] obtain h7 where
    "submit_stage now (run_stages []) msg4 ?cx4 h6 = (SubmitToPool pid m, h7)" by blast
  from submit_submit [OF this] key have
    "bd_pool_id b = pid" "(p, m_bot_id m) \<in> set (h_adapters h6)"
    "\<not> fst (circuit_breaker_drop now (h_circuits h6))" by auto
  with b auth(2) w4 w6 show ?thesis by (auto simp: same_wiring_def)
qed

lemma process_submit:
  assumes "process now fresh trace_id msg h = (SubmitToPool pid m, h')"
  shows "cleared now h msg pid m"
proof -
  let ?h0 = "event (MessageReceived (m_id msg) (m_platform msg) (m_user_id msg) (m_scope_id msg)) h"
  let ?t = "\<lambda>msg. msg\<lparr>m_trace_id := Some trace_id\<rparr>"
  let ?tail = "[(''ResolveBindingMiddleware'', resolve_binding_stage),
      (''AuthorizeAgentMiddleware'', authorize_agent_stage),
      (''MessagePrepMiddleware'', message_prep_stage now fresh),
      (''CommandMiddleware'', command_stage),
      (''SubmitToPoolMiddleware'', submit_stage now)]"
  let ?from_rate = "(''RateLimitMiddleware'', rate_limit_stage now) # (''SttMiddleware'', stt_stage) # ?tail"
  let ?from_id = "(''ResolveIdentityMiddleware'', resolve_identity_stage now) #
      (''PlatformLinkMiddleware'', platform_link_stage) # ?from_rate"
  let ?from_valid = "(''ValidatePlatformMiddleware'', validate_platform_stage) # ?from_id"
  from assms obtain h1 where "trace_stage trace_id (run_stages ?from_valid) msg empty_context ?h0 =
      (SubmitToPool pid m, h1)"
    unfolding process_def default_pipeline_def by (blast dest: run_stages_submit)
  then have "run_stages ?from_valid (?t msg) empty_context ?h0 = (SubmitToPool pid m, h1)"
    by (simp add: trace_stage_def)
  then obtain h2 where "validate_platform_stage (run_stages ?from_id) (?t msg) empty_context ?h0 =
      (SubmitToPool pid m, h2)" by (blast dest: run_stages_submit)
  then have "run_stages ?from_id (?t msg) empty_context ?h0 = (SubmitToPool pid m, h2)"
    by (auto simp: validate_platform_stage_def split: if_splits)
  then obtain h3 where id: "resolve_identity_stage now (run_stages (tl ?from_id)) (?t msg) empty_context ?h0 =
      (SubmitToPool pid m, h3)" by (auto dest: run_stages_submit simp del: run_stages.simps)
  obtain msg1 hh1 where rt: "resolve_message_trust now (?t msg) ?h0 = (msg1, hh1)" by fastforce
  from id have nb: "m_trust_level msg1 \<noteq> BLOCKED" and
    r3: "run_stages (tl ?from_id) msg1 empty_context hh1 = (SubmitToPool pid m, h3)"
    by (auto simp: resolve_identity_stage_def rt simp del: run_stages.simps split: if_splits)
  have m1: "m_trust_level (fst (resolve_message_trust now msg h)) = m_trust_level msg1"
      "m_is_admin (fst (resolve_message_trust now msg h)) = m_is_admin msg1"
    using rt by (auto simp: resolve_message_trust_def Let_def split: option.splits prod.splits if_splits)
  note fr = trust_frame [OF rt]
  have fm: "m_platform msg1 = m_platform msg" "m_bot_id msg1 = m_bot_id msg" "m_user_id msg1 = m_user_id msg"
      "m_scope_id msg1 = m_scope_id msg" "m_roles msg1 = m_roles msg" "m_text msg1 = m_text msg"
    by (subst fr(1), simp)+
  have fh: "h_link_checker hh1 = h_link_checker h" "h_rate_limiter hh1 = h_rate_limiter h"
      "h_bindings hh1 = h_bindings h" "h_agents hh1 = h_agents h" "h_adapters hh1 = h_adapters h"
      "h_authorizer hh1 = h_authorizer h" "h_circuits hh1 = h_circuits h"
    by (subst fr(2), simp)+
  from r3 obtain h4 where "platform_link_stage (run_stages ?from_rate) msg1 empty_context hh1 =
      (SubmitToPool pid m, h4)" by (auto dest: run_stages_submit simp del: run_stages.simps)
  note link = link_submit [OF this]
  from link(1) obtain h5 where "rate_limit_stage now (run_stages (tl ?from_rate)) msg1 empty_context hh1 =
      (SubmitToPool pid m, h5)" by (auto dest: run_stages_submit simp del: run_stages.simps)
  then obtain p where p: "parse_platform (m_platform msg1) = Some p"
    and nl: "\<not> fst (is_limited now (m_platform msg1) (m_bot_id msg1) (m_user_id msg1) (h_rate_limiter hh1))"
    and r5': "run_stages (tl ?from_rate) msg1
        (empty_context\<lparr>cx_key := Some (p, m_bot_id msg1, m_scope_id msg1)\<rparr>)
        (hh1\<lparr>h_rate_limiter := snd (is_limited now (m_platform msg1) (m_bot_id msg1) (m_user_id msg1)
           (h_rate_limiter hh1))\<rparr>) = (SubmitToPool pid m, h5)"
    by (rule rate_limit_submit)
  have "\<exists>cx hh2. run_stages (tl ?from_rate) msg1 cx hh2 = (SubmitToPool pid m, h5) \<and>
      cx_key cx = Some (p, m_bot_id msg1, m_scope_id msg1) \<and> same_wiring hh1 hh2"
    by (intro exI conjI, rule r5') (simp_all add: same_wiring_def)
  then obtain cx hh2 where cx: "cx_key cx = Some (p, m_bot_id msg1, m_scope_id msg1)"
    and w2: "same_wiring hh1 hh2"
    and r5: "run_stages (tl ?from_rate) msg1 cx hh2 = (SubmitToPool pid m, h5)"
    by blast
  from r5 obtain h6 where "stt_stage (run_stages ?tail) msg1 cx hh2 = (SubmitToPool pid m, h6)"
    by (auto dest: run_stages_submit simp del: run_stages.simps)
  from stt_submit [OF this] obtain msg2 hh3 where
    r6: "run_stages ?tail msg2 cx hh3 = (SubmitToPool pid m, h6)"
    and s: "same_sender msg1 msg2" and w3: "same_wiring hh2 hh3" by blast
  have snd: "m_user_id msg2 = m_user_id msg" "m_roles msg2 = m_roles msg"
      "m_is_admin msg2 = m_is_admin (fst (resolve_message_trust now msg h))"
      "resolve_binding bs msg2 = resolve_binding bs msg" for bs
    using s fm m1 by (simp_all add: same_sender_def resolve_binding_def cong: option.case_cong)
  have wires: "h_bindings hh3 = h_bindings h" "h_agents hh3 = h_agents h" "h_adapters hh3 = h_adapters h"
      "h_authorizer hh3 = h_authorizer h" "h_circuits hh3 = h_circuits h"
    using w2 w3 fh by (simp_all add: same_wiring_def)
  from tail_submit [OF r6 cx, unfolded snd wires] p nb link(2) nl show ?thesis
    unfolding cleared_def Let_def m1 fm fh by blast
qed

lemma process_blocked:
  assumes "parse_platform (m_platform msg) = Some p" "map_of (h_authenticators h) (p, m_bot_id msg) = Some au"
    "id_trust_level (fst (auth_resolve now (if m_user_id msg = [] then None else Some (m_user_id msg)) None au)) = BLOCKED"
  shows "fst (process now fresh trace_id msg h) = Drop \<and>
     h_pools (snd (process now fresh trace_id msg h)) = h_pools h \<and>
     h_rate_limiter (snd (process now fresh trace_id msg h)) = h_rate_limiter h \<and>
     h_circuits (snd (process now fresh trace_id msg h)) = h_circuits h \<and>
     h_replies (snd (process now fresh trace_id msg h)) = h_replies h"
proof -
  let ?i = "auth_resolve now (if m_user_id msg = [] then None else Some (m_user_id msg)) None au"
  let ?t = "msg\<lparr>m_trace_id := Some trace_id\<rparr>"
  let ?h0 = "event (MessageReceived (m_id msg) (m_platform msg) (m_user_id msg) (m_scope_id msg)) h"
  obtain msg1 hh where rt: "resolve_message_trust now ?t ?h0 = (msg1, hh)" by fastforce
  have b: "m_trust_level msg1 = BLOCKED"
    using rt assms by (auto simp: resolve_message_trust_def split_beta Let_def split: if_splits)
  have fr: "h_pools hh = h_pools h" "h_rate_limiter hh = h_rate_limiter h" "h_circuits hh = h_circuits h"
      "h_replies hh = h_replies h"
    by (subst trust_frame(2) [OF rt], simp add: event_def)+
  show ?thesis
    using assms(1) rt b fr
    by (simp add: process_def default_pipeline_def trace_stage_def validate_platform_stage_def
        resolve_identity_stage_def Let_def dropped_def) (simp add: event_def)
qed

subsection \<open>Pool ids\<close>

lemma platform_no_colon: "CHR '':'' \<notin> set (platform_value p)"
  by (cases p) (simp_all add: platform_value_def)

lemma append_sep_inj:
  "a @ c # x = b @ c # y \<Longrightarrow> c \<notin> set a \<Longrightarrow> c \<notin> set b \<Longrightarrow> a = b \<and> x = y"
proof (induction a arbitrary: b)
  case Nil
  then show ?case by (cases b) auto
next
  case (Cons z a)
  then show ?case by (cases b) auto
qed

lemma to_pool_id_inj:
  assumes "to_pool_id (p, b, s) = to_pool_id (p', b', s')" "CHR '':'' \<notin> set b" "CHR '':'' \<notin> set b'"
  shows "p = p' \<and> b = b' \<and> s = s'"
proof -
  have "platform_value p @ CHR '':'' # (b @ CHR '':'' # s) =
      platform_value p' @ CHR '':'' # (b' @ CHR '':'' # s')"
    using assms(1) by (simp add: to_pool_id_def)
  from append_sep_inj [OF this] have "platform_value p = platform_value p'"
    "b @ CHR '':'' # s = b' @ CHR '':'' # s'"
    using platform_no_colon by auto
  moreover from this(1) have "p = p'" by (metis parse_platform_value option.inject)
  ultimately show ?thesis using append_sep_inj assms(2,3) by metis
qed

definition canonical_bindings :: "(routing_key, binding) dict \<Rightarrow> bool" where
  "canonical_bindings bs \<longleftrightarrow> list_all (\<lambda>(k, b). bd_pool_id b = to_pool_id k) bs"

lemma resolve_binding_pool:
  assumes "canonical_bindings bs" "resolve_binding bs msg = Some b"
  obtains p where "parse_platform (m_platform msg) = Some p"
    "bd_pool_id b = to_pool_id (p, m_bot_id msg, m_scope_id msg)"
proof -
  obtain p where p: "parse_platform (m_platform msg) = Some p"
    using assms(2) by (auto simp: resolve_binding_def split: option.splits)
  have "bd_pool_id b = to_pool_id (p, m_bot_id msg, m_scope_id msg)"
  proof (cases "map_of bs (p, m_bot_id msg, m_scope_id msg)")
    case (Some b')
    with assms p have "b' = b" by (simp add: resolve_binding_def)
    with Some assms(1) map_of_SomeD [OF Some] show ?thesis
      by (auto simp: canonical_bindings_def list_all_iff)
  qed (use assms p in \<open>auto simp: resolve_binding_def split: option.splits\<close>)
  with p that show ?thesis by blast
qed

subsection \<open>Properties\<close>


definition sample_hub :: hub where
  "sample_hub =
     \<lparr>h_authenticators = [((Telegram, ''main''), allow_all)],
      h_bindings = [((Telegram, ''main'', ''*''),
                     \<lparr>bd_agent_name = ''aria'', bd_pool_id = to_pool_id (Telegram, ''main'', ''*''),
                      bd_public_bot = None\<rparr>)],
      h_adapters = [(Telegram, ''main'')],
      h_agents = [''aria'' \<mapsto> \<lparr>agt_router = None, agt_configures_pool = False,
                             agt_backend_alive = (\<lambda>_. True)\<rparr>],
      h_circuits = None, h_rate_limiter = rate_limiter_init 20 60,
      h_pools = pool_manager_init default_pool_config 10 600 [] False,
      h_link_checker = None, h_authorizer = None, h_msg_manager = False, h_stt = None,
      h_message_index = None, h_turn_store = None, h_resume_publisher = False,
      h_events = [], h_replies = [], h_resumes = []\<rparr>"

lemma sample_submit:
  "fst (process 0 ''s1'' ''t1'' (sample_message ''m1'' ''hello'') sample_hub) =
     SubmitToPool ''telegram:main:chat:1''
       ((sample_message ''m1'' ''hello'')\<lparr>m_trace_id := Some ''t1'', m_trust_level := TRUSTED\<rparr>)"
  by code_simp


text \<open>
  A sender whom the registered authenticator resolves to BLOCKED is dropped before anything
  else happens: no pool is created or touched, the rate limiter and the circuits are not consulted
  and no reply is sent.
\<close>

theorem pipeline_drops_blocked:
  assumes "parse_platform (m_platform msg) = Some p" "map_of (h_authenticators h) (p, m_bot_id msg) = Some au"
    "id_trust_level (fst (auth_resolve now (if m_user_id msg = [] then None else Some (m_user_id msg)) None au)) = BLOCKED"
  shows "let (r, h') = process now fresh trace_id msg h
         in r = Drop \<and> h_pools h' = h_pools h \<and> h_rate_limiter h' = h_rate_limiter h \<and>
            h_circuits h' = h_circuits h \<and> h_replies h' = h_replies h"
  using process_blocked [OF assms] by (simp add: split_beta Let_def)

theorem pipeline_drops_blocked_witness:
  "fst (process 5 ''s1'' ''t1'' (sample_message ''m1'' ''hello'')
      (sample_hub\<lparr>h_authenticators := [((Telegram, ''main''), deny_all)]\<rparr>)) = Drop"
proof -
  let ?h = "sample_hub\<lparr>h_authenticators := [((Telegram, ''main''), deny_all)]\<rparr>"
  let ?m = "sample_message ''m1'' ''hello''"
  have "parse_platform (m_platform ?m) = Some Telegram"
    by (simp add: sample_message_def parse_platform_def platform_value_def)
  moreover have "map_of (h_authenticators ?h) (Telegram, m_bot_id ?m) = Some deny_all"
    by (simp add: sample_message_def)
  moreover have "id_trust_level (fst (auth_resolve 5 (if m_user_id ?m = [] then None
      else Some (m_user_id ?m)) None deny_all)) = BLOCKED"
    by (simp add: sample_message_def auth_resolve_fst resolve_trust_def deny_all_def
        authenticator_init_def aliases_of_def store_level_def Let_def)
  ultimately show ?thesis
    using pipeline_drops_blocked [of ?m Telegram ?h deny_all 5 "''s1''" "''t1''"]
    by (simp add: split_beta Let_def)
qed

text \<open>
  C33: with bindings registered under their canonical pool ids and bot ids free of colons, two
  messages meet in the same pool only if they come from the same platform, bot and scope, exact and
  wildcard bindings alike.
\<close>

theorem routing_isolates_scopes:
  assumes "canonical_bindings bs" "resolve_binding bs m1 = Some b1" "resolve_binding bs m2 = Some b2"
    "CHR '':'' \<notin> set (m_bot_id m1)" "CHR '':'' \<notin> set (m_bot_id m2)" "bd_pool_id b1 = bd_pool_id b2"
  shows "m_platform m1 = m_platform m2 \<and> m_bot_id m1 = m_bot_id m2 \<and> m_scope_id m1 = m_scope_id m2"
proof -
  obtain p1 where p1: "parse_platform (m_platform m1) = Some p1"
    "bd_pool_id b1 = to_pool_id (p1, m_bot_id m1, m_scope_id m1)"
    by (rule resolve_binding_pool [OF assms(1,2)])
  obtain p2 where p2: "parse_platform (m_platform m2) = Some p2"
    "bd_pool_id b2 = to_pool_id (p2, m_bot_id m2, m_scope_id m2)"
    by (rule resolve_binding_pool [OF assms(1,3)])
  have "to_pool_id (p1, m_bot_id m1, m_scope_id m1) = to_pool_id (p2, m_bot_id m2, m_scope_id m2)"
    using p1(2) p2(2) assms(6) by simp
  from to_pool_id_inj [OF this assms(4,5)] show ?thesis
    using parse_platform_Some [OF p1(1)] parse_platform_Some [OF p2(1)] by simp
qed

theorem routing_isolates_scopes_witness:
  "let bs = h_bindings sample_hub; m1 = sample_message ''a'' ''x''; m2 = m1\<lparr>m_text := ''y''\<rparr>
   in m_scope_id m1 = m_scope_id m2 \<and> canonical_bindings bs"
proof -
  let ?m1 = "sample_message ''a'' ''x''" and ?bs = "h_bindings sample_hub"
  have c: "canonical_bindings ?bs" by (simp add: canonical_bindings_def sample_hub_def)
  obtain b where b: "resolve_binding ?bs ?m1 = Some b" "resolve_binding ?bs (?m1\<lparr>m_text := ''y''\<rparr>) = Some b"
    by (simp add: resolve_binding_def sample_hub_def sample_message_def parse_platform_def platform_value_def)
  have n: "CHR '':'' \<notin> set (m_bot_id ?m1)" "CHR '':'' \<notin> set (m_bot_id (?m1\<lparr>m_text := ''y''\<rparr>))"
    by (simp_all add: sample_message_def)
  from routing_isolates_scopes [OF c b n refl] c show ?thesis by (simp add: Let_def)
qed

text \<open>
  The speech-to-text guard refuses transcripts that start with a slash, but a transcript that
  starts with an exclamation mark goes on down the pipeline and is parsed as a command.
\<close>

theorem voice_bang_command_passes:
  assumes "m_modality msg = Some ''voice''" "m_text msg = []" "h_msg_manager h"
    "h_stt h = Some f" "m_audio msg = Some (Some blob)" "f blob = Transcript raw lang"
    "py_strip raw = pre # c # cs" "\<not> is_space c" "length (py_strip raw) \<le> max_transcript_len"
  shows "(pre = CHR ''/'' \<longrightarrow> fst (stt_stage nxt msg cx h) = Drop) \<and>
     (pre = CHR ''!'' \<longrightarrow> (\<exists>msg' h' cmd. stt_stage nxt msg cx h = nxt msg' cx h' \<and>
        m_text msg' = py_strip raw \<and> parse_command (m_text msg') = Some cmd \<and> cc_prefix cmd = ''!''))"
proof (intro conjI impI)
  assume "pre = CHR ''/''"
  with assms show "fst (stt_stage nxt msg cx h) = Drop"
    by (simp add: stt_stage_def startswith_def)
next
  assume p: "pre = CHR ''!''"
  then have "stt_stage nxt msg cx h =
      nxt (msg\<lparr>m_text := py_strip raw, m_text_raw := mic_prefix @ py_strip raw,
               m_language := lang, m_audio := None\<rparr>) cx (reply msg (mic_prefix @ py_strip raw) h)"
    using assms by (simp add: stt_stage_def Let_def startswith_def)
  moreover have "\<exists>cmd. parse_command (py_strip raw) = Some cmd \<and> cc_prefix cmd = ''!''"
    using p assms(7,8)
    by (auto simp: parse_command_def command_prefixes_def startswith_def split_beta Let_def)
  ultimately show "\<exists>msg' h' cmd. stt_stage nxt msg cx h = nxt msg' cx h' \<and>
      m_text msg' = py_strip raw \<and> parse_command (m_text msg') = Some cmd \<and> cc_prefix cmd = ''!''"
    by auto
qed

theorem voice_bang_command_passes_witness:
  "let msg = (sample_message ''m1'' [])\<lparr>m_modality := Some ''voice'', m_audio := Some (Some ''blob'')\<rparr>;
       h = sample_hub\<lparr>h_msg_manager := True, h_stt := Some (\<lambda>_. Transcript ''!clear'' None)\<rparr>
   in \<exists>m. fst (stt_stage (\<lambda>m cx h. (SubmitToPool ''p'' m, h)) msg empty_context h) = SubmitToPool ''p'' m \<and>
          m_text m = ''!clear''"
proof -
  let ?msg = "(sample_message ''m1'' [])\<lparr>m_modality := Some ''voice'', m_audio := Some (Some ''blob'')\<rparr>"
  let ?h = "sample_hub\<lparr>h_msg_manager := True, h_stt := Some (\<lambda>_. Transcript ''!clear'' None)\<rparr>"
  have s: "py_strip ''!clear'' = ''!clear''" by code_simp
  have "\<not> is_space (CHR ''c'')" by (simp add: is_space_def)
  from voice_bang_command_passes [of ?msg ?h "\<lambda>_. Transcript ''!clear'' None" "''blob''" "''!clear''" None
      "CHR ''!''" "CHR ''c''" "''lear''" "\<lambda>m cx h. (SubmitToPool ''p'' m, h)" empty_context] this
  show ?thesis
    by (auto simp: Let_def s sample_message_def max_transcript_len_def)
qed

end
