(* ===== verification/Unicode_Text.thy ===== *)
theory Unicode_Text
  imports Prelude
begin

text \<open>
  Python's \<open>str\<close> where its contents matter beyond ASCII: a list of code points. \<open>ul\<close> is a literal.
  Encoding and decoding follow \<open>str.encode("utf-8", errors="replace")\<close> and
  \<open>bytes.decode("utf-8", errors="ignore")\<close>. What CPython looks up in the Unicode database
  (\<open>isprintable\<close>, \<open>isspace\<close>, \<open>isdigit\<close>, the word characters of \<open>re\<close>) is a
  record the definitions take as an argument.
\<close>

type_synonym ustring = "nat list"

definition ul :: "string \<Rightarrow> ustring" where
  "ul s = map of_char s"

record unicode_db =
  ud_printable :: "nat \<Rightarrow> bool"
  ud_space :: "nat \<Rightarrow> bool"
  ud_digit :: "nat \<Rightarrow> bool"
  ud_word :: "nat \<Rightarrow> bool"

text \<open>The database restricted to ASCII, for concrete runs.\<close>

definition ascii_db :: unicode_db where
  "ascii_db = \<lparr>ud_printable = (\<lambda>c. 32 \<le> c \<and> c < 127),
     ud_space = (\<lambda>c. c = 32 \<or> (9 \<le> c \<and> c \<le> 13) \<or> (28 \<le> c \<and> c \<le> 31)),
     ud_digit = (\<lambda>c. 48 \<le> c \<and> c \<le> 57),
     ud_word = (\<lambda>c. (48 \<le> c \<and> c \<le> 57) \<or> (65 \<le> c \<and> c \<le> 90) \<or> c = 95 \<or> (97 \<le> c \<and> c \<le> 122))\<rparr>"

text \<open>
  \<open>str.lower\<close>: ASCII letters, and the two letters beyond ASCII whose lower case contains an ASCII
  letter. Every other letter lowers to letters beyond ASCII, which no test in the code looks for; it is
  left as it is.
\<close>

definition ulower :: "ustring \<Rightarrow> ustring" where
  "ulower s = concat (map (\<lambda>c. if 65 \<le> c \<and> c \<le> 90 then [c + 32]
     else if c = 0x212A then [107] else if c = 0x130 then [105, 0x307] else [c]) s)"

fun ustartswith :: "ustring \<Rightarrow> ustring \<Rightarrow> bool" where
  "ustartswith [] s = True"
| "ustartswith (c # p) [] = False"
| "ustartswith (c # p) (d # s) = (c = d \<and> ustartswith p s)"

fun uin :: "ustring \<Rightarrow> ustring \<Rightarrow> bool" where
  "uin p [] = (p = [])"
| "uin p (c # s) = (ustartswith p (c # s) \<or> uin p s)"

definition ustrip :: "unicode_db \<Rightarrow> ustring \<Rightarrow> ustring" where
  "ustrip ud s = rev (dropWhile (ud_space ud) (rev (dropWhile (ud_space ud) s)))"

subsection \<open>UTF-8\<close>

definition surrogate :: "nat \<Rightarrow> bool" where
  "surrogate c \<longleftrightarrow> 0xD800 \<le> c \<and> c \<le> 0xDFFF"

definition utf8_char :: "nat \<Rightarrow> nat list" where
  "utf8_char c =
     (if c < 0x80 then [c]
      else if c < 0x800 then [0xC0 + c div 64, 0x80 + c mod 64]
      else if surrogate c then [63]
      else if c < 0x10000 then [0xE0 + c div 4096, 0x80 + c div 64 mod 64, 0x80 + c mod 64]
      else [0xF0 + c div 262144, 0x80 + c div 4096 mod 64, 0x80 + c div 64 mod 64, 0x80 + c mod 64])"

definition utf8_encode :: "ustring \<Rightarrow> nat list" where
  "utf8_encode s = concat (map utf8_char s)"

definition utf8_cont :: "nat \<Rightarrow> bool" where
  "utf8_cont b \<longleftrightarrow> 0x80 \<le> b \<and> b \<le> 0xBF"

text \<open>
  A byte that starts no well-formed sequence is skipped; the bytes CPython skips with it are
  continuation bytes, which start none either.
\<close>

fun utf8_decode :: "nat list \<Rightarrow> ustring" where
  "utf8_decode [] = []"
| "utf8_decode (b # bs) =
     (if b < 0x80 then b # utf8_decode bs
      else case bs of
        [] \<Rightarrow> []
      | c1 # r1 \<Rightarrow>
          if 0xC2 \<le> b \<and> b \<le> 0xDF \<and> utf8_cont c1
          then ((b - 0xC0) * 64 + (c1 - 0x80)) # utf8_decode r1
          else case r1 of
            [] \<Rightarrow> utf8_decode bs
          | c2 # r2 \<Rightarrow>
              if 0xE0 \<le> b \<and> b \<le> 0xEF \<and> utf8_cont c1 \<and> utf8_cont c2 \<and>
                 (b = 0xE0 \<longrightarrow> 0xA0 \<le> c1) \<and> (b = 0xED \<longrightarrow> c1 \<le> 0x9F)
              then ((b - 0xE0) * 4096 + (c1 - 0x80) * 64 + (c2 - 0x80)) # utf8_decode r2
              else case r2 of
                [] \<Rightarrow> utf8_decode bs
              | c3 # r3 \<Rightarrow>
                  if 0xF0 \<le> b \<and> b \<le> 0xF4 \<and> utf8_cont c1 \<and> utf8_cont c2 \<and> utf8_cont c3 \<and>
                     (b = 0xF0 \<longrightarrow> 0x90 \<le> c1) \<and> (b = 0xF4 \<longrightarrow> c1 \<le> 0x8F)
                  then ((b - 0xF0) * 262144 + (c1 - 0x80) * 4096 + (c2 - 0x80) * 64 + (c3 - 0x80))
                         # utf8_decode r3
                  else utf8_decode bs)"

definition utf8_replace :: "nat \<Rightarrow> nat" where
  "utf8_replace c = (if surrogate c then 63 else c)"

definition valid_text :: "ustring \<Rightarrow> bool" where
  "valid_text s \<longleftrightarrow> (\<forall>c \<in> set s. c < 0x110000)"

lemma valid_text_simps [simp]:
  "valid_text []" "valid_text (c # s) \<longleftrightarrow> c < 0x110000 \<and> valid_text s"
  "valid_text (s @ t) \<longleftrightarrow> valid_text s \<and> valid_text t"
  by (auto simp: valid_text_def)

lemma utf8_encode_simps [simp]:
  "utf8_encode [] = []" "utf8_encode (c # s) = utf8_char c @ utf8_encode s"
  "utf8_encode (s @ t) = utf8_encode s @ utf8_encode t"
  by (simp_all add: utf8_encode_def)

lemma base64_digits:
  fixes c :: nat
  shows "c = 64 * (c div 64) + c mod 64" "c div 64 = 64 * (c div 4096) + c div 64 mod 64"
    "c div 4096 = 64 * (c div 262144) + c div 4096 mod 64"
proof -
  show "c = 64 * (c div 64) + c mod 64" by simp
  have "c div 4096 = c div 64 div 64" by (simp add: div_mult2_eq [symmetric])
  then show "c div 64 = 64 * (c div 4096) + c div 64 mod 64" by simp
  have "c div 262144 = c div 4096 div 64" by (simp add: div_mult2_eq [symmetric])
  then show "c div 4096 = 64 * (c div 262144) + c div 4096 mod 64" by simp
qed

lemma mod64_le [simp]: "c mod 64 \<le> (63::nat)"
  by (simp add: less_Suc_eq_le [symmetric])

lemma utf8_decode_2:
  "\<lbrakk>0x80 \<le> c; c < 0x800\<rbrakk> \<Longrightarrow> utf8_decode ([0xC0 + c div 64, 0x80 + c mod 64] @ r) = c # utf8_decode r"
proof -
  assume c: "0x80 \<le> c" "c < 0x800"
  have "194 \<le> 192 + c div 64" "192 + c div 64 \<le> 223" using c by linarith+
  then show ?thesis by (simp add: utf8_cont_def)
qed

lemma utf8_decode_3:
  assumes "0x800 \<le> c" "c < 0x10000" "\<not> surrogate c"
  shows "utf8_decode ([0xE0 + c div 4096, 0x80 + c div 64 mod 64, 0x80 + c mod 64] @ r) = c # utf8_decode r"
proof -
  define x y z where xyz: "x = c div 4096" "y = c div 64 mod 64" "z = c mod 64"
  have c: "c = 4096 * x + 64 * y + z" using base64_digits [of c] unfolding xyz by linarith
  have b: "y \<le> 63" "z \<le> 63" unfolding xyz by simp_all
  have x: "x \<le> 15" "x = 0 \<longrightarrow> 32 \<le> y" "x = 13 \<longrightarrow> y \<le> 31"
    using assms b unfolding c surrogate_def by auto
  show ?thesis unfolding xyz [symmetric] using x b by (simp add: utf8_cont_def c)
qed

lemma utf8_decode_4:
  assumes "0x10000 \<le> c" "c < 0x110000"
  shows "utf8_decode ([0xF0 + c div 262144, 0x80 + c div 4096 mod 64, 0x80 + c div 64 mod 64,
     0x80 + c mod 64] @ r) = c # utf8_decode r"
proof -
  define w x y z where wxyz: "w = c div 262144" "x = c div 4096 mod 64" "y = c div 64 mod 64" "z = c mod 64"
  have c: "c = 262144 * w + 4096 * x + 64 * y + z" using base64_digits [of c] unfolding wxyz by linarith
  have b: "x \<le> 63" "y \<le> 63" "z \<le> 63" unfolding wxyz by simp_all
  have x: "w \<le> 4" "w = 0 \<longrightarrow> 16 \<le> x" "w = 4 \<longrightarrow> x \<le> 15"
    using assms b unfolding c by auto
  show ?thesis unfolding wxyz [symmetric] using x b by (simp add: utf8_cont_def c)
qed

lemma utf8_decode_char:
  assumes "c < 0x110000"
  shows "utf8_decode (utf8_char c @ r) = utf8_replace c # utf8_decode r"
proof -
  consider "c < 0x80" | "0x80 \<le> c" "c < 0x800" | "surrogate c" |
    "0x800 \<le> c" "c < 0x10000" "\<not> surrogate c" | "0x10000 \<le> c"
    by linarith
  then show ?thesis
  proof cases
    case 1 then show ?thesis by (simp add: utf8_char_def utf8_replace_def surrogate_def)
  next
    case 2
    then have "\<not> surrogate c" by (simp add: surrogate_def)
    with 2 utf8_decode_2 [OF 2] show ?thesis by (simp only: utf8_char_def utf8_replace_def if_False) simp
  next
    case 3 then show ?thesis by (simp add: utf8_char_def utf8_replace_def surrogate_def)
  next
    case 4
    with utf8_decode_3 [OF 4] show ?thesis by (simp only: utf8_char_def utf8_replace_def if_False) simp
  next
    case 5
    then have "\<not> surrogate c" by (simp add: surrogate_def)
    with 5 utf8_decode_4 [OF 5 assms] show ?thesis
      by (simp only: utf8_char_def utf8_replace_def if_False) simp
  qed
qed

lemma utf8_decode_lead:
  "0xC0 \<le> b \<Longrightarrow> utf8_decode [b] = []" "0xE0 \<le> b \<Longrightarrow> utf8_cont c \<Longrightarrow> utf8_decode [b, c] = []"
  "0xF0 \<le> b \<Longrightarrow> utf8_cont c \<Longrightarrow> utf8_cont d \<Longrightarrow> utf8_decode [b, c, d] = []"
  by (simp_all add: utf8_cont_def)

lemma utf8_cont_low [simp]: "utf8_cont (128 + n mod 64)"
  by (simp add: utf8_cont_def)

lemma utf8_char_shape:
  "(\<exists>b. utf8_char c = [b]) \<or> (\<exists>b z. utf8_char c = [b, z] \<and> 0xC0 \<le> b) \<or>
   (\<exists>b y z. utf8_char c = [b, y, z] \<and> 0xE0 \<le> b \<and> utf8_cont y) \<or>
   (\<exists>b x y z. utf8_char c = [b, x, y, z] \<and> 0xF0 \<le> b \<and> utf8_cont x \<and> utf8_cont y)"
  unfolding utf8_char_def by (simp only: split: if_split) auto

declare utf8_decode.simps(2) [simp del]

lemma utf8_decode_truncated_char:
  assumes "n < length (utf8_char c)"
  shows "utf8_decode (take n (utf8_char c)) = []"
proof -
  have n: "n = 0 \<or> n = 1 \<or> n = 2 \<or> n = 3"
    using assms utf8_char_shape [of c] by auto
  show ?thesis
    using utf8_char_shape [of c]
  proof (elim disjE exE conjE)
    fix b assume "utf8_char c = [b]"
    then show ?thesis using assms by simp
  next
    fix b z assume "utf8_char c = [b, z]" "0xC0 \<le> b"
    then show ?thesis using assms n by (auto simp: utf8_decode_lead(1))
  next
    fix b y z assume "utf8_char c = [b, y, z]" "0xE0 \<le> b" "utf8_cont y"
    then show ?thesis using assms n by (auto simp: utf8_decode_lead(1,2))
  next
    fix b x y z assume "utf8_char c = [b, x, y, z]" "0xF0 \<le> b" "utf8_cont x" "utf8_cont y"
    then show ?thesis using assms n by (auto simp: utf8_decode_lead)
  qed
qed

text \<open>Cutting the encoding at a byte keeps the characters that lie wholly before the cut.\<close>

lemma utf8_decode_take:
  "valid_text s \<Longrightarrow> \<exists>k \<le> length s. utf8_decode (take n (utf8_encode s)) = map utf8_replace (take k s) \<and>
     length (utf8_encode (take k s)) \<le> n \<and>
     (k < length s \<longrightarrow> n < length (utf8_encode (take (Suc k) s)))"
proof (induction s arbitrary: n)
  case Nil
  then show ?case by simp
next
  case (Cons c s)
  show ?case
  proof (cases "n < length (utf8_char c)")
    case True
    then show ?thesis by (intro exI [of _ 0]) (simp add: utf8_decode_truncated_char)
  next
    case False
    let ?m = "n - length (utf8_char c)"
    have "valid_text s" using Cons.prems by simp
    from Cons.IH [OF this, of ?m] obtain k where k: "k \<le> length s"
      "utf8_decode (take ?m (utf8_encode s)) = map utf8_replace (take k s)"
      "length (utf8_encode (take k s)) \<le> ?m"
      "k < length s \<longrightarrow> ?m < length (utf8_encode (take (Suc k) s))"
      by blast
    have "take n (utf8_encode (c # s)) = utf8_char c @ take ?m (utf8_encode s)"
      using False by simp
    then have "utf8_decode (take n (utf8_encode (c # s))) = map utf8_replace (take (Suc k) (c # s))"
      using Cons.prems k(2) by (simp only: utf8_decode_char valid_text_simps) simp
    moreover have "length (utf8_encode (take (Suc k) (c # s))) \<le> n" using False k(3) by simp
    moreover have "n < length (utf8_encode (take (Suc (Suc k)) (c # s)))" if "Suc k < length (c # s)"
      using that k(4) False by simp
    ultimately show ?thesis using k(1) by (intro exI [of _ "Suc k"]) simp
  qed
qed

lemma length_utf8_char_replace: "length (utf8_char (utf8_replace c)) = length (utf8_char c)"
  by (simp add: utf8_char_def utf8_replace_def surrogate_def)

lemma length_utf8_encode_replace [simp]:
  "length (utf8_encode (map utf8_replace s)) = length (utf8_encode s)"
  by (induction s) (simp_all add: length_utf8_char_replace)

lemma length_utf8_char: "length (utf8_char c) \<le> 4"
  by (simp add: utf8_char_def)

end
