(* ===== verification/Error_Text.thy ===== *)
theory Error_Text
  imports Unicode_Text
begin

text \<open>
  The error envelope of the workers (packages/roxabi-contracts/.../errors.py), the classification of
  CLI failures (core/cli/cli_error_classify.py) and the text a user sees
  (core/messaging/utils/user_error_resolver.py).

  \<open>urlsplit\<close> is modelled on what \<open>_URL_RE\<close> matches; its checks of bracketed hosts and of
  Unicode normalisation are the argument \<open>netloc_ok\<close>. The message manager is a collaborator of the
  resolver: a function from a template key and its arguments to a text.
\<close>

subsection \<open>Credentials in URLs\<close>

definition credential_schemes :: "string list" where
  "credential_schemes = [''nats'', ''nats+tls'', ''amqp'', ''amqps'', ''redis'', ''rediss'', ''http'', ''https'',
     ''postgres'', ''postgresql'', ''mysql'']"

definition scheme_start :: "nat \<Rightarrow> bool" where
  "scheme_start c \<longleftrightarrow> (97 \<le> c \<and> c \<le> 122) \<or> (65 \<le> c \<and> c \<le> 90)"

definition scheme_char :: "nat \<Rightarrow> bool" where
  "scheme_char c \<longleftrightarrow> scheme_start c \<or> (48 \<le> c \<and> c \<le> 57) \<or> c \<in> set (ul ''+.-'')"

definition url_char :: "unicode_db \<Rightarrow> nat \<Rightarrow> bool" where
  "url_char ud c \<longleftrightarrow> \<not> ud_space ud c \<and> c \<notin> {34, 39, 60, 62}"

record split_url =
  sp_scheme :: ustring
  sp_netloc :: ustring
  sp_path :: ustring
  sp_query :: ustring
  sp_fragment :: ustring

text \<open>\<open>s.split(c, 1)\<close> where \<open>c\<close> may be missing.\<close>

definition cut_at :: "nat \<Rightarrow> ustring \<Rightarrow> ustring \<times> ustring" where
  "cut_at c s = (takeWhile (\<lambda>x. x \<noteq> c) s, tl (dropWhile (\<lambda>x. x \<noteq> c) s))"

definition netloc_char :: "nat \<Rightarrow> bool" where
  "netloc_char c \<longleftrightarrow> c \<notin> {47, 63, 35}"

definition urlsplit :: "(ustring \<Rightarrow> bool) \<Rightarrow> ustring \<Rightarrow> split_url option" where
  "urlsplit netloc_ok url =
     (let (scheme, rest) = cut_at 58 url;
          body = drop 2 rest;
          netloc = takeWhile netloc_char body;
          (rest, fragment) = cut_at 35 (dropWhile netloc_char body);
          (path, query) = cut_at 63 rest
      in if (91 \<in> set netloc) \<noteq> (93 \<in> set netloc) \<or> \<not> netloc_ok netloc then None
         else Some \<lparr>sp_scheme = ulower scheme, sp_netloc = netloc, sp_path = path,
                    sp_query = query, sp_fragment = fragment\<rparr>)"

definition urlunsplit :: "split_url \<Rightarrow> ustring" where
  "urlunsplit p =
     (let path = (if sp_path p \<noteq> [] \<and> hd (sp_path p) \<noteq> 47 then 47 # sp_path p else sp_path p)
      in sp_scheme p @ ul ''://'' @ sp_netloc p @ path
         @ (if sp_query p \<noteq> [] then 63 # sp_query p else [])
         @ (if sp_fragment p \<noteq> [] then 35 # sp_fragment p else []))"

text \<open>What follows the last \<open>@\<close>: \<open>rpartition\<close>.\<close>

definition after_last_at :: "ustring \<Rightarrow> ustring" where
  "after_last_at s = rev (takeWhile (\<lambda>c. c \<noteq> 64) (rev s))"

definition scrub_url :: "(ustring \<Rightarrow> bool) \<Rightarrow> ustring \<Rightarrow> ustring" where
  "scrub_url netloc_ok url =
     (case urlsplit netloc_ok url of
        None \<Rightarrow> url
      | Some p \<Rightarrow>
          if ulower (sp_scheme p) \<notin> set (map ul credential_schemes) then url
          else if 64 \<notin> set (sp_netloc p) then url
          else urlunsplit (p\<lparr>sp_netloc := ul ''***:***@'' @ after_last_at (sp_netloc p)\<rparr>))"

text \<open>
  \<open>_URL_RE.sub\<close>: at every position, from left to right, the longest run of scheme characters that
  begins with a letter, then \<open>://\<close>, then the longest non-empty run of URL characters.
\<close>

function scrub_credentials :: "unicode_db \<Rightarrow> (ustring \<Rightarrow> bool) \<Rightarrow> ustring \<Rightarrow> ustring" where
  "scrub_credentials ud netloc_ok [] = []"
| "scrub_credentials ud netloc_ok (c # s) =
     (let rest = dropWhile scheme_char s;
          body = takeWhile (url_char ud) (drop 3 rest)
      in if scheme_start c \<and> ustartswith (ul ''://'') rest \<and> body \<noteq> []
         then scrub_url netloc_ok (c # takeWhile scheme_char s @ ul ''://'' @ body)
                @ scrub_credentials ud netloc_ok (dropWhile (url_char ud) (drop 3 rest))
         else c # scrub_credentials ud netloc_ok s)"
  by pat_completeness auto

lemma length_dropWhile_Suc: "length (dropWhile P (drop n (dropWhile Q s))) < Suc (length s)"
  using length_dropWhile_le [of P "drop n (dropWhile Q s)"] length_dropWhile_le [of Q s] by simp

termination scrub_credentials
  by (relation "measure (\<lambda>(_, _, s). length s)") (auto simp: length_dropWhile_Suc)

definition truncate_with_marker :: "ustring \<Rightarrow> nat \<Rightarrow> ustring" where
  "truncate_with_marker value limit =
     (if length value \<le> limit then value else take (limit - 1) value @ [0x2026])"

subsection \<open>The worker error envelope\<close>

record worker_error =
  we_code :: string
  we_message :: ustring
  we_retryable :: bool
  we_detail :: "ustring option"

definition code_char :: "char \<Rightarrow> bool" where
  "code_char c \<longleftrightarrow> (let n = of_char c :: nat in (97 \<le> n \<and> n \<le> 122) \<or> (48 \<le> n \<and> n \<le> 57) \<or> c \<in> set ''._-'')"

text \<open>The pattern of a code; the regular expression ends in \<open>$\<close>, but pydantic's engine has no
  newline exception there.\<close>

definition code_ok :: "string \<Rightarrow> bool" where
  "code_ok code \<longleftrightarrow> code \<noteq> [] \<and> list_all code_char code \<and>
     (let n = of_char (hd code) :: nat in 97 \<le> n \<and> n \<le> 122)"

text \<open>Construction validates; \<open>None\<close> is pydantic's \<open>ValidationError\<close>.\<close>

definition make_worker_error ::
    "unicode_db \<Rightarrow> (ustring \<Rightarrow> bool) \<Rightarrow> string \<Rightarrow> ustring \<Rightarrow> bool \<Rightarrow> ustring option \<Rightarrow> worker_error option" where
  "make_worker_error ud netloc_ok code message retryable detail =
     (if code_ok code \<and> message \<noteq> [] then
        Some \<lparr>we_code = code,
              we_message = truncate_with_marker (scrub_credentials ud netloc_ok message) 512,
              we_retryable = retryable,
              we_detail = map_option (\<lambda>d. truncate_with_marker (scrub_credentials ud netloc_ok d) 2048) detail\<rparr>
      else None)"

definition known_codes :: "(string \<times> string \<times> bool \<times> string) list" where
  "known_codes =
    [(''transport.timeout'', (''transport'', True,
        ''NATS request timed out before a reply was received.'')),
     (''transport.no_responders'', (''transport'', True,
        ''NATS returned a no-responders status; no subscriber on the subject.'')),
     (''transport.parse'', (''transport'', False,
        ''Inbound NATS payload could not be parsed (malformed JSON or schema mismatch).'')),
     (''transport.contract_mismatch'', (''transport'', False,
        ''CONTRACT_VERSION or schema shape does not match what this consumer expects.'')),
     (''transport.slow_consumer'', (''transport'', True,
        ''NATS slow-consumer detected; message dropped by the broker.'')),
     (''transport.error'', (''transport'', True,
        ''Generic NATS / network transport failure not covered by a more specific code (e.g. connection reset, protocol error).'')),
     (''transport.payload_too_large'', (''transport'', False,
        ''Request payload exceeded the NATS server's max_payload limit.'')),
     (''pool.circuit_open'', (''pool'', True,
        ''WorkerPoolClient circuit breaker is open; call short-circuited without dispatching to a worker.'')),
     (''pool.no_live_workers'', (''pool'', True,
        ''WorkerPoolClient exhausted its registry without reaching a healthy worker.'')),
     (''worker.crash'', (''worker'', True,
        ''Worker process raised an unhandled exception.'')),
     (''worker.validation'', (''worker'', False,
        ''Request payload failed domain-level validation inside the worker.'')),
     (''worker.internal'', (''worker'', True,
        ''Worker encountered an internal error not covered by a more specific code.'')),
     (''worker.capacity'', (''worker'', True,
        ''Worker rejected the request because its capacity limit (queue or pool) is exhausted; caller should retry after back-off.'')),
     (''worker.busy'', (''worker'', True,
        ''Worker rejected the request because its concurrency limit is reached.'')),
     (''cli.auth'', (''cli'', False,
        ''CLI pool authentication failed (invalid or expired credentials).'')),
     (''cli.session_lost'', (''cli'', True,
        ''CLI session was lost and could not be resumed.'')),
     (''cli.parse'', (''cli'', False,
        ''CLI command string could not be parsed.'')),
     (''llm.rate_limit'', (''llm'', True,
        ''LLM provider returned a rate-limit / quota-exceeded error.'')),
     (''llm.context_too_long'', (''llm'', False,
        ''Input tokens exceed the model's context window.'')),
     (''llm.model_unavailable'', (''llm'', True,
        ''Requested LLM model is temporarily or permanently unavailable.'')),
     (''llm.no_responders'', (''llm'', True,
        ''No LLM worker is subscribed on the expected NATS subject.'')),
     (''llm.lifecycle_rejected'', (''llm'', False,
        ''Lifecycle operation rejected by the worker (unknown model, engine=remote, VRAM budget exceeded, or catalog parse error).'')),
     (''voice.engine_unavailable'', (''voice'', True,
        ''Voice engine (TTS/STT) is not reachable or has not started.'')),
     (''voice.audio_invalid'', (''voice'', False,
        ''Audio payload is malformed, too short, or in an unsupported format.'')),
     (''image.engine_unavailable'', (''image'', True,
        ''Image generation engine is not reachable or has not started.'')),
     (''image.prompt_rejected'', (''image'', False,
        ''Image prompt was rejected by the engine's content policy.'')),
     (''stream.error'', (''stream'', False,
        ''Unhandled exception during hub-side stream processing (StreamProcessor), or an un-categorized soft error surfaced via SanitizedError.from_message.''))]"

definition code_retryable :: "string \<Rightarrow> bool" where
  "code_retryable code = fst (snd (the (map_of known_codes code)))"

definition code_description :: "string \<Rightarrow> string" where
  "code_description code = snd (snd (the (map_of known_codes code)))"

subsection \<open>Classifying a CLI failure\<close>

definition auth_subtypes :: "ustring list" where
  "auth_subtypes = map ul [''auth_error'', ''auth'', ''login_required'']"

definition session_lost_subtypes :: "ustring list" where
  "session_lost_subtypes = map ul [''session_expired'', ''session_lost'', ''resume_failed'']"

definition rate_limit_subtypes :: "ustring list" where
  "rate_limit_subtypes = map ul [''rate_limit_error'', ''rate_limit'', ''quota_exceeded'', ''usage_limit'']"

definition auth_flat_hints :: "string list" where
  "auth_flat_hints = [''not logged in'', ''login required'', ''auth error'', ''authentication required'', ''oauth'']"

definition rate_limit_flat_hints :: "string list" where
  "rate_limit_flat_hints = [''weekly limit'', ''rate limit'', ''quota exceeded'', ''usage limit'', ''hit your limit'']"

definition session_lost_flat_hints :: "string list" where
  "session_lost_flat_hints = [''session expired'', ''session lost'', ''resume failed'']"

definition bus_bound_message_max_len :: nat where "bus_bound_message_max_len = 200"

definition scrub_cli_error_text :: "unicode_db \<Rightarrow> ustring \<Rightarrow> ustring" where
  "scrub_cli_error_text ud s =
     (let scrubbed = map (\<lambda>c. if ud_printable ud c then c else 32) s
      in if bus_bound_message_max_len < length scrubbed
         then take (bus_bound_message_max_len - 1) scrubbed @ [0x2026] else scrubbed)"

text \<open>\<open>re.search\<close> of a literal between word boundaries; \<open>before\<close> says whether the preceding
  character is a word character.\<close>

fun word_search :: "unicode_db \<Rightarrow> ustring \<Rightarrow> bool \<Rightarrow> ustring \<Rightarrow> bool" where
  "word_search ud hint before [] = False"
| "word_search ud hint before (c # s) =
     ((before \<noteq> ud_word ud c \<and> ustartswith hint (c # s) \<and>
       (case drop (length hint) (c # s) of [] \<Rightarrow> True | d # _ \<Rightarrow> \<not> ud_word ud d)) \<or>
      word_search ud hint (ud_word ud c) s)"

definition hint_matches :: "unicode_db \<Rightarrow> ustring \<Rightarrow> string \<Rightarrow> bool" where
  "hint_matches ud lower hint =
     (if CHR '' '' \<in> set hint then uin (ul hint) lower else word_search ud (ul hint) False lower)"

definition infer_subtype :: "unicode_db \<Rightarrow> ustring \<Rightarrow> ustring" where
  "infer_subtype ud err =
     (let lower = ulower err
      in if list_ex (hint_matches ud lower) auth_flat_hints then ul ''auth_error''
         else if list_ex (\<lambda>h. uin (ul h) lower) rate_limit_flat_hints then ul ''rate_limit_error''
         else if list_ex (\<lambda>h. uin (ul h) lower) session_lost_flat_hints then ul ''session_expired''
         else [])"

definition subtype_is_specific :: "ustring \<Rightarrow> bool" where
  "subtype_is_specific subtype \<longleftrightarrow>
     subtype \<in> set auth_subtypes \<or> subtype \<in> set session_lost_subtypes \<or>
     subtype \<in> set rate_limit_subtypes \<or> (subtype \<noteq> [] \<and> uin (ul ''rate_limit'') subtype)"

definition cli_error_code :: "ustring \<Rightarrow> string" where
  "cli_error_code subtype =
     (if subtype \<in> set auth_subtypes then ''cli.auth''
      else if subtype \<in> set session_lost_subtypes then ''cli.session_lost''
      else if subtype \<in> set rate_limit_subtypes \<or> uin (ul ''rate_limit'') subtype then ''llm.rate_limit''
      else ''cli.parse'')"

definition or_else :: "'a list \<Rightarrow> 'a list \<Rightarrow> 'a list" where
  "or_else s t = (if s \<noteq> [] then s else t)"

definition classify_cli_error ::
    "unicode_db \<Rightarrow> (ustring \<Rightarrow> bool) \<Rightarrow> ustring \<Rightarrow> ustring \<Rightarrow> worker_error option" where
  "classify_cli_error ud netloc_ok subtype err =
     (let code = cli_error_code subtype
      in make_worker_error ud netloc_ok code
           (or_else (scrub_cli_error_text ud err) (ul (code_description code))) (code_retryable code) None)"

definition resolve_cli_worker_error ::
    "unicode_db \<Rightarrow> (ustring \<Rightarrow> bool) \<Rightarrow> ustring \<Rightarrow> ustring \<Rightarrow> worker_error option" where
  "resolve_cli_worker_error ud netloc_ok subtype err =
     (let lower = ulower err
      in if uin (ul ''timeout'') lower \<or> uin (ul ''timed out'') lower
         then make_worker_error ud netloc_ok ''transport.timeout''
                (or_else (scrub_cli_error_text ud err) (ul (code_description ''transport.timeout''))) True None
         else let inferred = infer_subtype ud err;
                  effective = (if \<not> subtype_is_specific subtype \<and> inferred \<noteq> [] then inferred else subtype)
              in classify_cli_error ud netloc_ok effective err)"

definition worker_error_from_cli_error ::
    "unicode_db \<Rightarrow> (ustring \<Rightarrow> bool) \<Rightarrow> ustring \<Rightarrow> worker_error option" where
  "worker_error_from_cli_error ud netloc_ok err = resolve_cli_worker_error ud netloc_ok [] err"

subsection \<open>What the user is told\<close>

type_synonym msg_manager = "string \<Rightarrow> (string \<times> ustring) list \<Rightarrow> ustring"

definition generic_error_reply :: ustring where
  "generic_error_reply = ul ''Something went wrong. Please try again.''"

definition code_to_template :: "(string \<times> string) list" where
  "code_to_template =
    [(''transport.timeout'', ''timeout''), (''pool.circuit_open'', ''unavailable''),
     (''cli.auth'', ''auth_required''), (''llm.rate_limit'', ''rate_limit''),
     (''llm.context_too_long'', ''context_too_long''), (''llm.model_unavailable'', ''unavailable'')]"

definition passthrough_codes :: "string list" where
  "passthrough_codes = [''cli.parse'', ''cli.session_lost'']"

definition generic_only_codes :: "string list" where
  "generic_only_codes =
    [''worker.crash'', ''worker.internal'', ''worker.validation'', ''worker.capacity'', ''worker.busy'',
     ''stream.error'', ''transport.error'', ''transport.parse'', ''transport.no_responders'',
     ''transport.contract_mismatch'', ''transport.slow_consumer'', ''transport.payload_too_large'']"

definition generic_text :: "msg_manager option \<Rightarrow> ustring" where
  "generic_text mm =
     (case mm of Some get \<Rightarrow> or_else (get ''generic'' []) generic_error_reply | None \<Rightarrow> generic_error_reply)"

definition retry_secs :: "unicode_db \<Rightarrow> worker_error \<Rightarrow> ustring" where
  "retry_secs ud e =
     (case we_detail e of
        Some d \<Rightarrow> let s = ustrip ud d in if s \<noteq> [] \<and> list_all (ud_digit ud) s then s else ul ''0''
      | None \<Rightarrow> ul ''0'')"

definition is_generic_code :: "string \<Rightarrow> bool" where
  "is_generic_code code \<longleftrightarrow> code \<in> set generic_only_codes \<or>
     (code \<in> fst ` set known_codes \<and> code \<notin> fst ` set code_to_template \<and> code \<notin> set passthrough_codes)"

definition from_template ::
    "string \<Rightarrow> msg_manager option \<Rightarrow> ustring \<Rightarrow> (string \<times> ustring) list \<Rightarrow> ustring" where
  "from_template key mm fallback kwargs =
     (case mm of Some get \<Rightarrow> or_else (get key kwargs) fallback | None \<Rightarrow> fallback)"

definition resolve_user_error ::
    "unicode_db \<Rightarrow> (ustring \<Rightarrow> bool) \<Rightarrow> worker_error option \<Rightarrow> ustring option \<Rightarrow> msg_manager option \<Rightarrow>
     ustring option \<Rightarrow> ustring" where
  "resolve_user_error ud netloc_ok err error_text mm bot_name =
     (case err of
        Some e \<Rightarrow>
          if is_generic_code (we_code e) then generic_text mm
          else (case map_of code_to_template (we_code e) of
                  Some key \<Rightarrow>
                    from_template key mm (generic_text mm)
                      ((case bot_name of Some b \<Rightarrow> [(''bot_name'', b)] | None \<Rightarrow> [])
                       @ (if key = ''unavailable'' then [(''retry_secs'', retry_secs ud e)] else []))
                | None \<Rightarrow>
                    if we_code e \<in> set passthrough_codes \<and> we_message e \<noteq> [] then
                      (let scrubbed = scrub_cli_error_text ud (we_message e)
                       in if scrubbed \<noteq> [] then scrub_credentials ud netloc_ok scrubbed else generic_text mm)
                    else generic_text mm)
      | None \<Rightarrow>
          (case error_text of
             Some t \<Rightarrow>
               if t \<noteq> [] \<and> (uin (ul ''timeout'') (ulower t) \<or> uin (ul ''timed out'') (ulower t))
               then from_template ''timeout'' mm (ul ''Your request timed out. Please try again.'') []
               else generic_text mm
           | None \<Rightarrow> generic_text mm))"

subsection \<open>Properties\<close>

lemma ul_simps [simp]: "ul [] = []" "ul (c # s) = of_char c # ul s"
  by (simp_all add: ul_def)

lemma ustartswith_iff: "ustartswith p s \<longleftrightarrow> (\<exists>r. s = p @ r)"
  by (induction p s rule: ustartswith.induct) auto

lemma takeWhile_drop_boundary:
  "\<lbrakk>list_all P s; r = [] \<or> \<not> P (hd r)\<rbrakk> \<Longrightarrow> takeWhile P (s @ r) = s \<and> dropWhile P (s @ r) = r"
  by (induction s) (cases r, auto)+

text \<open>The regular expression steps over text that contains no colon.\<close>

lemma scrub_skips:
  "\<lbrakk>58 \<notin> set pre; pre = [] \<or> \<not> scheme_char (last pre)\<rbrakk> \<Longrightarrow>
   scrub_credentials ud ok (pre @ s) = pre @ scrub_credentials ud ok s"
proof (induction pre)
  case Nil
  then show ?case by simp
next
  case (Cons c pre)
  have "\<not> ustartswith (ul ''://'') (dropWhile scheme_char (pre @ s))"
    if c: "scheme_start c"
  proof -
    from c have sc: "scheme_char c" by (simp add: scheme_char_def)
    with Cons.prems(2) have "pre \<noteq> []" "\<not> scheme_char (last pre)" by (auto split: if_splits)
    then obtain x where "x \<in> set pre" "\<not> scheme_char x" using last_in_set by blast
    then have d: "dropWhile scheme_char pre \<noteq> []" "dropWhile scheme_char (pre @ s) = dropWhile scheme_char pre @ s"
      by (auto simp: dropWhile_eq_Nil_conv dropWhile_append1)
    then have "hd (dropWhile scheme_char pre) \<in> set pre"
      by (metis hd_in_set set_dropWhileD)
    with Cons.prems(1) d show ?thesis
      by (cases "dropWhile scheme_char pre") auto
  qed
  moreover have "scrub_credentials ud ok (pre @ s) = pre @ scrub_credentials ud ok s"
    using Cons by (auto split: if_splits)
  ultimately show ?case by (auto simp: Let_def)
qed

lemma ulower_simps [simp]: "ulower [] = []" "ulower (s @ t) = ulower s @ ulower t"
  by (simp_all add: ulower_def)

lemma ulower_idem [simp]: "ulower (ulower s) = ulower s"
  by (induction s) (auto simp: ulower_def)

lemma scrub_at_url:
  assumes "scheme_start c" "list_all scheme_char cs" "list_all (url_char ud) body" "body \<noteq> []"
    "post = [] \<or> \<not> url_char ud (hd post)"
  shows "scrub_credentials ud ok ((c # cs) @ ul ''://'' @ body @ post) =
     scrub_url ok ((c # cs) @ ul ''://'' @ body) @ scrub_credentials ud ok post"
proof -
  have sep: "takeWhile scheme_char (cs @ ul ''://'' @ body @ post) = cs \<and>
      dropWhile scheme_char (cs @ ul ''://'' @ body @ post) = ul ''://'' @ body @ post"
    by (rule takeWhile_drop_boundary [OF assms(2)]) (simp add: scheme_char_def scheme_start_def)
  have b: "takeWhile (url_char ud) (body @ post) = body \<and> dropWhile (url_char ud) (body @ post) = post"
    by (rule takeWhile_drop_boundary [OF assms(3,5)])
  have d: "drop 3 (ul ''://'' @ body @ post) = body @ post" by simp
  have u: "ustartswith (ul ''://'') (ul ''://'' @ body @ post)" by (auto simp: ustartswith_iff)
  show ?thesis
    using sep b assms(1,4) u
    by (simp only: append_Cons scrub_credentials.simps Let_def sep d b) simp
qed

definition is_path :: "ustring \<Rightarrow> bool" where
  "is_path path \<longleftrightarrow> (path = [] \<or> hd path = 47) \<and> list_all (\<lambda>c. c \<noteq> 35 \<and> c \<noteq> 63) path"

lemma takeWhile_absent: "x \<notin> set s \<Longrightarrow> takeWhile (\<lambda>y. y \<noteq> x) s = s"
  "x \<notin> set s \<Longrightarrow> dropWhile (\<lambda>y. y \<noteq> x) s = []"
  by (induction s) auto

lemma cut_at_absent: "c \<notin> set s \<Longrightarrow> cut_at c s = (s, [])"
  by (simp add: cut_at_def takeWhile_absent)

lemma cut_at_found: "c \<notin> set s \<Longrightarrow> cut_at c (s @ c # t) = (s, t)"
  by (induction s) (auto simp: cut_at_def)

lemma urlsplit_plain:
  assumes "58 \<notin> set scheme" "list_all netloc_char netloc" "91 \<notin> set netloc" "93 \<notin> set netloc"
    "ok netloc" "is_path path"
  shows "urlsplit ok (scheme @ ul ''://'' @ netloc @ path) =
     Some \<lparr>sp_scheme = ulower scheme, sp_netloc = netloc, sp_path = path, sp_query = [], sp_fragment = []\<rparr>"
proof -
  have s: "cut_at 58 (scheme @ ul ''://'' @ netloc @ path) = (scheme, ul ''//'' @ netloc @ path)"
    using cut_at_found [OF assms(1)] by simp
  have n: "takeWhile netloc_char (netloc @ path) = netloc \<and> dropWhile netloc_char (netloc @ path) = path"
    by (rule takeWhile_drop_boundary [OF assms(2)])
      (use assms(6) in \<open>auto simp: is_path_def netloc_char_def\<close>)
  have p: "cut_at 35 path = (path, [])" "cut_at 63 path = (path, [])"
    using assms(6) by (auto intro!: cut_at_absent simp: is_path_def list_all_iff)
  have d: "drop 2 (ul ''//'' @ netloc @ path) = netloc @ path" by simp
  show ?thesis
    unfolding urlsplit_def s Let_def prod.case d using assms(3-5) by (simp add: n p)
qed

lemma after_last_at_eq:
  assumes "64 \<notin> set host" shows "after_last_at (user @ 64 # host) = host"
proof -
  have "list_all (\<lambda>c. c \<noteq> 64) (rev host)" using assms by (auto simp: list_all_iff)
  moreover have "64 # rev user = [] \<or> \<not> hd (64 # rev user) \<noteq> 64" by simp
  ultimately have "takeWhile (\<lambda>c. c \<noteq> 64) (rev host @ 64 # rev user) = rev host"
    using takeWhile_drop_boundary [of "\<lambda>c. c \<noteq> 64"] by blast
  then show ?thesis by (simp only: after_last_at_def rev_append rev.simps append_assoc append.simps rev_rev_ident)
qed

lemma scrub_url_plain:
  assumes "58 \<notin> set scheme" "ulower scheme \<in> set (map ul credential_schemes)"
    "list_all netloc_char (user @ 64 # host)" "91 \<notin> set (user @ 64 # host)" "93 \<notin> set (user @ 64 # host)"
    "ok (user @ 64 # host)" "64 \<notin> set host" "is_path path"
  shows "scrub_url ok (scheme @ ul ''://'' @ (user @ 64 # host) @ path) =
     ulower scheme @ ul ''://***:***@'' @ host @ path"
proof -
  have "urlsplit ok (scheme @ ul ''://'' @ (user @ 64 # host) @ path) =
     Some \<lparr>sp_scheme = ulower scheme, sp_netloc = user @ 64 # host, sp_path = path,
           sp_query = [], sp_fragment = []\<rparr>"
    by (rule urlsplit_plain) (use assms in simp_all)
  moreover have "ul ''://'' @ ul ''***:***@'' = ul ''://***:***@''" by simp
  ultimately show ?thesis using assms(2,8)
    by (auto simp: scrub_url_def urlunsplit_def after_last_at_eq [OF assms(7)] is_path_def simp del: ul_simps)
qed



text \<open>
  A user part with a slash, or with one bracket, is left in the text: in the first case the authority
  ends before the \<open>@\<close>, in the second \<open>urlsplit\<close> raises.
\<close>

lemma slash_and_bracket_passwords_leak:
  "scrub_credentials ascii_db (\<lambda>_. True) (ul ''nats://bob:pa/ss@db:4222'') = ul ''nats://bob:pa/ss@db:4222''"
  "scrub_credentials ascii_db (\<lambda>_. True) (ul ''nats://bob:pa]ss@db:4222'') = ul ''nats://bob:pa]ss@db:4222''"
  by code_simp+

text \<open>
  Except for the two codes whose text is meant for the user, the text shown for a worker error
  does not depend on the error's message (nor on the legacy error string), and without a worker error
  it depends on the error string only through its mentioning a timeout.
\<close>

theorem internal_error_text_not_shown:
  "(we_code e \<in> set passthrough_codes \<or>
     resolve_user_error ud ok (Some e) t mm nm = resolve_user_error ud ok (Some (e\<lparr>we_message := m\<rparr>)) t' mm nm) \<and>
   resolve_user_error ud ok None t mm nm \<in>
     {generic_text mm, from_template ''timeout'' mm (ul ''Your request timed out. Please try again.'') []}"
  by (auto simp: resolve_user_error_def retry_secs_def split: option.splits)

end
