(* ===== verification/Stream_Processor.thy ===== *)
theory Stream_Processor
  imports Error_Text
begin

text \<open>
  One turn's stream from a language model to the adapters: the open-block tracker
  (streaming/state_machine.py), the events on both sides (core/ports/llm_types.py,
  core/messaging/render_events.py) and the processor between them (core/processors/stream_*.py).

  A handler maps its event and the processor's state to the events it yields and the next state; the
  consumer is taken to drain the generator. Block identifiers are \<open>uuid4\<close> digits: the argument
  \<open>hex\<close> numbers them. How the source of events ends is part of the input.
\<close>

subsection \<open>Open blocks\<close>

record ('k, 'v) state_machine =
  open_blocks :: "('k, 'v) dict"
  sm_pending :: "'v list"
  dedup_seen :: "'k set"

definition state_machine_init :: "('k, 'v) state_machine" where
  "state_machine_init = \<lparr>open_blocks = [], sm_pending = [], dedup_seen = {}\<rparr>"

definition sm_open :: "'k \<Rightarrow> 'v \<Rightarrow> ('k, 'v) state_machine \<Rightarrow> ('k, 'v) state_machine" where
  "sm_open key v sm = sm\<lparr>open_blocks := AList.update key v (open_blocks sm)\<rparr>"

definition sm_close :: "'k \<Rightarrow> ('k, 'v) state_machine \<Rightarrow> 'v option \<times> ('k, 'v) state_machine" where
  "sm_close key sm =
     (map_of (open_blocks sm) key, sm\<lparr>open_blocks := AList.delete key (open_blocks sm)\<rparr>)"

definition sm_get :: "('k, 'v) state_machine \<Rightarrow> 'k \<Rightarrow> 'v option" where
  "sm_get sm key = map_of (open_blocks sm) key"

definition sm_is_open :: "('k, 'v) state_machine \<Rightarrow> 'k \<Rightarrow> bool" where
  "sm_is_open sm key \<longleftrightarrow> map_of (open_blocks sm) key \<noteq> None"

definition mark_seen :: "'k \<Rightarrow> ('k, 'v) state_machine \<Rightarrow> bool \<times> ('k, 'v) state_machine" where
  "mark_seen key sm =
     (if key \<in> dedup_seen sm then (False, sm)
      else (True, sm\<lparr>dedup_seen := insert key (dedup_seen sm)\<rparr>))"

definition sm_drain :: "('k, 'v) state_machine \<Rightarrow> 'v list \<times> ('k, 'v) state_machine" where
  "sm_drain sm = (sm_pending sm, sm\<lparr>sm_pending := []\<rparr>)"

text \<open>\<open>next(iter(open_blocks), None)\<close>\<close>

definition first_open :: "('k, 'v) state_machine \<Rightarrow> 'k option" where
  "first_open sm = (case open_blocks sm of [] \<Rightarrow> None | (k, _) # _ \<Rightarrow> Some k)"

subsection \<open>Events\<close>

datatype json =
    JNull
  | JBool bool
  | JInt int
  | JFloat string
  | JStr ustring
  | JArr "json list"
  | JObj "(ustring \<times> json) list"

record llm_result =
  lr_is_error :: bool
  lr_duration_ms :: json
  lr_error_text :: "ustring option"
  lr_session_id :: "ustring option"
  lr_worker_error :: "worker_error option"

datatype llm_event =
    TextLlm ustring
  | ThinkingLlm ustring
  | ToolUseLlm ustring ustring "(ustring \<times> json) list"
  | ToolUseDeltaLlm ustring ustring
  | ToolUseEndLlm ustring
  | ToolResultLlm ustring ustring bool
  | ResultLlm llm_result

datatype render_event =
    TextStart ustring
  | TextDelta ustring ustring
  | TextEnd ustring
  | TextChunk ustring ustring
  | RunStarted ustring
  | RunFinished ustring
  | RunError ustring ustring "string option"
  | ToolCallStart ustring ustring "(ustring \<times> json) list option"
  | ToolCallArgs ustring ustring
  | ToolCallEnd ustring
  | ToolCallResult ustring ustring bool
  | ReasoningStart ustring
  | ReasoningDelta ustring ustring
  | ReasoningEnd ustring

subsection \<open>Tool output on the bus\<close>

definition non_sensitive_tool_names :: "ustring list" where
  "non_sensitive_tool_names = map ul [''glob'', ''grep'', ''ls'', ''todoread'', ''todowrite'']"

definition max_content_bytes :: nat where "max_content_bytes = 65536"

definition redacted_placeholder :: ustring where
  "redacted_placeholder = ul ''[redacted '' @ [0x2014] @ ul '' tool output suppressed for security]''"

definition truncated_sentinel :: ustring where
  "truncated_sentinel = 0x2026 # ul ''[truncated]''"

definition sanitize_tool_result_content :: "ustring \<Rightarrow> ustring option \<Rightarrow> ustring" where
  "sanitize_tool_result_content content tool_name =
     (case tool_name of
        None \<Rightarrow> redacted_placeholder
      | Some name \<Rightarrow>
          if ulower name \<notin> set non_sensitive_tool_names then redacted_placeholder
          else let encoded = utf8_encode content
               in if length encoded \<le> max_content_bytes then content
                  else utf8_decode (take (max_content_bytes - length (utf8_encode truncated_sentinel)) encoded)
                         @ truncated_sentinel)"

subsection \<open>The processor\<close>

record stream_state =
  ss_text :: "(ustring, ustring) state_machine"
  ss_reasoning :: "(ustring, ustring) state_machine"
  ss_tool :: "(ustring, ustring) state_machine"
  ss_tool_id_to_name :: "ustring \<rightharpoonup> ustring"
  ss_show_intermediate :: bool
  ss_pending_text :: ustring
  ss_total_text :: ustring
  ss_result_received :: bool
  ss_result_is_error :: bool
  ss_result_worker_error :: "worker_error option"
  ss_result_error_text :: "ustring option"
  ss_consumed :: bool
  ss_minted :: nat

definition stream_init :: "bool \<Rightarrow> stream_state" where
  "stream_init show_intermediate =
     \<lparr>ss_text = state_machine_init, ss_reasoning = state_machine_init, ss_tool = state_machine_init,
      ss_tool_id_to_name = Map.empty, ss_show_intermediate = show_intermediate,
      ss_pending_text = [], ss_total_text = [], ss_result_received = False, ss_result_is_error = False,
      ss_result_worker_error = None, ss_result_error_text = None, ss_consumed = False, ss_minted = 0\<rparr>"

type_synonym handler = "stream_state \<Rightarrow> render_event list \<times> stream_state"

text \<open>\<open>yield from f; yield from g\<close>\<close>

definition yield_from :: "handler \<Rightarrow> handler \<Rightarrow> handler" where
  "yield_from f g st = (let (out1, st1) = f st; (out2, st2) = g st1 in (out1 @ out2, st2))"

definition close_reasoning_if_open :: handler where
  "close_reasoning_if_open st =
     (case first_open (ss_reasoning st) of
        None \<Rightarrow> ([], st)
      | Some i \<Rightarrow> ([ReasoningEnd i], st\<lparr>ss_reasoning := snd (sm_close i (ss_reasoning st))\<rparr>))"

definition close_text_if_open :: handler where
  "close_text_if_open st =
     (case first_open (ss_text st) of
        None \<Rightarrow> ([], st)
      | Some i \<Rightarrow> ([TextEnd i], st\<lparr>ss_text := snd (sm_close i (ss_text st))\<rparr>))"

definition mint_text_block_id :: "(nat \<Rightarrow> ustring) \<Rightarrow> nat \<Rightarrow> ustring" where
  "mint_text_block_id hex n = ul ''text-'' @ hex n"

definition mint_reasoning_block_id :: "(nat \<Rightarrow> ustring) \<Rightarrow> nat \<Rightarrow> ustring" where
  "mint_reasoning_block_id hex n = ul ''reasoning-'' @ hex n"

definition emit_text :: "(nat \<Rightarrow> ustring) \<Rightarrow> ustring \<Rightarrow> handler" where
  "emit_text hex t st0 =
     (let st = st0\<lparr>ss_pending_text := ss_pending_text st0 @ t, ss_total_text := ss_total_text st0 @ t\<rparr>
      in case first_open (ss_text st) of
           Some i \<Rightarrow> ([TextDelta i t], st)
         | None \<Rightarrow>
             let i = mint_text_block_id hex (ss_minted st)
             in ([TextStart i, TextDelta i t],
                 st\<lparr>ss_text := sm_open i (ul ''text'') (ss_text st), ss_minted := Suc (ss_minted st)\<rparr>))"

definition handle_text :: "(nat \<Rightarrow> ustring) \<Rightarrow> ustring \<Rightarrow> handler" where
  "handle_text hex t = yield_from close_reasoning_if_open (emit_text hex t)"

definition handle_thinking :: "(nat \<Rightarrow> ustring) \<Rightarrow> ustring \<Rightarrow> handler" where
  "handle_thinking hex t st =
     (if \<not> ss_show_intermediate st then ([], st)
      else case first_open (ss_reasoning st) of
             Some i \<Rightarrow> ([ReasoningDelta i t], st)
           | None \<Rightarrow>
               let i = mint_reasoning_block_id hex (ss_minted st)
               in ([ReasoningStart i, ReasoningDelta i t],
                   st\<lparr>ss_reasoning := sm_open i (ul ''reasoning'') (ss_reasoning st),
                      ss_minted := Suc (ss_minted st)\<rparr>))"

definition clear_pending_text :: "stream_state \<Rightarrow> stream_state" where
  "clear_pending_text st = st\<lparr>ss_pending_text := []\<rparr>"

definition announce_tool :: "ustring \<Rightarrow> ustring \<Rightarrow> (ustring \<times> json) list \<Rightarrow> handler" where
  "announce_tool name i inp st =
     ([ToolCallStart i name (if inp \<noteq> [] then Some inp else None)],
      st\<lparr>ss_tool := sm_open i name (ss_tool st),
         ss_tool_id_to_name := (ss_tool_id_to_name st)(i \<mapsto> name)\<rparr>)"

definition handle_tool_use :: "ustring \<Rightarrow> ustring \<Rightarrow> (ustring \<times> json) list \<Rightarrow> handler" where
  "handle_tool_use name i inp =
     yield_from close_reasoning_if_open (yield_from close_text_if_open (announce_tool name i inp))"

definition handle_tool_use_delta :: "ustring \<Rightarrow> ustring \<Rightarrow> handler" where
  "handle_tool_use_delta i partial =
     yield_from close_reasoning_if_open (\<lambda>st. ([ToolCallArgs i partial], st))"

definition handle_tool_use_end :: "ustring \<Rightarrow> handler" where
  "handle_tool_use_end i =
     yield_from close_reasoning_if_open
       (\<lambda>st. ([ToolCallEnd i], st\<lparr>ss_tool := snd (sm_close i (ss_tool st))\<rparr>))"

definition handle_tool_result :: "ustring \<Rightarrow> ustring \<Rightarrow> bool \<Rightarrow> handler" where
  "handle_tool_result i content is_error =
     yield_from close_reasoning_if_open
       (\<lambda>st. ([ToolCallResult i (sanitize_tool_result_content content (ss_tool_id_to_name st i)) is_error], st))"

text \<open>\<open>sorted(open_blocks)\<close>: strings compare by code point.\<close>

definition synth_orphan_tool_ends :: handler where
  "synth_orphan_tool_ends st =
     (let ids = sort (map fst (open_blocks (ss_tool st)))
      in (map ToolCallEnd ids,
          st\<lparr>ss_tool := fold (\<lambda>i sm. snd (sm_close i sm)) ids (ss_tool st)\<rparr>))"

definition close_open_blocks :: handler where
  "close_open_blocks =
     yield_from close_reasoning_if_open (yield_from close_text_if_open synth_orphan_tool_ends)"

definition handle_result :: handler where
  "handle_result =
     yield_from close_reasoning_if_open (yield_from close_text_if_open synth_orphan_tool_ends)"

definition dispatch_event :: "(nat \<Rightarrow> ustring) \<Rightarrow> llm_event \<Rightarrow> handler" where
  "dispatch_event hex ev =
     (case ev of
        TextLlm t \<Rightarrow> handle_text hex t
      | ToolUseLlm name i inp \<Rightarrow>
          (\<lambda>st. let (out, st1) = handle_tool_use name i inp st
                in (out, if ss_show_intermediate st1 then clear_pending_text st1 else st1))
      | ToolUseDeltaLlm i partial \<Rightarrow> handle_tool_use_delta i partial
      | ToolUseEndLlm i \<Rightarrow> handle_tool_use_end i
      | ToolResultLlm i content is_error \<Rightarrow> handle_tool_result i content is_error
      | ResultLlm _ \<Rightarrow> handle_result
      | ThinkingLlm t \<Rightarrow> handle_thinking hex t)"

definition note_result :: "llm_event \<Rightarrow> stream_state \<Rightarrow> stream_state" where
  "note_result ev st =
     (case ev of
        ResultLlm r \<Rightarrow> st\<lparr>ss_result_received := True, ss_result_is_error := lr_is_error r,
                         ss_result_worker_error := lr_worker_error r, ss_result_error_text := lr_error_text r\<rparr>
      | _ \<Rightarrow> st)"

text \<open>The loop over the events that arrive.\<close>

fun feed_events :: "(nat \<Rightarrow> ustring) \<Rightarrow> llm_event list \<Rightarrow> handler" where
  "feed_events hex [] st = ([], st)"
| "feed_events hex (ev # evs) st =
     (let (out1, st1) = dispatch_event hex ev (note_result ev st);
          (out2, st2) = feed_events hex evs st1
      in (out1 @ out2, st2))"

text \<open>
  The source of events is exhausted, raises one of \<open>_STREAM_INFRA_ERRORS\<close>, or raises anything else.
\<close>

datatype stream_end = Exhausted | InfraError string | OtherError string

definition process_events :: "(nat \<Rightarrow> ustring) \<Rightarrow> llm_event list \<Rightarrow> stream_end \<Rightarrow> handler" where
  "process_events hex evs fin =
     yield_from (feed_events hex evs)
       (\<lambda>st. if fin = Exhausted \<and> \<not> ss_result_received st then close_open_blocks st else ([], st))"

definition terminal_event ::
    "unicode_db \<Rightarrow> (ustring \<Rightarrow> bool) \<Rightarrow> msg_manager option \<Rightarrow> ustring option \<Rightarrow> ustring \<Rightarrow> stream_state \<Rightarrow> render_event" where
  "terminal_event ud netloc_ok mm bot_name run_id st =
     (if ss_result_is_error st then
        RunError run_id
          (resolve_user_error ud netloc_ok (ss_result_worker_error st) (ss_result_error_text st) mm bot_name)
          (Some (case ss_result_worker_error st of Some e \<Rightarrow> we_code e | None \<Rightarrow> ''stream.error''))
      else RunFinished run_id)"

definition reset_result :: "stream_state \<Rightarrow> stream_state" where
  "reset_result st = st\<lparr>ss_consumed := True, ss_result_received := False, ss_result_is_error := False,
     ss_result_worker_error := None, ss_result_error_text := None\<rparr>"

text \<open>The events a turn yields and the exception it raises, if any.\<close>

definition process_stream ::
    "unicode_db \<Rightarrow> (ustring \<Rightarrow> bool) \<Rightarrow> msg_manager option \<Rightarrow> ustring option \<Rightarrow> (nat \<Rightarrow> ustring) \<Rightarrow> ustring \<Rightarrow>
     llm_event list \<Rightarrow> stream_end \<Rightarrow> stream_state \<Rightarrow> render_event list \<times> string option" where
  "process_stream ud netloc_ok mm bot_name hex run_id evs fin st =
     (if ss_consumed st then ([], Some ''RuntimeError'')
      else let (out1, st1) = process_events hex evs fin (reset_result st)
           in case fin of
                Exhausted \<Rightarrow>
                  (RunStarted run_id # out1 @ [terminal_event ud netloc_ok mm bot_name run_id st1], None)
              | InfraError name \<Rightarrow>
                  (RunStarted run_id # out1 @ fst (close_open_blocks st1)
                     @ [RunError run_id (ul name) (Some ''stream.error'')], Some name)
              | OtherError name \<Rightarrow> (RunStarted run_id # out1, Some name))"

text \<open>One instance per turn: what a fresh processor yields.\<close>

definition turn_output ::
    "unicode_db \<Rightarrow> (ustring \<Rightarrow> bool) \<Rightarrow> msg_manager option \<Rightarrow> ustring option \<Rightarrow> (nat \<Rightarrow> ustring) \<Rightarrow> ustring \<Rightarrow>
     bool \<Rightarrow> llm_event list \<Rightarrow> stream_end \<Rightarrow> render_event list" where
  "turn_output ud netloc_ok mm bot_name hex run_id show_intermediate evs fin =
     fst (process_stream ud netloc_ok mm bot_name hex run_id evs fin (stream_init show_intermediate))"

subsection \<open>The contract of a tracker of open blocks\<close>

text \<open>
  What the processor and the CLI parser rely on: a key is open from its last \<open>open\<close> until a
  \<open>close\<close>, which returns the value it was opened with.
\<close>

datatype ('k, 'v) track_op = Opened 'k 'v | Closed 'k

locale block_tracker =
  fixes opn :: "'k \<Rightarrow> 'v \<Rightarrow> 's \<Rightarrow> 's"
    and cls :: "'k \<Rightarrow> 's \<Rightarrow> 'v option \<times> 's"
    and get :: "'s \<Rightarrow> 'k \<Rightarrow> 'v option"
  assumes get_opn: "get (opn k v s) k' = (if k' = k then Some v else get s k')"
    and cls_result: "fst (cls k s) = get s k"
    and get_cls: "get (snd (cls k s)) k' = (if k' = k then None else get s k')"
begin

fun track :: "('k, 'v) track_op \<Rightarrow> 's \<Rightarrow> 's" where
  "track (Opened k v) s = opn k v s"
| "track (Closed k) s = snd (cls k s)"

fun op_key :: "('k, 'v) track_op \<Rightarrow> 'k" where
  "op_key (Opened k v) = k"
| "op_key (Closed k) = k"

lemma track_other: "k \<notin> op_key ` set ops \<Longrightarrow> get (fold track ops s) k = get s k"
proof (induction ops arbitrary: s)
  case (Cons op ops)
  then show ?case by (cases op) (auto simp: get_opn get_cls)
qed simp

lemma open_since:
  "k \<notin> op_key ` set later \<Longrightarrow> get (fold track (earlier @ Opened k v # later) s) k = Some v"
  by (simp add: track_other get_opn)

lemma closed_since:
  "k \<notin> op_key ` set later \<Longrightarrow> get (fold track (earlier @ Closed k # later) s) k = None"
  by (simp add: track_other get_cls)

lemma double_close: "fst (cls k (snd (cls k s))) = None"
  by (simp add: cls_result get_cls)

end

interpretation sm: block_tracker sm_open sm_close sm_get
  by unfold_locales (auto simp: sm_open_def sm_close_def sm_get_def delete_conv' update_conv')

subsection \<open>The protocol of the adapters\<close>

text \<open>
  The state an adapter needs to follow a turn. A text or reasoning block is opened once, extended
  under its own identifier and closed; reasoning may interrupt a text block; a tool call begins
  outside text blocks; the turn ends with every block and tool call closed.
\<close>

datatype run_phase = NotStarted | Running | Finished

record proto =
  pr_phase :: run_phase
  pr_text :: "ustring option"
  pr_reasoning :: "ustring option"
  pr_tools :: "ustring set"

definition proto_init :: proto where
  "proto_init = \<lparr>pr_phase = NotStarted, pr_text = None, pr_reasoning = None, pr_tools = {}\<rparr>"

definition proto_done :: proto where
  "proto_done = \<lparr>pr_phase = Finished, pr_text = None, pr_reasoning = None, pr_tools = {}\<rparr>"

definition all_closed :: "proto \<Rightarrow> bool" where
  "all_closed p \<longleftrightarrow> pr_phase p = Running \<and> pr_text p = None \<and> pr_reasoning p = None \<and> pr_tools p = {}"

fun proto_step :: "render_event \<Rightarrow> proto \<Rightarrow> proto option" where
  "proto_step (RunStarted r) p = (if p = proto_init then Some (p\<lparr>pr_phase := Running\<rparr>) else None)"
| "proto_step (RunFinished r) p = (if all_closed p then Some proto_done else None)"
| "proto_step (RunError r m c) p = (if all_closed p then Some proto_done else None)"
| "proto_step (TextStart i) p =
     (if pr_phase p = Running \<and> pr_text p = None \<and> pr_reasoning p = None then Some (p\<lparr>pr_text := Some i\<rparr>) else None)"
| "proto_step (TextDelta i t) p =
     (if pr_phase p = Running \<and> pr_text p = Some i \<and> pr_reasoning p = None then Some p else None)"
| "proto_step (TextEnd i) p =
     (if pr_phase p = Running \<and> pr_text p = Some i \<and> pr_reasoning p = None then Some (p\<lparr>pr_text := None\<rparr>) else None)"
| "proto_step (TextChunk i t) p = None"
| "proto_step (ReasoningStart i) p =
     (if pr_phase p = Running \<and> pr_reasoning p = None then Some (p\<lparr>pr_reasoning := Some i\<rparr>) else None)"
| "proto_step (ReasoningDelta i t) p =
     (if pr_phase p = Running \<and> pr_reasoning p = Some i then Some p else None)"
| "proto_step (ReasoningEnd i) p =
     (if pr_phase p = Running \<and> pr_reasoning p = Some i then Some (p\<lparr>pr_reasoning := None\<rparr>) else None)"
| "proto_step (ToolCallStart i name inp) p =
     (if pr_phase p = Running \<and> pr_text p = None \<and> pr_reasoning p = None
      then Some (p\<lparr>pr_tools := insert i (pr_tools p)\<rparr>) else None)"
| "proto_step (ToolCallArgs i d) p =
     (if pr_phase p = Running \<and> pr_reasoning p = None then Some p else None)"
| "proto_step (ToolCallEnd i) p =
     (if pr_phase p = Running \<and> pr_reasoning p = None then Some (p\<lparr>pr_tools := pr_tools p - {i}\<rparr>) else None)"
| "proto_step (ToolCallResult i c e) p =
     (if pr_phase p = Running \<and> pr_reasoning p = None then Some p else None)"

fun follows :: "render_event list \<Rightarrow> proto \<Rightarrow> proto option" where
  "follows [] p = Some p"
| "follows (ev # evs) p = (case proto_step ev p of None \<Rightarrow> None | Some p' \<Rightarrow> follows evs p')"

lemma follows_append: "follows (xs @ ys) p = Option.bind (follows xs p) (follows ys)"
  by (induction xs arbitrary: p) (auto split: option.splits)

subsection \<open>The processor keeps to the protocol\<close>

definition proto_of :: "stream_state \<Rightarrow> proto" where
  "proto_of st = \<lparr>pr_phase = Running, pr_text = first_open (ss_text st),
     pr_reasoning = first_open (ss_reasoning st), pr_tools = fst ` set (open_blocks (ss_tool st))\<rparr>"

definition stream_inv :: "stream_state \<Rightarrow> bool" where
  "stream_inv st \<longleftrightarrow> length (open_blocks (ss_text st)) \<le> 1 \<and> length (open_blocks (ss_reasoning st)) \<le> 1 \<and>
     dict_wf (open_blocks (ss_tool st))"

text \<open>A handler is sound if it keeps the invariant and its events take the adapter along.\<close>

definition sound_when :: "(stream_state \<Rightarrow> bool) \<Rightarrow> handler \<Rightarrow> bool" where
  "sound_when P f \<longleftrightarrow> (\<forall>st. stream_inv st \<and> P st \<longrightarrow>
     stream_inv (snd (f st)) \<and> follows (fst (f st)) (proto_of st) = Some (proto_of (snd (f st))))"

definition quiet :: "stream_state \<Rightarrow> bool" where
  "quiet st \<longleftrightarrow> open_blocks (ss_reasoning st) = []"

definition silent :: "stream_state \<Rightarrow> bool" where
  "silent st \<longleftrightarrow> open_blocks (ss_reasoning st) = [] \<and> open_blocks (ss_text st) = []"

lemma yield_from_simps:
  "fst (yield_from f g st) = fst (f st) @ fst (g (snd (f st)))"
  "snd (yield_from f g st) = snd (g (snd (f st)))"
  by (simp_all add: yield_from_def case_prod_beta)

lemma sound_yield_from:
  assumes "sound_when P f" "sound_when Q g" "\<And>st. stream_inv st \<Longrightarrow> P st \<Longrightarrow> Q (snd (f st))"
  shows "sound_when P (yield_from f g)"
  using assms by (simp add: sound_when_def yield_from_simps follows_append)

lemma sound_whenI:
  "(\<And>st. \<lbrakk>stream_inv st; P st\<rbrakk> \<Longrightarrow> stream_inv (snd (f st))) \<Longrightarrow>
   (\<And>st. \<lbrakk>stream_inv st; P st\<rbrakk> \<Longrightarrow> follows (fst (f st)) (proto_of st) = Some (proto_of (snd (f st)))) \<Longrightarrow>
   sound_when P f"
  by (simp add: sound_when_def)

lemma first_open_cases:
  assumes "length (open_blocks sm) \<le> 1"
  obtains "open_blocks sm = []" "first_open sm = None"
    | i v where "open_blocks sm = [(i, v)]" "first_open sm = Some i"
  using assms by (cases "open_blocks sm"; cases "tl (open_blocks sm)") (auto simp: first_open_def)

lemmas block_defs = close_reasoning_if_open_def close_text_if_open_def sm_close_def sm_open_def
  stream_inv_def proto_of_def first_open_def quiet_def silent_def

lemma close_reasoning_effect:
  assumes "stream_inv st"
  shows "stream_inv (snd (close_reasoning_if_open st))"
    "follows (fst (close_reasoning_if_open st)) (proto_of st) = Some (proto_of (snd (close_reasoning_if_open st)))"
    "quiet (snd (close_reasoning_if_open st))"
proof -
  have "length (open_blocks (ss_reasoning st)) \<le> 1" using assms by (simp add: stream_inv_def)
  then show "stream_inv (snd (close_reasoning_if_open st))"
    "follows (fst (close_reasoning_if_open st)) (proto_of st) = Some (proto_of (snd (close_reasoning_if_open st)))"
    "quiet (snd (close_reasoning_if_open st))"
    using assms by (cases rule: first_open_cases; simp add: block_defs)+
qed

lemma close_text_effect:
  assumes "stream_inv st" "quiet st"
  shows "stream_inv (snd (close_text_if_open st))"
    "follows (fst (close_text_if_open st)) (proto_of st) = Some (proto_of (snd (close_text_if_open st)))"
    "silent (snd (close_text_if_open st))"
proof -
  have "length (open_blocks (ss_text st)) \<le> 1" using assms by (simp add: stream_inv_def)
  then show "stream_inv (snd (close_text_if_open st))"
    "follows (fst (close_text_if_open st)) (proto_of st) = Some (proto_of (snd (close_text_if_open st)))"
    "silent (snd (close_text_if_open st))"
    using assms by (cases rule: first_open_cases; simp add: block_defs)+
qed

lemma sound_after_reasoning:
  "sound_when quiet f \<Longrightarrow> sound_when P (yield_from close_reasoning_if_open f)"
  by (rule sound_yield_from [where Q = quiet]) (auto intro: sound_whenI close_reasoning_effect)

lemma sound_after_text:
  "sound_when silent f \<Longrightarrow> sound_when quiet (yield_from close_text_if_open f)"
  by (rule sound_yield_from [where Q = silent]) (auto intro: sound_whenI close_text_effect)

lemma sound_emit_text: "sound_when quiet (emit_text hex t)"
proof (rule sound_whenI; unfold quiet_def)
  fix st assume i: "stream_inv st" and q: "open_blocks (ss_reasoning st) = []"
  then have "length (open_blocks (ss_text st)) \<le> 1" by (simp add: stream_inv_def)
  then show "stream_inv (snd (emit_text hex t st))"
    "follows (fst (emit_text hex t st)) (proto_of st) = Some (proto_of (snd (emit_text hex t st)))"
    using i q by (cases rule: first_open_cases; simp add: emit_text_def block_defs Let_def)+
qed

lemma sound_handle_thinking: "sound_when P (handle_thinking hex t)"
proof (rule sound_whenI)
  fix st assume i: "stream_inv st"
  then have "length (open_blocks (ss_reasoning st)) \<le> 1" by (simp add: stream_inv_def)
  then show "stream_inv (snd (handle_thinking hex t st))"
    "follows (fst (handle_thinking hex t st)) (proto_of st) = Some (proto_of (snd (handle_thinking hex t st)))"
    using i by (cases rule: first_open_cases; simp add: handle_thinking_def block_defs Let_def)+
qed

lemma keys_delete [simp]: "fst ` set (AList.delete k d) = fst ` set d - {k}"
  by (metis delete_keys list.set_map set_removeAll)

lemma keys_update [simp]: "fst ` set (AList.update k v d) = insert k (fst ` set d)"
  by (induction d) auto

lemma sound_tool_steps:
  "sound_when silent (announce_tool name i inp)"
  "sound_when quiet (\<lambda>st. ([ToolCallArgs i d], st))"
  "sound_when quiet (\<lambda>st. ([ToolCallEnd i], st\<lparr>ss_tool := snd (sm_close i (ss_tool st))\<rparr>))"
  "sound_when quiet (\<lambda>st. ([ToolCallResult i (g st) e], st))"
  by (auto intro!: sound_whenI simp: announce_tool_def block_defs)

lemma close_all_tools:
  "distinct ids \<Longrightarrow> fst ` set (open_blocks sm) = set ids \<Longrightarrow>
   open_blocks (fold (\<lambda>i sm. snd (sm_close i sm)) ids sm) = []"
proof (induction ids arbitrary: sm)
  case (Cons a ids)
  then show ?case by (simp add: sm_close_def insert_Diff_if)
qed simp

lemma follow_tool_ends:
  "pr_phase p = Running \<Longrightarrow> pr_reasoning p = None \<Longrightarrow>
   follows (map ToolCallEnd ids) p = Some (p\<lparr>pr_tools := pr_tools p - set ids\<rparr>)"
  by (induction ids arbitrary: p) (auto simp: Diff_insert2 [symmetric])

lemma synth_orphan_effect:
  assumes "stream_inv st" "quiet st"
  shows "open_blocks (ss_tool (snd (synth_orphan_tool_ends st))) = []"
    "stream_inv (snd (synth_orphan_tool_ends st))"
    "follows (fst (synth_orphan_tool_ends st)) (proto_of st) = Some (proto_of (snd (synth_orphan_tool_ends st)))"
proof -
  show o: "open_blocks (ss_tool (snd (synth_orphan_tool_ends st))) = []"
    unfolding synth_orphan_tool_ends_def Let_def using assms(1)
    by (simp, intro close_all_tools) (simp_all add: stream_inv_def dict_wf_def)
  then show "stream_inv (snd (synth_orphan_tool_ends st))"
    using assms(1) by (auto simp: synth_orphan_tool_ends_def Let_def stream_inv_def)
  show "follows (fst (synth_orphan_tool_ends st)) (proto_of st) = Some (proto_of (snd (synth_orphan_tool_ends st)))"
    using assms(2) o by (simp add: synth_orphan_tool_ends_def Let_def follow_tool_ends proto_of_def quiet_def first_open_def)
qed

lemma sound_handlers:
  "sound_when P (handle_text hex t)" "sound_when P (handle_tool_use name i inp)"
  "sound_when P (handle_tool_use_delta i d)" "sound_when P (handle_tool_use_end i)"
  "sound_when P (handle_tool_result i c e)" "sound_when P handle_result" "sound_when P close_open_blocks"
proof -
  have "sound_when silent synth_orphan_tool_ends"
    by (rule sound_whenI) (simp_all add: synth_orphan_effect quiet_def silent_def)
  then show "sound_when P handle_result" "sound_when P close_open_blocks"
    by (auto simp: handle_result_def close_open_blocks_def intro!: sound_after_reasoning sound_after_text)
qed (auto simp: handle_text_def handle_tool_use_def handle_tool_use_delta_def handle_tool_use_end_def
    handle_tool_result_def intro: sound_after_reasoning sound_after_text sound_emit_text sound_tool_steps)

lemma note_result_frame [simp]:
  "stream_inv (note_result ev st) \<longleftrightarrow> stream_inv st" "proto_of (note_result ev st) = proto_of st"
  "ss_tool_id_to_name (note_result ev st) = ss_tool_id_to_name st"
  "ss_show_intermediate (note_result ev st) = ss_show_intermediate st"
  by (auto simp: note_result_def stream_inv_def proto_of_def split: llm_event.splits)

lemma sound_dispatch: "sound_when P (dispatch_event hex ev)"
proof (cases ev)
  case (ToolUseLlm name i inp)
  then show ?thesis
    using sound_handlers(2) [of P name i inp]
    by (simp add: dispatch_event_def sound_when_def case_prod_beta clear_pending_text_def stream_inv_def proto_of_def)
qed (simp_all add: dispatch_event_def sound_handlers sound_handle_thinking)

lemma sound_feed: "sound_when P (feed_events hex evs)"
proof (induction evs arbitrary: P)
  case Nil
  then show ?case by (simp add: sound_when_def)
next
  case (Cons ev evs)
  show ?case
  proof (rule sound_whenI)
    fix st assume i: "stream_inv st"
    let ?st = "note_result ev st"
    have "stream_inv (snd (dispatch_event hex ev ?st))"
      "follows (fst (dispatch_event hex ev ?st)) (proto_of ?st) = Some (proto_of (snd (dispatch_event hex ev ?st)))"
      using sound_dispatch [of "\<lambda>_. True" hex ev] note_result_frame(1) [of ev st] i
      unfolding sound_when_def by blast+
    with Cons.IH [of "\<lambda>_. True"]
    show "stream_inv (snd (feed_events hex (ev # evs) st))"
      "follows (fst (feed_events hex (ev # evs) st)) (proto_of st) =
         Some (proto_of (snd (feed_events hex (ev # evs) st)))"
      by (simp_all add: sound_when_def case_prod_beta follows_append)
  qed
qed

lemma close_effect:
  assumes "stream_inv st"
  shows "all_closed (proto_of (snd (close_open_blocks st)))"
proof -
  let ?s1 = "snd (close_reasoning_if_open st)"
  let ?s2 = "snd (close_text_if_open ?s1)"
  have 1: "stream_inv ?s1" "quiet ?s1" using close_reasoning_effect [OF assms] by simp_all
  then have 2: "stream_inv ?s2" "silent ?s2" using close_text_effect by simp_all
  then have "quiet ?s2" by (simp add: silent_def quiet_def)
  with 2 have "open_blocks (ss_tool (snd (synth_orphan_tool_ends ?s2))) = []" "silent (snd (synth_orphan_tool_ends ?s2))"
    by (simp_all add: synth_orphan_effect(1)) (simp add: synth_orphan_tool_ends_def Let_def silent_def)
  then show ?thesis
    by (simp add: close_open_blocks_def yield_from_simps all_closed_def proto_of_def silent_def first_open_def)
qed

lemma handle_result_close: "handle_result = close_open_blocks"
  by (simp add: handle_result_def close_open_blocks_def)

lemma result_frame [frame]:
  "ss_result_received (snd (close_reasoning_if_open st)) = ss_result_received st"
  "ss_result_received (snd (close_text_if_open st)) = ss_result_received st"
  "ss_result_received (snd (synth_orphan_tool_ends st)) = ss_result_received st"
  "ss_result_received (snd (emit_text hex t st)) = ss_result_received st"
  "ss_result_received (snd (handle_thinking hex t st)) = ss_result_received st"
  "ss_result_received (snd (announce_tool name i inp st)) = ss_result_received st"
  by (simp_all add: close_reasoning_if_open_def close_text_if_open_def synth_orphan_tool_ends_def
      emit_text_def handle_thinking_def announce_tool_def Let_def split: option.splits)

lemmas handler_defs = handle_text_def handle_tool_use_def handle_tool_use_delta_def handle_tool_use_end_def
  handle_tool_result_def handle_result_def

lemma dispatch_result_frame: "ss_result_received (snd (dispatch_event hex ev st)) = ss_result_received st"
  by (cases ev) (simp_all add: dispatch_event_def handler_defs yield_from_simps frame case_prod_beta clear_pending_text_def)

definition is_result :: "llm_event \<Rightarrow> bool" where
  "is_result ev \<longleftrightarrow> (case ev of ResultLlm _ \<Rightarrow> True | _ \<Rightarrow> False)"

lemma close_result_frame: "ss_result_received (snd (close_open_blocks st)) = ss_result_received st"
  by (simp add: close_open_blocks_def yield_from_simps frame)

lemma note_result_received: "ss_result_received (note_result ev st) \<longleftrightarrow> is_result ev \<or> ss_result_received st"
  by (simp add: note_result_def is_result_def split: llm_event.splits)

lemma feed_result_received:
  "ss_result_received (snd (feed_events hex evs st)) \<longleftrightarrow> list_ex is_result evs \<or> ss_result_received st"
  by (induction evs arbitrary: st)
    (auto simp: case_prod_beta dispatch_result_frame note_result_received)

lemma feed_append:
  "feed_events hex (xs @ ys) st = yield_from (feed_events hex xs) (feed_events hex ys) st"
  by (induction xs arbitrary: st) (auto simp: yield_from_def case_prod_beta)

lemma reset_init: "stream_inv (reset_result (stream_init b))" "proto_of (reset_result (stream_init b)) = proto_init\<lparr>pr_phase := Running\<rparr>"
  "ss_result_received (reset_result (stream_init b)) = False"
  by (simp_all add: reset_result_def stream_init_def state_machine_init_def stream_inv_def proto_of_def
      proto_init_def first_open_def)

text \<open>The source keeps to its side: what ends a stream that is exhausted is the result, if there is one.\<close>

definition well_ended :: "llm_event list \<Rightarrow> stream_end \<Rightarrow> bool" where
  "well_ended evs fin \<longleftrightarrow> (case fin of
     Exhausted \<Rightarrow> \<not> list_ex is_result evs \<or> is_result (last evs) | _ \<Rightarrow> True)"

lemma process_events_closed:
  assumes "well_ended evs Exhausted" "stream_inv st" "\<not> ss_result_received st"
  shows "all_closed (proto_of (snd (process_events hex evs Exhausted st)))"
proof (cases "list_ex is_result evs")
  case False
  have "stream_inv (snd (feed_events hex evs st))"
    using sound_feed [of "\<lambda>_. True"] assms(2) by (simp add: sound_when_def)
  with False assms(3) show ?thesis
    by (simp add: process_events_def yield_from_simps feed_result_received close_effect)
next
  case True
  with assms(1) obtain xs r where evs: "evs = xs @ [ResultLlm r]"
    by (cases evs rule: rev_cases) (auto simp: well_ended_def is_result_def split: llm_event.splits)
  have "stream_inv (snd (feed_events hex xs st))"
    using sound_feed [of "\<lambda>_. True"] assms(2) by (simp add: sound_when_def)
  with True show ?thesis
    by (simp add: process_events_def yield_from_simps feed_result_received evs feed_append case_prod_beta
        dispatch_event_def handle_result_close close_effect is_result_def close_result_frame note_result_received)
qed

lemma sound_process_events: "sound_when P (process_events hex evs fin)"
proof -
  have "sound_when (\<lambda>_. True) (\<lambda>st. if fin = Exhausted \<and> \<not> ss_result_received st then close_open_blocks st else ([], st))"
    using sound_handlers(7) [of "\<lambda>_. True"] by (simp add: sound_when_def)
  then show ?thesis
    unfolding process_events_def by (rule sound_yield_from [OF sound_feed]) simp
qed

subsection \<open>What is delivered\<close>

definition text_out :: "render_event list \<Rightarrow> ustring" where
  "text_out out = concat (map (\<lambda>e. case e of TextDelta _ d \<Rightarrow> d | _ \<Rightarrow> []) out)"

definition text_in :: "llm_event list \<Rightarrow> ustring" where
  "text_in evs = concat (map (\<lambda>e. case e of TextLlm t \<Rightarrow> t | _ \<Rightarrow> []) evs)"

definition reasoning_out :: "render_event list \<Rightarrow> ustring" where
  "reasoning_out out = concat (map (\<lambda>e. case e of ReasoningDelta _ d \<Rightarrow> d | _ \<Rightarrow> []) out)"

definition reasoning_in :: "llm_event list \<Rightarrow> ustring" where
  "reasoning_in evs = concat (map (\<lambda>e. case e of ThinkingLlm t \<Rightarrow> t | _ \<Rightarrow> []) evs)"

definition args_out :: "ustring \<Rightarrow> render_event list \<Rightarrow> ustring" where
  "args_out i out = concat (map (\<lambda>e. case e of ToolCallArgs j d \<Rightarrow> if j = i then d else [] | _ \<Rightarrow> []) out)"

definition args_in :: "ustring \<Rightarrow> llm_event list \<Rightarrow> ustring" where
  "args_in i evs = concat (map (\<lambda>e. case e of ToolUseDeltaLlm j d \<Rightarrow> if j = i then d else [] | _ \<Rightarrow> []) evs)"

lemmas delivered_defs = text_out_def text_in_def reasoning_out_def reasoning_in_def args_out_def args_in_def

lemma closing_delivers_nothing:
  "text_out (fst (close_reasoning_if_open st)) = []" "text_out (fst (close_text_if_open st)) = []"
  "text_out (fst (synth_orphan_tool_ends st)) = []"
  "reasoning_out (fst (close_reasoning_if_open st)) = []" "reasoning_out (fst (close_text_if_open st)) = []"
  "reasoning_out (fst (synth_orphan_tool_ends st)) = []"
  "args_out i (fst (close_reasoning_if_open st)) = []" "args_out i (fst (close_text_if_open st)) = []"
  "args_out i (fst (synth_orphan_tool_ends st)) = []"
  by (auto simp: close_reasoning_if_open_def close_text_if_open_def synth_orphan_tool_ends_def Let_def
      delivered_defs split: option.splits)

lemma out_append [simp]:
  "text_out (a @ b) = text_out a @ text_out b" "reasoning_out (a @ b) = reasoning_out a @ reasoning_out b"
  "args_out i (a @ b) = args_out i a @ args_out i b"
  by (simp_all add: delivered_defs)

lemma show_frame:
  "ss_show_intermediate (snd (close_reasoning_if_open st)) = ss_show_intermediate st"
  "ss_show_intermediate (snd (close_text_if_open st)) = ss_show_intermediate st"
  "ss_show_intermediate (snd (synth_orphan_tool_ends st)) = ss_show_intermediate st"
  "ss_show_intermediate (snd (emit_text hex t st)) = ss_show_intermediate st"
  "ss_show_intermediate (snd (handle_thinking hex t st)) = ss_show_intermediate st"
  "ss_show_intermediate (snd (announce_tool name i inp st)) = ss_show_intermediate st"
  by (simp_all add: close_reasoning_if_open_def close_text_if_open_def synth_orphan_tool_ends_def
      emit_text_def handle_thinking_def announce_tool_def Let_def split: option.splits)

lemma dispatch_show: "ss_show_intermediate (snd (dispatch_event hex ev st)) = ss_show_intermediate st"
  by (cases ev) (simp_all add: dispatch_event_def handler_defs yield_from_simps show_frame case_prod_beta clear_pending_text_def)

lemma emit_delivers:
  "text_out (fst (emit_text hex t st)) = t" "reasoning_out (fst (emit_text hex t st)) = []"
  "args_out i (fst (emit_text hex t st)) = []"
  "text_out (fst (handle_thinking hex t st)) = []"
  "reasoning_out (fst (handle_thinking hex t st)) = (if ss_show_intermediate st then t else [])"
  "args_out i (fst (handle_thinking hex t st)) = []"
  "text_out (fst (announce_tool name j inp st)) = []" "reasoning_out (fst (announce_tool name j inp st)) = []"
  "args_out i (fst (announce_tool name j inp st)) = []"
  by (auto simp: emit_text_def handle_thinking_def announce_tool_def Let_def delivered_defs split: option.splits)

lemma dispatch_delivers:
  "text_out (fst (dispatch_event hex ev st)) = text_in [ev]"
  "reasoning_out (fst (dispatch_event hex ev st)) = (if ss_show_intermediate st then reasoning_in [ev] else [])"
  "args_out i (fst (dispatch_event hex ev st)) = args_in i [ev]"
  by (cases ev; simp add: dispatch_event_def handler_defs yield_from_simps case_prod_beta closing_delivers_nothing
      emit_delivers; simp add: delivered_defs)+

lemma feed_delivers:
  "text_out (fst (feed_events hex evs st)) = text_in evs"
  "reasoning_out (fst (feed_events hex evs st)) = (if ss_show_intermediate st then reasoning_in evs else [])"
  "args_out i (fst (feed_events hex evs st)) = args_in i evs"
proof (induction evs arbitrary: st)
  case (Cons ev evs)
  have c: "text_in (ev # evs) = text_in [ev] @ text_in evs"
    "reasoning_in (ev # evs) = reasoning_in [ev] @ reasoning_in evs"
    "args_in i (ev # evs) = args_in i [ev] @ args_in i evs"
    by (simp_all add: delivered_defs)
  { case 1 show ?case using Cons.IH(1) by (simp add: case_prod_beta dispatch_delivers c(1)) }
  { case 2 show ?case using Cons.IH(2) by (simp add: case_prod_beta dispatch_delivers c(2) dispatch_show) }
  { case 3 show ?case using Cons.IH(3) by (simp add: case_prod_beta dispatch_delivers c(3)) }
qed (simp_all add: delivered_defs)

subsection \<open>Tool results\<close>

lemma sentinel_bytes: "length (utf8_encode truncated_sentinel) = 14"
  by (simp add: truncated_sentinel_def utf8_char_def surrogate_def)

lemma placeholder_bytes: "length (utf8_encode redacted_placeholder) = 50"
  by (simp add: redacted_placeholder_def utf8_char_def surrogate_def)

lemma sanitize_bytes:
  assumes "valid_text content"
  shows "length (utf8_encode (sanitize_tool_result_content content nm)) \<le> max_content_bytes"
proof -
  obtain k where k: "utf8_decode (take (max_content_bytes - 14) (utf8_encode content)) = map utf8_replace (take k content)"
    "length (utf8_encode (take k content)) \<le> max_content_bytes - 14"
    using utf8_decode_take [OF assms] by blast
  show ?thesis
    using k by (auto simp: sanitize_tool_result_content_def Let_def sentinel_bytes placeholder_bytes max_content_bytes_def
        split: option.splits)
qed

lemma sanitize_cases:
  assumes "valid_text content"
  shows "sanitize_tool_result_content content nm = redacted_placeholder \<or>
    (\<exists>name. nm = Some name \<and> ulower name \<in> set non_sensitive_tool_names \<and>
      (sanitize_tool_result_content content nm = content \<or>
       (\<exists>k. sanitize_tool_result_content content nm = map utf8_replace (take k content) @ truncated_sentinel)))"
proof -
  obtain k where "utf8_decode (take (max_content_bytes - 14) (utf8_encode content)) = map utf8_replace (take k content)"
    using utf8_decode_take [OF assms] by blast
  then show ?thesis
    by (auto simp: sanitize_tool_result_content_def Let_def sentinel_bytes split: option.splits)
qed

definition tool_results :: "render_event list \<Rightarrow> (ustring \<times> ustring \<times> bool) set" where
  "tool_results out = {(i, c, e). ToolCallResult i c e \<in> set out}"

lemma tool_results_append [simp]: "tool_results (a @ b) = tool_results a \<union> tool_results b"
  by (auto simp: tool_results_def)

lemma names_frame:
  "ss_tool_id_to_name (snd (close_reasoning_if_open st)) = ss_tool_id_to_name st"
  "ss_tool_id_to_name (snd (close_text_if_open st)) = ss_tool_id_to_name st"
  "ss_tool_id_to_name (snd (synth_orphan_tool_ends st)) = ss_tool_id_to_name st"
  "ss_tool_id_to_name (snd (emit_text hex t st)) = ss_tool_id_to_name st"
  "ss_tool_id_to_name (snd (handle_thinking hex t st)) = ss_tool_id_to_name st"
  by (simp_all add: close_reasoning_if_open_def close_text_if_open_def synth_orphan_tool_ends_def
      emit_text_def handle_thinking_def Let_def split: option.splits)

lemma no_results:
  "tool_results (fst (close_reasoning_if_open st)) = {}" "tool_results (fst (close_text_if_open st)) = {}"
  "tool_results (fst (synth_orphan_tool_ends st)) = {}" "tool_results (fst (emit_text hex t st)) = {}"
  "tool_results (fst (handle_thinking hex t st)) = {}" "tool_results (fst (announce_tool name i inp st)) = {}"
  by (auto simp: close_reasoning_if_open_def close_text_if_open_def synth_orphan_tool_ends_def
      emit_text_def handle_thinking_def announce_tool_def Let_def tool_results_def split: option.splits)

lemma dispatch_names:
  "ss_tool_id_to_name (snd (dispatch_event hex ev st)) =
     (case ev of ToolUseLlm name i _ \<Rightarrow> (ss_tool_id_to_name st)(i \<mapsto> name) | _ \<Rightarrow> ss_tool_id_to_name st)"
  by (cases ev) (simp_all add: dispatch_event_def handler_defs yield_from_simps names_frame case_prod_beta
      clear_pending_text_def announce_tool_def)

lemma dispatch_results:
  "tool_results (fst (dispatch_event hex ev st)) =
     (case ev of ToolResultLlm i c e \<Rightarrow> {(i, sanitize_tool_result_content c (ss_tool_id_to_name st i), e)} | _ \<Rightarrow> {})"
  by (cases ev) (simp_all add: dispatch_event_def handler_defs yield_from_simps no_results names_frame case_prod_beta,
      simp_all add: tool_results_def)

lemma feed_results:
  "(i, c, e) \<in> tool_results (fst (feed_events hex evs st)) \<Longrightarrow>
     \<exists>content nm. ToolResultLlm i content e \<in> set evs \<and> c = sanitize_tool_result_content content nm \<and>
       (\<forall>name. nm = Some name \<longrightarrow> ss_tool_id_to_name st i = Some name \<or> (\<exists>inp. ToolUseLlm name i inp \<in> set evs))"
proof (induction evs arbitrary: st)
  case Nil
  then show ?case by (simp add: tool_results_def)
next
  case (Cons ev evs)
  let ?st = "note_result ev st"
  from Cons.prems consider
      "(i, c, e) \<in> tool_results (fst (dispatch_event hex ev ?st))"
    | "(i, c, e) \<in> tool_results (fst (feed_events hex evs (snd (dispatch_event hex ev ?st))))"
    by (auto simp: case_prod_beta)
  then show ?case
  proof cases
    case 1
    then show ?thesis by (auto simp: dispatch_results split: llm_event.splits)
  next
    case 2
    from Cons.IH [OF this] show ?thesis
      by (auto simp: dispatch_names split: llm_event.splits if_splits) blast+
  qed
qed

lemma closing_results: "tool_results (fst (close_open_blocks st)) = {}"
  by (simp add: close_open_blocks_def yield_from_simps no_results)

lemma run_event_results [simp]:
  "tool_results (RunStarted r # out) = tool_results out" "tool_results [RunError r m c] = {}"
  "tool_results [terminal_event ud ok mm nm r st] = {}" "tool_results [] = {}"
  by (auto simp: tool_results_def terminal_event_def split: if_splits)

lemma process_results:
  assumes "\<not> ss_consumed st"
  shows "tool_results (fst (process_stream ud ok mm nm hex run_id evs fin st)) =
     tool_results (fst (feed_events hex evs (reset_result st)))"
  using assms
  by (cases fin) (simp_all add: process_stream_def process_events_def yield_from_simps case_prod_beta closing_results)

lemma stream_protocol:
  assumes "well_ended evs fin"
  shows "\<exists>p. follows (turn_output ud ok mm nm hex run_id b evs fin) proto_init = Some p \<and>
     (p = proto_done \<or> (\<exists>name. fin = OtherError name))"
proof -
  let ?st = "reset_result (stream_init b)"
  let ?r = "process_events hex evs fin ?st"
  have u: "\<not> ss_consumed (stream_init b)" by (simp add: stream_init_def)
  have r: "stream_inv (snd ?r)" "follows (fst ?r) (proto_of ?st) = Some (proto_of (snd ?r))"
    using sound_process_events [of "\<lambda>_. True" hex evs fin] reset_init(1) [of b] unfolding sound_when_def by blast+
  have start: "proto_step (RunStarted run_id) proto_init = Some (proto_of ?st)"
    by (simp add: reset_init)
  have last_ev: "all_closed p \<Longrightarrow> proto_step (terminal_event ud ok mm nm run_id st) p = Some proto_done" for p st
    by (simp add: terminal_event_def)
  show ?thesis
  proof (cases fin)
    case Exhausted
    with assms have "all_closed (proto_of (snd ?r))"
      using process_events_closed [of evs ?st hex] reset_init by simp
    with r u start Exhausted show ?thesis
      by (simp add: turn_output_def process_stream_def case_prod_beta follows_append last_ev)
  next
    case (InfraError name)
    have "follows (fst (close_open_blocks (snd ?r))) (proto_of (snd ?r)) =
        Some (proto_of (snd (close_open_blocks (snd ?r))))"
      using sound_handlers(7) [of "\<lambda>_. True"] r(1) unfolding sound_when_def by blast
    with r u start InfraError close_effect [OF r(1)] show ?thesis
      by (simp add: turn_output_def process_stream_def case_prod_beta follows_append)
  next
    case (OtherError name)
    with r u start show ?thesis
      by (simp add: turn_output_def process_stream_def case_prod_beta)
  qed
qed


text \<open>A turn with a tool call that the driver never ended, cut off by the driver.\<close>

definition sample_turn :: "llm_event list" where
  "sample_turn =
    [ThinkingLlm (ul ''hm''), TextLlm (ul ''let me '') , TextLlm (ul ''look''), ToolUseLlm (ul ''Grep'') (ul ''t1'') [],
     ToolUseDeltaLlm (ul ''t1'') (ul ''{}''), ToolResultLlm (ul ''t1'') (ul ''a.py'') False]"


text \<open>
  What the hypothesis excludes: text after the result is opened and never closed, and the turn is
  reported finished over it.
\<close>

lemma text_after_result_stays_open:
  "turn_output ud ok mm nm hex run_id b
      [ResultLlm \<lparr>lr_is_error = False, lr_duration_ms = JInt 0, lr_error_text = None, lr_session_id = None,
         lr_worker_error = None\<rparr>, TextLlm t] Exhausted =
   [RunStarted run_id, TextStart (mint_text_block_id hex 0), TextDelta (mint_text_block_id hex 0) t,
    RunFinished run_id]"
  by (simp add: turn_output_def process_stream_def process_events_def yield_from_def dispatch_event_def handle_result_def
      handle_text_def emit_text_def close_reasoning_if_open_def close_text_if_open_def synth_orphan_tool_ends_def
      stream_init_def reset_result_def note_result_def first_open_def state_machine_init_def terminal_event_def Let_def)

text \<open>
  C37: nothing the model says is lost, doubled or reordered on its way to the adapters, whatever
  happens around it and however the stream ends: the text deltas concatenate to the model's text, the
  argument deltas of a tool call to its arguments, the reasoning deltas to the model's reasoning if
  intermediate output is shown and to nothing if it is not. Text is delivered in both settings.
\<close>

theorem stream_delivers_all_text:
  "text_out (turn_output ud ok mm nm hex run_id b evs fin) = text_in evs \<and>
   reasoning_out (turn_output ud ok mm nm hex run_id b evs fin) = (if b then reasoning_in evs else []) \<and>
   args_out i (turn_output ud ok mm nm hex run_id b evs fin) = args_in i evs"
proof -
  have c: "text_out (fst (close_open_blocks st)) = []" "reasoning_out (fst (close_open_blocks st)) = []"
    "args_out i (fst (close_open_blocks st)) = []" for st
    by (simp_all add: close_open_blocks_def yield_from_simps closing_delivers_nothing)
  have r: "text_out (RunStarted run_id # xs) = text_out xs" "reasoning_out (RunStarted run_id # xs) = reasoning_out xs"
    "args_out i (RunStarted run_id # xs) = args_out i xs" for xs
    by (simp_all add: delivered_defs)
  have t: "text_out [terminal_event ud ok mm nm run_id st] = []" "reasoning_out [terminal_event ud ok mm nm run_id st] = []"
    "args_out i [terminal_event ud ok mm nm run_id st] = []" "text_out [RunError run_id m d] = []"
    "reasoning_out [RunError run_id m d] = []" "args_out i [RunError run_id m d] = []"
    "text_out [] = []" "reasoning_out [] = []" "args_out i [] = []" for st m d
    by (simp_all add: delivered_defs terminal_event_def)
  have s: "ss_show_intermediate (reset_result (stream_init b)) = b" "\<not> ss_consumed (stream_init b)"
    by (simp_all add: reset_result_def stream_init_def)
  show ?thesis
    unfolding turn_output_def
    by (cases fin; simp add: process_stream_def process_events_def yield_from_simps case_prod_beta s c r t feed_delivers)
qed

lemma tool_result_mem: "ToolCallResult i c e \<in> set out \<longleftrightarrow> (i, c, e) \<in> tool_results out"
  by (simp add: tool_results_def)

lemma init_unconsumed: "\<not> ss_consumed (stream_init b)"
  by (simp add: stream_init_def)

definition valid_event :: "llm_event \<Rightarrow> bool" where
  "valid_event ev \<longleftrightarrow> (case ev of ToolResultLlm _ content _ \<Rightarrow> valid_text content | _ \<Rightarrow> True)"

text \<open>
  C38: what a tool result carries on the bus is at most 64 KiB of UTF-8 and, unless the call was
  announced under one of the allowed tool names, is the placeholder; for an allowed tool it is the
  tool's output or a beginning of it, cut between two characters and marked.
\<close>

theorem tool_results_redacted:
  assumes "ToolCallResult i c e \<in> set (turn_output ud ok mm nm hex run_id b evs fin)"
    "list_all valid_event evs"
  shows "length (utf8_encode c) \<le> max_content_bytes \<and>
    (c = redacted_placeholder \<or>
     (\<exists>name inp content. ToolUseLlm name i inp \<in> set evs \<and> ulower name \<in> set non_sensitive_tool_names \<and>
        ToolResultLlm i content e \<in> set evs \<and>
        (c = content \<or> (\<exists>k. c = map utf8_replace (take k content) @ truncated_sentinel))))"
proof -
  from assms(1) have "(i, c, e) \<in> tool_results (fst (feed_events hex evs (reset_result (stream_init b))))"
    by (simp only: turn_output_def tool_result_mem process_results [OF init_unconsumed])
  from feed_results [OF this] obtain content name where r: "ToolResultLlm i content e \<in> set evs"
    "c = sanitize_tool_result_content content name"
    "\<forall>n. name = Some n \<longrightarrow> (\<exists>inp. ToolUseLlm n i inp \<in> set evs)"
    by (auto simp: reset_result_def stream_init_def)
  from r(1) assms(2) have "valid_text content" by (auto simp: list_all_iff valid_event_def)
  with r sanitize_cases [of content name] sanitize_bytes [of content name] show ?thesis by blast
qed

theorem tool_results_redacted_witness:
  "length (utf8_encode (ul ''a.py'')) \<le> max_content_bytes \<and>
    (ul ''a.py'' = redacted_placeholder \<or>
     (\<exists>name inp content. ToolUseLlm name (ul ''t1'') inp \<in> set sample_turn \<and> ulower name \<in> set non_sensitive_tool_names \<and>
        ToolResultLlm (ul ''t1'') content False \<in> set sample_turn \<and>
        (ul ''a.py'' = content \<or> (\<exists>k. ul ''a.py'' = map utf8_replace (take k content) @ truncated_sentinel))))"
proof (rule tool_results_redacted)
  have "(ul ''t1'', sanitize_tool_result_content (ul ''a.py'') (Some (ul ''Grep'')), False) \<in>
      tool_results (fst (feed_events (\<lambda>n. [n]) sample_turn (reset_result (stream_init True))))"
    by (simp add: sample_turn_def case_prod_beta dispatch_results dispatch_names note_result_frame)
  moreover have "sanitize_tool_result_content (ul ''a.py'') (Some (ul ''Grep'')) = ul ''a.py''"
    by (simp add: sanitize_tool_result_content_def ulower_def non_sensitive_tool_names_def utf8_char_def
        max_content_bytes_def)
  ultimately show "ToolCallResult (ul ''t1'') (ul ''a.py'') False
      \<in> set (turn_output ascii_db (\<lambda>_. True) None None (\<lambda>n. [n]) (ul ''r1'') True sample_turn Exhausted)"
    by (simp only: turn_output_def tool_result_mem process_results [OF init_unconsumed])
qed (simp add: sample_turn_def valid_event_def)

end
