(* ===== verification/Cli_Parser.thy ===== *)
theory Cli_Parser
  imports Stream_Processor
begin

text \<open>
  The agent subprocess's output: the parser of its NDJSON lines (core/cli/cli_streaming_parser.py) and
  the iterator that reads them (core/cli/protocol/cli_streaming.py), up to the processor they feed.

  \<open>json.loads\<close> is the argument \<open>loads\<close>; \<open>None\<close> is \<open>JSONDecodeError\<close>. A value's
  methods fail as Python's do; where the code hands a value of a type its event class does not declare on
  to its consumers, the model stops with \<open>Ill_typed\<close>. A turn is given by what its reads return;
  after the last of them the pipe is at its end.
\<close>

subsection \<open>JSON values as Python objects\<close>

datatype py_exn = AttributeError | TypeError | KeyError | ValidationError | UnicodeDecodeError | Ill_typed

definition exn_name :: "py_exn \<Rightarrow> string" where
  "exn_name e = (case e of AttributeError \<Rightarrow> ''AttributeError'' | TypeError \<Rightarrow> ''TypeError''
     | KeyError \<Rightarrow> ''KeyError'' | ValidationError \<Rightarrow> ''ValidationError''
     | UnicodeDecodeError \<Rightarrow> ''UnicodeDecodeError'' | Ill_typed \<Rightarrow> ''Ill_typed'')"

text \<open>Membership in \<open>_STREAM_INFRA_ERRORS\<close>; the last two are \<open>ValueError\<close>s.\<close>

definition is_stream_infra_error :: "py_exn \<Rightarrow> bool" where
  "is_stream_infra_error e \<longleftrightarrow> e \<in> {TypeError, KeyError, ValidationError, UnicodeDecodeError}"

definition and_then :: "'e + 'a \<Rightarrow> ('a \<Rightarrow> 'e + 'b) \<Rightarrow> 'e + 'b" where
  "and_then r f = (case r of Inl e \<Rightarrow> Inl e | Inr x \<Rightarrow> f x)"

definition jget :: "json \<Rightarrow> string \<Rightarrow> json \<Rightarrow> py_exn + json" where
  "jget j key dflt =
     (case j of JObj d \<Rightarrow> Inr (case map_of d (ul key) of Some v \<Rightarrow> v | None \<Rightarrow> dflt) | _ \<Rightarrow> Inl AttributeError)"

definition jstr :: "json \<Rightarrow> py_exn + ustring" where
  "jstr j = (case j of JStr s \<Rightarrow> Inr s | _ \<Rightarrow> Inl Ill_typed)"

definition jget_str :: "json \<Rightarrow> string \<Rightarrow> py_exn + ustring" where
  "jget_str j key = and_then (jget j key (JStr [])) jstr"

definition truthy :: "json \<Rightarrow> bool" where
  "truthy j = (case j of JNull \<Rightarrow> False | JBool b \<Rightarrow> b | JInt n \<Rightarrow> n \<noteq> 0
     | JFloat s \<Rightarrow> s \<noteq> ''0.0'' \<and> s \<noteq> ''-0.0'' | JStr s \<Rightarrow> s \<noteq> [] | JArr xs \<Rightarrow> xs \<noteq> [] | JObj d \<Rightarrow> d \<noteq> [])"

definition jstr_or_none :: "json \<Rightarrow> py_exn + ustring option" where
  "jstr_or_none j = (if truthy j then and_then (jstr j) (\<lambda>s. Inr (Some s)) else Inr None)"

definition jiter :: "json \<Rightarrow> py_exn + json list" where
  "jiter j = (case j of JArr xs \<Rightarrow> Inr xs | JStr s \<Rightarrow> Inr (map (\<lambda>c. JStr [c]) s)
     | JObj d \<Rightarrow> Inr (map (\<lambda>p. JStr (fst p)) d) | _ \<Rightarrow> Inl TypeError)"

text \<open>\<open>isinstance(idx, int)\<close>: booleans are integers.\<close>

definition as_index :: "json \<Rightarrow> int option" where
  "as_index j = (case j of JInt n \<Rightarrow> Some n | JBool b \<Rightarrow> Some (if b then 1 else 0) | _ \<Rightarrow> None)"

fun nat_digits :: "nat \<Rightarrow> ustring" where
  "nat_digits n = (if n < 10 then [48 + n] else nat_digits (n div 10) @ [48 + n mod 10])"

definition py_str :: "json \<Rightarrow> py_exn + ustring" where
  "py_str j = (case j of JStr s \<Rightarrow> Inr s | JNull \<Rightarrow> Inr (ul ''None'')
     | JBool b \<Rightarrow> Inr (if b then ul ''True'' else ul ''False'')
     | JInt n \<Rightarrow> Inr ((if n < 0 then [45] else []) @ nat_digits (nat (abs n)))
     | JFloat s \<Rightarrow> Inr (ul s) | _ \<Rightarrow> Inl Ill_typed)"

subsection \<open>The parser\<close>

record cli_parser =
  cp_session_id :: "ustring option"
  cp_error :: "ustring option"
  cp_had_text_delta :: bool
  cp_done :: bool
  cp_pending :: "llm_event list"
  cp_sm_dedup :: "(ustring, unit) state_machine"
  cp_sm_tool_blocks :: "(int, ustring) state_machine"
  cp_sm_thinking :: "(int, int) state_machine"

definition cli_parser_init :: cli_parser where
  "cli_parser_init = \<lparr>cp_session_id = None, cp_error = None, cp_had_text_delta = False, cp_done = False,
     cp_pending = [], cp_sm_dedup = state_machine_init, cp_sm_tool_blocks = state_machine_init,
     cp_sm_thinking = state_machine_init\<rparr>"

type_synonym line_handler = "json \<Rightarrow> cli_parser \<Rightarrow> (py_exn + llm_event list) \<times> cli_parser"

definition handle_system_init :: line_handler where
  "handle_system_init data p =
     (case and_then (jget data ''session_id'' (JStr [])) jstr_or_none of
        Inl e \<Rightarrow> (Inl e, p)
      | Inr sid \<Rightarrow> (Inr [], p\<lparr>cp_session_id := sid\<rparr>))"

definition message_blocks :: "json \<Rightarrow> py_exn + json list" where
  "message_blocks data =
     and_then (jget data ''message'' (JObj [])) (\<lambda>m. and_then (jget m ''content'' (JArr [])) jiter)"

definition tool_use_event :: "json \<Rightarrow> ustring \<Rightarrow> py_exn + llm_event" where
  "tool_use_event b tool_id =
     and_then (jget_str b ''name'') (\<lambda>name. and_then (jget b ''input'' (JObj []))
       (\<lambda>inp. case inp of JObj d \<Rightarrow> Inr (ToolUseLlm name tool_id d) | _ \<Rightarrow> Inl Ill_typed))"

fun assistant_blocks ::
    "json list \<Rightarrow> (ustring, unit) state_machine \<Rightarrow> (py_exn + llm_event list) \<times> (ustring, unit) state_machine" where
  "assistant_blocks [] sm = (Inr [], sm)"
| "assistant_blocks (b # bs) sm =
     (case jget b ''type'' JNull of
        Inl e \<Rightarrow> (Inl e, sm)
      | Inr ty \<Rightarrow>
          if ty \<noteq> JStr (ul ''tool_use'') then assistant_blocks bs sm
          else (case jget_str b ''id'' of
                  Inl e \<Rightarrow> (Inl e, sm)
                | Inr tool_id \<Rightarrow>
                    (let (fresh, sm1) = (if tool_id \<noteq> [] then mark_seen tool_id sm else (True, sm))
                     in if \<not> fresh then assistant_blocks bs sm1
                        else case tool_use_event b tool_id of
                               Inl e \<Rightarrow> (Inl e, sm1)
                             | Inr ev \<Rightarrow>
                                 (let (r, sm2) = assistant_blocks bs sm1
                                  in (and_then r (\<lambda>evs. Inr (ev # evs)), sm2)))))"

definition handle_assistant :: line_handler where
  "handle_assistant data p =
     (case message_blocks data of
        Inl e \<Rightarrow> (Inl e, p)
      | Inr bs \<Rightarrow> (let (r, sm) = assistant_blocks bs (cp_sm_dedup p) in (r, p\<lparr>cp_sm_dedup := sm\<rparr>)))"

definition handle_content_block_start :: line_handler where
  "handle_content_block_start ev p =
     (case and_then (jget ev ''content_block'' (JObj [])) (\<lambda>cb. and_then (jget cb ''type'' JNull)
             (\<lambda>ty. and_then (jget ev ''index'' JNull) (\<lambda>idx. Inr (cb, ty, idx)))) of
        Inl e \<Rightarrow> (Inl e, p)
      | Inr (cb, ty, idx) \<Rightarrow>
          if ty = JStr (ul ''thinking'') then
            (Inr [], case as_index idx of Some n \<Rightarrow> p\<lparr>cp_sm_thinking := sm_open n n (cp_sm_thinking p)\<rparr> | None \<Rightarrow> p)
          else if ty = JStr (ul ''tool_use'') then
            (case jget_str cb ''id'' of
               Inl e \<Rightarrow> (Inl e, p)
             | Inr tool_id \<Rightarrow>
                 (let p1 = (case as_index idx of
                              Some n \<Rightarrow> if tool_id \<noteq> [] then p\<lparr>cp_sm_tool_blocks := sm_open n tool_id (cp_sm_tool_blocks p)\<rparr> else p
                            | None \<Rightarrow> p);
                      (fresh, sm) = mark_seen tool_id (cp_sm_dedup p1)
                  in if tool_id \<noteq> [] \<and> fresh
                     then (and_then (jget_str cb ''name'') (\<lambda>name. Inr [ToolUseLlm name tool_id []]),
                           p1\<lparr>cp_sm_dedup := sm\<rparr>)
                     else (Inr [], p1)))
          else (Inr [], p))"

definition thinking_events :: "cli_parser \<Rightarrow> int option \<Rightarrow> ustring \<Rightarrow> llm_event list" where
  "thinking_events p idx t =
     (case idx of Some n \<Rightarrow> if sm_is_open (cp_sm_thinking p) n \<and> t \<noteq> [] then [ThinkingLlm t] else [] | None \<Rightarrow> [])"

definition tool_delta_events :: "cli_parser \<Rightarrow> int option \<Rightarrow> ustring \<Rightarrow> llm_event list" where
  "tool_delta_events p idx d =
     (case idx of
        Some n \<Rightarrow> (case sm_get (cp_sm_tool_blocks p) n of
                     Some tool_id \<Rightarrow> if d \<noteq> [] then [ToolUseDeltaLlm tool_id d] else []
                   | None \<Rightarrow> [])
      | None \<Rightarrow> [])"

definition handle_content_block_delta :: line_handler where
  "handle_content_block_delta ev p =
     (case and_then (jget ev ''delta'' (JObj [])) (\<lambda>delta. and_then (jget delta ''type'' (JStr []))
             (\<lambda>ty. and_then (jget ev ''index'' JNull) (\<lambda>idx. Inr (delta, ty, as_index idx)))) of
        Inl e \<Rightarrow> (Inl e, p)
      | Inr (delta, ty, idx) \<Rightarrow>
          if ty = JStr (ul ''thinking_delta'') then
            (and_then (jget_str delta ''thinking'') (\<lambda>t. Inr (thinking_events p idx t)), p)
          else if ty = JStr (ul ''signature_delta'') then (Inr [], p)
          else if ty = JStr (ul ''text_delta'') then
            (case jget_str delta ''text'' of
               Inl e \<Rightarrow> (Inl e, p)
             | Inr t \<Rightarrow> if t \<noteq> [] then (Inr [TextLlm t], p\<lparr>cp_had_text_delta := True\<rparr>) else (Inr [], p))
          else if ty = JStr (ul ''input_json_delta'') then
            (and_then (jget_str delta ''partial_json'') (\<lambda>d. Inr (tool_delta_events p idx d)), p)
          else (Inr [], p))"

definition handle_content_block_stop :: line_handler where
  "handle_content_block_stop ev p =
     (case jget ev ''index'' JNull of
        Inl e \<Rightarrow> (Inl e, p)
      | Inr idx \<Rightarrow>
          (case as_index idx of
             None \<Rightarrow> (Inr [], p)
           | Some n \<Rightarrow>
               (let (tool_id, sm) = sm_close n (cp_sm_tool_blocks p)
                in (Inr (case tool_id of Some i \<Rightarrow> [ToolUseEndLlm i] | None \<Rightarrow> []),
                    p\<lparr>cp_sm_tool_blocks := sm,
                      cp_sm_thinking := (if sm_is_open (cp_sm_thinking p) n
                                         then snd (sm_close n (cp_sm_thinking p)) else cp_sm_thinking p)\<rparr>))))"

definition handle_stream_event :: line_handler where
  "handle_stream_event data p =
     (case and_then (jget data ''event'' data) (\<lambda>ev. and_then (jget ev ''type'' (JStr [])) (\<lambda>ty. Inr (ev, ty))) of
        Inl e \<Rightarrow> (Inl e, p)
      | Inr (ev, ty) \<Rightarrow>
          if ty = JStr (ul ''content_block_start'') then handle_content_block_start ev p
          else if ty = JStr (ul ''content_block_delta'') then handle_content_block_delta ev p
          else if ty = JStr (ul ''content_block_stop'') then handle_content_block_stop ev p
          else (Inr [], p))"

text \<open>A list of typed blocks becomes one text; blocks that are no text leave their type.\<close>

fun content_parts :: "json list \<Rightarrow> py_exn + ustring" where
  "content_parts [] = Inr []"
| "content_parts (blk # bs) =
     and_then
       (case blk of
          JObj _ \<Rightarrow>
            and_then (jget blk ''type'' JNull) (\<lambda>ty.
              if ty = JStr (ul ''text'') then and_then (jget blk ''text'' (JStr [])) py_str
              else and_then (jget blk ''type'' (JStr (ul ''?''))) (\<lambda>t.
                     and_then (py_str t) (\<lambda>s. Inr (ul ''['' @ s @ ul '']''))))
        | _ \<Rightarrow> Inr [])
       (\<lambda>part. and_then (content_parts bs) (\<lambda>rest. Inr (part @ rest)))"

fun tool_result_blocks :: "json list \<Rightarrow> py_exn + llm_event list" where
  "tool_result_blocks [] = Inr []"
| "tool_result_blocks (b # bs) =
     and_then (jget b ''type'' JNull) (\<lambda>ty.
       if ty \<noteq> JStr (ul ''tool_result'') then tool_result_blocks bs
       else and_then (jget b ''content'' (JStr [])) (\<lambda>content.
              and_then (case content of JArr blks \<Rightarrow> content_parts blks | _ \<Rightarrow> py_str content) (\<lambda>txt.
              and_then (jget_str b ''tool_use_id'') (\<lambda>i.
              and_then (jget b ''is_error'' (JBool False)) (\<lambda>err.
              and_then (tool_result_blocks bs) (\<lambda>evs. Inr (ToolResultLlm i txt (truthy err) # evs)))))))"

definition handle_user_tool_result :: line_handler where
  "handle_user_tool_result data p = (and_then (message_blocks data) tool_result_blocks, p)"

text \<open>\<open>errors[0] if errors else result or subtype or "Unknown streaming error"\<close>\<close>

definition jfirst :: "json \<Rightarrow> py_exn + json" where
  "jfirst j = (case j of JArr (x # _) \<Rightarrow> Inr x | JStr (c # _) \<Rightarrow> Inr (JStr [c]) | JObj _ \<Rightarrow> Inl KeyError | _ \<Rightarrow> Inl TypeError)"

definition error_value :: "json \<Rightarrow> py_exn + json" where
  "error_value data =
     and_then (jget data ''errors'' (JArr [])) (\<lambda>errors.
       if truthy errors then jfirst errors
       else and_then (jget data ''result'' JNull) (\<lambda>res. and_then (jget data ''subtype'' (JStr [])) (\<lambda>sub.
              Inr (if truthy res then res else if truthy sub then sub else JStr (ul ''Unknown streaming error'')))))"

text \<open>The log call slices \<open>data.get("result") or ""\<close>.\<close>

definition sliceable :: "json \<Rightarrow> py_exn + unit" where
  "sliceable j = (if \<not> truthy j then Inr () else
     case j of JStr _ \<Rightarrow> Inr () | JArr _ \<Rightarrow> Inr () | JObj _ \<Rightarrow> Inl KeyError | _ \<Rightarrow> Inl TypeError)"

definition error_text_of :: "json \<Rightarrow> py_exn + ustring option" where
  "error_text_of j = (case j of JNull \<Rightarrow> Inr None | JStr s \<Rightarrow> Inr (Some s) | _ \<Rightarrow> Inl Ill_typed)"

definition result_error :: "json \<Rightarrow> py_exn + ustring option" where
  "result_error data =
     and_then (error_value data) (\<lambda>v. and_then (error_text_of v) (\<lambda>err.
       and_then (jget data ''result'' JNull) (\<lambda>res. and_then (sliceable res) (\<lambda>_. Inr err))))"

definition result_event :: "bool \<Rightarrow> json \<Rightarrow> worker_error option \<Rightarrow> py_exn + llm_event list" where
  "result_event is_error data we =
     and_then (jget data ''duration_ms'' (JInt 0)) (\<lambda>ms.
     and_then (jget data ''session_id'' JNull) (\<lambda>sid. and_then (jstr_or_none sid) (\<lambda>sid.
       Inr [ResultLlm \<lparr>lr_is_error = is_error, lr_duration_ms = ms, lr_error_text = map_option we_message we,
                       lr_session_id = sid, lr_worker_error = we\<rparr>])))"

definition handle_result_line :: "unicode_db \<Rightarrow> (ustring \<Rightarrow> bool) \<Rightarrow> line_handler" where
  "handle_result_line ud netloc_ok data p0 =
     (case and_then (jget data ''session_id'' (JStr [])) jstr_or_none of
        Inl e \<Rightarrow> (Inl e, p0)
      | Inr sid \<Rightarrow>
          (let p = (case sid of Some s \<Rightarrow> p0\<lparr>cp_session_id := Some s\<rparr> | None \<Rightarrow> p0)
           in case and_then (jget data ''is_error'' (JBool False)) (\<lambda>e. and_then (jget data ''subtype'' (JStr []))
                     (\<lambda>s. Inr (truthy e, s))) of
                Inl e \<Rightarrow> (Inl e, p)
              | Inr (reported, subtype) \<Rightarrow>
                  if \<not> reported \<or> (subtype = JStr (ul ''success'') \<and> cp_had_text_delta p)
                  then (result_event False data None, p\<lparr>cp_done := True\<rparr>)
                  else (case result_error data of
                          Inl e \<Rightarrow> (Inl e, p)
                        | Inr err \<Rightarrow>
                            (let p1 = p\<lparr>cp_error := err, cp_done := True\<rparr>
                             in case jstr subtype of
                                  Inl e \<Rightarrow> (Inl e, p1)
                                | Inr sub \<Rightarrow>
                                    (case resolve_cli_worker_error ud netloc_ok sub (case err of Some t \<Rightarrow> t | None \<Rightarrow> []) of
                                       None \<Rightarrow> (Inl ValidationError, p1)
                                     | Some we \<Rightarrow> (result_event True data (Some we), p1))))))"

definition handle_json_decode_error :: "unicode_db \<Rightarrow> (ustring \<Rightarrow> bool) \<Rightarrow> ustring \<Rightarrow> cli_parser \<Rightarrow> py_exn option \<times> cli_parser" where
  "handle_json_decode_error ud netloc_ok line p =
     (if \<not> ustartswith (ul ''{'') (dropWhile (ud_space ud) line) then (None, p)
      else let msg = ul ''CLI emitted malformed JSON: JSONDecodeError''
           in case make_worker_error ud netloc_ok ''cli.parse'' msg (code_retryable ''cli.parse'') None of
                None \<Rightarrow> (Some ValidationError, p\<lparr>cp_done := True\<rparr>)
              | Some we \<Rightarrow>
                  (None, p\<lparr>cp_done := True,
                           cp_pending := cp_pending p @
                             [ResultLlm \<lparr>lr_is_error = True, lr_duration_ms = JInt 0, lr_error_text = Some msg,
                                lr_session_id = cp_session_id p, lr_worker_error = Some we\<rparr>]\<rparr>))"

definition run_handler :: "line_handler \<Rightarrow> json \<Rightarrow> cli_parser \<Rightarrow> py_exn option \<times> cli_parser" where
  "run_handler h data p =
     (case h data p of (Inl e, p1) \<Rightarrow> (Some e, p1) | (Inr evs, p1) \<Rightarrow> (None, p1\<lparr>cp_pending := cp_pending p1 @ evs\<rparr>))"

definition parse_line ::
    "unicode_db \<Rightarrow> (ustring \<Rightarrow> bool) \<Rightarrow> (ustring \<Rightarrow> json option) \<Rightarrow> ustring \<Rightarrow> cli_parser \<Rightarrow> py_exn option \<times> cli_parser" where
  "parse_line ud netloc_ok loads line p =
     (if cp_done p \<or> line = [] then (None, p)
      else case loads line of
             None \<Rightarrow> handle_json_decode_error ud netloc_ok line p
           | Some data \<Rightarrow>
               (case jget data ''type'' (JStr []) of
                  Inl e \<Rightarrow> (Some e, p)
                | Inr (JArr _) \<Rightarrow> (Some TypeError, p)
                | Inr (JObj _) \<Rightarrow> (Some TypeError, p)
                | Inr ty \<Rightarrow>
                    if ty = JStr (ul ''assistant'') then run_handler handle_assistant data p
                    else if ty = JStr (ul ''stream_event'') then run_handler handle_stream_event data p
                    else if ty = JStr (ul ''user'') then run_handler handle_user_tool_result data p
                    else if ty = JStr (ul ''result'') then run_handler (handle_result_line ud netloc_ok) data p
                    else if ty = JStr (ul ''system'') \<and> jget data ''subtype'' JNull = Inr (JStr (ul ''init''))
                    then run_handler handle_system_init data p
                    else (None, p)))"

subsection \<open>The iterator over the subprocess's output\<close>

datatype cli_read = Line ustring | Undecodable | Idle bool | Eof

record streaming_iterator =
  si_parser :: cli_parser
  si_done :: bool
  si_has_stdout :: bool
  si_idle_retries :: int
  si_max_idle_retries :: int
  si_resets :: nat
  si_entry_session :: "ustring option"

definition cleanup :: "streaming_iterator \<Rightarrow> streaming_iterator" where
  "cleanup it = it\<lparr>si_resets := (if si_done it then si_resets it else Suc (si_resets it)), si_done := True\<rparr>"

datatype next_result = Yield llm_event | StopIteration | Raise py_exn

definition stop_reading :: "ustring \<Rightarrow> streaming_iterator \<Rightarrow> streaming_iterator" where
  "stop_reading detail it = it\<lparr>si_parser := (si_parser it)\<lparr>cp_error := Some detail\<rparr>, si_done := True\<rparr>"

definition take_pending :: "streaming_iterator \<Rightarrow> (llm_event \<times> streaming_iterator) option" where
  "take_pending it =
     (case cp_pending (si_parser it) of
        [] \<Rightarrow> None
      | ev # evs \<Rightarrow> Some (ev, it\<lparr>si_parser := (si_parser it)\<lparr>cp_pending := evs\<rparr>\<rparr>))"

definition after_line :: "streaming_iterator \<Rightarrow> cli_parser \<Rightarrow> streaming_iterator" where
  "after_line it p = it\<lparr>si_parser := p,
     si_entry_session := (case cp_session_id p of Some (c # s) \<Rightarrow> Some (c # s) | _ \<Rightarrow> si_entry_session it),
     si_done := si_done it \<or> cp_done p\<rparr>"

text \<open>The reading loop; the text of \<open>parser.error\<close> names the process's exit, an argument.\<close>

fun read_loop ::
    "unicode_db \<Rightarrow> (ustring \<Rightarrow> bool) \<Rightarrow> (ustring \<Rightarrow> json option) \<Rightarrow> ustring \<Rightarrow> cli_read list \<Rightarrow> streaming_iterator \<Rightarrow>
     next_result \<times> streaming_iterator \<times> cli_read list" where
  "read_loop ud ok loads gone [] it = (StopIteration, stop_reading gone it, [])"
| "read_loop ud ok loads gone (Eof # rs) it = (StopIteration, stop_reading gone it, rs)"
| "read_loop ud ok loads gone (Idle alive # rs) it =
     (if \<not> alive then (StopIteration, stop_reading gone it, rs)
      else let it1 = it\<lparr>si_idle_retries := si_idle_retries it + 1\<rparr>
           in if si_max_idle_retries it1 \<le> si_idle_retries it1 then (StopIteration, cleanup it1, rs)
              else read_loop ud ok loads gone rs it1)"
| "read_loop ud ok loads gone (Undecodable # rs) it =
     (Raise UnicodeDecodeError, it\<lparr>si_idle_retries := 0\<rparr>, rs)"
| "read_loop ud ok loads gone (Line raw # rs) it =
     (let it1 = it\<lparr>si_idle_retries := 0\<rparr>; line = ustrip ud raw
      in if line = [] then read_loop ud ok loads gone rs it1
         else case parse_line ud ok loads line (si_parser it1) of
                (Some e, p) \<Rightarrow> (Raise e, it1\<lparr>si_parser := p\<rparr>, rs)
              | (None, p) \<Rightarrow>
                  (let it2 = after_line it1 p
                   in case take_pending it2 of
                        Some (ev, it3) \<Rightarrow> (Yield ev, it3, rs)
                      | None \<Rightarrow> read_loop ud ok loads gone rs it2))"

definition anext ::
    "unicode_db \<Rightarrow> (ustring \<Rightarrow> bool) \<Rightarrow> (ustring \<Rightarrow> json option) \<Rightarrow> ustring \<Rightarrow> streaming_iterator \<Rightarrow> cli_read list \<Rightarrow>
     next_result \<times> streaming_iterator \<times> cli_read list" where
  "anext ud ok loads gone it rs =
     (if si_done it \<or> cp_done (si_parser it) then (StopIteration, it\<lparr>si_done := True\<rparr>, rs)
      else case take_pending it of
             Some (ev, it1) \<Rightarrow> (Yield ev, it1, rs)
           | None \<Rightarrow>
               if \<not> si_has_stdout it then (StopIteration, it\<lparr>si_done := True\<rparr>, rs)
               else read_loop ud ok loads gone rs it)"

definition iterator_init :: "int \<Rightarrow> bool \<Rightarrow> streaming_iterator" where
  "iterator_init max_idle_retries has_stdout =
     \<lparr>si_parser = cli_parser_init, si_done = False, si_has_stdout = has_stdout, si_idle_retries = 0,
      si_max_idle_retries = max_idle_retries, si_resets = 0, si_entry_session = None\<rparr>"

lemma read_loop_decreases:
  "fst (read_loop ud ok loads gone rs it) = Yield ev \<Longrightarrow>
   length (snd (snd (read_loop ud ok loads gone rs it))) < length rs"
proof (induction ud ok loads gone rs it rule: read_loop.induct)
  case (3 ud ok loads gone alive rs it)
  then show ?case by (simp add: Let_def split: if_splits) 
next
  case (5 ud ok loads gone raw rs it)
  then show ?case by (auto simp: Let_def split: if_splits prod.splits option.splits intro!: less_SucI)
qed auto

lemma take_pending_length:
  "take_pending it = Some (ev, it') \<Longrightarrow>
   length (cp_pending (si_parser it')) < length (cp_pending (si_parser it))"
  by (auto simp: take_pending_def split: list.splits)

lemma anext_decreases:
  assumes "anext ud ok loads gone it rs = (Yield ev, it', rs')"
  shows "length rs' < length rs \<or> (rs' = rs \<and> length (cp_pending (si_parser it')) < length (cp_pending (si_parser it)))"
  using assms read_loop_decreases [of ud ok loads gone rs it ev] take_pending_length [of it ev it']
  by (auto simp: anext_def split: if_splits option.splits)

function drive ::
    "unicode_db \<Rightarrow> (ustring \<Rightarrow> bool) \<Rightarrow> (ustring \<Rightarrow> json option) \<Rightarrow> ustring \<Rightarrow> streaming_iterator \<Rightarrow> cli_read list \<Rightarrow>
     llm_event list \<times> stream_end" where
  "drive ud ok loads gone it rs =
     (case anext ud ok loads gone it rs of
        (Yield ev, it1, rs1) \<Rightarrow> (let (evs, fin) = drive ud ok loads gone it1 rs1 in (ev # evs, fin))
      | (StopIteration, _) \<Rightarrow> ([], Exhausted)
      | (Raise e, _) \<Rightarrow>
          ([], if is_stream_infra_error e then InfraError (exn_name e) else OtherError (exn_name e)))"
  by pat_completeness auto
termination
  by (relation "inv_image (less_than <*lex*> less_than)
        (\<lambda>(_, _, _, _, it, rs). (length rs, length (cp_pending (si_parser it))))")
     (auto dest: anext_decreases [OF sym])

declare drive.simps [simp del]

subsection \<open>What a turn's events are like\<close>

text \<open>
  Every tool call is announced once, its arguments and its end come after the announcement, and
  nothing follows the result.
\<close>

fun disciplined :: "ustring set \<Rightarrow> llm_event list \<Rightarrow> bool" where
  "disciplined seen [] = True"
| "disciplined seen (ToolUseLlm name i inp # evs) = ((i = [] \<or> i \<notin> seen) \<and> disciplined (insert i seen) evs)"
| "disciplined seen (ToolUseDeltaLlm i d # evs) = (i \<in> seen \<and> disciplined seen evs)"
| "disciplined seen (ToolUseEndLlm i # evs) = (i \<in> seen \<and> disciplined seen evs)"
| "disciplined seen (ResultLlm r # evs) = (evs = [])"
| "disciplined seen (ev # evs) = disciplined seen evs"

fun announced :: "llm_event list \<Rightarrow> ustring set" where
  "announced [] = {}"
| "announced (ToolUseLlm name i inp # evs) = insert i (announced evs)"
| "announced (ev # evs) = announced evs"

lemma is_result_simps [simp]:
  "is_result (ResultLlm r)" "\<not> is_result (TextLlm t)" "\<not> is_result (ThinkingLlm t)"
  "\<not> is_result (ToolUseLlm name i d)" "\<not> is_result (ToolUseDeltaLlm i u)" "\<not> is_result (ToolUseEndLlm i)"
  "\<not> is_result (ToolResultLlm i u e)"
  by (simp_all add: is_result_def)

lemma announced_append [simp]: "announced (xs @ ys) = announced xs \<union> announced ys"
  by (induction xs rule: announced.induct) auto

lemma disciplined_append:
  "\<not> list_ex is_result xs \<Longrightarrow> disciplined seen (xs @ ys) \<longleftrightarrow> disciplined seen xs \<and> disciplined (seen \<union> announced xs) ys"
  by (induction seen xs rule: disciplined.induct) (auto simp: insert_commute)

lemma disciplined_well_ended: "disciplined seen evs \<Longrightarrow> well_ended evs fin"
proof -
  have "disciplined seen evs \<Longrightarrow> list_ex is_result evs \<Longrightarrow> is_result (last evs)"
    by (induction seen evs rule: disciplined.induct) auto
  then show "disciplined seen evs \<Longrightarrow> well_ended evs fin"
    by (auto simp: well_ended_def split: stream_end.splits)
qed

lemma disciplined_mono_empty: "disciplined seen evs \<Longrightarrow> disciplined (insert [] seen) evs"
  by (induction seen evs rule: disciplined.induct) (auto simp: insert_commute)

text \<open>The parser's part: what it remembers covers what it has announced and what it may still end.\<close>

definition seen_ids :: "cli_parser \<Rightarrow> ustring set" where
  "seen_ids p = dedup_seen (cp_sm_dedup p)"

definition tracks_tools :: "cli_parser \<Rightarrow> bool" where
  "tracks_tools p \<longleftrightarrow> (\<forall>n i. sm_get (cp_sm_tool_blocks p) n = Some i \<longrightarrow> i \<in> seen_ids p)"

text \<open>What a handler that emits \<open>evs\<close> does to it.\<close>

definition lawful_step :: "cli_parser \<Rightarrow> llm_event list \<Rightarrow> cli_parser \<Rightarrow> bool" where
  "lawful_step p evs p' \<longleftrightarrow> (\<forall>seen. seen_ids p \<subseteq> seen \<and> seen \<subseteq> insert [] (seen_ids p) \<longrightarrow>
     disciplined seen evs \<and> seen_ids p' \<subseteq> seen \<union> announced evs \<and> seen \<union> announced evs \<subseteq> insert [] (seen_ids p')) \<and>
   tracks_tools p' \<and> cp_pending p' = cp_pending p \<and>
   (if cp_done p' then \<exists>r. evs = [ResultLlm r] else \<not> list_ex is_result evs)"

lemma and_then_Inr: "and_then r f = Inr y \<longleftrightarrow> (\<exists>x. r = Inr x \<and> f x = Inr y)"
  by (cases r) (auto simp: and_then_def)

lemma tool_use_event_shape: "tool_use_event b i = Inr ev \<Longrightarrow> \<exists>name d. ev = ToolUseLlm name i d"
proof -
  assume "tool_use_event b i = Inr ev"
  then obtain name inp where
    "(case inp of JObj d \<Rightarrow> Inr (ToolUseLlm name i d) | _ \<Rightarrow> Inl Ill_typed) = Inr ev"
    by (auto simp: tool_use_event_def and_then_Inr)
  then show ?thesis by (cases inp) auto
qed

lemma assistant_blocks_lawful:
  "assistant_blocks bs sm = (Inr evs, sm') \<Longrightarrow> dedup_seen sm \<subseteq> seen \<Longrightarrow> seen \<subseteq> insert [] (dedup_seen sm) \<Longrightarrow>
   disciplined seen evs \<and> dedup_seen sm' \<subseteq> seen \<union> announced evs \<and> seen \<union> announced evs \<subseteq> insert [] (dedup_seen sm') \<and>
   dedup_seen sm \<subseteq> dedup_seen sm' \<and> \<not> list_ex is_result evs"
proof (induction bs arbitrary: sm sm' seen evs)
  case Nil
  then show ?case by auto
next
  case (Cons b bs)
  obtain ty where ty: "jget b ''type'' JNull = Inr ty"
    using Cons.prems(1) by (auto split: sum.splits)
  show ?case
  proof (cases "ty = JStr (ul ''tool_use'')")
    case False
    with Cons ty show ?thesis by simp
  next
    case True
    then obtain i where i: "jget_str b ''id'' = Inr i"
      using Cons.prems(1) ty by (auto split: sum.splits)
    obtain fresh sm1 where m: "(if i \<noteq> [] then mark_seen i sm else (True, sm)) = (fresh, sm1)" by fastforce
    show ?thesis
    proof (cases fresh)
      case False
      with m have "sm1 = sm" by (auto simp: mark_seen_def split: if_splits)
      with False Cons True ty i m show ?thesis by simp
    next
      case f: True
      then obtain ev where ev: "tool_use_event b i = Inr ev"
        using Cons.prems(1) True ty i m by (auto split: sum.splits)
      obtain r sm2 where r: "assistant_blocks bs sm1 = (r, sm2)" by fastforce
      with f ev Cons.prems(1) True ty i m obtain evs2 where e: "r = Inr evs2" "evs = ev # evs2" "sm' = sm2"
        by (auto simp: and_then_Inr)
      have s: "dedup_seen sm1 = (if i = [] then dedup_seen sm else insert i (dedup_seen sm))" "i = [] \<or> i \<notin> dedup_seen sm"
        using m f by (auto simp: mark_seen_def split: if_splits)
      have "dedup_seen sm1 \<subseteq> insert i seen" "insert i seen \<subseteq> insert [] (dedup_seen sm1)"
        using s Cons.prems(2,3) by (auto split: if_splits)
      from Cons.IH [OF r [unfolded e(1)] this] obtain name d where
        ih: "disciplined (insert i seen) evs2" "dedup_seen sm2 \<subseteq> insert i seen \<union> announced evs2"
          "insert i seen \<union> announced evs2 \<subseteq> insert [] (dedup_seen sm2)" "dedup_seen sm1 \<subseteq> dedup_seen sm2"
          "\<not> list_ex is_result evs2" "ev = ToolUseLlm name i d"
        using tool_use_event_shape [OF ev] by blast
      have "i = [] \<or> i \<notin> seen" using s(2) Cons.prems(3) by auto
      with ih s e show ?thesis by (auto split: if_splits)
    qed
  qed
qed

lemma lawful_quiet:
  "\<lbrakk>seen_ids p' = seen_ids p; tracks_tools p'; cp_pending p' = cp_pending p; \<not> cp_done p'; \<not> list_ex is_result evs;
    announced evs = {}; \<And>seen. seen_ids p \<subseteq> seen \<Longrightarrow> disciplined seen evs\<rbrakk> \<Longrightarrow> lawful_step p evs p'"
  by (auto simp: lawful_step_def)

lemma lawful_assistant:
  assumes "handle_assistant data p = (Inr evs, p')" "tracks_tools p" "\<not> cp_done p"
  shows "lawful_step p evs p'"
proof -
  from assms(1) obtain bs where bs: "message_blocks data = Inr bs" by (auto simp: handle_assistant_def split: sum.splits)
  obtain r sm where r: "assistant_blocks bs (cp_sm_dedup p) = (r, sm)" by fastforce
  with assms(1) bs have e: "r = Inr evs" "p' = p\<lparr>cp_sm_dedup := sm\<rparr>" by (simp_all add: handle_assistant_def)
  note b = assistant_blocks_lawful [OF r [unfolded e(1)]]
  have "dedup_seen (cp_sm_dedup p) \<subseteq> dedup_seen sm" and n: "\<not> list_ex is_result evs"
    using b [OF order_refl subset_insertI] by blast+
  then have t: "tracks_tools p'" using assms(2) by (auto simp: e tracks_tools_def seen_ids_def)
  have "\<forall>seen. seen_ids p \<subseteq> seen \<and> seen \<subseteq> insert [] (seen_ids p) \<longrightarrow>
     disciplined seen evs \<and> seen_ids p' \<subseteq> seen \<union> announced evs \<and> seen \<union> announced evs \<subseteq> insert [] (seen_ids p')"
    unfolding e seen_ids_def using b by simp blast
  then show ?thesis
    unfolding lawful_step_def using t n assms(3) by (simp add: e)
qed

lemma lawful_start:
  assumes "handle_content_block_start ev p = (Inr evs, p')" "tracks_tools p" "\<not> cp_done p"
  shows "lawful_step p evs p'"
proof -
  obtain cb ty idx where c: "and_then (jget ev ''content_block'' (JObj [])) (\<lambda>cb. and_then (jget cb ''type'' JNull)
     (\<lambda>ty. and_then (jget ev ''index'' JNull) (\<lambda>idx. Inr (cb, ty, idx)))) = Inr (cb, ty, idx)"
    using assms(1) by (auto simp: handle_content_block_start_def split: sum.splits)
  consider "ty = JStr (ul ''thinking'')" | "ty \<noteq> JStr (ul ''thinking'')" "ty \<noteq> JStr (ul ''tool_use'')"
    | "ty \<noteq> JStr (ul ''thinking'')" "ty = JStr (ul ''tool_use'')" by blast
  then show ?thesis
  proof cases
    case 1
    with assms c show ?thesis
      by (auto simp: handle_content_block_start_def seen_ids_def tracks_tools_def intro!: lawful_quiet split: option.splits)
  next
    case 2
    with assms c show ?thesis
      by (auto simp: handle_content_block_start_def seen_ids_def intro!: lawful_quiet)
  next
    case 3
    then obtain i where i: "jget_str cb ''id'' = Inr i"
      using assms(1) c by (auto simp: handle_content_block_start_def split: sum.splits)
    define q where "q = (case as_index idx of
        Some n \<Rightarrow> if i \<noteq> [] then p\<lparr>cp_sm_tool_blocks := sm_open n i (cp_sm_tool_blocks p)\<rparr> else p | None \<Rightarrow> p)"
    have q: "seen_ids q = seen_ids p" "cp_pending q = cp_pending p" "\<not> cp_done q" "cp_sm_dedup q = cp_sm_dedup p"
      using assms(3) by (auto simp: q_def seen_ids_def split: option.splits)
    have tracked: "sm_get (cp_sm_tool_blocks p) n = Some j \<or> (j = i \<and> i \<noteq> [])"
      if "sm_get (cp_sm_tool_blocks q) n = Some j" for n j
      using that by (auto simp: q_def sm.get_opn split: option.splits if_splits)
    have run: "handle_content_block_start ev p =
        (if i \<noteq> [] \<and> i \<notin> seen_ids p
         then (and_then (jget_str cb ''name'') (\<lambda>name. Inr [ToolUseLlm name i []]),
               q\<lparr>cp_sm_dedup := snd (mark_seen i (cp_sm_dedup p))\<rparr>)
         else (Inr [], q))"
      using c 3 i q(4) unfolding handle_content_block_start_def q_def
      by (simp add: Let_def mark_seen_def seen_ids_def)
    show ?thesis
    proof (cases "i \<noteq> [] \<and> i \<notin> seen_ids p")
      case True
      with assms(1) run obtain name where
        e: "evs = [ToolUseLlm name i []]" "p' = q\<lparr>cp_sm_dedup := snd (mark_seen i (cp_sm_dedup p))\<rparr>"
        by (auto simp: and_then_Inr)
      have s: "seen_ids p' = insert i (seen_ids p)" using True by (simp add: e mark_seen_def seen_ids_def)
      have "tracks_tools p'"
        unfolding tracks_tools_def s using tracked assms(2) by (fastforce simp: e tracks_tools_def)
      with True q s show ?thesis
        by (auto simp: e lawful_step_def)
    next
      case False
      with assms(1) run have e: "evs = []" "p' = q" by (simp_all split: if_splits)
      have "tracks_tools p'" unfolding tracks_tools_def e
        using False q(1) tracked assms(2) by (fastforce simp: tracks_tools_def)
      with q show ?thesis by (auto simp: e intro!: lawful_quiet)
    qed
  qed
qed


lemma lawful_delta:
  assumes "handle_content_block_delta ev p = (Inr evs, p')" "tracks_tools p" "\<not> cp_done p"
  shows "lawful_step p evs p'"
proof -
  have frame: "seen_ids p' = seen_ids p \<and> tracks_tools p' \<and> cp_pending p' = cp_pending p \<and> \<not> cp_done p'"
    using assms by (auto simp: handle_content_block_delta_def tracks_tools_def seen_ids_def split: sum.splits if_splits prod.splits)
  have think: "thinking_events p idx t = [] \<or> thinking_events p idx t = [ThinkingLlm t]" for idx t
    by (simp add: thinking_events_def split: option.split)
  have args: "tool_delta_events p idx d = [] \<or> (\<exists>i. tool_delta_events p idx d = [ToolUseDeltaLlm i d] \<and> i \<in> seen_ids p)" for idx d
    using assms(2) by (simp add: tool_delta_events_def tracks_tools_def split: option.split)
  have evs: "evs = [] \<or> (\<exists>t. evs = [ThinkingLlm t]) \<or> (\<exists>t. evs = [TextLlm t]) \<or>
      (\<exists>i d. evs = [ToolUseDeltaLlm i d] \<and> i \<in> seen_ids p)"
    using assms(1) think args
    by (auto simp: handle_content_block_delta_def and_then_Inr split: sum.splits if_splits prod.splits) metis+
  from frame evs show ?thesis by (intro lawful_quiet) auto
qed

lemma lawful_stop:
  assumes "handle_content_block_stop ev p = (Inr evs, p')" "tracks_tools p" "\<not> cp_done p"
  shows "lawful_step p evs p'"
proof -
  obtain idx where idx: "jget ev ''index'' JNull = Inr idx"
    using assms(1) by (auto simp: handle_content_block_stop_def split: sum.splits)
  show ?thesis
  proof (cases "as_index idx")
    case None
    with assms idx show ?thesis by (auto simp: handle_content_block_stop_def intro!: lawful_quiet)
  next
    case (Some n)
    with assms(1) idx have e:
      "evs = (case fst (sm_close n (cp_sm_tool_blocks p)) of Some i \<Rightarrow> [ToolUseEndLlm i] | None \<Rightarrow> [])"
      "cp_sm_tool_blocks p' = snd (sm_close n (cp_sm_tool_blocks p))" "cp_sm_dedup p' = cp_sm_dedup p"
      "cp_pending p' = cp_pending p" "cp_done p' = cp_done p"
      by (auto simp: handle_content_block_stop_def case_prod_beta)
    have t: "tracks_tools p'"
      using assms(2) by (auto simp: tracks_tools_def e seen_ids_def sm.get_cls split: if_splits)
    have "evs = [] \<or> (\<exists>i. evs = [ToolUseEndLlm i] \<and> i \<in> seen_ids p)"
      using assms(2) by (auto simp: e(1) sm.cls_result tracks_tools_def split: option.splits)
    with t e assms(3) show ?thesis by (intro lawful_quiet) (auto simp: seen_ids_def)
  qed
qed

lemma lawful_stream_event:
  assumes "handle_stream_event data p = (Inr evs, p')" "tracks_tools p" "\<not> cp_done p"
  shows "lawful_step p evs p'"
  using assms lawful_start lawful_delta lawful_stop
  by (auto simp: handle_stream_event_def intro!: lawful_quiet split: sum.splits if_splits prod.splits)

lemma tool_result_blocks_shape:
  "tool_result_blocks bs = Inr evs \<Longrightarrow> list_all (\<lambda>ev. \<exists>i t e. ev = ToolResultLlm i t e) evs"
  by (induction bs arbitrary: evs) (auto simp: and_then_Inr split: if_splits)

lemma results_are_quiet:
  "list_all (\<lambda>ev. \<exists>i t e. ev = ToolResultLlm i t e) evs \<Longrightarrow>
   \<not> list_ex is_result evs \<and> announced evs = {} \<and> disciplined seen evs"
  by (induction evs) auto

lemma lawful_user:
  assumes "handle_user_tool_result data p = (Inr evs, p')" "tracks_tools p" "\<not> cp_done p"
  shows "lawful_step p evs p'"
proof -
  obtain bs where "tool_result_blocks bs = Inr evs" "p' = p"
    using assms(1) by (auto simp: handle_user_tool_result_def and_then_Inr)
  with results_are_quiet [OF tool_result_blocks_shape] assms show ?thesis by (intro lawful_quiet) auto
qed

lemma lawful_init:
  assumes "handle_system_init data p = (Inr evs, p')" "tracks_tools p" "\<not> cp_done p"
  shows "lawful_step p evs p'"
  using assms by (auto simp: handle_system_init_def tracks_tools_def seen_ids_def intro!: lawful_quiet split: sum.splits)

lemma result_event_shape: "result_event b data we = Inr evs \<Longrightarrow> \<exists>r. evs = [ResultLlm r]"
  by (auto simp: result_event_def and_then_Inr)

lemma lawful_final:
  "\<lbrakk>seen_ids p' = seen_ids p; tracks_tools p'; cp_pending p' = cp_pending p; cp_done p'\<rbrakk> \<Longrightarrow>
   lawful_step p [ResultLlm r] p'"
  by (auto simp: lawful_step_def)

lemma lawful_result:
  assumes "handle_result_line ud ok data p = (Inr evs, p')" "tracks_tools p" "\<not> cp_done p"
  shows "lawful_step p evs p'"
proof -
  have frame: "seen_ids p' = seen_ids p \<and> tracks_tools p' \<and> cp_pending p' = cp_pending p \<and> cp_done p'"
    using assms by (auto simp: handle_result_line_def Let_def tracks_tools_def seen_ids_def
        split: sum.splits if_splits prod.splits option.splits)
  have "\<exists>r. evs = [ResultLlm r]"
    using assms(1) by (auto simp: handle_result_line_def Let_def dest: result_event_shape
        split: sum.splits if_splits prod.splits option.splits)
  with frame show ?thesis using lawful_final by blast
qed

lemmas lawful_handlers = lawful_assistant lawful_stream_event lawful_user lawful_result lawful_init

text \<open>The same for a parsed line, whose events are what is pending.\<close>

definition parsed :: "cli_parser \<Rightarrow> cli_parser \<Rightarrow> bool" where
  "parsed p p' \<longleftrightarrow> (\<forall>seen. seen_ids p \<subseteq> seen \<and> seen \<subseteq> insert [] (seen_ids p) \<longrightarrow>
     disciplined seen (cp_pending p') \<and> seen_ids p' \<subseteq> seen \<union> announced (cp_pending p') \<and>
     seen \<union> announced (cp_pending p') \<subseteq> insert [] (seen_ids p')) \<and>
   tracks_tools p' \<and> (if cp_done p' then \<exists>r. cp_pending p' = [ResultLlm r] else \<not> list_ex is_result (cp_pending p'))"

lemma run_handler_parsed:
  assumes "run_handler h data p = (None, p')" "cp_pending p = []"
    "\<And>evs p'. h data p = (Inr evs, p') \<Longrightarrow> lawful_step p evs p'"
  shows "parsed p p'"
proof -
  obtain evs p1 where h: "h data p = (Inr evs, p1)" "p' = p1\<lparr>cp_pending := cp_pending p1 @ evs\<rparr>"
    using assms(1) by (auto simp: run_handler_def split: sum.splits prod.splits)
  from assms(3) [OF h(1)] assms(2) show ?thesis
    unfolding parsed_def lawful_step_def h(2) by (simp add: seen_ids_def tracks_tools_def)
qed

lemma parsed_refl: "\<lbrakk>tracks_tools p; \<not> cp_done p; cp_pending p = []\<rbrakk> \<Longrightarrow> parsed p p"
  by (simp add: parsed_def)

lemma decode_error_parsed:
  assumes "handle_json_decode_error ud ok line p = (None, p')" "tracks_tools p" "\<not> cp_done p" "cp_pending p = []"
  shows "parsed p p'"
proof (cases "p' = p")
  case True
  with assms(2-4) show ?thesis by (simp add: parsed_refl)
next
  case False
  with assms(1) obtain r where "p' = p\<lparr>cp_done := True, cp_pending := cp_pending p @ [ResultLlm r]\<rparr>"
    by (auto simp: handle_json_decode_error_def Let_def split: if_splits option.splits)
  with assms show ?thesis by (simp add: parsed_def seen_ids_def tracks_tools_def)
qed

lemma parse_line_parsed:
  assumes "parse_line ud ok loads line p = (None, p')" "tracks_tools p" "\<not> cp_done p" "cp_pending p = []"
  shows "parsed p p'"
proof (cases "line = [] \<or> loads line = None")
  case True
  with assms show ?thesis
    by (auto simp: parse_line_def intro: decode_error_parsed parsed_refl split: if_splits)
next
  case False
  then obtain data where d: "loads line = Some data" by auto
  obtain ty where ty: "jget data ''type'' (JStr []) = Inr ty"
    using assms(1,3) False d by (auto simp: parse_line_def split: sum.splits)
  have scalar: "\<not> (\<exists>xs. ty = JArr xs)" "\<not> (\<exists>d. ty = JObj d)"
    using assms(1,3) False d ty by (auto simp: parse_line_def)
  have run: "p' = p \<or> (\<exists>h \<in> {handle_assistant, handle_stream_event, handle_user_tool_result,
      handle_result_line ud ok, handle_system_init}. run_handler h data p = (None, p'))"
    using assms(1,3) False d ty scalar by (cases ty) (auto simp: parse_line_def split: if_splits)
  show ?thesis
  proof (cases "p' = p")
    case True
    with assms(2-4) show ?thesis by (simp add: parsed_refl)
  next
    case False
    with run obtain h where h: "run_handler h data p = (None, p')" and
      m: "h = handle_assistant \<or> h = handle_stream_event \<or> h = handle_user_tool_result \<or>
        h = handle_result_line ud ok \<or> h = handle_system_init" by blast
    show ?thesis
    proof (rule run_handler_parsed [OF h assms(4)])
      fix evs q assume "h data p = (Inr evs, q)"
      with m lawful_handlers [OF _ assms(2,3)] show "lawful_step p evs q" by blast
    qed
  qed
qed

text \<open>What holds of the iterator between two events.\<close>

definition drive_inv :: "ustring set \<Rightarrow> streaming_iterator \<Rightarrow> bool" where
  "drive_inv seen it \<longleftrightarrow> (let p = si_parser it in
     si_done it \<or> cp_done p \<or>
     (disciplined seen (cp_pending p) \<and> \<not> list_ex is_result (cp_pending p) \<and> tracks_tools p \<and>
      seen_ids p \<subseteq> seen \<union> announced (cp_pending p) \<and> seen \<union> announced (cp_pending p) \<subseteq> insert [] (seen_ids p)))"

definition stepped :: "ustring set \<Rightarrow> llm_event \<Rightarrow> streaming_iterator \<Rightarrow> bool" where
  "stepped seen ev it \<longleftrightarrow> disciplined seen [ev] \<and> drive_inv (seen \<union> announced [ev]) it \<and>
     (is_result ev \<longrightarrow> si_done it \<or> cp_done (si_parser it))"

lemma disciplined_Cons:
  "disciplined seen (ev # evs) \<longleftrightarrow> disciplined seen [ev] \<and>
     (if is_result ev then evs = [] else disciplined (seen \<union> announced [ev]) evs)"
  by (cases ev) auto

lemma read_loop_steps:
  "\<lbrakk>read_loop ud ok loads gone rs it = (Yield ev, it', rs'); cp_pending (si_parser it) = [];
    \<not> si_done it; \<not> cp_done (si_parser it); drive_inv seen it\<rbrakk> \<Longrightarrow> stepped seen ev it'"
proof (induction ud ok loads gone rs it rule: read_loop.induct)
  case (3 ud ok loads gone alive rs it)
  then show ?case
    by (auto simp: drive_inv_def Let_def split: if_splits)
next
  case (5 ud ok loads gone raw rs it)
  let ?line = "ustrip ud raw"
  let ?it = "it\<lparr>si_idle_retries := 0\<rparr>"
  show ?case
  proof (cases "?line = []")
    case True
    with 5 show ?thesis by (auto simp: drive_inv_def Let_def)
  next
    case False
    obtain r p where p: "parse_line ud ok loads ?line (si_parser it) = (r, p)" by fastforce
    with 5(3) False have r: "r = None" by (auto simp: Let_def split: option.splits)
    have i: "tracks_tools (si_parser it)" "seen_ids (si_parser it) \<subseteq> seen" "seen \<subseteq> insert [] (seen_ids (si_parser it))"
      using 5(4-7) by (auto simp: drive_inv_def Let_def)
    have pp: "parsed (si_parser it) p"
      using parse_line_parsed [OF p [unfolded r]] i 5(4,6) by simp
    let ?it2 = "after_line ?it p"
    have it2: "si_parser ?it2 = p" "si_done ?it2 \<longleftrightarrow> cp_done p" using 5(5) by (simp_all add: after_line_def)
    have d: "disciplined seen (cp_pending p)" "seen_ids p \<subseteq> seen \<union> announced (cp_pending p)"
      "seen \<union> announced (cp_pending p) \<subseteq> insert [] (seen_ids p)" "tracks_tools p"
      "if cp_done p then \<exists>r. cp_pending p = [ResultLlm r] else \<not> list_ex is_result (cp_pending p)"
      using pp i unfolding parsed_def by blast+
    show ?thesis
    proof (cases "cp_pending p")
      case Nil
      then have "take_pending ?it2 = None" by (simp add: take_pending_def it2)
      moreover have "\<not> cp_done p" using d(5) Nil by (auto split: if_splits)
      moreover have "drive_inv seen ?it2" using d Nil by (simp add: drive_inv_def Let_def it2)
      ultimately show ?thesis using 5(2) 5(3) False p r Nil it2 by (auto simp: Let_def)
    next
      case (Cons e evs)
      then have "take_pending ?it2 = Some (e, ?it2\<lparr>si_parser := p\<lparr>cp_pending := evs\<rparr>\<rparr>)"
        by (simp add: take_pending_def it2)
      with 5(3) False p r have e: "ev = e" "it' = ?it2\<lparr>si_parser := p\<lparr>cp_pending := evs\<rparr>\<rparr>"
        by (auto simp: Let_def)
      show ?thesis
        using d Cons unfolding e stepped_def disciplined_Cons [of seen e evs]
        by (cases "cp_done p"; cases e) (auto simp: drive_inv_def Let_def it2 seen_ids_def tracks_tools_def)
    qed
  qed
qed auto

lemma anext_steps:
  assumes "anext ud ok loads gone it rs = (Yield ev, it', rs')" "drive_inv seen it"
  shows "stepped seen ev it'"
proof (cases "cp_pending (si_parser it)")
  case Nil
  with assms show ?thesis
    by (auto simp: anext_def take_pending_def intro: read_loop_steps split: if_splits)
next
  case (Cons e evs)
  with assms have e: "ev = e" "it' = it\<lparr>si_parser := (si_parser it)\<lparr>cp_pending := evs\<rparr>\<rparr>" "\<not> si_done it" "\<not> cp_done (si_parser it)"
    by (auto simp: anext_def take_pending_def split: if_splits)
  have d: "disciplined seen (e # evs)" "seen_ids (si_parser it) \<subseteq> seen \<union> announced (e # evs)"
    "seen \<union> announced (e # evs) \<subseteq> insert [] (seen_ids (si_parser it))" "tracks_tools (si_parser it)"
    "\<not> list_ex is_result (e # evs)"
    using assms(2) e(3,4) Cons by (auto simp: drive_inv_def Let_def)
  show ?thesis
    using d unfolding e stepped_def disciplined_Cons [of seen e evs]
    by (cases e) (auto simp: drive_inv_def Let_def seen_ids_def tracks_tools_def)
qed

lemma drive_disciplined:
  "drive_inv seen it \<Longrightarrow> disciplined seen (fst (drive ud ok loads gone it rs))"
proof (induction ud ok loads gone it rs arbitrary: seen rule: drive.induct)
  case (1 ud ok loads gone it rs)
  obtain r it1 rs1 where a: "anext ud ok loads gone it rs = (r, it1, rs1)" by (metis prod_cases3)
  show ?case
  proof (cases r)
    case (Yield ev)
    have s: "stepped seen ev it1" using anext_steps [OF a [unfolded Yield] 1(2)] .
    have ih: "disciplined (seen \<union> announced [ev]) (fst (drive ud ok loads gone it1 rs1))"
      using 1(1) [OF a [symmetric] Yield refl] s by (auto simp: stepped_def)
    have "fst (drive ud ok loads gone it1 rs1) = []" if "is_result ev"
      using s that by (auto simp: stepped_def drive.simps [of ud ok loads gone it1] anext_def)
    with s ih show ?thesis
      by (simp add: drive.simps [of ud ok loads gone it] a Yield case_prod_beta stepped_def disciplined_Cons [of seen ev "fst _"])
  qed (simp_all add: drive.simps [of ud ok loads gone it] a)
qed


text \<open>
  C39: whatever the subprocess prints, the events of its turn name every tool call once before its
  arguments and its end, and nothing follows the result.
\<close>

theorem cli_turn_disciplined:
  "disciplined {} (fst (drive ud ok loads gone (iterator_init retries has_stdout) rs))"
  by (rule drive_disciplined)
    (simp add: drive_inv_def Let_def iterator_init_def cli_parser_init_def state_machine_init_def tracks_tools_def
      seen_ids_def sm_get_def)


text \<open>
  A line that is JSON but no object, as a bare number in debug output, ends the turn with an
  \<open>AttributeError\<close>, which the processor does not handle: the open text block and the run are never
  closed for the adapters.
\<close>

lemma bare_number_aborts_turn:
  assumes "loads (ul ''42'') = Some (JInt 42)" "\<not> ud_space ud 52" "\<not> ud_space ud 50" "0 < retries"
  shows "drive ud ok loads gone (iterator_init retries True) [Line (ul ''42'')] = ([], OtherError ''AttributeError'')"
    "turn_output ud ok mm nm hex run_id b [] (OtherError ''AttributeError'') = [RunStarted run_id]"
  using assms
  by (simp_all add: drive.simps anext_def iterator_init_def cli_parser_init_def take_pending_def ustrip_def Let_def
      parse_line_def jget_def is_stream_infra_error_def exn_name_def turn_output_def process_stream_def process_events_def
      yield_from_def stream_init_def reset_result_def)

end
