(* ===== verification/Sql_Table.thy ===== *)
theory Sql_Table
  imports Prelude
begin

text \<open>
  SQL tables as the stores use them: association lists keyed by the primary key, in insertion
  order. \<open>find_row\<close> is a SELECT of one row, \<open>update_rows\<close> an UPDATE,
  \<open>count_rows\<close> its row count, \<open>filter\<close> a DELETE and appending an INSERT; a
  unique column is one whose values distinguish the rows. The locale states what makes a
  row's state one-way: once reached, no operation of the store takes it back.
\<close>

definition update_rows :: "('k \<Rightarrow> 'v \<Rightarrow> bool) \<Rightarrow> ('v \<Rightarrow> 'v) \<Rightarrow> ('k, 'v) dict \<Rightarrow> ('k, 'v) dict" where
  "update_rows P f d = map (\<lambda>(k, v). (k, if P k v then f v else v)) d"

definition count_rows :: "('k \<Rightarrow> 'v \<Rightarrow> bool) \<Rightarrow> ('k, 'v) dict \<Rightarrow> nat" where
  "count_rows P d = length (filter (\<lambda>(k, v). P k v) d)"

definition find_row :: "('k \<Rightarrow> 'v \<Rightarrow> bool) \<Rightarrow> ('k, 'v) dict \<Rightarrow> ('k \<times> 'v) option" where
  "find_row P d = find (\<lambda>(k, v). P k v) d"

definition unique_on :: "('v \<Rightarrow> 'c) \<Rightarrow> ('k, 'v) dict \<Rightarrow> bool" where
  "unique_on col d \<longleftrightarrow> distinct (map (\<lambda>p. col (snd p)) d)"

text \<open>\<open>INSERT\<close> with a primary key and one unique column: \<open>None\<close> is the integrity error.\<close>

definition insert_unique :: "('v \<Rightarrow> 'c) \<Rightarrow> 'k \<Rightarrow> 'v \<Rightarrow> ('k, 'v) dict \<Rightarrow> ('k, 'v) dict option" where
  "insert_unique col k v d =
     (if map_of d k \<noteq> None \<or> list_ex (\<lambda>p. col (snd p) = col v) d then None else Some (d @ [(k, v)]))"

lemma update_rows_simps [simp]:
  "update_rows P f [] = []"
  "update_rows P f ((k, v) # d) = (k, if P k v then f v else v) # update_rows P f d"
  "map fst (update_rows P f d) = map fst d"
  by (auto simp: update_rows_def)

lemma find_row_simps [simp]:
  "find_row P [] = None"
  "find_row P ((k, v) # d) = (if P k v then Some (k, v) else find_row P d)"
  by (simp_all add: find_row_def)

lemma map_of_update_rows:
  "map_of (update_rows P f d) k = map_option (\<lambda>v. if P k v then f v else v) (map_of d k)"
  by (induction d) auto

lemma wf_update_rows [simp]: "dict_wf (update_rows P f d) \<longleftrightarrow> dict_wf d"
  by (simp add: dict_wf_def)

lemma set_update_rows:
  "x \<in> set (update_rows P f d) \<longleftrightarrow>
     (\<exists>v. (fst x, v) \<in> set d \<and> snd x = (if P (fst x) v then f v else v))"
  by (cases x) (force simp: update_rows_def)

lemma find_row_SomeD: "find_row P d = Some (k, v) \<Longrightarrow> (k, v) \<in> set d \<and> P k v"
  by (auto simp: find_row_def find_Some_iff in_set_conv_nth)

lemma find_row_None: "find_row P d = None \<longleftrightarrow> (\<forall>(k, v) \<in> set d. \<not> P k v)"
  by (auto simp: find_row_def find_None_iff)

lemma find_row_append:
  "find_row P (d @ e) = (case find_row P d of None \<Rightarrow> find_row P e | Some r \<Rightarrow> Some r)"
  by (induction d) auto

lemma count_rows_pos: "0 < count_rows P d \<longleftrightarrow> (\<exists>(k, v) \<in> set d. P k v)"
  by (auto simp: count_rows_def filter_empty_conv)

lemma unique_on_simps [simp]:
  "unique_on col []"
  "unique_on col ((k, v) # d) \<longleftrightarrow> (\<forall>p \<in> set d. col (snd p) \<noteq> col v) \<and> unique_on col d"
  by (simp_all add: unique_on_def image_iff eq_commute [of "col v"])

lemma unique_on_filter [simp, intro]: "unique_on col d \<Longrightarrow> unique_on col (filter P d)"
  by (simp add: unique_on_def distinct_map_filter)

lemma unique_on_update_rows [simp]:
  "(\<And>v. col (f v) = col v) \<Longrightarrow> unique_on col (update_rows P f d) \<longleftrightarrow> unique_on col d"
proof -
  assume "\<And>v. col (f v) = col v"
  then have "map (\<lambda>p. col (snd p)) (update_rows P f d) = map (\<lambda>p. col (snd p)) d"
    by (induction d) auto
  then show ?thesis by (simp add: unique_on_def)
qed

lemma unique_onD:
  "unique_on col d \<Longrightarrow> (k, v) \<in> set d \<Longrightarrow> (k', v') \<in> set d \<Longrightarrow> col v = col v' \<Longrightarrow> k = k' \<and> v = v'"
  by (induction d) fastforce+

lemma find_col_None: "find_row (\<lambda>_ w. col w = c) d = None \<longleftrightarrow> (\<forall>p \<in> set d. col (snd p) \<noteq> c)"
  by (auto simp: find_row_None)

lemma unique_on_append:
  "unique_on col (d @ [(k, v)]) \<longleftrightarrow> unique_on col d \<and> (\<forall>p \<in> set d. col (snd p) \<noteq> col v)"
  by (induction d) auto

lemma insert_unique_iff:
  "insert_unique col k v d = Some d' \<longleftrightarrow>
     d' = d @ [(k, v)] \<and> k \<notin> fst ` set d \<and> (\<forall>p \<in> set d. col (snd p) \<noteq> col v)"
  by (auto simp: insert_unique_def list_ex_iff map_of_eq_None_iff)

lemma insert_unique_wf:
  assumes "insert_unique col k v d = Some d'" "dict_wf d" "unique_on col d"
  shows "dict_wf d' \<and> unique_on col d'"
  using assms by (simp add: insert_unique_iff unique_on_append dict_wf_append_new)

lemma find_by_unique:
  assumes "unique_on col d" "(k, v) \<in> set d"
  shows "find_row (\<lambda>_ w. col w = col v) d = Some (k, v)"
proof (cases "find_row (\<lambda>_ w. col w = col v) d")
  case None
  with assms(2) show ?thesis by (fastforce simp: find_col_None)
next
  case (Some p)
  then obtain k' v' where p: "p = (k', v')" "(k', v') \<in> set d" "col v' = col v"
    by (cases p) (auto dest: find_row_SomeD)
  from unique_onD [OF assms(1) p(2) assms(2) p(3)] Some p(1) show ?thesis by simp
qed

lemma find_update_rows:
  assumes "\<And>v. col (f v) = col v"
  shows "find_row (\<lambda>_ w. col w = c) (update_rows P f d) =
    map_option (\<lambda>(k, v). (k, if P k v then f v else v)) (find_row (\<lambda>_ w. col w = c) d)"
  using assms by (induction d) auto

lemma find_insert_unique:
  assumes "insert_unique col k v d = Some d'"
  shows "find_row (\<lambda>_ w. col w = c) d' =
    (if col v = c then Some (k, v) else find_row (\<lambda>_ w. col w = c) d)"
proof -
  have d': "d' = d @ [(k, v)]" and "\<forall>p \<in> set d. col (snd p) \<noteq> col v"
    using assms by (simp_all add: insert_unique_iff)
  then have "col v = c \<Longrightarrow> find_row (\<lambda>_ w. col w = c) d = None" by (simp add: find_col_None)
  then show ?thesis
    by (cases "find_row (\<lambda>_ w. col w = c) d") (auto simp: d' find_row_append)
qed

text \<open>\<open>[f(r) for r in rows]\<close> where \<open>f\<close> may raise: the first error ends it.\<close>

fun all_ok :: "('e + 'a) list \<Rightarrow> 'e + 'a list" where
  "all_ok [] = Inr []"
| "all_ok (Inl e # rs) = Inl e"
| "all_ok (Inr x # rs) = (case all_ok rs of Inl e \<Rightarrow> Inl e | Inr xs \<Rightarrow> Inr (x # xs))"

subsection \<open>One-way rows\<close>

text \<open>
  \<open>row s h\<close> is the row a key \<open>h\<close> names, \<open>allowed h op\<close> the operations the
  promise ranges over.
\<close>

locale one_way =
  fixes row :: "'s \<Rightarrow> 'h \<Rightarrow> 'r option"
    and spent :: "'r \<Rightarrow> bool"
    and step :: "'s \<Rightarrow> 'op \<Rightarrow> 's"
    and allowed :: "'h \<Rightarrow> 'op \<Rightarrow> bool"
    and ok :: "'s \<Rightarrow> bool"
  assumes keeps_ok: "ok s \<Longrightarrow> ok (step s op)"
    and stays_spent: "ok s \<Longrightarrow> allowed h op \<Longrightarrow> row s h = Some r \<Longrightarrow> spent r \<Longrightarrow>
      \<exists>r'. row (step s op) h = Some r' \<and> spent r'"
begin

lemma run_ok: "ok s \<Longrightarrow> ok (foldl step s ops)"
  by (induction ops arbitrary: s) (auto simp: keeps_ok)

lemma run_spent:
  "ok s \<Longrightarrow> list_all (allowed h) ops \<Longrightarrow> row s h = Some r \<Longrightarrow> spent r \<Longrightarrow>
     \<exists>r'. row (foldl step s ops) h = Some r' \<and> spent r'"
proof (induction ops arbitrary: s r)
  case (Cons op ops)
  then obtain r' where "row (step s op) h = Some r'" "spent r'"
    using stays_spent [of s h op r] by auto
  with Cons.IH [of "step s op" r'] Cons.prems(1,2) show ?case by (simp add: keeps_ok)
qed simp

end

end
