(* ===== verification/Password_Hash.thy ===== *)
theory Password_Hash
  imports Prelude
begin

text \<open>
  Password hashes of dashboard users (infrastructure/stores/identity/password_hash.py).

  The two digests come from OpenSSL and are arguments of the model: \<open>sha\<close> is the hex SHA-256
  digest of a text's UTF-8 bytes, and \<open>kdf password salt n r p dklen\<close> is
  \<open>hashlib.scrypt\<close> on the password's UTF-8 bytes, \<open>None\<close> where it raises
  \<open>ValueError\<close> (bad cost parameters, an empty output length). The codec of the
  standard library they are stored with, urlsafe base64, is modelled, with the leniency of its
  decoder, and so is \<open>int()\<close>.
\<close>

type_synonym bytes = "nat list"

type_synonym kdf = "string \<Rightarrow> bytes \<Rightarrow> int \<Rightarrow> int \<Rightarrow> int \<Rightarrow> nat \<Rightarrow> bytes option"

subsection \<open>Base64 with the url-safe alphabet\<close>

definition b64_char :: "nat \<Rightarrow> char" where
  "b64_char i =
     (if i < 26 then char_of (65 + i) else if i < 52 then char_of (97 + (i - 26))
      else if i < 62 then char_of (48 + (i - 52)) else if i = 62 then CHR ''-'' else CHR ''_'')"

fun b64_encode :: "bytes \<Rightarrow> string" where
  "b64_encode [] = []"
| "b64_encode [a] = [b64_char (a div 4), b64_char (a mod 4 * 16), CHR ''='', CHR ''='']"
| "b64_encode [a, b] =
     [b64_char (a div 4), b64_char (a mod 4 * 16 + b div 16), b64_char (b mod 16 * 4), CHR ''='']"
| "b64_encode (a # b # c # bs) =
     [b64_char (a div 4), b64_char (a mod 4 * 16 + b div 16), b64_char (b mod 16 * 4 + c div 64),
      b64_char (c mod 64)] @ b64_encode bs"

text \<open>
  \<open>urlsafe_b64decode\<close> maps - and _ to + and / and hands the text to
  \<open>binascii.a2b_base64\<close>, which takes both pairs, skips every other character, stops at a
  complete padding, and raises on an incomplete group.
\<close>

definition b64_index :: "char \<Rightarrow> nat option" where
  "b64_index c =
     (let n = of_char c in
      if 65 \<le> n \<and> n \<le> 90 then Some (n - 65) else if 97 \<le> n \<and> n \<le> 122 then Some (n - 97 + 26)
      else if 48 \<le> n \<and> n \<le> 57 then Some (n - 48 + 52)
      else if n = 45 \<or> n = 43 then Some 62 else if n = 95 \<or> n = 47 then Some 63 else None)"

fun b64_loop :: "nat \<Rightarrow> nat \<Rightarrow> nat \<Rightarrow> string \<Rightarrow> bytes option" where
  "b64_loop q left pads [] = (if q = 0 then Some [] else None)"
| "b64_loop q left pads (c # cs) =
     (if c = CHR ''='' then
        (if 2 \<le> q then (if 4 \<le> q + (pads + 1) then Some [] else b64_loop q left (pads + 1) cs)
         else b64_loop q left pads cs)
      else case b64_index c of
        None \<Rightarrow> b64_loop q left pads cs
      | Some v \<Rightarrow>
          if q = 0 then b64_loop 1 v 0 cs
          else if q = 1 then map_option ((#) (left * 4 + v div 16)) (b64_loop 2 (v mod 16) 0 cs)
          else if q = 2 then map_option ((#) (left * 16 + v div 4)) (b64_loop 3 (v mod 4) 0 cs)
          else map_option ((#) (left * 64 + v)) (b64_loop 0 0 0 cs))"

definition is_ascii :: "string \<Rightarrow> bool" where
  "is_ascii s \<longleftrightarrow> list_all (\<lambda>c. of_char c < (128 :: nat)) s"

text \<open>\<open>urlsafe_b64decode(s.encode("ascii"))\<close>, \<open>None\<close> for its \<open>ValueError\<close>s.\<close>

definition b64_decode :: "string \<Rightarrow> bytes option" where
  "b64_decode s = (if is_ascii s then b64_loop 0 0 0 s else None)"

subsection \<open>Reading the stored form\<close>

text \<open>\<open>int(s)\<close>: blanks around, a sign, digits with single underscores between, at most 4300.\<close>

definition digit_val :: "char \<Rightarrow> nat option" where
  "digit_val c = (let n = of_char c in if 48 \<le> n \<and> n \<le> 57 then Some (n - 48) else None)"

fun int_digits :: "bool \<Rightarrow> string \<Rightarrow> nat list option" where
  "int_digits after [] = (if after then Some [] else None)"
| "int_digits after (c # cs) =
     (case digit_val c of
        Some d \<Rightarrow> map_option ((#) d) (int_digits True cs)
      | None \<Rightarrow> if c = CHR ''_'' \<and> after then int_digits False cs else None)"

definition digits_nat :: "nat list \<Rightarrow> nat" where
  "digits_nat ds = foldl (\<lambda>n d. 10 * n + d) 0 ds"

definition py_nat :: "string \<Rightarrow> nat option" where
  "py_nat s = (case int_digits False s of
     None \<Rightarrow> None | Some ds \<Rightarrow> if length ds \<le> 4300 then Some (digits_nat ds) else None)"

definition py_int :: "string \<Rightarrow> int option" where
  "py_int s = (case py_strip s of
     [] \<Rightarrow> None
   | c # cs \<Rightarrow> if c = CHR ''-'' then map_option (\<lambda>n. - int n) (py_nat cs)
                else if c = CHR ''+'' then map_option int (py_nat cs)
                else map_option int (py_nat (c # cs)))"

text \<open>\<open>s.split(sep, n)\<close>: at most \<open>n\<close> cuts.\<close>

fun split_max :: "char \<Rightarrow> nat \<Rightarrow> string \<Rightarrow> string list" where
  "split_max c 0 s = [s]"
| "split_max c (Suc n) s =
     (let w = takeWhile ((\<noteq>) c) s; r = dropWhile ((\<noteq>) c) s
      in case r of [] \<Rightarrow> [w] | _ # r' \<Rightarrow> w # split_max c n r')"

subsection \<open>Hashing and verifying\<close>

definition scrypt_n :: int where "scrypt_n = 2 ^ 14"
definition scrypt_r :: int where "scrypt_r = 8"
definition scrypt_p :: int where "scrypt_p = 1"
definition dk_len :: nat where "dk_len = 32"

definition hash_header :: string where
  "hash_header = ''scrypt$16384$8$1$''"

datatype hash_error = EmptyPassword | KdfRaised

definition hash_password :: "kdf \<Rightarrow> bytes \<Rightarrow> string \<Rightarrow> hash_error + string" where
  "hash_password kdf salt password =
     (if password = [] then Inl EmptyPassword
      else case kdf password salt scrypt_n scrypt_r scrypt_p dk_len of
        None \<Rightarrow> Inl KdfRaised
      | Some dk \<Rightarrow> Inr (hash_header @ b64_encode salt @ ''$'' @ b64_encode dk))"

text \<open>\<open>None\<close> is the \<open>ValueError\<close> of the digest, which is called outside the guarded block.\<close>

definition verify_password :: "kdf \<Rightarrow> string \<Rightarrow> string \<Rightarrow> bool option" where
  "verify_password kdf password encoded =
     (case split_max (CHR ''$'') 5 encoded of
        [algo, n_s, r_s, p_s, salt_b64, hash_b64] \<Rightarrow>
          if algo \<noteq> ''scrypt'' then Some False
          else (case (py_int n_s, py_int r_s, py_int p_s, b64_decode salt_b64, b64_decode hash_b64) of
                  (Some n, Some r, Some p, Some salt, Some expected) \<Rightarrow>
                    map_option (\<lambda>dk. dk = expected) (kdf password salt n r p (length expected))
                | _ \<Rightarrow> Some False)
      | _ \<Rightarrow> Some False)"


subsection \<open>The codec is inverted\<close>

definition is_byte :: "nat \<Rightarrow> bool" where
  "is_byte b \<longleftrightarrow> b < 256"

lemma of_char_b64: "i < 64 \<Longrightarrow>
    of_char (b64_char i) = (if i < 26 then 65 + i else if i < 52 then 71 + i
      else if i < 62 then i - 4 else if i = 62 then 45 else (95 :: nat))"
  by (simp add: b64_char_def)

lemma b64_char_neq:
  assumes "i < 64"
  shows "b64_char i \<noteq> CHR ''=''" "b64_char i \<noteq> CHR ''$''"
proof -
  have "of_char (b64_char i) \<noteq> (61 :: nat) \<and> of_char (b64_char i) \<noteq> (36 :: nat)"
    by (simp add: of_char_b64 [OF assms]) arith
  then show "b64_char i \<noteq> CHR ''=''" "b64_char i \<noteq> CHR ''$''" by auto
qed

lemma b64_index_char: "i < 64 \<Longrightarrow> b64_index (b64_char i) = Some i"
  unfolding b64_index_def of_char_b64 Let_def by (simp, arith)

lemma b64_char_ascii: "i < 64 \<Longrightarrow> of_char (b64_char i) < (128 :: nat)"
  by (auto simp: of_char_b64)

lemma sextets:
  assumes "is_byte a" "is_byte b" "is_byte c"
  shows "a div 4 < 64" "a mod 4 * 16 + b div 16 < 64" "b mod 16 * 4 + c div 64 < 64" "c mod 64 < 64"
    "a mod 4 * 16 < 64" "b mod 16 * 4 < 64"
  using assms by (simp_all add: is_byte_def)

lemma regroup:
  assumes "is_byte a" "is_byte b" "is_byte c"
  shows "a div 4 * 4 + (a mod 4 * 16 + b div 16) div 16 = a"
    "(a mod 4 * 16 + b div 16) mod 16 * 16 + (b mod 16 * 4 + c div 64) div 4 = b"
    "(b mod 16 * 4 + c div 64) mod 4 * 64 + c mod 64 = c"
    "a div 4 * 4 + (a mod 4 * 16) div 16 = a"
    "(a mod 4 * 16 + b div 16) mod 16 * 16 + (b mod 16 * 4) div 4 = b"
proof -
  have lt: "b div 16 < 16" "c div 64 < 4" using assms by (simp_all add: is_byte_def)
  show "a div 4 * 4 + (a mod 4 * 16 + b div 16) div 16 = a" using lt by simp
  show "(b mod 16 * 4 + c div 64) mod 4 * 64 + c mod 64 = c" using lt by simp
  show "a div 4 * 4 + (a mod 4 * 16) div 16 = a" by simp
  show "(a mod 4 * 16 + b div 16) mod 16 * 16 + (b mod 16 * 4 + c div 64) div 4 = b"
    using lt by simp
  show "(a mod 4 * 16 + b div 16) mod 16 * 16 + (b mod 16 * 4) div 4 = b" using lt by simp
qed

lemma b64_loop_encode: "list_all is_byte bs \<Longrightarrow> b64_loop 0 0 0 (b64_encode bs) = Some bs"
proof (induction bs rule: b64_encode.induct)
  case (2 a)
  then show ?case
    using sextets [of a 0 0] regroup [of a 0 0]
    by (simp add: b64_index_char b64_char_neq is_byte_def)
next
  case (3 a b)
  then show ?case
    using sextets [of a b 0] regroup [of a b 0]
    by (simp add: b64_index_char b64_char_neq is_byte_def)
next
  case (4 a b c bs)
  then show ?case
    using sextets [of a b c] regroup [of a b c] by (simp add: b64_index_char b64_char_neq)
qed simp

lemma b64_encode_chars:
  "list_all is_byte bs \<Longrightarrow> list_all (\<lambda>c. of_char c < (128 :: nat) \<and> c \<noteq> CHR ''$'') (b64_encode bs)"
proof (induction bs rule: b64_encode.induct)
  case (2 a)
  then show ?case
    using sextets [of a 0 0] by (simp add: b64_char_ascii b64_char_neq is_byte_def)
next
  case (3 a b)
  then show ?case
    using sextets [of a b 0] by (simp add: b64_char_ascii b64_char_neq is_byte_def)
next
  case (4 a b c bs)
  then show ?case
    using sextets [of a b c] by (simp add: b64_char_ascii b64_char_neq)
qed simp

lemma b64_roundtrip: "list_all is_byte bs \<Longrightarrow> b64_decode (b64_encode bs) = Some bs"
  using b64_encode_chars [of bs]
  by (simp add: b64_decode_def is_ascii_def b64_loop_encode list_all_iff)

lemma b64_no_dollar: "list_all is_byte bs \<Longrightarrow> CHR ''$'' \<notin> set (b64_encode bs)"
  using b64_encode_chars [of bs] by (auto simp: list_all_iff)

subsection \<open>The stored form is read back\<close>

lemma split_max_step: "c \<notin> set w \<Longrightarrow> split_max c (Suc n) (w @ c # r) = w # split_max c n r"
proof -
  assume "c \<notin> set w"
  then have "takeWhile ((\<noteq>) c) (w @ c # r) = w" "dropWhile ((\<noteq>) c) (w @ c # r) = c # r"
    by (induction w) auto
  then show ?thesis by (simp add: Let_def)
qed

lemma split_stored:
  assumes "list_all is_byte salt" "list_all is_byte dk"
  shows "split_max (CHR ''$'') 5 (hash_header @ b64_encode salt @ ''$'' @ b64_encode dk)
    = [''scrypt'', ''16384'', ''8'', ''1'', b64_encode salt, b64_encode dk]"
proof -
  have "split_max (CHR ''$'') 5 (hash_header @ X) =
      [''scrypt'', ''16384'', ''8'', ''1''] @ split_max (CHR ''$'') (Suc 0) X" for X
    by (simp add: hash_header_def eval_nat_numeral Let_def)
  moreover have "split_max (CHR ''$'') (Suc 0) (b64_encode salt @ CHR ''$'' # b64_encode dk) =
      [b64_encode salt, b64_encode dk]"
    by (subst split_max_step) (simp_all add: b64_no_dollar assms(1))
  ultimately show ?thesis by simp
qed

lemma stored_costs:
  "py_int ''16384'' = Some scrypt_n" "py_int ''8'' = Some scrypt_r" "py_int ''1'' = Some scrypt_p"
  by (simp_all add: py_int_def py_strip_def is_space_def py_nat_def digit_val_def digits_nat_def
      scrypt_n_def scrypt_r_def scrypt_p_def)

lemma verify_stored:
  assumes "list_all is_byte salt" "list_all is_byte dk"
  shows "verify_password kdf password (hash_header @ b64_encode salt @ ''$'' @ b64_encode dk) =
    map_option (\<lambda>d. d = dk) (kdf password salt scrypt_n scrypt_r scrypt_p (length dk))"
  by (simp only: verify_password_def split_stored [OF assms] list.case stored_costs
      b64_roundtrip [OF assms(1)] b64_roundtrip [OF assms(2)]) simp

lemma hash_cases:
  assumes "hash_password kdf salt password = Inr encoded"
  obtains dk where "password \<noteq> []" "kdf password salt scrypt_n scrypt_r scrypt_p dk_len = Some dk"
    "encoded = hash_header @ b64_encode salt @ ''$'' @ b64_encode dk"
  using assms by (auto simp: hash_password_def split: if_splits option.splits)

text \<open>What the documentation of \<open>hashlib.scrypt\<close> promises: \<open>dklen\<close> bytes come out.\<close>

definition kdf_ok :: "kdf \<Rightarrow> bool" where
  "kdf_ok kdf \<longleftrightarrow> (\<forall>pw salt n r p len dk. kdf pw salt n r p len = Some dk \<longrightarrow>
     length dk = len \<and> list_all is_byte dk)"

lemma kdf_okD:
  "kdf_ok kdf \<Longrightarrow> kdf pw salt n r p len = Some dk \<Longrightarrow> length dk = len \<and> list_all is_byte dk"
  by (simp add: kdf_ok_def)

lemma verify_hashed:
  assumes "kdf_ok kdf" "list_all is_byte salt" "hash_password kdf salt password = Inr encoded"
  shows "verify_password kdf attempt encoded =
    map_option (\<lambda>d. Some d = kdf password salt scrypt_n scrypt_r scrypt_p dk_len)
      (kdf attempt salt scrypt_n scrypt_r scrypt_p dk_len)"
proof -
  obtain dk where dk: "kdf password salt scrypt_n scrypt_r scrypt_p dk_len = Some dk"
    and enc: "encoded = hash_header @ b64_encode salt @ ''$'' @ b64_encode dk"
    using hash_cases [OF assms(3)] .
  have ok: "length dk = dk_len" "list_all is_byte dk" using kdf_okD [OF assms(1) dk] by simp_all
  show ?thesis unfolding enc verify_stored [OF assms(2) ok(2)] ok(1) dk by simp
qed

lemma verify_own_password:
  assumes "kdf_ok kdf" "list_all is_byte salt" "hash_password kdf salt password = Inr encoded"
  shows "verify_password kdf password encoded = Some True"
proof -
  obtain dk where "kdf password salt scrypt_n scrypt_r scrypt_p dk_len = Some dk"
    using hash_cases [OF assms(3)] .
  then show ?thesis by (simp add: verify_hashed [OF assms])
qed

text \<open>
  C10: a password verifies against its stored hash, and another one does exactly when the key
  derivation with the stored salt gives the same key, whatever bytes salt and key are: the
  text format, the cost parameters and the base64 codec lose nothing.
\<close>

theorem password_hash_roundtrip:
  assumes "kdf_ok kdf" "list_all is_byte salt" "hash_password kdf salt password = Inr encoded"
  shows "verify_password kdf password encoded = Some True \<and>
    (verify_password kdf attempt encoded = Some True \<longleftrightarrow>
       kdf attempt salt scrypt_n scrypt_r scrypt_p dk_len =
       kdf password salt scrypt_n scrypt_r scrypt_p dk_len)"
proof -
  obtain dk where "kdf password salt scrypt_n scrypt_r scrypt_p dk_len = Some dk"
    using hash_cases [OF assms(3)] .
  then show ?thesis
    by (auto simp: verify_hashed [OF assms])
qed

definition sample_kdf :: kdf where
  "sample_kdf pw salt n r p len = (if len = 0 then None
     else Some (take len (map of_char pw @ map (\<lambda>b. b mod 256) salt @ replicate len 255)))"

text \<open>
  A key derivation that can be evaluated: the password's codes and the salt, cut to length.
\<close>

lemma sample_kdf_ok: "kdf_ok sample_kdf"
  by (auto simp: kdf_ok_def sample_kdf_def list_all_iff is_byte_def dest!: in_set_takeD)

lemma password_hash_roundtrip_witness:
  "\<exists>encoded. hash_password sample_kdf [7, 255] ''pw'' = Inr encoded \<and>
     verify_password sample_kdf ''pw'' encoded = Some True \<and>
     verify_password sample_kdf ''pq'' encoded \<noteq> Some True"
proof -
  obtain encoded where e: "hash_password sample_kdf [7, 255] ''pw'' = Inr encoded"
    by (simp add: hash_password_def sample_kdf_def dk_len_def)
  have "list_all is_byte [7, 255]" by (simp add: is_byte_def)
  note r = password_hash_roundtrip [OF sample_kdf_ok this e]
  have "sample_kdf ''pq'' [7, 255] scrypt_n scrypt_r scrypt_p dk_len \<noteq>
        sample_kdf ''pw'' [7, 255] scrypt_n scrypt_r scrypt_p dk_len"
    by (simp add: sample_kdf_def dk_len_def)
  then show ?thesis using e r [of "''pq''"] by blast
qed

end
