(* ===== verification/Control_Plane.thy ===== *)
theory Control_Plane
  imports Sql_Table Password_Hash User_Store
begin

text \<open>
  The dashboard's identity store (infrastructure/stores/identity/control_plane_*.py) with its
  models and its resource authorization (core/auth/control_plane*.py): users with a role, a
  status and a password hash, invites, sessions, API keys, organizations, who launched a job,
  and the codes that link a chat account to a dashboard user.

  The state is the set of SQL tables as the store's connection sees them; an operation returns
  its result, or the exception it raises, and the tables after it. What the code draws or reads
  from outside is an argument: the clock (\<open>now\<close>), identifiers and tokens
  (\<open>fresh\<close>, \<open>token\<close>), the salt, and the digests \<open>sha\<close> and \<open>kdf\<close> of
  Password_Hash. ISO timestamps of one offset sort like the instants they denote, so the
  columns hold instants. Only tables this store writes are here: the \<open>users\<close> and
  \<open>platform_identities\<close> rows are those of the shared database file.
\<close>

type_synonym sha = "string \<Rightarrow> string"

subsection \<open>Models\<close>

datatype cp_error =
    Value_Error string
  | Digest_Error
  | Permission_Error string
  | Unique_Violation
  | Runtime_Error string

text \<open>What \<open>except ValueError\<close> catches.\<close>

definition is_value_error :: "cp_error \<Rightarrow> bool" where
  "is_value_error e = (case e of Value_Error _ \<Rightarrow> True | Digest_Error \<Rightarrow> True | _ \<Rightarrow> False)"

datatype global_role = Role_Admin | Role_Member

definition global_role_value :: "global_role \<Rightarrow> string" where
  "global_role_value r = (case r of Role_Admin \<Rightarrow> ''admin'' | Role_Member \<Rightarrow> ''member'')"

datatype user_status = Status_Active | Status_Disabled

definition user_status_value :: "user_status \<Rightarrow> string" where
  "user_status_value s = (case s of Status_Active \<Rightarrow> ''active'' | Status_Disabled \<Rightarrow> ''disabled'')"

datatype invite_status = Invite_Pending | Invite_Accepted | Invite_Revoked | Invite_Expired

definition invite_status_value :: "invite_status \<Rightarrow> string" where
  "invite_status_value s = (case s of Invite_Pending \<Rightarrow> ''pending'' | Invite_Accepted \<Rightarrow> ''accepted''
     | Invite_Revoked \<Rightarrow> ''revoked'' | Invite_Expired \<Rightarrow> ''expired'')"

datatype org_role = Org_Owner | Org_Member

definition org_role_value :: "org_role \<Rightarrow> string" where
  "org_role_value r = (case r of Org_Owner \<Rightarrow> ''owner'' | Org_Member \<Rightarrow> ''member'')"

definition py_repr :: "string \<Rightarrow> string" where
  "py_repr s = [CHR 39] @ s @ [CHR 39]"

text \<open>An enum called on a column's text: the member with that value, or a \<open>ValueError\<close>.\<close>

definition enum_of :: "('a \<Rightarrow> string) \<Rightarrow> 'a list \<Rightarrow> string \<Rightarrow> string \<Rightarrow> cp_error + 'a" where
  "enum_of val members cls raw = (case find (\<lambda>m. val m = raw) members of
     Some m \<Rightarrow> Inr m
   | None \<Rightarrow> Inl (Value_Error (py_repr raw @ '' is not a valid '' @ cls)))"

definition global_role_of :: "string \<Rightarrow> cp_error + global_role" where
  "global_role_of = enum_of global_role_value [Role_Admin, Role_Member] ''GlobalRole''"

definition user_status_of :: "string \<Rightarrow> cp_error + user_status" where
  "user_status_of = enum_of user_status_value [Status_Active, Status_Disabled] ''UserStatus''"

definition invite_status_of :: "string \<Rightarrow> cp_error + invite_status" where
  "invite_status_of = enum_of invite_status_value
     [Invite_Pending, Invite_Accepted, Invite_Revoked, Invite_Expired] ''InviteStatus''"

definition org_role_of :: "string \<Rightarrow> cp_error + org_role" where
  "org_role_of = enum_of org_role_value [Org_Owner, Org_Member] ''OrgRole''"

record cp_principal =
  pp_user :: string
  pp_roles :: "string set"
  pp_orgs :: "string set"
  pp_active_org :: "string option"
  pp_via :: string

definition mk_cp_principal ::
    "string \<Rightarrow> string set \<Rightarrow> string set \<Rightarrow> string option \<Rightarrow> string \<Rightarrow> cp_error + cp_principal" where
  "mk_cp_principal uid roles orgs active via =
     (if uid = [] then Inl (Value_Error ''ControlPlanePrincipal.user_id must be non-empty'')
      else Inr \<lparr>pp_user = uid, pp_roles = roles, pp_orgs = orgs, pp_active_org = active, pp_via = via\<rparr>)"

definition cp_is_admin :: "cp_principal \<Rightarrow> bool" where
  "cp_is_admin p \<longleftrightarrow> ''admin'' \<in> pp_roles p"

record cp_user =
  du_id :: string
  du_email :: "string option"
  du_name :: "string option"
  du_role :: global_role
  du_status :: user_status
  du_created :: time
  du_has_password :: bool

record invite_record =
  ir_id :: string
  ir_email :: string
  ir_invited_by :: string
  ir_status :: invite_status
  ir_expires :: time
  ir_created :: time

record session_record =
  sr_id :: string
  sr_user :: string
  sr_expires :: time
  sr_created :: time

record api_key_record =
  ar_id :: string
  ar_user :: string
  ar_name :: string
  ar_prefix :: string
  ar_created :: time
  ar_revoked :: "time option"

record org_record =
  or_id :: string
  or_name :: string
  or_created_by :: string
  or_created :: time

record org_member =
  om_org :: string
  om_user :: string
  om_role :: org_role

subsection \<open>Tables\<close>

record cp_user_row =
  uc_name :: "string option"
  uc_email :: "string option"
  uc_created :: time
  uc_hash :: "string option"
  uc_role :: string
  uc_status :: string

record invite_row =
  iv_email :: string
  iv_hash :: string
  iv_by :: string
  iv_status :: string
  iv_expires :: time
  iv_created :: time

record session_row =
  se_user :: string
  se_hash :: string
  se_expires :: time
  se_created :: time

record api_key_row =
  ak_user :: string
  ak_name :: string
  ak_hash :: string
  ak_prefix :: string
  ak_created :: time
  ak_revoked :: "time option"

record org_row =
  og_name :: string
  og_by :: string
  og_created :: time

record job_row =
  jl_by :: string
  jl_org :: "string option"
  jl_created :: time

record link_row =
  lc_user :: string
  lc_platform :: "string option"
  lc_hash :: string
  lc_expires :: time
  lc_created :: time
  lc_consumed :: "time option"

record control_plane =
  cp_users :: "(string, cp_user_row) dict"
  cp_invites :: "(string, invite_row) dict"
  cp_sessions :: "(string, session_row) dict"
  cp_keys :: "(string, api_key_row) dict"
  cp_orgs :: "(string, org_row) dict"
  cp_members :: "(string \<times> string, string) dict"
  cp_jobs :: "(string, job_row) dict"
  cp_links :: "(string, link_row) dict"
  cp_idents :: ident_table

definition cp_init :: control_plane where
  "cp_init = \<lparr>cp_users = [], cp_invites = [], cp_sessions = [], cp_keys = [], cp_orgs = [],
              cp_members = [], cp_jobs = [], cp_links = [], cp_idents = []\<rparr>"

subsection \<open>Users\<close>

definition cp_normalize_email :: "string \<Rightarrow> string" where
  "cp_normalize_email email = py_lower (py_strip email)"

definition str_or :: "string \<Rightarrow> string \<Rightarrow> string" where
  "str_or a b = (if a \<noteq> [] then a else b)"

definition row_user :: "string \<Rightarrow> cp_user_row \<Rightarrow> cp_error + cp_user" where
  "row_user uid row =
     (case global_role_of (str_or (uc_role row) ''member'') of
        Inl e \<Rightarrow> Inl e
      | Inr role \<Rightarrow>
          (case user_status_of (str_or (uc_status row) ''active'') of
             Inl e \<Rightarrow> Inl e
           | Inr status \<Rightarrow>
               Inr \<lparr>du_id = uid, du_email = uc_email row, du_name = uc_name row, du_role = role,
                    du_status = status, du_created = uc_created row,
                    du_has_password = (uc_hash row \<noteq> None \<and> uc_hash row \<noteq> Some [])\<rparr>))"

definition row_user_opt :: "(string \<times> cp_user_row) option \<Rightarrow> cp_error + cp_user option" where
  "row_user_opt r = (case r of
     None \<Rightarrow> Inr None
   | Some (uid, row) \<Rightarrow> (case row_user uid row of Inl e \<Rightarrow> Inl e | Inr u \<Rightarrow> Inr (Some u)))"

definition cp_get_user :: "string \<Rightarrow> control_plane \<Rightarrow> cp_error + cp_user option" where
  "cp_get_user uid st = row_user_opt (map_option (Pair uid) (map_of (cp_users st) uid))"

definition cp_get_user_by_email :: "string \<Rightarrow> control_plane \<Rightarrow> cp_error + cp_user option" where
  "cp_get_user_by_email email st =
     row_user_opt (find_row (\<lambda>_ r. uc_email r = Some (cp_normalize_email email)) (cp_users st))"

text \<open>Rows of equal \<open>created_at\<close> stay in table order, an order SQLite leaves open.\<close>

definition cp_list_users :: "control_plane \<Rightarrow> cp_error + cp_user list" where
  "cp_list_users st =
     all_ok (map (\<lambda>(uid, r). row_user uid r) (sort_key (\<lambda>(_, r). uc_created r) (cp_users st)))"

definition hash_error_value :: "hash_error \<Rightarrow> cp_error" where
  "hash_error_value e = (case e of
     EmptyPassword \<Rightarrow> Value_Error ''password must be non-empty'' | KdfRaised \<Rightarrow> Digest_Error)"

text \<open>The column default \<open>datetime('now')\<close> has whole seconds.\<close>

definition sql_now :: "time \<Rightarrow> time" where
  "sql_now now = of_int \<lfloor>now\<rfloor>"

definition insert_cp_user :: "string \<Rightarrow> cp_user_row \<Rightarrow> control_plane \<Rightarrow> control_plane option" where
  "insert_cp_user uid row st =
     (if map_of (cp_users st) uid \<noteq> None \<or>
         uc_email row \<noteq> None \<and> list_ex (\<lambda>p. uc_email (snd p) = uc_email row) (cp_users st)
      then None else Some (st\<lparr>cp_users := cp_users st @ [(uid, row)]\<rparr>))"

definition default_name :: "string \<Rightarrow> string option \<Rightarrow> string" where
  "default_name normalized display_name =
     (let local_part = takeWhile (\<lambda>c. c \<noteq> CHR ''@'') normalized
      in py_strip (case display_name of Some n \<Rightarrow> str_or n local_part | None \<Rightarrow> local_part))"

definition insert_and_read ::
    "string \<Rightarrow> cp_user_row \<Rightarrow> string \<Rightarrow> control_plane \<Rightarrow> (cp_error + cp_user) \<times> control_plane" where
  "insert_and_read uid row normalized st =
     (case insert_cp_user uid row st of
        None \<Rightarrow> (Inl (Value_Error (''email already registered: '' @ normalized)), st)
      | Some st' \<Rightarrow>
          (case cp_get_user uid st' of
             Inl e \<Rightarrow> (Inl e, st')
           | Inr None \<Rightarrow> (Inl (Runtime_Error (''user '' @ py_repr uid @ '' missing after insert'')), st')
           | Inr (Some u) \<Rightarrow> (Inr u, st')))"

definition cp_create_user ::
    "kdf \<Rightarrow> string \<Rightarrow> bytes \<Rightarrow> time \<Rightarrow> string \<Rightarrow> string \<Rightarrow> global_role \<Rightarrow> string option \<Rightarrow> string option \<Rightarrow>
     control_plane \<Rightarrow> (cp_error + cp_user) \<times> control_plane" where
  "cp_create_user kdf fresh salt now email password role display_name user_id st =
     (let normalized = cp_normalize_email email
      in if normalized = [] then (Inl (Value_Error ''email must be non-empty''), st)
         else
           (let uid = (case user_id of Some u \<Rightarrow> str_or u (user_id_prefix @ fresh)
                                     | None \<Rightarrow> user_id_prefix @ fresh)
            in case hash_password kdf salt password of
                 Inl e \<Rightarrow> (Inl (hash_error_value e), st)
               | Inr h \<Rightarrow>
                   insert_and_read uid
                     \<lparr>uc_name = Some (default_name normalized display_name),
                      uc_email = Some normalized, uc_created = sql_now now, uc_hash = Some h,
                      uc_role = global_role_value role,
                      uc_status = user_status_value Status_Active\<rparr> normalized st))"

definition set_password ::
    "kdf \<Rightarrow> bytes \<Rightarrow> string \<Rightarrow> string \<Rightarrow> control_plane \<Rightarrow> (cp_error + unit) \<times> control_plane" where
  "set_password kdf salt user_id password st =
     (case hash_password kdf salt password of
        Inl e \<Rightarrow> (Inl (hash_error_value e), st)
      | Inr h \<Rightarrow>
          (Inr (), st\<lparr>cp_users := update_rows (\<lambda>i _. i = user_id) (\<lambda>r. r\<lparr>uc_hash := Some h\<rparr>) (cp_users st)\<rparr>))"

definition cp_verify_password ::
    "kdf \<Rightarrow> string \<Rightarrow> string \<Rightarrow> control_plane \<Rightarrow> cp_error + cp_user option" where
  "cp_verify_password kdf email password st =
     (case cp_get_user_by_email email st of
        Inl e \<Rightarrow> Inl e
      | Inr None \<Rightarrow> Inr None
      | Inr (Some user) \<Rightarrow>
          if du_status user \<noteq> Status_Active then Inr None
          else (case map_option uc_hash (map_of (cp_users st) (du_id user)) of
                  None \<Rightarrow> Inr None
                | Some None \<Rightarrow> Inr None
                | Some (Some h) \<Rightarrow>
                    if h = [] then Inr None
                    else (case verify_password kdf password h of
                            None \<Rightarrow> Inl Digest_Error
                          | Some False \<Rightarrow> Inr None
                          | Some True \<Rightarrow> Inr (Some user))))"

definition revoke_user_sessions :: "string \<Rightarrow> control_plane \<Rightarrow> nat \<times> control_plane" where
  "revoke_user_sessions user_id st =
     (count_rows (\<lambda>_ s. se_user s = user_id) (cp_sessions st),
      st\<lparr>cp_sessions := filter (\<lambda>(_, s). se_user s \<noteq> user_id) (cp_sessions st)\<rparr>)"

definition set_user_status :: "string \<Rightarrow> string \<Rightarrow> control_plane \<Rightarrow> control_plane" where
  "set_user_status user_id status st =
     (let st' = st\<lparr>cp_users := update_rows (\<lambda>i _. i = user_id) (\<lambda>r. r\<lparr>uc_status := status\<rparr>) (cp_users st)\<rparr>
      in if status = user_status_value Status_Disabled then snd (revoke_user_sessions user_id st') else st')"

definition bootstrap_admin_if_empty ::
    "kdf \<Rightarrow> string \<Rightarrow> bytes \<Rightarrow> time \<Rightarrow> string \<Rightarrow> string \<Rightarrow> string \<Rightarrow> control_plane \<Rightarrow>
     (cp_error + cp_user option) \<times> control_plane" where
  "bootstrap_admin_if_empty kdf fresh salt now email password display_name st =
     (if find_row (\<lambda>_ r. uc_role r = global_role_value Role_Admin \<and>
                          uc_status r = user_status_value Status_Active) (cp_users st) \<noteq> None
      then (Inr None, st)
      else
        (case cp_get_user_by_email email st of
           Inl e \<Rightarrow> (Inl e, st)
         | Inr (Some existing) \<Rightarrow>
             (case hash_password kdf salt password of
                Inl e \<Rightarrow> (Inl (hash_error_value e), st)
              | Inr h \<Rightarrow>
                  (let st' = st\<lparr>cp_users := update_rows (\<lambda>i _. i = du_id existing)
                         (\<lambda>r. r\<lparr>uc_role := global_role_value Role_Admin,
                                uc_status := user_status_value Status_Active, uc_hash := Some h,
                                uc_name := (case uc_name r of None \<Rightarrow> Some display_name | Some n \<Rightarrow> Some n)\<rparr>)
                         (cp_users st)\<rparr>
                   in (cp_get_user (du_id existing) st', st')))
         | Inr None \<Rightarrow>
             (case cp_create_user kdf fresh salt now email password Role_Admin (Some display_name) None st of
                (Inl e, st') \<Rightarrow> (Inl e, st')
              | (Inr u, st') \<Rightarrow> (Inr (Some u), st'))))"

text \<open>\<open>open_control_plane_store\<close> after the tables are there, with the two variables it reads.\<close>

definition open_control_plane_store ::
    "kdf \<Rightarrow> string \<Rightarrow> bytes \<Rightarrow> time \<Rightarrow> string \<Rightarrow> string \<Rightarrow> control_plane \<Rightarrow> (cp_error + unit) \<times> control_plane" where
  "open_control_plane_store kdf fresh salt now env_email env_password st =
     (let email = py_strip env_email; password = py_strip env_password
      in if email = [] then (Inr (), st)
         else if password = [] then (Inl (Runtime_Error ''bootstrap password is empty''), st)
         else (case bootstrap_admin_if_empty kdf fresh salt now email password ''Admin'' st of
                 (Inl e, st') \<Rightarrow> (Inl e, st')
               | (Inr _, st') \<Rightarrow> (Inr (), st')))"

subsection \<open>Invites\<close>

definition row_invite :: "string \<Rightarrow> invite_row \<Rightarrow> cp_error + invite_record" where
  "row_invite iid r = (case invite_status_of (iv_status r) of
     Inl e \<Rightarrow> Inl e
   | Inr s \<Rightarrow> Inr \<lparr>ir_id = iid, ir_email = iv_email r, ir_invited_by = iv_by r, ir_status = s,
                  ir_expires = iv_expires r, ir_created = iv_created r\<rparr>)"

definition create_invite ::
    "sha \<Rightarrow> string \<Rightarrow> string \<Rightarrow> time \<Rightarrow> string \<Rightarrow> string \<Rightarrow> time \<Rightarrow> string option \<Rightarrow>
     control_plane \<Rightarrow> (cp_error + invite_record \<times> string) \<times> control_plane" where
  "create_invite sha fresh token now email invited_by expires_at raw_token st =
     (let normalized = cp_normalize_email email
      in if normalized = [] then (Inl (Value_Error ''email must be non-empty''), st)
         else
           (case cp_get_user_by_email normalized st of
              Inl e \<Rightarrow> (Inl e, st)
            | Inr (Some _) \<Rightarrow> (Inl (Value_Error (''user already exists for '' @ normalized)), st)
            | Inr None \<Rightarrow>
                (let tok = (case raw_token of Some t \<Rightarrow> str_or t token | None \<Rightarrow> token);
                     iid = ''inv:'' @ fresh;
                     row = \<lparr>iv_email = normalized, iv_hash = sha tok, iv_by = invited_by,
                            iv_status = invite_status_value Invite_Pending,
                            iv_expires = expires_at, iv_created = now\<rparr>
                 in case insert_unique iv_hash iid row (cp_invites st) of
                      None \<Rightarrow> (Inl Unique_Violation, st)
                    | Some rows \<Rightarrow>
                        (Inr (\<lparr>ir_id = iid, ir_email = normalized, ir_invited_by = invited_by,
                               ir_status = Invite_Pending, ir_expires = expires_at,
                               ir_created = now\<rparr>, tok),
                         st\<lparr>cp_invites := rows\<rparr>))))"

definition get_invite :: "string \<Rightarrow> control_plane \<Rightarrow> cp_error + invite_record option" where
  "get_invite iid st = (case map_of (cp_invites st) iid of
     None \<Rightarrow> Inr None
   | Some r \<Rightarrow> (case row_invite iid r of Inl e \<Rightarrow> Inl e | Inr i \<Rightarrow> Inr (Some i)))"

definition list_invites :: "string option \<Rightarrow> control_plane \<Rightarrow> cp_error + invite_record list" where
  "list_invites status st =
     all_ok (map (\<lambda>(i, r). row_invite i r)
       (sort_key (\<lambda>(_, r). - iv_created r)
         (case status of
            None \<Rightarrow> cp_invites st
          | Some s \<Rightarrow> if s = [] then cp_invites st
                      else filter (\<lambda>(_, r). iv_status r = s) (cp_invites st))))"

definition set_invite_status :: "(string \<Rightarrow> invite_row \<Rightarrow> bool) \<Rightarrow> invite_status \<Rightarrow> control_plane \<Rightarrow> control_plane" where
  "set_invite_status P s st =
     st\<lparr>cp_invites := update_rows P (\<lambda>r. r\<lparr>iv_status := invite_status_value s\<rparr>) (cp_invites st)\<rparr>"

definition revoke_invite :: "string \<Rightarrow> control_plane \<Rightarrow> bool \<times> control_plane" where
  "revoke_invite iid st =
     (let P = (\<lambda>i r. i = iid \<and> iv_status r = invite_status_value Invite_Pending)
      in (0 < count_rows P (cp_invites st), set_invite_status P Invite_Revoked st))"

definition accept_invite ::
    "sha \<Rightarrow> kdf \<Rightarrow> string \<Rightarrow> bytes \<Rightarrow> time \<Rightarrow> string \<Rightarrow> string \<Rightarrow> string option \<Rightarrow>
     control_plane \<Rightarrow> (cp_error + cp_user) \<times> control_plane" where
  "accept_invite sha kdf fresh salt now raw_token password display_name st =
     (if raw_token = [] \<or> password = [] then (Inl (Value_Error ''token and password required''), st)
      else
        (case find_row (\<lambda>_ r. iv_hash r = sha raw_token) (cp_invites st) of
           None \<Rightarrow> (Inl (Value_Error ''invalid invite token''), st)
         | Some (iid, r) \<Rightarrow>
             if iv_status r \<noteq> invite_status_value Invite_Pending
             then (Inl (Value_Error (''invite not pending ('' @ iv_status r @ '')'')), st)
             else if iv_expires r < now
             then (Inl (Value_Error ''invite expired''), set_invite_status (\<lambda>i _. i = iid) Invite_Expired st)
             else
               (case cp_get_user_by_email (iv_email r) st of
                  Inl e \<Rightarrow> (Inl e, st)
                | Inr (Some _) \<Rightarrow> (Inl (Value_Error ''email already registered''), st)
                | Inr None \<Rightarrow>
                    (case cp_create_user kdf fresh salt now (iv_email r) password Role_Member
                            display_name None st of
                       (Inl e, st') \<Rightarrow> (Inl e, st')
                     | (Inr user, st') \<Rightarrow>
                         (Inr user, set_invite_status (\<lambda>i _. i = iid) Invite_Accepted st')))))"

subsection \<open>Sessions and API keys\<close>

definition session_ttl :: int where
  "session_ttl = 60 * 60 * 24 * 14"

definition api_key_prefix :: string where
  "api_key_prefix = ''fak_''"

definition create_session ::
    "sha \<Rightarrow> string \<Rightarrow> string \<Rightarrow> time \<Rightarrow> string \<Rightarrow> int \<Rightarrow> control_plane \<Rightarrow>
     (cp_error + session_record \<times> string) \<times> control_plane" where
  "create_session sha fresh token now user_id ttl_seconds st =
     (let sid = ''ses:'' @ fresh; expires = now + of_int ttl_seconds;
          row = \<lparr>se_user = user_id, se_hash = sha token, se_expires = expires, se_created = now\<rparr>
      in case insert_unique se_hash sid row (cp_sessions st) of
           None \<Rightarrow> (Inl Unique_Violation, st)
         | Some rows \<Rightarrow>
             (Inr (\<lparr>sr_id = sid, sr_user = user_id, sr_expires = expires, sr_created = now\<rparr>, token),
              st\<lparr>cp_sessions := rows\<rparr>))"

definition org_ids_for_user :: "string \<Rightarrow> control_plane \<Rightarrow> string set" where
  "org_ids_for_user user_id st =
     set (map (fst \<circ> fst) (filter (\<lambda>((_, u), _). u = user_id) (cp_members st)))"

definition auth_vias :: "string list" where
  "auth_vias = [''session'', ''api_key'', ''platform_link'', ''sys'', ''e2e'']"

definition principal_for_user ::
    "cp_user \<Rightarrow> string \<Rightarrow> string option \<Rightarrow> control_plane \<Rightarrow> cp_error + cp_principal" where
  "principal_for_user user via active_org st =
     (let orgs = org_ids_for_user (du_id user) st;
          active = (case active_org of None \<Rightarrow> None | Some o_id \<Rightarrow> if o_id \<in> orgs then Some o_id else None)
      in mk_cp_principal (du_id user) {global_role_value (du_role user)} orgs active
           (if via \<in> set auth_vias then via else ''session''))"

text \<open>The user and the principal of a row's user column, shared by both resolvers.\<close>

definition active_principal ::
    "string \<Rightarrow> string \<Rightarrow> string \<Rightarrow> control_plane \<Rightarrow> cp_error + (cp_principal \<times> string) option" where
  "active_principal user_id via proof_id st =
     (case cp_get_user user_id st of
        Inl e \<Rightarrow> Inl e
      | Inr None \<Rightarrow> Inr None
      | Inr (Some user) \<Rightarrow>
          if du_status user \<noteq> Status_Active then Inr None
          else (case principal_for_user user via None st of
                  Inl e \<Rightarrow> Inl e
                | Inr p \<Rightarrow> Inr (Some (p, proof_id))))"

definition resolve_session_with_id ::
    "sha \<Rightarrow> time \<Rightarrow> string \<Rightarrow> control_plane \<Rightarrow>
     (cp_error + (cp_principal \<times> string) option) \<times> control_plane" where
  "resolve_session_with_id sha now raw_token st =
     (if raw_token = [] then (Inr None, st)
      else
        (case find_row (\<lambda>_ s. se_hash s = sha raw_token) (cp_sessions st) of
           None \<Rightarrow> (Inr None, st)
         | Some (sid, s) \<Rightarrow>
             if se_expires s < now
             then (Inr None,
                   st\<lparr>cp_sessions := filter (\<lambda>(_, s). se_hash s \<noteq> sha raw_token) (cp_sessions st)\<rparr>)
             else (active_principal (se_user s) ''session'' sid st, st)))"

definition resolve_session ::
    "sha \<Rightarrow> time \<Rightarrow> string \<Rightarrow> control_plane \<Rightarrow> (cp_error + cp_principal option) \<times> control_plane" where
  "resolve_session sha now raw_token st =
     (case resolve_session_with_id sha now raw_token st of
        (Inl e, st') \<Rightarrow> (Inl e, st')
      | (Inr got, st') \<Rightarrow> (Inr (map_option fst got), st'))"

definition cp_revoke_session :: "sha \<Rightarrow> string \<Rightarrow> control_plane \<Rightarrow> bool \<times> control_plane" where
  "cp_revoke_session sha raw_token st =
     (if raw_token = [] then (False, st)
      else (0 < count_rows (\<lambda>_ s. se_hash s = sha raw_token) (cp_sessions st),
            st\<lparr>cp_sessions := filter (\<lambda>(_, s). se_hash s \<noteq> sha raw_token) (cp_sessions st)\<rparr>))"

definition create_api_key ::
    "sha \<Rightarrow> string \<Rightarrow> string \<Rightarrow> time \<Rightarrow> string \<Rightarrow> string \<Rightarrow> control_plane \<Rightarrow>
     (cp_error + api_key_record \<times> string) \<times> control_plane" where
  "create_api_key sha fresh token now user_id name st =
     (let label = str_or (py_strip name) ''default''; raw = api_key_prefix @ token;
          pre = take 12 raw; kid = ''key:'' @ fresh;
          row = \<lparr>ak_user = user_id, ak_name = label, ak_hash = sha raw, ak_prefix = pre,
                 ak_created = now, ak_revoked = None\<rparr>
      in case insert_unique ak_hash kid row (cp_keys st) of
           None \<Rightarrow> (Inl Unique_Violation, st)
         | Some rows \<Rightarrow>
             (Inr (\<lparr>ar_id = kid, ar_user = user_id, ar_name = label, ar_prefix = pre,
                    ar_created = now, ar_revoked = None\<rparr>, raw),
              st\<lparr>cp_keys := rows\<rparr>))"

definition list_api_keys :: "string \<Rightarrow> control_plane \<Rightarrow> api_key_record list" where
  "list_api_keys user_id st =
     map (\<lambda>(k, r). \<lparr>ar_id = k, ar_user = ak_user r, ar_name = ak_name r, ar_prefix = ak_prefix r,
                     ar_created = ak_created r, ar_revoked = ak_revoked r\<rparr>)
       (sort_key (\<lambda>(_, r). - ak_created r) (filter (\<lambda>(_, r). ak_user r = user_id) (cp_keys st)))"

definition revoke_api_key :: "time \<Rightarrow> string \<Rightarrow> string option \<Rightarrow> control_plane \<Rightarrow> bool \<times> control_plane" where
  "revoke_api_key now key_id user_id st =
     (let P = (\<lambda>k r. k = key_id \<and> (case user_id of None \<Rightarrow> True | Some u \<Rightarrow> ak_user r = u) \<and>
                     ak_revoked r = None)
      in (0 < count_rows P (cp_keys st),
          st\<lparr>cp_keys := update_rows P (\<lambda>r. r\<lparr>ak_revoked := Some now\<rparr>) (cp_keys st)\<rparr>))"

definition resolve_api_key_with_id ::
    "sha \<Rightarrow> string \<Rightarrow> control_plane \<Rightarrow> cp_error + (cp_principal \<times> string) option" where
  "resolve_api_key_with_id sha raw_key st =
     (if raw_key = [] then Inr None
      else
        (case find_row (\<lambda>_ r. ak_hash r = sha raw_key) (cp_keys st) of
           None \<Rightarrow> Inr None
         | Some (key_id, r) \<Rightarrow>
             if ak_revoked r \<noteq> None then Inr None
             else active_principal (ak_user r) ''api_key'' key_id st))"

definition resolve_api_key :: "sha \<Rightarrow> string \<Rightarrow> control_plane \<Rightarrow> cp_error + cp_principal option" where
  "resolve_api_key sha raw_key st = (case resolve_api_key_with_id sha raw_key st of
     Inl e \<Rightarrow> Inl e | Inr got \<Rightarrow> Inr (map_option fst got))"

subsection \<open>Organizations and job launches\<close>

definition new_org_id :: "string \<Rightarrow> string" where
  "new_org_id fresh = ''org:'' @ fresh"

definition create_org ::
    "string \<Rightarrow> time \<Rightarrow> string \<Rightarrow> string \<Rightarrow> control_plane \<Rightarrow> (cp_error + org_record) \<times> control_plane" where
  "create_org fresh now name created_by st =
     (let label = py_strip name
      in if label = [] then (Inl (Value_Error ''org name must be non-empty''), st)
         else
           (let oid = new_org_id fresh
            in if map_of (cp_orgs st) oid \<noteq> None then (Inl Unique_Violation, st)
               else
                 (let st' = st\<lparr>cp_orgs := cp_orgs st @ [(oid, \<lparr>og_name = label, og_by = created_by, og_created = now\<rparr>)]\<rparr>
                  in if map_of (cp_members st) (oid, created_by) \<noteq> None then (Inl Unique_Violation, st')
                     else (Inr \<lparr>or_id = oid, or_name = label, or_created_by = created_by, or_created = now\<rparr>,
                           st'\<lparr>cp_members := cp_members st @ [((oid, created_by), org_role_value Org_Owner)]\<rparr>))))"

definition row_org :: "string \<Rightarrow> org_row \<Rightarrow> org_record" where
  "row_org oid r = \<lparr>or_id = oid, or_name = og_name r, or_created_by = og_by r, or_created = og_created r\<rparr>"

definition get_org :: "string \<Rightarrow> control_plane \<Rightarrow> org_record option" where
  "get_org org_id st = map_option (row_org org_id) (map_of (cp_orgs st) org_id)"

definition list_orgs_for_user :: "string \<Rightarrow> control_plane \<Rightarrow> org_record list" where
  "list_orgs_for_user user_id st =
     map (\<lambda>(oid, r). row_org oid r)
       (sort_key (\<lambda>(_, r). og_created r)
         (filter (\<lambda>(oid, _). map_of (cp_members st) (oid, user_id) \<noteq> None) (cp_orgs st)))"

definition is_org_member :: "string \<Rightarrow> string \<Rightarrow> control_plane \<Rightarrow> bool" where
  "is_org_member org_id user_id st \<longleftrightarrow> map_of (cp_members st) (org_id, user_id) \<noteq> None"

definition member_role :: "string \<Rightarrow> string \<Rightarrow> control_plane \<Rightarrow> cp_error + org_role option" where
  "member_role org_id user_id st = (case map_of (cp_members st) (org_id, user_id) of
     None \<Rightarrow> Inr None
   | Some raw \<Rightarrow> (case org_role_of raw of Inl e \<Rightarrow> Inl e | Inr r \<Rightarrow> Inr (Some r)))"

definition add_org_member ::
    "string \<Rightarrow> string \<Rightarrow> org_role \<Rightarrow> string \<Rightarrow> bool \<Rightarrow> control_plane \<Rightarrow>
     (cp_error + org_member) \<times> control_plane" where
  "add_org_member org_id user_id role actor actor_is_admin st =
     (let write = (Inr \<lparr>om_org = org_id, om_user = user_id, om_role = role\<rparr>,
                   st\<lparr>cp_members := AList.update (org_id, user_id) (org_role_value role) (cp_members st)\<rparr>)
      in if get_org org_id st = None then (Inl (Value_Error (''org not found: '' @ org_id)), st)
         else if actor_is_admin then write
         else (case member_role org_id actor st of
                 Inl e \<Rightarrow> (Inl e, st)
               | Inr r \<Rightarrow> if r \<noteq> Some Org_Owner
                   then (Inl (Permission_Error ''only org owner or admin may add members''), st)
                   else write))"

definition remove_org_member ::
    "string \<Rightarrow> string \<Rightarrow> string \<Rightarrow> bool \<Rightarrow> control_plane \<Rightarrow> (cp_error + bool) \<times> control_plane" where
  "remove_org_member org_id user_id actor actor_is_admin st =
     (let delete = (Inr (map_of (cp_members st) (org_id, user_id) \<noteq> None),
                    st\<lparr>cp_members := AList.delete (org_id, user_id) (cp_members st)\<rparr>)
      in if actor_is_admin then delete
         else (case member_role org_id actor st of
                 Inl e \<Rightarrow> (Inl e, st)
               | Inr r \<Rightarrow> if r \<noteq> Some Org_Owner \<and> actor \<noteq> user_id
                   then (Inl (Permission_Error ''only owner/admin may remove members''), st)
                   else delete))"

definition list_org_members :: "string \<Rightarrow> control_plane \<Rightarrow> cp_error + org_member list" where
  "list_org_members org_id st =
     all_ok (map (\<lambda>((oid, u), raw). case org_role_of raw of
         Inl e \<Rightarrow> Inl e | Inr r \<Rightarrow> Inr \<lparr>om_org = oid, om_user = u, om_role = r\<rparr>)
       (filter (\<lambda>((oid, _), _). oid = org_id) (cp_members st)))"

definition record_job_launch :: "time \<Rightarrow> string \<Rightarrow> string \<Rightarrow> string option \<Rightarrow> control_plane \<Rightarrow> control_plane" where
  "record_job_launch now job_id launched_by org_id st =
     st\<lparr>cp_jobs := AList.update job_id
          \<lparr>jl_by = launched_by, jl_org = org_id,
           jl_created = (case map_of (cp_jobs st) job_id of None \<Rightarrow> now | Some r \<Rightarrow> jl_created r)\<rparr>
          (cp_jobs st)\<rparr>"

definition get_job_meta :: "string \<Rightarrow> control_plane \<Rightarrow> string option \<times> string option" where
  "get_job_meta job_id st = (case map_of (cp_jobs st) job_id of
     None \<Rightarrow> (None, None) | Some r \<Rightarrow> (Some (jl_by r), jl_org r))"

definition job_meta_map :: "string list \<Rightarrow> control_plane \<Rightarrow> (string, string option \<times> string option) dict" where
  "job_meta_map job_ids st =
     map (\<lambda>(j, r). (j, (Some (jl_by r), jl_org r))) (filter (\<lambda>(j, _). j \<in> set job_ids) (cp_jobs st))"

subsection \<open>Platform links\<close>

definition link_ttl :: int where
  "link_ttl = 600"

definition create_link_code ::
    "sha \<Rightarrow> string \<Rightarrow> string \<Rightarrow> time \<Rightarrow> string \<Rightarrow> string option \<Rightarrow> int \<Rightarrow> control_plane \<Rightarrow>
     (cp_error + string \<times> string) \<times> control_plane" where
  "create_link_code sha fresh token now user_id platform ttl_seconds st =
     (if platform \<noteq> None \<and> platform \<noteq> Some ''telegram'' \<and> platform \<noteq> Some ''discord''
      then (Inl (Value_Error ''platform must be telegram, discord, or None''), st)
      else
        (let code_id = ''lnk:'' @ fresh;
             row = \<lparr>lc_user = user_id, lc_platform = platform, lc_hash = sha token,
                    lc_expires = now + of_int ttl_seconds, lc_created = now, lc_consumed = None\<rparr>
         in case insert_unique lc_hash code_id row (cp_links st) of
              None \<Rightarrow> (Inl Unique_Violation, st)
            | Some rows \<Rightarrow> (Inr (code_id, token), st\<lparr>cp_links := rows\<rparr>)))"

definition load_valid_link_code ::
    "time \<Rightarrow> string \<Rightarrow> string \<Rightarrow> control_plane \<Rightarrow> cp_error + string \<times> string" where
  "load_valid_link_code now token_hash platform st =
     (case find_row (\<lambda>_ r. lc_hash r = token_hash) (cp_links st) of
        None \<Rightarrow> Inl (Value_Error ''invalid or expired link code'')
      | Some (code_id, r) \<Rightarrow>
          if lc_consumed r \<noteq> None then Inl (Value_Error ''link code already used'')
          else if lc_expires r < now then Inl (Value_Error ''link code expired'')
          else (case lc_platform r of
                  None \<Rightarrow> Inr (code_id, lc_user r)
                | Some want \<Rightarrow> if want \<noteq> platform
                    then Inl (Value_Error (''code is for '' @ want @ '', not '' @ platform))
                    else Inr (code_id, lc_user r)))"

definition claim_link_code :: "string \<Rightarrow> time \<Rightarrow> control_plane \<Rightarrow> (cp_error + unit) \<times> control_plane" where
  "claim_link_code code_id now_s st =
     (let P = (\<lambda>i r. i = code_id \<and> lc_consumed r = None \<and> now_s < lc_expires r);
          st' = st\<lparr>cp_links := update_rows P (\<lambda>r. r\<lparr>lc_consumed := Some now_s\<rparr>) (cp_links st)\<rparr>
      in if count_rows P (cp_links st) \<noteq> 1 then (Inl (Value_Error ''link code already used''), st')
         else (Inr (), st'))"

text \<open>
  The old keys are read before the first DELETE, and each is deleted by its key alone.
\<close>

definition attach_platform_identity ::
    "string \<Rightarrow> string \<Rightarrow> string \<Rightarrow> string \<Rightarrow> control_plane \<Rightarrow> (cp_error + unit) \<times> control_plane" where
  "attach_platform_identity user_id platform platform_uid canonical st =
     (let existing = map_option pi_user (map_of (cp_idents st) canonical)
      in if existing \<noteq> None \<and> existing \<noteq> Some user_id
         then (Inl (Value_Error (''platform identity already linked: '' @ canonical)), st)
         else
           (let old_keys = map fst (filter (\<lambda>(_, r). pi_user r = user_id \<and> pi_platform r = platform) (cp_idents st));
                st' = st\<lparr>cp_idents := filter (\<lambda>(k, _). k = canonical \<or> k \<notin> set old_keys) (cp_idents st)\<rparr>;
                row = \<lparr>pi_platform = platform, pi_uid = platform_uid, pi_user = user_id\<rparr>
            in if existing \<noteq> None then (Inr (), st')
               else (case insert_unique (\<lambda>r. (pi_platform r, pi_uid r)) canonical row (cp_idents st') of
                       None \<Rightarrow> (Inl Unique_Violation, st')
                     | Some rows \<Rightarrow> (Inr (), st'\<lparr>cp_idents := rows\<rparr>))))"

text \<open>
  \<open>now_s\<close> is read before the row is loaded, \<open>now\<close> with it. The claim is an
  uncommitted UPDATE when attaching raises; no operation rolls back, so the connection keeps it
  and the next commit makes it permanent.
\<close>

definition consume_link_code ::
    "sha \<Rightarrow> time \<Rightarrow> time \<Rightarrow> string \<Rightarrow> string \<Rightarrow> control_plane \<Rightarrow> (cp_error + string) \<times> control_plane" where
  "consume_link_code sha now_s now raw_token platform_key st =
     (case parse_platform_key platform_key of
        None \<Rightarrow> (Inl (Value_Error (''invalid platform key: '' @ py_repr platform_key)), st)
      | Some (platform, platform_uid, canonical) \<Rightarrow>
          (case load_valid_link_code now (sha raw_token) platform st of
             Inl e \<Rightarrow> (Inl e, st)
           | Inr (code_id, user_id) \<Rightarrow>
               (case claim_link_code code_id now_s st of
                  (Inl e, st') \<Rightarrow> (Inl e, st')
                | (Inr _, st') \<Rightarrow>
                    (case attach_platform_identity user_id platform platform_uid canonical st' of
                       (Inl e, st'') \<Rightarrow> (Inl e, st'')
                     | (Inr _, st'') \<Rightarrow> (Inr user_id, st'')))))"

definition list_platform_links :: "string \<Rightarrow> control_plane \<Rightarrow> (string \<times> string) list" where
  "list_platform_links user_id st =
     map (\<lambda>(k, r). (pi_platform r, k))
       (sort_key (\<lambda>(_, r). pi_platform r) (filter (\<lambda>(_, r). pi_user r = user_id) (cp_idents st)))"

definition chat_ready :: "string \<Rightarrow> control_plane \<Rightarrow> bool" where
  "chat_ready user_id st =
     (let platforms = fst ` set (list_platform_links user_id st)
      in ''telegram'' \<in> platforms \<and> ''discord'' \<in> platforms)"

definition unlink_platform :: "string \<Rightarrow> string \<Rightarrow> control_plane \<Rightarrow> (cp_error + bool) \<times> control_plane" where
  "unlink_platform user_id platform st =
     (if platform \<noteq> ''telegram'' \<and> platform \<noteq> ''discord''
      then (Inl (Value_Error ''platform must be telegram or discord''), st)
      else
        (let P = (\<lambda>_ r. pi_user r = user_id \<and> pi_platform r = platform)
         in (Inr (0 < count_rows P (cp_idents st)),
             st\<lparr>cp_idents := filter (\<lambda>(k, r). \<not> P k r) (cp_idents st)\<rparr>)))"

definition dash_user_for_platform :: "string \<Rightarrow> control_plane \<Rightarrow> string option" where
  "dash_user_for_platform platform_key st = map_option pi_user (map_of (cp_idents st) platform_key)"

definition is_platform_chat_ready :: "string \<Rightarrow> control_plane \<Rightarrow> bool" where
  "is_platform_chat_ready platform_key st =
     (if parse_platform_key platform_key = None then False
      else (case map_of (cp_idents st) platform_key of
              None \<Rightarrow> False | Some r \<Rightarrow> chat_ready (pi_user r) st))"

subsection \<open>Authorization\<close>

record resource_ref =
  rr_kind :: string
  rr_owner :: "string option"
  rr_org :: "string option"
  rr_id :: "string option"

record authz_decision =
  az_allowed :: bool
  az_reason :: string

definition admin_only_actions :: "string list" where
  "admin_only_actions = [''agents.write'', ''agents.soul.write'', ''users.invite'', ''users.admin'']"

definition can_mutate_agents :: "cp_principal \<Rightarrow> bool" where
  "can_mutate_agents p = cp_is_admin p"

definition cp_authorize :: "cp_principal \<Rightarrow> string \<Rightarrow> resource_ref option \<Rightarrow> authz_decision" where
  "cp_authorize p action resource =
     (if ''admin'' \<in> pp_roles p then \<lparr>az_allowed = True, az_reason = ''admin''\<rparr>
      else if action \<in> set admin_only_actions then \<lparr>az_allowed = False, az_reason = ''admin_only''\<rparr>
      else if action = ''orgs.create'' then \<lparr>az_allowed = True, az_reason = ''member_create_org''\<rparr>
      else (case resource of
              None \<Rightarrow> \<lparr>az_allowed = False, az_reason = ''no_resource''\<rparr>
            | Some r \<Rightarrow>
                if rr_owner r \<noteq> None \<and> rr_owner r \<noteq> Some [] \<and> rr_owner r = Some (pp_user p)
                then \<lparr>az_allowed = True, az_reason = ''owner''\<rparr>
                else (case rr_org r of
                        Some org \<Rightarrow> if org \<noteq> [] \<and> org \<in> pp_orgs p
                          then \<lparr>az_allowed = True, az_reason = ''org_member''\<rparr>
                          else \<lparr>az_allowed = False, az_reason = ''denied''\<rparr>
                      | None \<Rightarrow> \<lparr>az_allowed = False, az_reason = ''denied''\<rparr>)))"

text \<open>A job row is its identifier, \<open>str(row.get("job_id") or "")\<close>, and the rest of its fields.\<close>

definition filter_jobs_visible ::
    "cp_principal \<Rightarrow> (string \<times> 'a) list \<Rightarrow> (string, string option \<times> string option) dict \<Rightarrow>
     (string \<times> 'a) list" where
  "filter_jobs_visible p jobs meta_by_job =
     (if cp_is_admin p then jobs
      else filter (\<lambda>(jid, _).
             let (launched_by, org_id) = (case map_of meta_by_job jid of None \<Rightarrow> (None, None) | Some m \<Rightarrow> m)
             in az_allowed (cp_authorize p ''jobs.read''
                  (Some \<lparr>rr_kind = ''job'', rr_owner = launched_by, rr_org = org_id, rr_id = None\<rparr>))) jobs)"

end
