(* ===== verification/Control_Plane_Laws.thy ===== *)
theory Control_Plane_Laws
  imports Control_Plane
begin

text \<open>
  Histories of the dashboard's identity store and what holds along them: the invariant of the
  tables, the operations each table is left alone by, and the locale \<open>one_way\<close> of
  Sql_Table interpreted on accepted invites, consumed link codes, revoked API keys and disabled
  accounts.
\<close>

subsection \<open>Histories of the store\<close>

text \<open>Every mutation, with what it draws from outside; a history is a list of them.\<close>

datatype cp_op =
    Op_Create_User string bytes time string string global_role "string option" "string option"
  | Op_Set_Password bytes string string
  | Op_Set_Status string string
  | Op_Bootstrap string bytes time string string string
  | Op_Create_Invite string string time string string time "string option"
  | Op_Revoke_Invite string
  | Op_Accept_Invite string bytes time string string "string option"
  | Op_Create_Session string string time string int
  | Op_Resolve_Session time string
  | Op_Revoke_Session string
  | Op_Revoke_User_Sessions string
  | Op_Create_Key string string time string string
  | Op_Revoke_Key time string "string option"
  | Op_Create_Org string time string string
  | Op_Add_Member string string org_role string bool
  | Op_Remove_Member string string string bool
  | Op_Record_Job time string string "string option"
  | Op_Create_Link string string time string "string option" int
  | Op_Consume_Link time time string string
  | Op_Unlink string string

fun cp_step :: "sha \<Rightarrow> kdf \<Rightarrow> control_plane \<Rightarrow> cp_op \<Rightarrow> control_plane" where
  "cp_step sha kdf st (Op_Create_User fresh salt now email pw role name uid) =
     snd (cp_create_user kdf fresh salt now email pw role name uid st)"
| "cp_step sha kdf st (Op_Set_Password salt uid pw) = snd (set_password kdf salt uid pw st)"
| "cp_step sha kdf st (Op_Set_Status uid status) = set_user_status uid status st"
| "cp_step sha kdf st (Op_Bootstrap fresh salt now email pw name) =
     snd (bootstrap_admin_if_empty kdf fresh salt now email pw name st)"
| "cp_step sha kdf st (Op_Create_Invite fresh token now email by expires raw) =
     snd (create_invite sha fresh token now email by expires raw st)"
| "cp_step sha kdf st (Op_Revoke_Invite iid) = snd (revoke_invite iid st)"
| "cp_step sha kdf st (Op_Accept_Invite fresh salt now raw pw name) =
     snd (accept_invite sha kdf fresh salt now raw pw name st)"
| "cp_step sha kdf st (Op_Create_Session fresh token now uid ttl) =
     snd (create_session sha fresh token now uid ttl st)"
| "cp_step sha kdf st (Op_Resolve_Session now raw) = snd (resolve_session sha now raw st)"
| "cp_step sha kdf st (Op_Revoke_Session raw) = snd (cp_revoke_session sha raw st)"
| "cp_step sha kdf st (Op_Revoke_User_Sessions uid) = snd (revoke_user_sessions uid st)"
| "cp_step sha kdf st (Op_Create_Key fresh token now uid name) =
     snd (create_api_key sha fresh token now uid name st)"
| "cp_step sha kdf st (Op_Revoke_Key now kid uid) = snd (revoke_api_key now kid uid st)"
| "cp_step sha kdf st (Op_Create_Org fresh now name by) = snd (create_org fresh now name by st)"
| "cp_step sha kdf st (Op_Add_Member oid uid role actor adm) =
     snd (add_org_member oid uid role actor adm st)"
| "cp_step sha kdf st (Op_Remove_Member oid uid actor adm) =
     snd (remove_org_member oid uid actor adm st)"
| "cp_step sha kdf st (Op_Record_Job now job by org) = record_job_launch now job by org st"
| "cp_step sha kdf st (Op_Create_Link fresh token now uid platform ttl) =
     snd (create_link_code sha fresh token now uid platform ttl st)"
| "cp_step sha kdf st (Op_Consume_Link now_s now raw key) =
     snd (consume_link_code sha now_s now raw key st)"
| "cp_step sha kdf st (Op_Unlink uid platform) = snd (unlink_platform uid platform st)"

subsection \<open>What each operation does to the tables\<close>

text \<open>
  The tables an operation leaves alone, and the few ways the others change.
\<close>

lemma insert_cp_user_cases:
  assumes "insert_cp_user uid row st = Some st'"
  shows "st' = st\<lparr>cp_users := cp_users st @ [(uid, row)]\<rparr> \<and> uid \<notin> fst ` set (cp_users st) \<and>
    (\<forall>p \<in> set (cp_users st). uc_email row \<noteq> None \<longrightarrow> uc_email (snd p) \<noteq> uc_email row)"
  using assms by (auto simp: insert_cp_user_def list_ex_iff map_of_eq_None_iff split: if_splits)

lemma insert_and_read_cases:
  obtains "insert_cp_user uid row st = None" "snd (insert_and_read uid row m st) = st"
    "\<not> is_ok (fst (insert_and_read uid row m st))"
  | "insert_cp_user uid row st = Some (snd (insert_and_read uid row m st))"
  by (cases "insert_cp_user uid row st")
     (auto simp: insert_and_read_def split: sum.splits option.splits)

lemma create_user_cases:
  obtains "snd (cp_create_user kdf fresh salt now email pw role name uid st) = st"
    "\<not> is_ok (fst (cp_create_user kdf fresh salt now email pw role name uid st))"
  | i row where "insert_cp_user i row st = Some (snd (cp_create_user kdf fresh salt now email pw role name uid st))"
      "uc_email row = Some (cp_normalize_email email)" "cp_normalize_email email \<noteq> []"
      "uc_role row = global_role_value role" "uc_status row = ''active''"
      "\<exists>h. hash_password kdf salt pw = Inr h \<and> uc_hash row = Some h"
      "uid = None \<Longrightarrow> i = user_id_prefix @ fresh"
proof (cases "cp_normalize_email email = [] \<or> \<not> is_ok (hash_password kdf salt pw)")
  case True
  then show ?thesis
    using that(1) by (auto simp: cp_create_user_def Let_def is_ok_def split: sum.splits)
next
  case False
  then obtain h where h: "hash_password kdf salt pw = Inr h" and ne: "cp_normalize_email email \<noteq> []"
    by (auto simp: is_ok_def split: sum.splits)
  then obtain i row m where
    eq: "cp_create_user kdf fresh salt now email pw role name uid st = insert_and_read i row m st"
    and row: "uc_email row = Some (cp_normalize_email email)" "uc_role row = global_role_value role"
      "uc_status row = ''active''" "uc_hash row = Some h" "uid = None \<Longrightarrow> i = user_id_prefix @ fresh"
    by (fastforce simp: cp_create_user_def Let_def user_status_value_def)
  show ?thesis
    by (rule insert_and_read_cases [of i row st m])
       (use that row ne h in \<open>auto simp: eq\<close>)
qed

subsection \<open>The invariant of the tables\<close>

definition mails_unique :: "(string, cp_user_row) dict \<Rightarrow> bool" where
  "mails_unique us \<longleftrightarrow>
     (\<forall>p \<in> set us. \<forall>q \<in> set us. uc_email (snd p) \<noteq> None \<longrightarrow> uc_email (snd p) = uc_email (snd q) \<longrightarrow> p = q)"

lemma mails_uniqueD:
  "mails_unique us \<Longrightarrow> p \<in> set us \<Longrightarrow> q \<in> set us \<Longrightarrow> uc_email (snd p) \<noteq> None \<Longrightarrow>
     uc_email (snd p) = uc_email (snd q) \<Longrightarrow> p = q"
  by (simp add: mails_unique_def)

definition users_ok :: "(string, cp_user_row) dict \<Rightarrow> bool" where
  "users_ok us \<longleftrightarrow> dict_wf us \<and> mails_unique us \<and>
     (\<forall>p \<in> set us. uc_role (snd p) = ''admin'' \<or> uc_role (snd p) = ''member'')"

definition token_table_ok :: "('r \<Rightarrow> 'c) \<Rightarrow> ('k, 'r) dict \<Rightarrow> bool" where
  "token_table_ok hash t \<longleftrightarrow> dict_wf t \<and> unique_on hash t"

definition invites_ok :: "(string, invite_row) dict \<Rightarrow> bool" where
  "invites_ok t \<longleftrightarrow> token_table_ok iv_hash t \<and>
     (\<forall>p \<in> set t. iv_status (snd p) \<in>
        {''pending'', ''accepted'', ''revoked'', ''expired''})"

definition members_ok :: "(string \<times> string, string) dict \<Rightarrow> bool" where
  "members_ok t \<longleftrightarrow> dict_wf t \<and> (\<forall>p \<in> set t. snd p = ''owner'' \<or> snd p = ''member'')"

definition idents_ok :: "ident_table \<Rightarrow> bool" where
  "idents_ok t \<longleftrightarrow> token_table_ok (\<lambda>r. (pi_platform r, pi_uid r)) t \<and>
     (\<forall>p \<in> set t. parse_platform_key (fst p) = Some (pi_platform (snd p), pi_uid (snd p), fst p))"

definition cp_inv :: "control_plane \<Rightarrow> bool" where
  "cp_inv st \<longleftrightarrow> users_ok (cp_users st) \<and> invites_ok (cp_invites st) \<and>
     token_table_ok se_hash (cp_sessions st) \<and> token_table_ok ak_hash (cp_keys st) \<and>
     dict_wf (cp_orgs st) \<and> members_ok (cp_members st) \<and> dict_wf (cp_jobs st) \<and>
     token_table_ok lc_hash (cp_links st) \<and> idents_ok (cp_idents st)"

lemma cp_inv_init [simp]: "cp_inv cp_init"
  by (simp add: cp_inv_def cp_init_def users_ok_def mails_unique_def invites_ok_def token_table_ok_def members_ok_def
      idents_ok_def)

lemma token_table_filter [simp, intro]: "token_table_ok h t \<Longrightarrow> token_table_ok h (filter P t)"
  by (simp add: token_table_ok_def)

lemma token_table_update:
  "(\<And>r. h (f r) = h r) \<Longrightarrow> token_table_ok h (update_rows P f t) \<longleftrightarrow> token_table_ok h t"
  by (simp add: token_table_ok_def)

lemma token_table_insert:
  "insert_unique h k r t = Some t' \<Longrightarrow> token_table_ok h t \<Longrightarrow> token_table_ok h t'"
  by (simp add: token_table_ok_def insert_unique_wf)

lemma users_ok_insert:
  assumes "insert_cp_user uid row st = Some st'" "cp_inv st"
    "uc_role row = ''admin'' \<or> uc_role row = ''member''"
  shows "cp_inv st'"
proof -
  have st': "st' = st\<lparr>cp_users := cp_users st @ [(uid, row)]\<rparr>" and new: "uid \<notin> fst ` set (cp_users st)"
    and mail: "\<forall>p \<in> set (cp_users st). uc_email row \<noteq> None \<longrightarrow> uc_email (snd p) \<noteq> uc_email row"
    using insert_cp_user_cases [OF assms(1)] by simp_all
  have ok: "users_ok (cp_users st)" using assms(2) by (simp add: cp_inv_def)
  have "mails_unique (cp_users st @ [(uid, row)])"
    unfolding mails_unique_def
  proof (intro ballI impI)
    fix p q assume "p \<in> set (cp_users st @ [(uid, row)])" "q \<in> set (cp_users st @ [(uid, row)])"
      and e: "uc_email (snd p) \<noteq> None" "uc_email (snd p) = uc_email (snd q)"
    then consider "p \<in> set (cp_users st)" "q \<in> set (cp_users st)" | "p = q"
      | "p \<in> set (cp_users st)" "q = (uid, row)" | "p = (uid, row)" "q \<in> set (cp_users st)"
      by auto
    then show "p = q"
    proof cases
      case 1
      with ok e show ?thesis by (auto simp: users_ok_def intro: mails_uniqueD)
    next
      case 3
      with mail e show ?thesis by simp
    next
      case 4
      with mail e have "uc_email (snd q) \<noteq> uc_email row" by auto
      with 4 e show ?thesis by simp
    qed
  qed
  then have "users_ok (cp_users st @ [(uid, row)])"
    using ok new assms(3) by (auto simp: users_ok_def dict_wf_append_new)
  with assms(2) show ?thesis by (simp add: st' cp_inv_def)
qed

lemma users_ok_update:
  assumes "users_ok us" "\<And>r. uc_email (f r) = uc_email r"
    "\<And>r. uc_role (f r) = uc_role r \<or> uc_role (f r) = ''admin''"
  shows "users_ok (update_rows P f us)"
proof -
  have mail: "uc_email (if b then f r else r) = uc_email r" for b r using assms(2) by simp
  have role: "uc_role r = ''admin'' \<or> uc_role r = ''member'' \<Longrightarrow>
      uc_role (if b then f r else r) = ''admin'' \<or> uc_role (if b then f r else r) = ''member''" for b r
    using assms(3) [of r] by auto
  have "mails_unique (update_rows P f us)"
    unfolding mails_unique_def
  proof (intro ballI impI)
    fix p q assume "p \<in> set (update_rows P f us)" "q \<in> set (update_rows P f us)"
      and e: "uc_email (snd p) \<noteq> None" "uc_email (snd p) = uc_email (snd q)"
    then obtain r s where r: "(fst p, r) \<in> set us" "snd p = (if P (fst p) r then f r else r)"
      and s: "(fst q, s) \<in> set us" "snd q = (if P (fst q) s then f s else s)"
      by (auto simp: set_update_rows)
    have "mails_unique us" using assms(1) by (simp add: users_ok_def)
    then have "(fst p, r) = (fst q, s)"
      by (rule mails_uniqueD [OF _ r(1) s(1)]) (use e r(2) s(2) mail in simp_all)
    with r(2) s(2) show "p = q" by (simp add: prod_eq_iff)
  qed
  moreover have "uc_role (snd p) = ''admin'' \<or> uc_role (snd p) = ''member''"
    if p: "p \<in> set (update_rows P f us)" for p
  proof -
    obtain r where "(fst p, r) \<in> set us" "snd p = (if P (fst p) r then f r else r)"
      using p by (auto simp: set_update_rows)
    with assms(1) role [of r "P (fst p) r"] show ?thesis by (force simp: users_ok_def)
  qed
  ultimately show ?thesis using assms(1) by (simp add: users_ok_def)
qed

lemma create_user_inv [inv_intros]:
  "cp_inv st \<Longrightarrow> cp_inv (snd (cp_create_user kdf fresh salt now email pw role name uid st))"
  by (rule create_user_cases [of kdf fresh salt now email pw role name uid st])
     (auto simp: global_role_value_def split: global_role.splits elim!: users_ok_insert)

lemma set_password_inv [inv_intros]: "cp_inv st \<Longrightarrow> cp_inv (snd (set_password kdf salt uid pw st))"
  by (auto simp: set_password_def cp_inv_def users_ok_update split: sum.splits)

lemma revoke_user_sessions_inv [inv_intros]: "cp_inv st \<Longrightarrow> cp_inv (snd (revoke_user_sessions uid st))"
  by (simp add: revoke_user_sessions_def cp_inv_def)

lemma set_user_status_inv [inv_intros]: "cp_inv st \<Longrightarrow> cp_inv (set_user_status uid status st)"
  by (auto simp: set_user_status_def revoke_user_sessions_def Let_def cp_inv_def users_ok_update)

lemma bootstrap_inv [inv_intros]:
  assumes "cp_inv st"
  shows "cp_inv (snd (bootstrap_admin_if_empty kdf fresh salt now email pw name st))"
proof -
  have "cp_inv (st\<lparr>cp_users := update_rows P (\<lambda>r. r\<lparr>uc_role := global_role_value Role_Admin,
      uc_status := s, uc_hash := h, uc_name := g r\<rparr>) (cp_users st)\<rparr>)" for P s h g
    using assms by (simp add: cp_inv_def users_ok_update global_role_value_def)
  then show ?thesis
    using assms create_user_inv [OF assms, of kdf fresh salt now email pw Role_Admin "Some name" None]
    by (auto simp: bootstrap_admin_if_empty_def Let_def split: sum.splits option.splits prod.splits)
qed

lemma set_invite_status_inv [inv_intros]: "cp_inv st \<Longrightarrow> cp_inv (set_invite_status P s st)"
proof -
  assume inv: "cp_inv st"
  have "invite_status_value s \<in> {''pending'', ''accepted'', ''revoked'', ''expired''}"
    by (cases s) (simp_all add: invite_status_value_def)
  with inv have "invites_ok (update_rows P (\<lambda>r. r\<lparr>iv_status := invite_status_value s\<rparr>) (cp_invites st))"
    by (force simp: cp_inv_def invites_ok_def token_table_update set_update_rows split: if_splits)
  with inv show ?thesis by (simp add: set_invite_status_def cp_inv_def)
qed

lemma create_invite_inv [inv_intros]:
  assumes "cp_inv st"
  shows "cp_inv (snd (create_invite sha fresh token now email by_id expires raw st))"
proof -
  have "cp_inv (st\<lparr>cp_invites := rows\<rparr>)"
    if "insert_unique iv_hash k r (cp_invites st) = Some rows" "iv_status r = ''pending''" for k r rows
    using that assms token_table_insert [OF that(1)]
    by (auto simp: cp_inv_def invites_ok_def insert_unique_iff)
  then show ?thesis
    using assms
    by (auto simp: create_invite_def Let_def invite_status_value_def split: sum.splits option.splits)
qed

lemma revoke_invite_inv [inv_intros]: "cp_inv st \<Longrightarrow> cp_inv (snd (revoke_invite iid st))"
  by (simp add: revoke_invite_def Let_def set_invite_status_inv)

lemma accept_invite_inv [inv_intros]:
  assumes "cp_inv st"
  shows "cp_inv (snd (accept_invite sha kdf fresh salt now raw pw name st))"
  using assms create_user_inv [OF assms]
  by (auto simp: accept_invite_def split: option.splits sum.splits prod.splits
      intro!: set_invite_status_inv) (metis snd_conv)+

lemma cp_inv_upd:
  assumes "cp_inv st"
  shows "token_table_ok se_hash t1 \<Longrightarrow> cp_inv (st\<lparr>cp_sessions := t1\<rparr>)"
    "token_table_ok ak_hash t2 \<Longrightarrow> cp_inv (st\<lparr>cp_keys := t2\<rparr>)"
    "dict_wf t3 \<Longrightarrow> cp_inv (st\<lparr>cp_orgs := t3\<rparr>)"
    "members_ok t4 \<Longrightarrow> cp_inv (st\<lparr>cp_members := t4\<rparr>)"
    "dict_wf t5 \<Longrightarrow> cp_inv (st\<lparr>cp_jobs := t5\<rparr>)"
    "token_table_ok lc_hash t6 \<Longrightarrow> cp_inv (st\<lparr>cp_links := t6\<rparr>)"
    "idents_ok t7 \<Longrightarrow> cp_inv (st\<lparr>cp_idents := t7\<rparr>)"
  using assms by (simp_all add: cp_inv_def)

lemma cp_inv_tables:
  assumes "cp_inv st"
  shows "token_table_ok se_hash (cp_sessions st)" "token_table_ok ak_hash (cp_keys st)"
    "dict_wf (cp_orgs st)" "members_ok (cp_members st)" "dict_wf (cp_jobs st)"
    "token_table_ok lc_hash (cp_links st)" "idents_ok (cp_idents st)" "users_ok (cp_users st)"
    "invites_ok (cp_invites st)"
  using assms by (simp_all add: cp_inv_def)

lemma create_session_inv [inv_intros]:
  "cp_inv st \<Longrightarrow> cp_inv (snd (create_session sha fresh token now uid ttl st))"
  by (simp add: create_session_def Let_def split: option.splits)
     (blast intro: cp_inv_upd cp_inv_tables token_table_insert)

lemma resolve_with_id_cases:
  obtains "snd (resolve_session_with_id sha now raw st) = st"
  | P where "snd (resolve_session_with_id sha now raw st) = st\<lparr>cp_sessions := filter P (cp_sessions st)\<rparr>"
proof (cases "raw = [] \<or> find_row (\<lambda>_ s. se_hash s = sha raw) (cp_sessions st) = None")
  case True
  then show ?thesis using that(1) by (auto simp: resolve_session_with_id_def)
next
  case False
  then obtain sid s where f: "raw \<noteq> []" "find_row (\<lambda>_ s. se_hash s = sha raw) (cp_sessions st) = Some (sid, s)"
    by auto
  show ?thesis
  proof (cases "se_expires s < now")
    case True
    show ?thesis by (rule that(2)) (use True f in \<open>simp add: resolve_session_with_id_def\<close>)
  next
    case False
    show ?thesis by (rule that(1)) (use False f in \<open>simp add: resolve_session_with_id_def\<close>)
  qed
qed

lemma snd_resolve_session [simp]:
  "snd (resolve_session sha now raw st) = snd (resolve_session_with_id sha now raw st)"
  by (simp add: resolve_session_def split: prod.splits sum.splits)

lemma resolve_session_inv [inv_intros]:
  "cp_inv st \<Longrightarrow> cp_inv (snd (resolve_session_with_id sha now raw st))"
  by (rule resolve_with_id_cases [of sha now raw st])
     (auto intro!: cp_inv_upd token_table_filter dest: cp_inv_tables)

lemma cp_revoke_session_inv [inv_intros]: "cp_inv st \<Longrightarrow> cp_inv (snd (cp_revoke_session sha raw st))"
  by (simp add: cp_revoke_session_def cp_inv_upd cp_inv_tables)

lemma create_api_key_inv [inv_intros]:
  "cp_inv st \<Longrightarrow> cp_inv (snd (create_api_key sha fresh token now uid name st))"
  by (simp add: create_api_key_def Let_def split: option.splits)
     (blast intro: cp_inv_upd cp_inv_tables token_table_insert)

lemma revoke_api_key_inv [inv_intros]: "cp_inv st \<Longrightarrow> cp_inv (snd (revoke_api_key now kid uid st))"
  by (simp add: revoke_api_key_def Let_def cp_inv_upd cp_inv_tables token_table_update)

lemma members_ok_append:
  "members_ok t \<Longrightarrow> k \<notin> fst ` set t \<Longrightarrow> r = ''owner'' \<or> r = ''member'' \<Longrightarrow> members_ok (t @ [(k, r)])"
  by (auto simp: members_ok_def dict_wf_append_new)

lemma create_org_cases:
  obtains "snd (create_org fresh now name by_id st) = st" "\<not> is_ok (fst (create_org fresh now name by_id st))"
  | r where "new_org_id fresh \<notin> fst ` set (cp_orgs st)"
      "snd (create_org fresh now name by_id st) = st\<lparr>cp_orgs := cp_orgs st @ [(new_org_id fresh, r)]\<rparr>"
      "\<not> is_ok (fst (create_org fresh now name by_id st))"
  | "new_org_id fresh \<notin> fst ` set (cp_orgs st)"
      "(new_org_id fresh, by_id) \<notin> fst ` set (cp_members st)"
      "fst (create_org fresh now name by_id st) =
        Inr \<lparr>or_id = new_org_id fresh, or_name = py_strip name, or_created_by = by_id, or_created = now\<rparr>"
      "snd (create_org fresh now name by_id st) =
        st\<lparr>cp_orgs := cp_orgs st @ [(new_org_id fresh,
               \<lparr>og_name = py_strip name, og_by = by_id, og_created = now\<rparr>)],
           cp_members := cp_members st @ [((new_org_id fresh, by_id), ''owner'')]\<rparr>"
proof (cases "py_strip name = [] \<or> map_of (cp_orgs st) (new_org_id fresh) \<noteq> None")
  case True
  show ?thesis by (rule that(1)) (use True in \<open>auto simp: create_org_def Let_def\<close>)
next
  case False
  then have new: "new_org_id fresh \<notin> fst ` set (cp_orgs st)" by (simp add: map_of_eq_None_iff)
  show ?thesis
  proof (cases "map_of (cp_members st) (new_org_id fresh, by_id)")
    case None
    show ?thesis
      by (rule that(3)) (use None False new in \<open>simp_all add: create_org_def Let_def map_of_eq_None_iff
          org_role_value_def\<close>)
  next
    case (Some r)
    show ?thesis
      by (rule that(2) [OF new]) (use Some False in \<open>simp_all add: create_org_def Let_def\<close>)
  qed
qed

lemma create_org_inv [inv_intros]:
  assumes "cp_inv st"
  shows "cp_inv (snd (create_org fresh now name by_id st))"
proof -
  have orgs: "cp_inv (st\<lparr>cp_orgs := cp_orgs st @ [(k, r)]\<rparr>)" if "k \<notin> fst ` set (cp_orgs st)" for k r
    using that by (intro cp_inv_upd assms dict_wf_append_new) (simp_all add: cp_inv_tables [OF assms])
  moreover have "members_ok (cp_members st @ [(k, ''owner'')])" if "k \<notin> fst ` set (cp_members st)" for k
    using that by (intro members_ok_append) (simp_all add: cp_inv_tables [OF assms])
  ultimately show ?thesis
    using create_org_cases [of fresh now name by_id st "cp_inv (snd (create_org fresh now name by_id st))"]
    by (simp add: assms cp_inv_upd(4))
qed

lemma members_ok_update:
  assumes "members_ok t" "r = ''owner'' \<or> r = ''member''"
  shows "members_ok (AList.update k r t)"
proof -
  have sub: "set (AList.update k r t) \<subseteq> set t \<union> {(k, r)}" by (induction t) auto
  have "snd p = ''owner'' \<or> snd p = ''member''" if "p \<in> set (AList.update k r t)" for p
  proof -
    have "p \<in> set t \<or> p = (k, r)" using that sub by blast
    then show ?thesis using assms by (auto simp: members_ok_def)
  qed
  with assms(1) show ?thesis by (simp add: members_ok_def)
qed

lemma add_org_member_inv [inv_intros]:
  assumes "cp_inv st"
  shows "cp_inv (snd (add_org_member oid uid role actor adm st))"
proof -
  have "org_role_value role = ''owner'' \<or> org_role_value role = ''member''"
    by (cases role) (simp_all add: org_role_value_def)
  then have "cp_inv (st\<lparr>cp_members := AList.update (oid, uid) (org_role_value role) (cp_members st)\<rparr>)"
    by (intro cp_inv_upd assms members_ok_update cp_inv_tables)
  with assms show ?thesis by (simp add: add_org_member_def Let_def split: sum.splits)
qed

lemma remove_org_member_inv [inv_intros]:
  assumes "cp_inv st"
  shows "cp_inv (snd (remove_org_member oid uid actor adm st))"
proof -
  have "members_ok (AList.delete (oid, uid) (cp_members st))"
    using cp_inv_tables(4) [OF assms] by (simp add: members_ok_def) (simp add: AList.delete_eq)
  with assms have "cp_inv (st\<lparr>cp_members := AList.delete (oid, uid) (cp_members st)\<rparr>)"
    by (intro cp_inv_upd)
  with assms show ?thesis by (simp add: remove_org_member_def Let_def split: sum.splits)
qed

lemma record_job_launch_inv [inv_intros]: "cp_inv st \<Longrightarrow> cp_inv (record_job_launch now job by_id org st)"
  by (simp add: record_job_launch_def cp_inv_upd cp_inv_tables)

lemma create_link_code_inv [inv_intros]:
  "cp_inv st \<Longrightarrow> cp_inv (snd (create_link_code sha fresh token now uid platform ttl st))"
  by (simp add: create_link_code_def Let_def split: option.splits)
     (blast intro: cp_inv_upd cp_inv_tables token_table_insert)

lemma unlink_platform_inv [inv_intros]: "cp_inv st \<Longrightarrow> cp_inv (snd (unlink_platform uid platform st))"
  by (auto simp: unlink_platform_def Let_def idents_ok_def intro!: cp_inv_upd dest: cp_inv_tables(7))

lemma claim_link_code_inv [inv_intros]: "cp_inv st \<Longrightarrow> cp_inv (snd (claim_link_code code now st))"
  by (simp add: claim_link_code_def Let_def cp_inv_upd cp_inv_tables token_table_update)

lemma attach_identity_inv [inv_intros]:
  assumes "cp_inv st" "parse_platform_key key = Some (platform, puid, key)"
  shows "cp_inv (snd (attach_platform_identity uid platform puid key st))"
proof -
  have filt: "idents_ok (filter P (cp_idents st))" for P
    using cp_inv_tables(7) [OF assms(1)] by (auto simp: idents_ok_def)
  have "idents_ok rows"
    if "insert_unique (\<lambda>r. (pi_platform r, pi_uid r)) key
          \<lparr>pi_platform = platform, pi_uid = puid, pi_user = uid\<rparr> (filter P (cp_idents st)) = Some rows"
    for P rows
    using token_table_insert [OF that] filt [of P] that assms(2)
    by (auto simp: idents_ok_def insert_unique_iff)
  with filt assms(1) show ?thesis
    by (auto simp: attach_platform_identity_def Let_def split: option.splits
        intro: cp_inv_upd(7) cp_inv_upd(7) [OF cp_inv_upd(7)])
qed

lemma consume_link_code_inv [inv_intros]:
  assumes "cp_inv st"
  shows "cp_inv (snd (consume_link_code sha now_s now raw key st))"
proof (cases "parse_platform_key key")
  case None
  with assms show ?thesis by (simp add: consume_link_code_def)
next
  case (Some p)
  then obtain platform puid where p: "parse_platform_key key = Some (platform, puid, key)"
    using parse_key_eq by (cases p) blast
  have "cp_inv st'" if "claim_link_code code now_s st = (r, st')" for code r st'
    using claim_link_code_inv [OF assms, of code now_s] that by simp
  moreover have "cp_inv st''"
    if "cp_inv st'" "attach_platform_identity u platform puid key st' = (r, st'')" for u st' r st''
    using attach_identity_inv [OF that(1) p, of u] that(2) by simp
  ultimately show ?thesis
    using assms by (auto simp: consume_link_code_def p split: sum.splits prod.splits) blast+
qed

lemma cp_step_inv: "cp_inv st \<Longrightarrow> cp_inv (cp_step sha kdf st op)"
  by (cases op) (simp_all add: inv_intros)

subsection \<open>Tables an operation leaves alone\<close>

lemma create_user_frame [simp]:
  "cp_invites (snd (cp_create_user kdf fresh salt now email pw role name uid st)) = cp_invites st"
  "cp_sessions (snd (cp_create_user kdf fresh salt now email pw role name uid st)) = cp_sessions st"
  "cp_keys (snd (cp_create_user kdf fresh salt now email pw role name uid st)) = cp_keys st"
  "cp_links (snd (cp_create_user kdf fresh salt now email pw role name uid st)) = cp_links st"
  "cp_members (snd (cp_create_user kdf fresh salt now email pw role name uid st)) = cp_members st"
  by (rule create_user_cases [of kdf fresh salt now email pw role name uid st];
      auto dest: insert_cp_user_cases)+

lemma set_password_frame [simp]:
  "cp_invites (snd (set_password kdf salt uid pw st)) = cp_invites st"
  "cp_keys (snd (set_password kdf salt uid pw st)) = cp_keys st"
  "cp_links (snd (set_password kdf salt uid pw st)) = cp_links st"
  by (simp_all add: set_password_def split: sum.splits)

lemma set_user_status_frame [simp]:
  "cp_invites (set_user_status uid s st) = cp_invites st"
  "cp_keys (set_user_status uid s st) = cp_keys st"
  "cp_links (set_user_status uid s st) = cp_links st"
  by (simp_all add: set_user_status_def revoke_user_sessions_def Let_def)

lemma bootstrap_cases:
  obtains "snd (bootstrap_admin_if_empty kdf fresh salt now email pw name st) = st"
  | us where "snd (bootstrap_admin_if_empty kdf fresh salt now email pw name st) = st\<lparr>cp_users := us\<rparr>"
  | "snd (bootstrap_admin_if_empty kdf fresh salt now email pw name st) =
       snd (cp_create_user kdf fresh salt now email pw Role_Admin (Some name) None st)"
proof -
  have "snd (bootstrap_admin_if_empty kdf fresh salt now email pw name st) = st \<or>
    (\<exists>us. snd (bootstrap_admin_if_empty kdf fresh salt now email pw name st) = st\<lparr>cp_users := us\<rparr>) \<or>
    snd (bootstrap_admin_if_empty kdf fresh salt now email pw name st) =
       snd (cp_create_user kdf fresh salt now email pw Role_Admin (Some name) None st)"
    unfolding bootstrap_admin_if_empty_def Let_def
    by (auto split: sum.splits option.splits prod.splits)
  with that show ?thesis by blast
qed

lemma bootstrap_frame [simp]:
  "cp_invites (snd (bootstrap_admin_if_empty kdf fresh salt now email pw name st)) = cp_invites st"
  "cp_keys (snd (bootstrap_admin_if_empty kdf fresh salt now email pw name st)) = cp_keys st"
  "cp_links (snd (bootstrap_admin_if_empty kdf fresh salt now email pw name st)) = cp_links st"
  by (rule bootstrap_cases [of kdf fresh salt now email pw name st]; simp)+

lemma set_invite_status_frame [simp]:
  "cp_users (set_invite_status P s st) = cp_users st"
  "cp_sessions (set_invite_status P s st) = cp_sessions st"
  "cp_keys (set_invite_status P s st) = cp_keys st"
  "cp_links (set_invite_status P s st) = cp_links st"
  "cp_members (set_invite_status P s st) = cp_members st"
  by (simp_all add: set_invite_status_def)

lemma create_invite_frame [simp]:
  "cp_users (snd (create_invite sha fresh token now email by_id expires raw st)) = cp_users st"
  "cp_keys (snd (create_invite sha fresh token now email by_id expires raw st)) = cp_keys st"
  "cp_links (snd (create_invite sha fresh token now email by_id expires raw st)) = cp_links st"
  by (simp_all add: create_invite_def Let_def split: sum.splits option.splits)

lemma revoke_invite_frame [simp]:
  "cp_users (snd (revoke_invite iid st)) = cp_users st"
  "cp_keys (snd (revoke_invite iid st)) = cp_keys st"
  "cp_links (snd (revoke_invite iid st)) = cp_links st"
  by (simp_all add: revoke_invite_def Let_def)

lemma accept_invite_cases:
  obtains "snd (accept_invite sha kdf fresh salt now raw pw name st) = st"
    "\<not> is_ok (fst (accept_invite sha kdf fresh salt now raw pw name st))"
  | iid r where "find_row (\<lambda>_ r. iv_hash r = sha raw) (cp_invites st) = Some (iid, r)"
      "iv_status r = ''pending''" "iv_expires r < now"
      "snd (accept_invite sha kdf fresh salt now raw pw name st) = set_invite_status (\<lambda>i _. i = iid) Invite_Expired st"
      "\<not> is_ok (fst (accept_invite sha kdf fresh salt now raw pw name st))"
  | iid r where "find_row (\<lambda>_ r. iv_hash r = sha raw) (cp_invites st) = Some (iid, r)"
      "iv_status r = ''pending''" "\<not> iv_expires r < now"
      "snd (accept_invite sha kdf fresh salt now raw pw name st) =
         snd (cp_create_user kdf fresh salt now (iv_email r) pw Role_Member name None st)"
      "\<not> is_ok (fst (accept_invite sha kdf fresh salt now raw pw name st))"
  | iid r user where "find_row (\<lambda>_ r. iv_hash r = sha raw) (cp_invites st) = Some (iid, r)"
      "iv_status r = ''pending''" "\<not> iv_expires r < now" "raw \<noteq> []" "pw \<noteq> []"
      "fst (cp_create_user kdf fresh salt now (iv_email r) pw Role_Member name None st) = Inr user"
      "accept_invite sha kdf fresh salt now raw pw name st = (Inr user, set_invite_status (\<lambda>i _. i = iid)
         Invite_Accepted (snd (cp_create_user kdf fresh salt now (iv_email r) pw Role_Member name None st)))"
proof (cases "raw = [] \<or> pw = [] \<or> find_row (\<lambda>_ r. iv_hash r = sha raw) (cp_invites st) = None")
  case True
  show ?thesis by (rule that(1)) (use True in \<open>auto simp: accept_invite_def\<close>)
next
  case False
  then obtain iid r where ne: "raw \<noteq> []" "pw \<noteq> []"
    and row: "find_row (\<lambda>_ r. iv_hash r = sha raw) (cp_invites st) = Some (iid, r)" by auto
  have pend: "invite_status_value Invite_Pending = ''pending''" by (simp add: invite_status_value_def)
  consider "iv_status r \<noteq> ''pending''" | "iv_status r = ''pending''" "iv_expires r < now"
    | "iv_status r = ''pending''" "\<not> iv_expires r < now" by blast
  then show ?thesis
  proof cases
    case 1
    show ?thesis by (rule that(1)) (use 1 ne row in \<open>simp_all add: accept_invite_def pend\<close>)
  next
    case 2
    show ?thesis by (rule that(2) [OF row 2]) (use 2 ne row in \<open>simp_all add: accept_invite_def pend\<close>)
  next
    case 3
    show ?thesis
    proof (cases "cp_get_user_by_email (iv_email r) st")
      case (Inl e)
      show ?thesis by (rule that(1)) (use Inl 3 ne row in \<open>simp_all add: accept_invite_def pend\<close>)
    next
      case (Inr u)
      show ?thesis
      proof (cases u)
        case (Some w)
        show ?thesis by (rule that(1)) (use Some Inr 3 ne row in \<open>simp_all add: accept_invite_def pend\<close>)
      next
        case None
        obtain c st' where cu: "cp_create_user kdf fresh salt now (iv_email r) pw Role_Member name None st = (c, st')"
          by (cases "cp_create_user kdf fresh salt now (iv_email r) pw Role_Member name None st")
        show ?thesis
        proof (cases c)
          case (Inl e)
          show ?thesis
            by (rule that(3) [OF row 3]) (use Inl \<open>u = None\<close> \<open>cp_get_user_by_email _ _ = _\<close> cu 3 ne row
              in \<open>simp_all add: accept_invite_def pend\<close>)
        next
          case (Inr user)
          show ?thesis
            by (rule that(4) [OF row 3 ne]) (use Inr \<open>u = None\<close> \<open>cp_get_user_by_email _ _ = _\<close> cu 3 ne row
              in \<open>simp_all add: accept_invite_def pend\<close>)
        qed
      qed
    qed
  qed
qed

lemma accept_invite_frame [simp]:
  "cp_keys (snd (accept_invite sha kdf fresh salt now raw pw name st)) = cp_keys st"
  "cp_links (snd (accept_invite sha kdf fresh salt now raw pw name st)) = cp_links st"
  by (rule accept_invite_cases [of sha kdf fresh salt now raw pw name st]; simp)+

lemma session_ops_frame [simp]:
  "cp_users (snd (create_session sha fresh token now uid ttl st)) = cp_users st"
  "cp_invites (snd (create_session sha fresh token now uid ttl st)) = cp_invites st"
  "cp_keys (snd (create_session sha fresh token now uid ttl st)) = cp_keys st"
  "cp_links (snd (create_session sha fresh token now uid ttl st)) = cp_links st"
  "cp_users (snd (cp_revoke_session sha raw st)) = cp_users st"
  "cp_invites (snd (cp_revoke_session sha raw st)) = cp_invites st"
  "cp_keys (snd (cp_revoke_session sha raw st)) = cp_keys st"
  "cp_links (snd (cp_revoke_session sha raw st)) = cp_links st"
  "cp_users (snd (revoke_user_sessions uid st)) = cp_users st"
  "cp_invites (snd (revoke_user_sessions uid st)) = cp_invites st"
  "cp_keys (snd (revoke_user_sessions uid st)) = cp_keys st"
  "cp_links (snd (revoke_user_sessions uid st)) = cp_links st"
  by (simp_all add: create_session_def cp_revoke_session_def revoke_user_sessions_def Let_def
      split: option.splits)

lemma resolve_session_frame [simp]:
  "cp_users (snd (resolve_session_with_id sha now raw st)) = cp_users st"
  "cp_invites (snd (resolve_session_with_id sha now raw st)) = cp_invites st"
  "cp_keys (snd (resolve_session_with_id sha now raw st)) = cp_keys st"
  "cp_links (snd (resolve_session_with_id sha now raw st)) = cp_links st"
  "cp_members (snd (resolve_session_with_id sha now raw st)) = cp_members st"
  by (rule resolve_with_id_cases [of sha now raw st]; simp)+

lemma key_ops_frame [simp]:
  "cp_users (snd (create_api_key sha fresh token now uid name st)) = cp_users st"
  "cp_invites (snd (create_api_key sha fresh token now uid name st)) = cp_invites st"
  "cp_links (snd (create_api_key sha fresh token now uid name st)) = cp_links st"
  "cp_users (snd (revoke_api_key now kid owner_id st)) = cp_users st"
  "cp_invites (snd (revoke_api_key now kid owner_id st)) = cp_invites st"
  "cp_links (snd (revoke_api_key now kid owner_id st)) = cp_links st"
  by (simp_all add: create_api_key_def revoke_api_key_def Let_def split: option.splits)

lemma org_ops_frame [simp]:
  "cp_users (snd (add_org_member oid uid role actor adm st)) = cp_users st"
  "cp_invites (snd (add_org_member oid uid role actor adm st)) = cp_invites st"
  "cp_keys (snd (add_org_member oid uid role actor adm st)) = cp_keys st"
  "cp_links (snd (add_org_member oid uid role actor adm st)) = cp_links st"
  "cp_users (snd (remove_org_member oid uid actor adm st)) = cp_users st"
  "cp_invites (snd (remove_org_member oid uid actor adm st)) = cp_invites st"
  "cp_keys (snd (remove_org_member oid uid actor adm st)) = cp_keys st"
  "cp_links (snd (remove_org_member oid uid actor adm st)) = cp_links st"
  "cp_users (record_job_launch now job by_id org st) = cp_users st"
  "cp_invites (record_job_launch now job by_id org st) = cp_invites st"
  "cp_keys (record_job_launch now job by_id org st) = cp_keys st"
  "cp_links (record_job_launch now job by_id org st) = cp_links st"
  by (simp_all add: add_org_member_def remove_org_member_def record_job_launch_def Let_def
      split: sum.splits)

lemma create_org_frame [simp]:
  "cp_users (snd (create_org fresh now name by_id st)) = cp_users st"
  "cp_sessions (snd (create_org fresh now name by_id st)) = cp_sessions st"
  "cp_invites (snd (create_org fresh now name by_id st)) = cp_invites st"
  "cp_keys (snd (create_org fresh now name by_id st)) = cp_keys st"
  "cp_links (snd (create_org fresh now name by_id st)) = cp_links st"
  by (rule create_org_cases [of fresh now name by_id st]; simp)+

lemma link_ops_frame [simp]:
  "cp_users (snd (create_link_code sha fresh token now uid platform ttl st)) = cp_users st"
  "cp_invites (snd (create_link_code sha fresh token now uid platform ttl st)) = cp_invites st"
  "cp_keys (snd (create_link_code sha fresh token now uid platform ttl st)) = cp_keys st"
  "cp_users (snd (unlink_platform uid plat st)) = cp_users st"
  "cp_invites (snd (unlink_platform uid plat st)) = cp_invites st"
  "cp_keys (snd (unlink_platform uid plat st)) = cp_keys st"
  "cp_links (snd (unlink_platform uid plat st)) = cp_links st"
  "cp_users (snd (claim_link_code code now st)) = cp_users st"
  "cp_invites (snd (claim_link_code code now st)) = cp_invites st"
  "cp_keys (snd (claim_link_code code now st)) = cp_keys st"
  "cp_idents (snd (claim_link_code code now st)) = cp_idents st"
  "cp_users (snd (attach_platform_identity uid plat puid key st)) = cp_users st"
  "cp_invites (snd (attach_platform_identity uid plat puid key st)) = cp_invites st"
  "cp_keys (snd (attach_platform_identity uid plat puid key st)) = cp_keys st"
  "cp_links (snd (attach_platform_identity uid plat puid key st)) = cp_links st"
  by (simp_all add: create_link_code_def unlink_platform_def claim_link_code_def
      attach_platform_identity_def Let_def split: option.splits)

lemma consume_cases:
  obtains "snd (consume_link_code sha now_s now raw key st) = st"
    "\<not> is_ok (fst (consume_link_code sha now_s now raw key st))"
  | platform puid code uid where "parse_platform_key key = Some (platform, puid, key)"
      "load_valid_link_code now (sha raw) platform st = Inr (code, uid)"
      "fst (claim_link_code code now_s st) = Inr ()"
      "snd (consume_link_code sha now_s now raw key st) =
         snd (attach_platform_identity uid platform puid key (snd (claim_link_code code now_s st)))"
      "fst (consume_link_code sha now_s now raw key st) =
         (case fst (attach_platform_identity uid platform puid key (snd (claim_link_code code now_s st))) of
            Inl e \<Rightarrow> Inl e | Inr _ \<Rightarrow> Inr uid)"
  | platform code uid where "load_valid_link_code now (sha raw) platform st = Inr (code, uid)"
      "\<not> is_ok (fst (claim_link_code code now_s st))"
      "snd (consume_link_code sha now_s now raw key st) = snd (claim_link_code code now_s st)"
      "\<not> is_ok (fst (consume_link_code sha now_s now raw key st))"
proof (cases "parse_platform_key key")
  case None
  then show ?thesis using that(1) by (simp add: consume_link_code_def)
next
  case (Some p)
  then obtain platform puid where p: "parse_platform_key key = Some (platform, puid, key)"
    using parse_key_eq by (cases p) blast
  show ?thesis
  proof (cases "load_valid_link_code now (sha raw) platform st")
    case (Inl e)
    then show ?thesis using that(1) by (simp add: consume_link_code_def p)
  next
    case (Inr cu)
    then obtain code uid where l: "load_valid_link_code now (sha raw) platform st = Inr (code, uid)"
      by (cases cu) simp
    obtain c st' where cl: "claim_link_code code now_s st = (c, st')"
      by (cases "claim_link_code code now_s st")
    show ?thesis
    proof (cases c)
      case (Inl e)
      with cl show ?thesis by (intro that(3) [OF l]) (simp_all add: consume_link_code_def p l)
    next
      case (Inr x)
      with cl show ?thesis
        by (intro that(2) [OF p l])
           (simp_all add: consume_link_code_def p l split: prod.splits sum.splits)
    qed
  qed
qed

lemma consume_frame [simp]:
  "cp_users (snd (consume_link_code sha now_s now raw key st)) = cp_users st"
  "cp_invites (snd (consume_link_code sha now_s now raw key st)) = cp_invites st"
  "cp_keys (snd (consume_link_code sha now_s now raw key st)) = cp_keys st"
  by (rule consume_cases [of sha now_s now raw key st]; simp)+

subsection \<open>Spent credentials stay spent\<close>

definition invite_by_hash :: "control_plane \<Rightarrow> string \<Rightarrow> (string \<times> invite_row) option" where
  "invite_by_hash st h = find_row (\<lambda>_ r. iv_hash r = h) (cp_invites st)"

definition key_by_hash :: "control_plane \<Rightarrow> string \<Rightarrow> (string \<times> api_key_row) option" where
  "key_by_hash st h = find_row (\<lambda>_ r. ak_hash r = h) (cp_keys st)"

definition link_by_hash :: "control_plane \<Rightarrow> string \<Rightarrow> (string \<times> link_row) option" where
  "link_by_hash st h = find_row (\<lambda>_ r. lc_hash r = h) (cp_links st)"

text \<open>An UPDATE that misses the row, and an INSERT beside it, keep it.\<close>

lemma find_col_update_keep:
  assumes "find_row (\<lambda>_ w. col w = c) d = Some (k, v)" "\<And>v. col (f v) = col v" "\<not> P k v"
  shows "find_row (\<lambda>_ w. col w = c) (update_rows P f d) = Some (k, v)"
  using assms(1,3) by (simp add: find_update_rows [of col f, OF assms(2)])

lemma find_col_insert_keep:
  assumes "find_row (\<lambda>_ w. col w = c) d = Some (k, v)" "insert_unique col k' v' d = Some d'"
  shows "find_row (\<lambda>_ w. col w = c) d' = Some (k, v)"
proof -
  have "col v' \<noteq> c"
    using assms find_row_SomeD [OF assms(1)] by (auto simp: insert_unique_iff)
  then show ?thesis using assms(1) by (simp add: find_insert_unique [OF assms(2)])
qed

lemma create_invite_cases:
  obtains "snd (create_invite sha fresh token now email by_id expires raw st) = st"
  | k r rows where "insert_unique iv_hash k r (cp_invites st) = Some rows"
      "snd (create_invite sha fresh token now email by_id expires raw st) = st\<lparr>cp_invites := rows\<rparr>"
proof -
  have "snd (create_invite sha fresh token now email by_id expires raw st) = st \<or>
    (\<exists>k r rows. insert_unique iv_hash k r (cp_invites st) = Some rows \<and>
      snd (create_invite sha fresh token now email by_id expires raw st) = st\<lparr>cp_invites := rows\<rparr>)"
    by (auto simp: create_invite_def Let_def split: sum.splits option.splits)
  with that show ?thesis by blast
qed

lemma create_key_cases:
  obtains "snd (create_api_key sha fresh token now uid name st) = st"
  | k r rows where "insert_unique ak_hash k r (cp_keys st) = Some rows"
      "snd (create_api_key sha fresh token now uid name st) = st\<lparr>cp_keys := rows\<rparr>"
proof -
  have "snd (create_api_key sha fresh token now uid name st) = st \<or>
    (\<exists>k r rows. insert_unique ak_hash k r (cp_keys st) = Some rows \<and>
      snd (create_api_key sha fresh token now uid name st) = st\<lparr>cp_keys := rows\<rparr>)"
    by (auto simp: create_api_key_def Let_def split: option.splits)
  with that show ?thesis by blast
qed

lemma create_link_cases:
  obtains "snd (create_link_code sha fresh token now uid platform ttl st) = st"
  | k r rows where "insert_unique lc_hash k r (cp_links st) = Some rows"
      "snd (create_link_code sha fresh token now uid platform ttl st) = st\<lparr>cp_links := rows\<rparr>"
proof -
  have "snd (create_link_code sha fresh token now uid platform ttl st) = st \<or>
    (\<exists>k r rows. insert_unique lc_hash k r (cp_links st) = Some rows \<and>
      snd (create_link_code sha fresh token now uid platform ttl st) = st\<lparr>cp_links := rows\<rparr>)"
    by (auto simp: create_link_code_def Let_def split: option.splits)
  with that show ?thesis by blast
qed

lemma invite_status_keep:
  assumes "invite_by_hash st h = Some (k, r)" "\<not> P k r"
  shows "invite_by_hash (set_invite_status P s st) h = Some (k, r)"
  using assms unfolding invite_by_hash_def set_invite_status_def
  by simp (rule find_col_update_keep [where col = iv_hash], simp_all)

lemma create_user_invites: "invite_by_hash (snd (cp_create_user kdf fresh salt now email pw role name uid st)) h =
    invite_by_hash st h"
  by (simp add: invite_by_hash_def)

lemma invite_row_keep:
  assumes "cp_inv st" "invite_by_hash st h = Some (k, r)" "iv_status r \<noteq> ''pending''"
  shows "invite_by_hash (cp_step sha kdf st op) h = Some (k, r)"
proof (cases op)
  case (Op_Create_Invite fresh token now email by_id expires raw)
  have "invite_by_hash (snd (create_invite sha fresh token now email by_id expires raw st)) h = Some (k, r)"
    using assms(2) unfolding invite_by_hash_def
    by (cases rule: create_invite_cases [of sha fresh token now email by_id expires raw st])
       (simp, simp, erule (1) find_col_insert_keep)
  with Op_Create_Invite show ?thesis by simp
next
  case (Op_Revoke_Invite iid)
  with assms(2,3) show ?thesis
    by (simp add: revoke_invite_def Let_def invite_status_value_def invite_status_keep)
next
  case (Op_Accept_Invite fresh salt now raw pw name)
  have other: "k \<noteq> iid" if "invite_by_hash st (sha raw) = Some (iid, r')" "iv_status r' = ''pending''" for iid r'
  proof
    assume "k = iid"
    then have "(iid, r) \<in> set (cp_invites st)" "(iid, r') \<in> set (cp_invites st)"
      using that(1) assms(2) by (auto simp: invite_by_hash_def dest: find_row_SomeD)
    moreover have "dict_wf (cp_invites st)"
      using assms(1) by (simp add: cp_inv_def invites_ok_def token_table_ok_def)
    ultimately have "r = r'" by (simp flip: dict_get_iff)
    with that(2) assms(3) show False by simp
  qed
  have "invite_by_hash (snd (accept_invite sha kdf fresh salt now raw pw name st)) h = Some (k, r)"
  proof (rule accept_invite_cases [of sha kdf fresh salt now raw pw name st], goal_cases)
    case 1
    with assms(2) show ?case by simp
  next
    case (2 iid r')
    with other have "k \<noteq> iid" by (simp add: invite_by_hash_def)
    then show ?case unfolding 2(4) by (intro invite_status_keep assms(2)) simp
  next
    case (3 iid r')
    with assms(2) show ?case by (simp add: create_user_invites)
  next
    case (4 iid r' user)
    with other have "k \<noteq> iid" by (simp add: invite_by_hash_def)
    then show ?case
      unfolding 4(7) snd_conv by (intro invite_status_keep) (simp_all add: create_user_invites assms(2))
  qed
  with Op_Accept_Invite show ?thesis by simp
qed (use assms(2) in \<open>simp_all add: invite_by_hash_def\<close>)

lemma key_row_keep:
  assumes "key_by_hash st h = Some (k, r)" "ak_revoked r \<noteq> None"
  shows "key_by_hash (cp_step sha kdf st op) h = Some (k, r)"
proof (cases op)
  case (Op_Create_Key fresh token now uid name)
  have "key_by_hash (snd (create_api_key sha fresh token now uid name st)) h = Some (k, r)"
    using assms(1) unfolding key_by_hash_def
    by (cases rule: create_key_cases [of sha fresh token now uid name st])
       (simp, simp, erule (1) find_col_insert_keep)
  with Op_Create_Key show ?thesis by simp
next
  case (Op_Revoke_Key now kid uid)
  have "key_by_hash (snd (revoke_api_key now kid uid st)) h = Some (k, r)"
    using assms unfolding revoke_api_key_def Let_def key_by_hash_def
    by simp (rule find_col_update_keep [where col = ak_hash], simp_all)
  with Op_Revoke_Key show ?thesis by simp
qed (use assms(1) in \<open>simp_all add: key_by_hash_def\<close>)

lemma claim_links_keep:
  assumes "link_by_hash st h = Some (k, r)" "lc_consumed r \<noteq> None"
  shows "link_by_hash (snd (claim_link_code code now st)) h = Some (k, r)"
proof -
  have "snd (claim_link_code code now st) = st\<lparr>cp_links :=
      update_rows (\<lambda>i r. i = code \<and> lc_consumed r = None \<and> now < lc_expires r)
        (\<lambda>r. r\<lparr>lc_consumed := Some now\<rparr>) (cp_links st)\<rparr>"
    by (simp add: claim_link_code_def Let_def)
  then show ?thesis
    using assms unfolding link_by_hash_def
    by simp (rule find_col_update_keep [where col = lc_hash], simp_all)
qed

lemma link_row_keep:
  assumes "link_by_hash st h = Some (k, r)" "lc_consumed r \<noteq> None"
  shows "link_by_hash (cp_step sha kdf st op) h = Some (k, r)"
proof (cases op)
  case (Op_Create_Link fresh token now uid platform ttl)
  have "link_by_hash (snd (create_link_code sha fresh token now uid platform ttl st)) h = Some (k, r)"
    using assms(1) unfolding link_by_hash_def
    by (cases rule: create_link_cases [of sha fresh token now uid platform ttl st])
       (simp, simp, erule (1) find_col_insert_keep)
  with Op_Create_Link show ?thesis by simp
next
  case (Op_Consume_Link now_s now raw key)
  have "link_by_hash (snd (consume_link_code sha now_s now raw key st)) h = Some (k, r)"
    by (rule consume_cases [of sha now_s now raw key st])
       (use assms claim_links_keep [OF assms] in \<open>simp_all add: link_by_hash_def\<close>)
  with Op_Consume_Link show ?thesis by simp
qed (use assms(1) in \<open>simp_all add: link_by_hash_def\<close>)

interpretation invites: one_way invite_by_hash "\<lambda>(_, r). iv_status r \<noteq> ''pending''" "cp_step sha kdf"
    "\<lambda>_ _. True" cp_inv for sha :: sha and kdf :: kdf
  by unfold_locales (auto simp: cp_step_inv invite_row_keep)

interpretation keys: one_way key_by_hash "\<lambda>(_, r). ak_revoked r \<noteq> None" "cp_step sha kdf"
    "\<lambda>_ _. True" cp_inv for sha :: sha and kdf :: kdf
  by unfold_locales (auto simp: cp_step_inv key_row_keep)

interpretation links: one_way link_by_hash "\<lambda>(_, r). lc_consumed r \<noteq> None" "cp_step sha kdf"
    "\<lambda>_ _. True" cp_inv for sha :: sha and kdf :: kdf
  by unfold_locales (auto simp: cp_step_inv link_row_keep)

subsection \<open>Reading a row back\<close>

lemma global_role_of_value: "global_role_of (str_or (global_role_value role) ''member'') = Inr role"
  by (cases role) (simp_all add: global_role_of_def enum_of_def global_role_value_def str_or_def)

lemma user_status_of_iff:
  "user_status_of raw = Inr Status_Active \<longleftrightarrow> raw = ''active''"
  "user_status_of raw = Inr Status_Disabled \<longleftrightarrow> raw = ''disabled''"
  by (auto simp: user_status_of_def enum_of_def user_status_value_def split: if_splits option.splits)

lemma row_user_Inr:
  assumes "row_user uid row = Inr u"
  shows "du_id u = uid \<and> du_email u = uc_email row \<and> du_name u = uc_name row \<and>
    global_role_of (str_or (uc_role row) ''member'') = Inr (du_role u) \<and>
    user_status_of (str_or (uc_status row) ''active'') = Inr (du_status u)"
  using assms by (auto simp: row_user_def split: sum.splits)

lemma get_user_Inr:
  assumes "cp_get_user uid st = Inr (Some u)"
  obtains row where "map_of (cp_users st) uid = Some row" "row_user uid row = Inr u"
  using assms by (auto simp: cp_get_user_def row_user_opt_def split: option.splits sum.splits)

lemma get_user_by_email_Inr:
  assumes "cp_get_user_by_email email st = Inr (Some u)"
  obtains row where "(du_id u, row) \<in> set (cp_users st)" "row_user (du_id u) row = Inr u"
    "uc_email row = Some (cp_normalize_email email)"
proof -
  obtain uid row where f: "find_row (\<lambda>_ r. uc_email r = Some (cp_normalize_email email)) (cp_users st) = Some (uid, row)"
    and u: "row_user uid row = Inr u"
    using assms by (auto simp: cp_get_user_by_email_def row_user_opt_def split: option.splits sum.splits)
  have "du_id u = uid" using row_user_Inr [OF u] by simp
  with find_row_SomeD [OF f] u that show ?thesis by blast
qed

text \<open>A principal is exactly what the store says of an active user.\<close>

lemma active_principal_iff:
  "active_principal uid via pid st = Inr (Some (p, i)) \<longleftrightarrow>
     i = pid \<and> (\<exists>user. cp_get_user uid st = Inr (Some user) \<and> du_status user = Status_Active \<and>
       principal_for_user user via None st = Inr p)"
  by (auto simp: active_principal_def split: sum.splits option.splits)

lemma principal_for_user_iff:
  "principal_for_user user via active st = Inr p \<longleftrightarrow>
     du_id user \<noteq> [] \<and>
     p = \<lparr>pp_user = du_id user, pp_roles = {global_role_value (du_role user)},
          pp_orgs = org_ids_for_user (du_id user) st,
          pp_active_org = (case active of None \<Rightarrow> None
             | Some o_id \<Rightarrow> if o_id \<in> org_ids_for_user (du_id user) st then Some o_id else None),
          pp_via = (if via \<in> set auth_vias then via else ''session'')\<rparr>"
  by (auto simp: principal_for_user_def mk_cp_principal_def Let_def)

lemma active_principal_user:
  assumes "active_principal uid via pid st = Inr (Some (p, i))"
  shows "pp_user p = uid \<and> (\<exists>row. map_of (cp_users st) uid = Some row \<and>
    str_or (uc_status row) ''active'' = ''active'' \<and>
    pp_roles p = {str_or (uc_role row) ''member''} \<and> pp_orgs p = org_ids_for_user uid st)"
proof -
  obtain user where u: "cp_get_user uid st = Inr (Some user)" "du_status user = Status_Active"
    and p: "principal_for_user user via None st = Inr p"
    using assms unfolding active_principal_iff by blast
  obtain row where row: "map_of (cp_users st) uid = Some row" "row_user uid row = Inr user"
    using get_user_Inr [OF u(1)] by blast
  have "global_role_value (du_role user) = str_or (uc_role row) ''member''"
    using row_user_Inr [OF row(2)]
    by (auto simp: global_role_of_def enum_of_def split: option.splits if_splits)
  then show ?thesis
    using row_user_Inr [OF row(2)] u(2) row(1) p
    by (simp add: principal_for_user_iff user_status_of_iff)
qed

lemma resolve_session_Inr:
  assumes "fst (resolve_session_with_id sha now raw st) = Inr (Some (p, sid))"
  obtains s where "raw \<noteq> []" "find_row (\<lambda>_ s. se_hash s = sha raw) (cp_sessions st) = Some (sid, s)"
    "now \<le> se_expires s" "active_principal (se_user s) ''session'' sid st = Inr (Some (p, sid))"
    "snd (resolve_session_with_id sha now raw st) = st"
proof -
  obtain sid' s where f: "raw \<noteq> []" "find_row (\<lambda>_ s. se_hash s = sha raw) (cp_sessions st) = Some (sid', s)"
    "\<not> se_expires s < now"
    using assms by (auto simp: resolve_session_with_id_def split: if_splits option.splits prod.splits)
  then have a: "active_principal (se_user s) ''session'' sid' st = Inr (Some (p, sid))"
    and st: "snd (resolve_session_with_id sha now raw st) = st"
    using assms by (simp_all add: resolve_session_with_id_def)
  moreover from a have "sid' = sid" by (simp add: active_principal_iff)
  ultimately show ?thesis using that f by simp
qed

lemma resolve_api_key_Inr:
  assumes "resolve_api_key_with_id sha raw st = Inr (Some (p, kid))"
  obtains r where "raw \<noteq> []" "find_row (\<lambda>_ r. ak_hash r = sha raw) (cp_keys st) = Some (kid, r)"
    "ak_revoked r = None" "active_principal (ak_user r) ''api_key'' kid st = Inr (Some (p, kid))"
proof -
  obtain kid' r where f: "raw \<noteq> []" "find_row (\<lambda>_ r. ak_hash r = sha raw) (cp_keys st) = Some (kid', r)"
    "ak_revoked r = None"
    using assms by (auto simp: resolve_api_key_with_id_def split: if_splits option.splits prod.splits)
  then have a: "active_principal (ak_user r) ''api_key'' kid' st = Inr (Some (p, kid))"
    using assms by (simp add: resolve_api_key_with_id_def)
  moreover from a have "kid' = kid" by (simp add: active_principal_iff)
  ultimately show ?thesis using that f by simp
qed

lemma verify_password_user:
  assumes "cp_verify_password kdf email pw st = Inr (Some u)"
  shows "cp_get_user_by_email email st = Inr (Some u) \<and> du_status u = Status_Active"
  using assms by (auto simp: cp_verify_password_def split: sum.splits option.splits if_splits bool.splits)

lemma create_user_result:
  assumes "fst (cp_create_user kdf fresh salt now email pw role name uid st) = Inr u"
  shows "du_role u = role \<and> du_status u = Status_Active \<and> du_email u = Some (cp_normalize_email email) \<and>
    map_of (cp_users st) (du_id u) = None \<and>
    (\<exists>row h. cp_users (snd (cp_create_user kdf fresh salt now email pw role name uid st)) =
         cp_users st @ [(du_id u, row)] \<and> row_user (du_id u) row = Inr u \<and>
       uc_email row = Some (cp_normalize_email email) \<and>
       hash_password kdf salt pw = Inr h \<and> uc_hash row = Some h) \<and>
    (\<forall>p \<in> set (cp_users st). uc_email (snd p) \<noteq> Some (cp_normalize_email email)) \<and>
    (uid = None \<longrightarrow> du_id u = user_id_prefix @ fresh)"
proof -
  obtain h where h: "hash_password kdf salt pw = Inr h"
    using assms by (auto simp: cp_create_user_def Let_def split: if_splits sum.splits)
  then obtain i row m where
    eq: "cp_create_user kdf fresh salt now email pw role name uid st = insert_and_read i row m st"
    and row: "uc_email row = Some (cp_normalize_email email)" "uc_role row = global_role_value role"
      "uc_status row = ''active''" "uc_hash row = Some h" "uid = None \<longrightarrow> i = user_id_prefix @ fresh"
    using assms
    by (cases "cp_normalize_email email = []")
       (fastforce simp: cp_create_user_def Let_def user_status_value_def)+
  obtain st' where ins: "insert_cp_user i row st = Some st'"
    using assms eq by (auto simp: insert_and_read_def split: option.splits)
  note c = insert_cp_user_cases [OF ins]
  have "map_of (cp_users st') i = Some row"
    using c by (simp add: map_add_def map_of_eq_None_iff [THEN iffD2] split: option.splits)
  then have get: "cp_get_user i st' = row_user_opt (Some (i, row))" by (simp add: cp_get_user_def)
  have u: "row_user i row = Inr u"
    using assms unfolding eq insert_and_read_def ins
    by (auto simp: get row_user_opt_def split: sum.splits)
  have st': "snd (cp_create_user kdf fresh salt now email pw role name uid st) = st'"
    by (simp add: eq insert_and_read_def ins split: sum.splits option.splits)
  have "str_or ''active'' ''active'' = ''active''" "user_status_of ''active'' = Inr Status_Active"
    by (simp_all add: str_or_def user_status_of_iff)
  with row_user_Inr [OF u] row have f: "du_id u = i" "du_email u = Some (cp_normalize_email email)"
    "du_role u = role" "du_status u = Status_Active"
    by (simp_all add: global_role_of_value)
  show ?thesis
    unfolding st' f using c row h u f by (simp add: map_of_eq_None_iff)
qed

subsection \<open>Disabled accounts\<close>

text \<open>The operations that can put an account back: its own status set anew, and the bootstrap.\<close>

definition leaves_disabled :: "string \<Rightarrow> cp_op \<Rightarrow> bool" where
  "leaves_disabled uid op \<longleftrightarrow>
     (case op of Op_Set_Status i s \<Rightarrow> i \<noteq> uid \<or> s = ''disabled'' | Op_Bootstrap _ _ _ _ _ _ \<Rightarrow> False | _ \<Rightarrow> True)"

definition account :: "control_plane \<Rightarrow> string \<Rightarrow> cp_user_row option" where
  "account st uid = map_of (cp_users st) uid"

lemma create_user_keeps_account:
  "account st k = Some r \<Longrightarrow>
     account (snd (cp_create_user kdf fresh salt now email pw role name uid st)) k = Some r"
  by (rule create_user_cases [of kdf fresh salt now email pw role name uid st])
     (auto simp: account_def map_add_def dest!: insert_cp_user_cases)

lemma disabled_keep:
  assumes "leaves_disabled uid op" "account st uid = Some r" "uc_status r = ''disabled''"
  shows "\<exists>r'. account (cp_step sha kdf st op) uid = Some r' \<and> uc_status r' = ''disabled''"
proof (cases op)
  case (Op_Create_User fresh salt now email pw role name i)
  with assms(2,3) show ?thesis by (simp add: create_user_keeps_account)
next
  case (Op_Set_Password salt i pw)
  with assms(2,3) show ?thesis
    by (simp add: set_password_def account_def map_of_update_rows split: sum.splits)
next
  case (Op_Set_Status i s)
  with assms show ?thesis
    by (simp add: set_user_status_def revoke_user_sessions_def Let_def account_def
        map_of_update_rows leaves_disabled_def)
next
  case (Op_Bootstrap fresh salt now email pw name)
  with assms(1) show ?thesis by (simp add: leaves_disabled_def)
next
  case (Op_Accept_Invite fresh salt now raw pw name)
  have frame: "account (set_invite_status P s st') uid = account st' uid" for P s st'
    by (simp add: account_def)
  have "account (snd (accept_invite sha kdf fresh salt now raw pw name st)) uid = Some r"
    by (rule accept_invite_cases [of sha kdf fresh salt now raw pw name st])
       (simp_all add: frame create_user_keeps_account assms(2))
  with Op_Accept_Invite assms(3) show ?thesis by simp
qed (use assms(2,3) in \<open>simp_all add: account_def\<close>)

interpretation accounts: one_way account "\<lambda>r. uc_status r = ''disabled''" "cp_step sha kdf"
    leaves_disabled cp_inv for sha :: sha and kdf :: kdf
  by (unfold_locales, erule cp_step_inv, erule (2) disabled_keep)

lemma disabled_principal:
  assumes "account st uid = Some r" "uc_status r = ''disabled''"
    "active_principal i via pid st = Inr (Some (p, q))"
  shows "pp_user p \<noteq> uid"
proof
  assume "pp_user p = uid"
  with active_principal_user [OF assms(3)] assms(1) have "str_or (uc_status r) ''active'' = ''active''"
    by (auto simp: account_def)
  with assms(2) show False by (simp add: str_or_def)
qed

lemma resolve_session_pair:
  assumes "fst (resolve_session sha now raw st) = Inr (Some p)"
  obtains sid where "fst (resolve_session_with_id sha now raw st) = Inr (Some (p, sid))"
  using assms by (auto simp: resolve_session_def split: prod.splits sum.splits)

lemma resolve_key_pair:
  assumes "resolve_api_key sha raw st = Inr (Some p)"
  obtains kid where "resolve_api_key_with_id sha raw st = Inr (Some (p, kid))"
  using assms by (auto simp: resolve_api_key_def split: sum.splits)

lemma disabled_no_access:
  assumes inv: "cp_inv st" and acc: "account st uid = Some r" "uc_status r = ''disabled''"
  shows "fst (resolve_session sha now raw st) = Inr (Some p) \<Longrightarrow> pp_user p \<noteq> uid"
    "resolve_api_key sha raw st = Inr (Some p) \<Longrightarrow> pp_user p \<noteq> uid"
    "cp_verify_password kdf email pw st = Inr (Some u) \<Longrightarrow> du_id u \<noteq> uid"
proof -
  show "pp_user p \<noteq> uid" if h: "fst (resolve_session sha now raw st) = Inr (Some p)"
  proof -
    obtain sid where "fst (resolve_session_with_id sha now raw st) = Inr (Some (p, sid))"
      using resolve_session_pair [OF h] .
    then show ?thesis by (rule resolve_session_Inr) (rule disabled_principal [OF acc])
  qed
  show "pp_user p \<noteq> uid" if h: "resolve_api_key sha raw st = Inr (Some p)"
  proof -
    obtain kid where "resolve_api_key_with_id sha raw st = Inr (Some (p, kid))"
      using resolve_key_pair [OF h] .
    then show ?thesis by (rule resolve_api_key_Inr) (rule disabled_principal [OF acc])
  qed
  show "du_id u \<noteq> uid" if h: "cp_verify_password kdf email pw st = Inr (Some u)"
  proof
    assume u: "du_id u = uid"
    have e: "cp_get_user_by_email email st = Inr (Some u)" "du_status u = Status_Active"
      using verify_password_user [OF h] by simp_all
    obtain row where "(du_id u, row) \<in> set (cp_users st)" "row_user (du_id u) row = Inr u"
      using get_user_by_email_Inr [OF e(1)] .
    moreover have "dict_wf (cp_users st)" using inv by (simp add: cp_inv_def users_ok_def)
    ultimately have "row = r" using acc(1) u by (simp add: account_def dict_get_iff [symmetric])
    with row_user_Inr [OF \<open>row_user (du_id u) row = Inr u\<close>] acc(2) e(2) show False
      by (simp add: str_or_def user_status_of_iff)
  qed
qed

text \<open>
  C12: once an account is disabled, no session token, no API key and no password gives access as
  that user, whatever operations follow other than setting its status again or the bootstrap of
  an administrator.
\<close>

theorem disabled_user_locked_out:
  assumes "cp_inv st" "map_of (cp_users st) uid = Some row" "list_all (leaves_disabled uid) ops"
    "st' = foldl (cp_step sha kdf) (set_user_status uid ''disabled'' st) ops"
  shows "(\<forall>now raw p. fst (resolve_session sha now raw st') = Inr (Some p) \<longrightarrow> pp_user p \<noteq> uid) \<and>
    (\<forall>raw p. resolve_api_key sha raw st' = Inr (Some p) \<longrightarrow> pp_user p \<noteq> uid) \<and>
    (\<forall>email pw u. cp_verify_password kdf email pw st' = Inr (Some u) \<longrightarrow> du_id u \<noteq> uid)"
proof -
  have "account (set_user_status uid ''disabled'' st) uid = Some (row\<lparr>uc_status := ''disabled''\<rparr>)"
    using assms(2) by (simp add: set_user_status_def revoke_user_sessions_def Let_def account_def
        map_of_update_rows)
  then obtain r where "account st' uid = Some r" "uc_status r = ''disabled''"
    using accounts.run_spent [OF set_user_status_inv [OF assms(1)] assms(3)] unfolding assms(4)
    by fastforce
  moreover have "cp_inv st'"
    unfolding assms(4) by (intro accounts.run_ok set_user_status_inv assms(1))
  ultimately show ?thesis using disabled_no_access by blast
qed

subsection \<open>Single use and the invariant\<close>

text \<open>
  C11: whatever operations run on a fresh store, with whatever arguments, emails stay unique, every
  token hash names one row, roles and invite states are known values and platform identities parse
  to their rows.
\<close>

theorem cp_reachable_inv: "cp_inv (foldl (cp_step sha kdf) cp_init ops)"
  by (rule accounts.run_ok [OF cp_inv_init])

lemma create_user_ok:
  assumes "hash_password kdf salt pw = Inr h" "cp_normalize_email email \<noteq> []"
    "user_id_prefix @ fresh \<notin> fst ` set (cp_users st)"
    "\<forall>p \<in> set (cp_users st). uc_email (snd p) \<noteq> Some (cp_normalize_email email)"
  shows "\<exists>u st'. cp_create_user kdf fresh salt now email pw role name None st = (Inr u, st')"
proof -
  define row where "row = \<lparr>uc_name = Some (default_name (cp_normalize_email email) name),
    uc_email = Some (cp_normalize_email email), uc_created = sql_now now, uc_hash = Some h,
    uc_role = global_role_value role, uc_status = user_status_value Status_Active\<rparr>"
  define st' where "st' = st\<lparr>cp_users := cp_users st @ [(user_id_prefix @ fresh, row)]\<rparr>"
  have ins: "insert_cp_user (user_id_prefix @ fresh) row st = Some st'"
    using assms(3,4) by (simp add: insert_cp_user_def row_def st'_def list_ex_iff map_of_eq_None_iff)
  have "str_or ''active'' ''active'' = ''active''" "user_status_of ''active'' = Inr Status_Active"
    by (simp_all add: str_or_def user_status_of_iff)
  then obtain u where "row_user (user_id_prefix @ fresh) row = Inr u"
    by (simp add: row_user_def row_def global_role_of_value user_status_value_def)
  moreover have "map_of (cp_users st') (user_id_prefix @ fresh) = Some row"
    using assms(3) by (simp add: st'_def map_add_def map_of_eq_None_iff [THEN iffD2])
  ultimately have get: "cp_get_user (user_id_prefix @ fresh) st' = Inr (Some u)"
    by (simp add: cp_get_user_def row_user_opt_def)
  have "cp_create_user kdf fresh salt now email pw role name None st =
      insert_and_read (user_id_prefix @ fresh) row (cp_normalize_email email) st"
    using assms(1,2) by (simp add: cp_create_user_def Let_def row_def)
  then show ?thesis by (simp add: insert_and_read_def ins get)
qed

lemma accept_not_pending:
  assumes "invite_by_hash st (sha raw) = Some (k, r)" "iv_status r \<noteq> ''pending''"
  shows "(\<exists>m. fst (accept_invite sha kdf fresh salt now raw pw name st) = Inl (Value_Error m)) \<and>
    snd (accept_invite sha kdf fresh salt now raw pw name st) = st"
  using assms by (simp add: accept_invite_def invite_by_hash_def invite_status_value_def)

lemma accept_marks:
  assumes "fst (accept_invite sha kdf fresh salt now raw pw name st) = Inr user"
  shows "(\<exists>k r. invite_by_hash st (sha raw) = Some (k, r) \<and> iv_status r = ''pending'' \<and>
      now \<le> iv_expires r \<and> du_email user = Some (cp_normalize_email (iv_email r))) \<and>
    du_role user = Role_Member \<and> du_status user = Status_Active \<and> account st (du_id user) = None \<and>
    (\<exists>k r. invite_by_hash (snd (accept_invite sha kdf fresh salt now raw pw name st)) (sha raw) =
       Some (k, r) \<and> iv_status r \<noteq> ''pending'')"
proof (rule accept_invite_cases [of sha kdf fresh salt now raw pw name st], goal_cases)
  case (4 iid r u)
  have "user = u" using 4(7) assms by simp
  then have res: "fst (cp_create_user kdf fresh salt now (iv_email r) pw Role_Member name None st) = Inr user"
    using 4(6) by simp
  let ?st = "snd (cp_create_user kdf fresh salt now (iv_email r) pw Role_Member name None st)"
  note cr = create_user_result [OF res]
  have row: "invite_by_hash st (sha raw) = Some (iid, r)" using 4(1) by (simp add: invite_by_hash_def)
  have "invite_by_hash (set_invite_status (\<lambda>i _. i = iid) Invite_Accepted ?st) (sha raw) =
      Some (iid, r\<lparr>iv_status := ''accepted''\<rparr>)"
    using 4(1) unfolding invite_by_hash_def set_invite_status_def
    by (simp add: find_update_rows [of iv_hash] invite_status_value_def)
  moreover have "du_role user = Role_Member" by (rule cr [THEN conjunct1])
  moreover have "du_status user = Status_Active" by (rule cr [THEN conjunct2, THEN conjunct1])
  moreover have "du_email user = Some (cp_normalize_email (iv_email r))"
    by (rule cr [THEN conjunct2, THEN conjunct2, THEN conjunct1])
  moreover have "account st (du_id user) = None"
    unfolding account_def by (rule cr [THEN conjunct2, THEN conjunct2, THEN conjunct2, THEN conjunct1])
  ultimately show ?case
    using row 4(2,3) by (simp add: 4(7))
qed (use assms in simp_all)

text \<open>
  C13: an accepted invite was pending and unexpired, makes a new active member (never an
  administrator) with the invited email, and its token is refused ever after, whatever
  operations come between.
\<close>

theorem invite_single_use:
  assumes "cp_inv st" "accept_invite sha kdf fresh salt now raw pw name st = (Inr user, st1)"
    "st2 = foldl (cp_step sha kdf) st1 ops"
  shows "du_role user = Role_Member \<and> du_status user = Status_Active \<and> map_of (cp_users st) (du_id user) = None \<and>
    (\<exists>k r. invite_by_hash st (sha raw) = Some (k, r) \<and> iv_status r = ''pending'' \<and>
       now \<le> iv_expires r \<and> du_email user = Some (cp_normalize_email (iv_email r))) \<and>
    (\<exists>m. fst (accept_invite sha kdf fresh' salt' now' raw pw' name' st2) = Inl (Value_Error m)) \<and>
    snd (accept_invite sha kdf fresh' salt' now' raw pw' name' st2) = st2"
proof -
  have res: "fst (accept_invite sha kdf fresh salt now raw pw name st) = Inr user"
    and st1: "snd (accept_invite sha kdf fresh salt now raw pw name st) = st1"
    using assms(2) by simp_all
  note m = accept_marks [OF res, unfolded st1]
  then obtain k r where "invite_by_hash st1 (sha raw) = Some (k, r)" "iv_status r \<noteq> ''pending''"
    by blast
  moreover have "cp_inv st1" using accept_invite_inv [OF assms(1), of sha kdf fresh salt now raw pw name] st1
    by simp
  ultimately obtain k r where "invite_by_hash st2 (sha raw) = Some (k, r)" "iv_status r \<noteq> ''pending''"
    using invites.run_spent [where s = st1 and h = "sha raw" and ops = ops and r = "(k, r)"
        and sha = sha and kdf = kdf]
    by (auto simp: assms(3) list.pred_True)
  from accept_not_pending [where sha = sha and raw = raw, OF this] m show ?thesis by (simp add: account_def)
qed

subsection \<open>Link codes and API keys\<close>

lemma load_link_Inr:
  assumes "load_valid_link_code now h platform st = Inr (code, uid)"
  obtains r where "link_by_hash st h = Some (code, r)" "lc_consumed r = None" "now \<le> lc_expires r"
    "lc_user r = uid" "lc_platform r = None \<or> lc_platform r = Some platform"
  using assms by (auto simp: load_valid_link_code_def link_by_hash_def split: option.splits if_splits prod.splits)

lemma claim_ok:
  assumes "fst (claim_link_code code now st) = Inr ()" "link_by_hash st h = Some (code, r)"
    "lc_consumed r = None" "cp_inv st"
  shows "now < lc_expires r \<and>
    link_by_hash (snd (claim_link_code code now st)) h = Some (code, r\<lparr>lc_consumed := Some now\<rparr>)"
proof -
  let ?P = "\<lambda>i r. i = code \<and> lc_consumed r = None \<and> now < lc_expires r"
  have wf: "dict_wf (cp_links st)" using assms(4) by (simp add: cp_inv_def token_table_ok_def)
  have row: "(code, r) \<in> set (cp_links st)" "lc_hash r = h"
    using assms(2) by (auto simp: link_by_hash_def dest: find_row_SomeD)
  have "0 < count_rows ?P (cp_links st)"
    using assms(1) by (auto simp: claim_link_code_def Let_def split: if_splits)
  then obtain i r' where "(i, r') \<in> set (cp_links st)" "?P i r'" by (auto simp: count_rows_pos)
  with row wf have "now < lc_expires r" by (metis dict_get_iff option.inject)
  moreover have "snd (claim_link_code code now st) =
      st\<lparr>cp_links := update_rows ?P (\<lambda>r. r\<lparr>lc_consumed := Some now\<rparr>) (cp_links st)\<rparr>"
    by (simp add: claim_link_code_def Let_def)
  ultimately show ?thesis
    using assms(2,3) by (simp add: link_by_hash_def find_update_rows [of lc_hash])
qed

lemma attach_ok:
  assumes "fst (attach_platform_identity uid platform puid key st) = Inr ()"
    "parse_platform_key key = Some (platform, puid, key)" "cp_inv st"
  shows "map_of (cp_idents (snd (attach_platform_identity uid platform puid key st))) key =
      Some \<lparr>pi_platform = platform, pi_uid = puid, pi_user = uid\<rparr> \<and>
    (\<forall>k r. (k, r) \<in> set (cp_idents (snd (attach_platform_identity uid platform puid key st))) \<and>
       pi_user r = uid \<and> pi_platform r = platform \<longrightarrow> k = key) \<and>
    (\<forall>k r. pi_user r \<noteq> uid \<longrightarrow>
       (k, r) \<in> set (cp_idents (snd (attach_platform_identity uid platform puid key st))) \<longleftrightarrow>
       (k, r) \<in> set (cp_idents st))"
proof -
  define F where "F = filter (\<lambda>(k, r). k = key \<or> \<not> (pi_user r = uid \<and> pi_platform r = platform)) (cp_idents st)"
  have wf: "dict_wf (cp_idents st)" and ok: "idents_ok (cp_idents st)"
    using cp_inv_tables(7) [OF assms(3)] by (simp_all add: idents_ok_def token_table_ok_def)
  have F: "filter (\<lambda>(k, _). k = key \<or> k \<notin> set (map fst (filter (\<lambda>(_, r). pi_user r = uid \<and> pi_platform r = platform)
      (cp_idents st)))) (cp_idents st) = F"
    unfolding F_def
  proof (rule filter_cong [OF refl], goal_cases)
    case (1 p)
    obtain k r where p: "p = (k, r)" by (cases p)
    have r': "r' = r" if "(k, r') \<in> set (cp_idents st)" for r'
      using that 1 wf by (simp add: p flip: dict_get_iff)
    have "k \<in> set (map fst (filter (\<lambda>(_, r). pi_user r = uid \<and> pi_platform r = platform) (cp_idents st)))
      \<longleftrightarrow> pi_user r = uid \<and> pi_platform r = platform"
    proof
      assume "k \<in> set (map fst (filter (\<lambda>(_, r). pi_user r = uid \<and> pi_platform r = platform) (cp_idents st)))"
      then obtain r1 where "(k, r1) \<in> set (cp_idents st)" "pi_user r1 = uid \<and> pi_platform r1 = platform"
        by auto
      with r' show "pi_user r = uid \<and> pi_platform r = platform" by simp
    next
      assume "pi_user r = uid \<and> pi_platform r = platform"
      with 1 have "(k, r) \<in> set (filter (\<lambda>(_, r). pi_user r = uid \<and> pi_platform r = platform) (cp_idents st))"
        by (simp add: p)
      then show "k \<in> set (map fst (filter (\<lambda>(_, r). pi_user r = uid \<and> pi_platform r = platform) (cp_idents st)))"
        by (force simp del: set_filter)
    qed
    then show ?case by (simp add: p)
  qed
  have wfF: "dict_wf F" unfolding F_def using wf by simp
  show ?thesis
  proof (cases "map_of (cp_idents st) key")
    case (Some r)
    then have "pi_user r = uid"
      using assms(1) by (auto simp: attach_platform_identity_def Let_def split: if_splits)
    moreover have in_set: "(key, r) \<in> set (cp_idents st)" using Some by (rule map_of_SomeD)
    then have "pi_platform r = platform" "pi_uid r = puid"
      using ok assms(2) by (auto simp: idents_ok_def)
    ultimately have r: "r = \<lparr>pi_platform = platform, pi_uid = puid, pi_user = uid\<rparr>" by simp
    have "cp_idents (snd (attach_platform_identity uid platform puid key st)) = F"
      unfolding attach_platform_identity_def Let_def F by (simp add: Some r)
    moreover have "map_of F key = Some r"
      unfolding dict_get_iff [OF wfF] using in_set by (simp add: F_def)
    ultimately show ?thesis by (auto simp: r F_def)
  next
    case None
    then obtain rows where ins: "insert_unique (\<lambda>r. (pi_platform r, pi_uid r)) key
        \<lparr>pi_platform = platform, pi_uid = puid, pi_user = uid\<rparr> F = Some rows"
      and st': "cp_idents (snd (attach_platform_identity uid platform puid key st)) = rows"
      using assms(1) unfolding attach_platform_identity_def Let_def F
      by (auto split: option.splits)
    have "key \<notin> fst ` set F" using None by (auto simp: F_def map_of_eq_None_iff image_iff)
    then have "map_of F key = None" by (simp add: map_of_eq_None_iff)
    with ins show ?thesis
      by (auto simp: st' insert_unique_iff F_def map_add_def)
  qed
qed

lemma consume_spent:
  assumes "link_by_hash st (sha raw) = Some (k, r)" "lc_consumed r \<noteq> None"
  shows "\<not> is_ok (fst (consume_link_code sha now_s now raw key st)) \<and>
    snd (consume_link_code sha now_s now raw key st) = st"
  using assms by (auto simp: consume_link_code_def load_valid_link_code_def link_by_hash_def split: option.splits)

text \<open>A claim that went through is never undone, also when attaching the identity is refused.\<close>

lemma claim_spends:
  assumes "cp_inv st" "load_valid_link_code now (sha raw) platform st = Inr (code, uid)"
    "fst (claim_link_code code now_s st) = Inr ()"
  obtains r where "link_by_hash (snd (claim_link_code code now_s st)) (sha raw) =
      Some (code, r\<lparr>lc_consumed := Some now_s\<rparr>)" "link_by_hash st (sha raw) = Some (code, r)"
    "lc_user r = uid" "lc_consumed r = None" "now \<le> lc_expires r" "now_s < lc_expires r"
    "lc_platform r = None \<or> lc_platform r = Some platform"
proof -
  obtain r where r: "link_by_hash st (sha raw) = Some (code, r)" "lc_consumed r = None"
    "now \<le> lc_expires r" "lc_user r = uid" "lc_platform r = None \<or> lc_platform r = Some platform"
    using load_link_Inr [OF assms(2)] .
  from claim_ok [OF assms(3) r(1,2) assms(1)] r that show ?thesis by blast
qed

lemma refused_link_spends_code:
  assumes "cp_inv st" "parse_platform_key key = Some (platform, puid, key)"
    "load_valid_link_code now (sha raw) platform st = Inr (code, uid)"
    "fst (claim_link_code code now_s st) = Inr ()"
    "map_of (cp_idents st) key = Some row" "pi_user row \<noteq> uid"
  shows "\<not> is_ok (fst (consume_link_code sha now_s now raw key st)) \<and>
    (\<exists>k r. link_by_hash (snd (consume_link_code sha now_s now raw key st)) (sha raw) = Some (k, r) \<and>
       lc_consumed r \<noteq> None)"
proof -
  obtain c st' where cl: "claim_link_code code now_s st = (c, st')"
    by (cases "claim_link_code code now_s st")
  have idents: "cp_idents st' = cp_idents st" using link_ops_frame(11) [of code now_s st] cl by simp
  have "attach_platform_identity uid platform puid key st' =
      (Inl (Value_Error (''platform identity already linked: '' @ key)), st')"
    using assms(5,6) by (simp add: attach_platform_identity_def idents)
  then have "snd (consume_link_code sha now_s now raw key st) = st'"
    "\<not> is_ok (fst (consume_link_code sha now_s now raw key st))"
    using assms(4) by (simp_all add: consume_link_code_def assms(2,3) cl)
  moreover obtain r where "link_by_hash st' (sha raw) = Some (code, r\<lparr>lc_consumed := Some now_s\<rparr>)"
    using claim_spends [where sha = sha and raw = raw, OF assms(1,3,4)] cl by auto
  ultimately show ?thesis by auto
qed

text \<open>
  a consumed link code was unspent, unexpired and minted for that platform or for any; it makes
  the chat account the only one of its platform linked to the user who minted it, touches no
  other user's links, and is refused ever after, whatever operations come between.
\<close>

theorem link_code_single_use:
  assumes "cp_inv st" "consume_link_code sha now_s now raw key st = (Inr uid, st1)"
    "st2 = foldl (cp_step sha kdf) st1 ops"
  shows "(\<exists>k r platform puid. link_by_hash st (sha raw) = Some (k, r) \<and> lc_user r = uid \<and>
      lc_consumed r = None \<and> now \<le> lc_expires r \<and> parse_platform_key key = Some (platform, puid, key) \<and>
      (lc_platform r = None \<or> lc_platform r = Some platform) \<and>
      {k. \<exists>i. (k, i) \<in> set (cp_idents st1) \<and> pi_user i = uid \<and> pi_platform i = platform} = {key}) \<and>
    dash_user_for_platform key st1 = Some uid \<and>
    (\<forall>k i. pi_user i \<noteq> uid \<longrightarrow> (k, i) \<in> set (cp_idents st1) \<longleftrightarrow> (k, i) \<in> set (cp_idents st)) \<and>
    \<not> is_ok (fst (consume_link_code sha now_s' now' raw key' st2)) \<and>
    snd (consume_link_code sha now_s' now' raw key' st2) = st2"
proof -
  have res: "fst (consume_link_code sha now_s now raw key st) = Inr uid"
    and st1: "snd (consume_link_code sha now_s now raw key st) = st1" using assms(2) by simp_all
  obtain platform puid code uid' where key: "parse_platform_key key = Some (platform, puid, key)"
    and load: "load_valid_link_code now (sha raw) platform st = Inr (code, uid')"
    and claim: "fst (claim_link_code code now_s st) = Inr ()"
    and att: "snd (consume_link_code sha now_s now raw key st) =
         snd (attach_platform_identity uid' platform puid key (snd (claim_link_code code now_s st)))"
      "fst (consume_link_code sha now_s now raw key st) =
         (case fst (attach_platform_identity uid' platform puid key (snd (claim_link_code code now_s st))) of
            Inl e \<Rightarrow> Inl e | Inr _ \<Rightarrow> Inr uid')"
    by (rule consume_cases [of sha now_s now raw key st]) (use res in simp_all)
  define st' where "st' = snd (claim_link_code code now_s st)"
  have ok: "fst (attach_platform_identity uid' platform puid key st') = Inr ()" and uid: "uid' = uid"
    using res att(2) by (simp_all add: st'_def split: sum.splits)
  obtain r where r: "link_by_hash st' (sha raw) = Some (code, r\<lparr>lc_consumed := Some now_s\<rparr>)"
      "link_by_hash st (sha raw) = Some (code, r)" "lc_user r = uid" "lc_consumed r = None"
      "now \<le> lc_expires r" "lc_platform r = None \<or> lc_platform r = Some platform"
    using claim_spends [where sha = sha and raw = raw, OF assms(1) load claim] unfolding st'_def uid
    by blast
  have inv': "cp_inv st'" unfolding st'_def by (rule claim_link_code_inv [OF assms(1)])
  have ids: "cp_idents st' = cp_idents st" by (simp add: st'_def)
  note a = attach_ok [OF ok key inv', unfolded uid, folded st1 [unfolded att(1) uid, folded st'_def] ids]
  have st1': "st1 = snd (attach_platform_identity uid platform puid key st')"
    using st1 att(1) uid by (simp add: st'_def)
  have a1: "map_of (cp_idents st1) key = Some \<lparr>pi_platform = platform, pi_uid = puid, pi_user = uid\<rparr>"
    and a2: "\<And>k i. (k, i) \<in> set (cp_idents st1) \<Longrightarrow> pi_user i = uid \<Longrightarrow> pi_platform i = platform \<Longrightarrow> k = key"
    and a3: "\<forall>k i. pi_user i \<noteq> uid \<longrightarrow> (k, i) \<in> set (cp_idents st1) \<longleftrightarrow> (k, i) \<in> set (cp_idents st)"
    using attach_ok [OF ok key inv'] unfolding uid st1' ids by blast+
  have "{k. \<exists>i. (k, i) \<in> set (cp_idents st1) \<and> pi_user i = uid \<and> pi_platform i = platform} = {key}"
    (is "?K = _")
  proof
    show "?K \<subseteq> {key}" using a2 by blast
    have "(key, \<lparr>pi_platform = platform, pi_uid = puid, pi_user = uid\<rparr>) \<in> set (cp_idents st1)"
      by (rule map_of_SomeD [OF a1])
    then have "key \<in> ?K" by force
    then show "{key} \<subseteq> ?K" by simp
  qed
  moreover have "dash_user_for_platform key st1 = Some uid"
    by (simp add: dash_user_for_platform_def a1)
  moreover have "cp_inv st1" unfolding st1' by (rule attach_identity_inv [OF inv' key])
  then obtain k r' where "link_by_hash st2 (sha raw) = Some (k, r')" "lc_consumed r' \<noteq> None"
    using links.run_spent [where s = st1 and h = "sha raw" and ops = ops and sha = sha and kdf = kdf
        and r = "(code, r\<lparr>lc_consumed := Some now_s\<rparr>)"] r(1)
    by (auto simp: assms(3) list.pred_True st1' link_by_hash_def)
  note spent = consume_spent [where sha = sha and raw = raw, OF this]
  ultimately show ?thesis
    by (intro conjI exI [of _ code] exI [of _ r] exI [of _ platform] exI [of _ puid])
       (rule r key a3 spent [THEN conjunct1] spent [THEN conjunct2] | assumption)+
qed

text \<open>
  A revoked API key is never accepted again, whatever operations follow.
\<close>

theorem revoked_key_never_resolves:
  assumes "cp_inv st" "key_by_hash st (sha raw) = Some (kid, r)"
    "revoke_api_key now kid owner_id st = (True, st1)" "st2 = foldl (cp_step sha kdf) st1 ops"
  shows "resolve_api_key sha raw st2 = Inr None"
proof -
  define P where "P = (\<lambda>k (r :: api_key_row). k = kid \<and> (case owner_id of None \<Rightarrow> True | Some u \<Rightarrow> ak_user r = u) \<and>
                     ak_revoked r = None)"
  have st1: "st1 = st\<lparr>cp_keys := update_rows P (\<lambda>r. r\<lparr>ak_revoked := Some now\<rparr>) (cp_keys st)\<rparr>"
    and pos: "0 < count_rows P (cp_keys st)"
    using assms(3) by (simp_all add: revoke_api_key_def Let_def P_def)
  have wf: "dict_wf (cp_keys st)" using assms(1) by (simp add: cp_inv_def token_table_ok_def)
  have row: "(kid, r) \<in> set (cp_keys st)" using assms(2) by (auto simp: key_by_hash_def dest: find_row_SomeD)
  obtain k' r' where "(k', r') \<in> set (cp_keys st)" "P k' r'" using pos by (auto simp: count_rows_pos)
  moreover from this have "k' = kid" by (simp add: P_def)
  ultimately have "P kid r" using row wf by (metis dict_get_iff option.inject)
  then have "key_by_hash st1 (sha raw) = Some (kid, r\<lparr>ak_revoked := Some now\<rparr>)"
    using assms(2) by (simp add: st1 key_by_hash_def find_update_rows [of ak_hash])
  moreover have "cp_inv st1" using revoke_api_key_inv [OF assms(1), of now kid owner_id] assms(3) by simp
  ultimately obtain k r' where "key_by_hash st2 (sha raw) = Some (k, r')" "ak_revoked r' \<noteq> None"
    using keys.run_spent [where s = st1 and h = "sha raw" and ops = ops and sha = sha and kdf = kdf
        and r = "(kid, r\<lparr>ak_revoked := Some now\<rparr>)"]
    by (auto simp: assms(4) list.pred_True)
  then show ?thesis
    by (auto simp: resolve_api_key_def resolve_api_key_with_id_def key_by_hash_def)
qed

subsection \<open>Who sees a job\<close>

lemma job_meta_lookup:
  "map_of (job_meta_map ids st) j =
     (if j \<in> set ids then map_option (\<lambda>r. (Some (jl_by r), jl_org r)) (map_of (cp_jobs st) j) else None)"
proof -
  have "map_of (map (\<lambda>(j, r). (j, f r)) (filter (\<lambda>(j, _). j \<in> S) d)) j =
      (if j \<in> S then map_option f (map_of d j) else None)" 
    for f :: "job_row \<Rightarrow> string option \<times> string option" and S and d :: "(string, job_row) dict"
    by (induction d) auto
  then show ?thesis by (simp add: job_meta_map_def)
qed

lemma org_ids_iff: "oid \<in> org_ids_for_user uid st \<longleftrightarrow> is_org_member oid uid st"
  by (force simp: org_ids_for_user_def is_org_member_def map_of_eq_None_iff)

text \<open>
  of a list of jobs, the principal the store makes of a user is shown exactly those the user
  launched or that belong to an organization the user is a member of, and an administrator all;
  the order is kept.
\<close>

theorem jobs_visible_to_owner_and_org:
  assumes "principal_for_user user via active st = Inr p"
  shows "filter_jobs_visible p jobs (job_meta_map (map fst jobs) st) =
    filter (\<lambda>job. du_role user = Role_Admin \<or>
      (\<exists>r. map_of (cp_jobs st) (fst job) = Some r \<and>
        (jl_by r = du_id user \<or> (\<exists>org. jl_org r = Some org \<and> org \<noteq> [] \<and> is_org_member org (du_id user) st)))) jobs"
proof (cases "du_role user")
  case Role_Admin
  then have "''admin'' \<in> pp_roles p" using assms by (simp add: principal_for_user_iff global_role_value_def)
  with Role_Admin show ?thesis by (simp add: filter_jobs_visible_def cp_is_admin_def)
next
  case Role_Member
  then have p: "''admin'' \<notin> pp_roles p" "pp_user p = du_id user" "du_id user \<noteq> []"
    "pp_orgs p = org_ids_for_user (du_id user) st"
    using assms by (simp_all add: principal_for_user_iff global_role_value_def)
  have "''jobs.read'' \<notin> set admin_only_actions" "''jobs.read'' \<noteq> ''orgs.create''"
    by (simp_all add: admin_only_actions_def)
  then have dec: "az_allowed (cp_authorize p ''jobs.read'' (Some \<lparr>rr_kind = k, rr_owner = by_id, rr_org = org, rr_id = i\<rparr>)) \<longleftrightarrow>
      by_id = Some (du_id user) \<or> (\<exists>o_id. org = Some o_id \<and> o_id \<noteq> [] \<and> is_org_member o_id (du_id user) st)"
    for k by_id org i
    using p by (auto simp: cp_authorize_def org_ids_iff split: option.splits)
  have * : "(case job of (jid, _) \<Rightarrow>
      let (launched_by, org_id) = (case map_of (job_meta_map (map fst jobs) st) jid of None \<Rightarrow> (None, None) | Some m \<Rightarrow> m)
      in az_allowed (cp_authorize p ''jobs.read''
           (Some \<lparr>rr_kind = ''job'', rr_owner = launched_by, rr_org = org_id, rr_id = None\<rparr>))) \<longleftrightarrow>
    (\<exists>r. map_of (cp_jobs st) (fst job) = Some r \<and>
      (jl_by r = du_id user \<or> (\<exists>org. jl_org r = Some org \<and> org \<noteq> [] \<and> is_org_member org (du_id user) st)))"
    if "job \<in> set jobs" for job
  proof -
    obtain jid rest where job: "job = (jid, rest)" by (cases job)
    with that have "jid \<in> set (map fst jobs)" by force
    then show ?thesis
      by (cases "map_of (cp_jobs st) jid") (simp_all add: job job_meta_lookup dec)
  qed
  show ?thesis
    unfolding filter_jobs_visible_def cp_is_admin_def if_not_P [OF p(1)]
    by (rule filter_cong [OF refl], rule trans [OF *]) (simp_all add: Role_Member)
qed

subsection \<open>Witnesses\<close>

text \<open>A store with an administrator, a member, an open invite, a link code and an API key.\<close>

definition sample_cp :: control_plane where
  "sample_cp = cp_init\<lparr>
     cp_users := [(''rx:user:a'', \<lparr>uc_name = None, uc_email = Some ''a@x'', uc_created = 0,
                     uc_hash = None, uc_role = ''admin'', uc_status = ''active''\<rparr>),
                  (''rx:user:b'', \<lparr>uc_name = None, uc_email = Some ''b@x'', uc_created = 0,
                     uc_hash = None, uc_role = ''member'', uc_status = ''active''\<rparr>)],
     cp_invites := [(''inv:1'', \<lparr>iv_email = ''c@x'', iv_hash = ''it'', iv_by = ''rx:user:a'',
                     iv_status = ''pending'', iv_expires = 10, iv_created = 0\<rparr>)],
     cp_keys := [(''key:1'', \<lparr>ak_user = ''rx:user:b'', ak_name = ''k'', ak_hash = ''fak_k'',
                     ak_prefix = ''fak_k'', ak_created = 0, ak_revoked = None\<rparr>)],
     cp_members := [((''org:1'', ''rx:user:b''), ''member'')],
     cp_jobs := [(''j1'', \<lparr>jl_by = ''rx:user:b'', jl_org = None, jl_created = 0\<rparr>),
                 (''j2'', \<lparr>jl_by = ''rx:user:a'', jl_org = Some ''org:1'', jl_created = 0\<rparr>),
                 (''j3'', \<lparr>jl_by = ''rx:user:a'', jl_org = None, jl_created = 0\<rparr>)],
     cp_links := [(''lnk:1'', \<lparr>lc_user = ''rx:user:b'', lc_platform = None, lc_hash = ''lt'',
                     lc_expires = 10, lc_created = 0, lc_consumed = None\<rparr>)]\<rparr>"

lemma sample_cp_sel [simp]:
  "cp_invites sample_cp = [(''inv:1'', \<lparr>iv_email = ''c@x'', iv_hash = ''it'', iv_by = ''rx:user:a'',
     iv_status = ''pending'', iv_expires = 10, iv_created = 0\<rparr>)]"
  "cp_keys sample_cp = [(''key:1'', \<lparr>ak_user = ''rx:user:b'', ak_name = ''k'', ak_hash = ''fak_k'',
     ak_prefix = ''fak_k'', ak_created = 0, ak_revoked = None\<rparr>)]"
  "cp_links sample_cp = [(''lnk:1'', \<lparr>lc_user = ''rx:user:b'', lc_platform = None, lc_hash = ''lt'',
     lc_expires = 10, lc_created = 0, lc_consumed = None\<rparr>)]"
  "cp_idents sample_cp = []" "cp_sessions sample_cp = []" "cp_orgs sample_cp = []"
  by (simp_all add: sample_cp_def cp_init_def)

lemma sample_cp_inv: "cp_inv sample_cp"
  by (simp add: cp_inv_def users_ok_def mails_unique_def invites_ok_def token_table_ok_def members_ok_def
      idents_ok_def dict_wf_def) (simp add: sample_cp_def cp_init_def)

definition plain_sha :: sha where
  "plain_sha s = s"

lemma disabled_user_locked_out_witness:
  "(\<exists>p. resolve_api_key plain_sha ''fak_k'' sample_cp = Inr (Some p) \<and> pp_user p = ''rx:user:b'') \<and>
   \<not> (\<exists>p. resolve_api_key plain_sha ''fak_k''
        (foldl (cp_step plain_sha sample_kdf) (set_user_status ''rx:user:b'' ''disabled'' sample_cp)
          [Op_Create_Session ''1'' ''tok'' 1 ''rx:user:b'' 100]) = Inr (Some p) \<and> pp_user p = ''rx:user:b'')"
proof
  show "\<exists>p. resolve_api_key plain_sha ''fak_k'' sample_cp = Inr (Some p) \<and> pp_user p = ''rx:user:b''"
    by (simp add: resolve_api_key_def resolve_api_key_with_id_def plain_sha_def)
       (simp add: active_principal_def cp_get_user_def row_user_opt_def row_user_def global_role_of_def
         user_status_of_def enum_of_def str_or_def global_role_value_def user_status_value_def
         principal_for_user_def mk_cp_principal_def Let_def sample_cp_def cp_init_def)
next
  have "\<exists>row. map_of (cp_users sample_cp) ''rx:user:b'' = Some row" by (simp add: sample_cp_def)
  then obtain row where row: "map_of (cp_users sample_cp) ''rx:user:b'' = Some row" ..
  have "list_all (leaves_disabled ''rx:user:b'') [Op_Create_Session ''1'' ''tok'' 1 ''rx:user:b'' 100]"
    by (simp add: leaves_disabled_def)
  from disabled_user_locked_out [where sha = plain_sha and kdf = sample_kdf,
      OF sample_cp_inv row this refl]
  show "\<not> (\<exists>p. resolve_api_key plain_sha ''fak_k''
        (foldl (cp_step plain_sha sample_kdf) (set_user_status ''rx:user:b'' ''disabled'' sample_cp)
          [Op_Create_Session ''1'' ''tok'' 1 ''rx:user:b'' 100]) = Inr (Some p) \<and> pp_user p = ''rx:user:b'')"
    by blast
qed

lemma sample_accepts:
  "\<exists>user st1. accept_invite plain_sha sample_kdf ''9'' [1] 5 ''it'' ''pw'' None sample_cp = (Inr user, st1)"
proof -
  have "cp_get_user_by_email ''c@x'' sample_cp = Inr None"
    by (simp add: cp_get_user_by_email_def row_user_opt_def cp_normalize_email_def py_lower_def py_strip_def
        is_space_def lower_char_def Let_def sample_cp_def)
  moreover obtain h where "hash_password sample_kdf [1] ''pw'' = Inr h"
    by (simp add: hash_password_def sample_kdf_def dk_len_def)
  then have "\<exists>u st1. cp_create_user sample_kdf ''9'' [1] 5 ''c@x'' ''pw'' Role_Member None None sample_cp = (Inr u, st1)"
    by (rule create_user_ok)
       (simp_all add: cp_normalize_email_def py_lower_def py_strip_def is_space_def
        lower_char_def Let_def user_id_prefix_def sample_cp_def)
  ultimately show ?thesis
    by (auto simp: accept_invite_def plain_sha_def invite_status_value_def)
qed

lemma invite_single_use_witness:
  "\<exists>user st1. accept_invite plain_sha sample_kdf ''9'' [1] 5 ''it'' ''pw'' None sample_cp = (Inr user, st1) \<and>
     du_role user = Role_Member \<and>
     snd (accept_invite plain_sha sample_kdf ''8'' [1] 6 ''it'' ''pw'' None
       (foldl (cp_step plain_sha sample_kdf) st1 [Op_Revoke_Invite ''inv:1''])) =
     foldl (cp_step plain_sha sample_kdf) st1 [Op_Revoke_Invite ''inv:1'']"
proof -
  obtain user st1 where a: "accept_invite plain_sha sample_kdf ''9'' [1] 5 ''it'' ''pw'' None sample_cp = (Inr user, st1)"
    using sample_accepts by blast
  from invite_single_use [OF sample_cp_inv a refl] a show ?thesis by blast
qed

lemma sample_links:
  "consume_link_code plain_sha 5 5 ''lt'' ''tg:user:7'' sample_cp =
     (Inr ''rx:user:b'', sample_cp\<lparr>
        cp_links := [(''lnk:1'', \<lparr>lc_user = ''rx:user:b'', lc_platform = None, lc_hash = ''lt'',
          lc_expires = 10, lc_created = 0, lc_consumed = Some 5\<rparr>)],
        cp_idents := [(''tg:user:7'', \<lparr>pi_platform = ''telegram'', pi_uid = ''7'', pi_user = ''rx:user:b''\<rparr>)]\<rparr>)"
  by (simp add: consume_link_code_def parse_platform_key_def platform_prefixes_def startswith_def
      load_valid_link_code_def plain_sha_def claim_link_code_def Let_def count_rows_def
      attach_platform_identity_def insert_unique_def)

lemma link_code_single_use_witness:
  "\<exists>st1. consume_link_code plain_sha 5 5 ''lt'' ''tg:user:7'' sample_cp = (Inr ''rx:user:b'', st1) \<and>
     dash_user_for_platform ''tg:user:7'' st1 = Some ''rx:user:b'' \<and>
     \<not> is_ok (fst (consume_link_code plain_sha 6 6 ''lt'' ''dc:user:8''
       (foldl (cp_step plain_sha sample_kdf) st1 [Op_Unlink ''rx:user:b'' ''telegram''])))"
proof -
  obtain st1 where a: "consume_link_code plain_sha 5 5 ''lt'' ''tg:user:7'' sample_cp = (Inr ''rx:user:b'', st1)"
    using sample_links by blast
  from link_code_single_use [OF sample_cp_inv a refl] a show ?thesis by blast
qed

lemma revoked_key_never_resolves_witness:
  "\<exists>st1. revoke_api_key 5 ''key:1'' (Some ''rx:user:b'') sample_cp = (True, st1) \<and>
     resolve_api_key plain_sha ''fak_k''
       (foldl (cp_step plain_sha sample_kdf) st1 [Op_Revoke_Key 6 ''key:1'' None]) = Inr None"
proof -
  obtain st1 where a: "revoke_api_key 5 ''key:1'' (Some ''rx:user:b'') sample_cp = (True, st1)"
    by (simp add: revoke_api_key_def Let_def count_rows_def)
  obtain r where k: "key_by_hash sample_cp (plain_sha ''fak_k'') = Some (''key:1'', r)"
    by (simp add: key_by_hash_def plain_sha_def)
  from revoked_key_never_resolves [where sha = plain_sha and raw = "''fak_k''",
      OF sample_cp_inv k a refl] a show ?thesis by blast
qed

lemma jobs_visible_to_owner_and_org_witness:
  "\<exists>user p. cp_get_user ''rx:user:b'' sample_cp = Inr (Some user) \<and>
     principal_for_user user ''session'' None sample_cp = Inr p \<and>
     filter_jobs_visible p [(''j1'', 1 :: nat), (''j2'', 2), (''j3'', 3)]
       (job_meta_map (map fst [(''j1'', 1 :: nat), (''j2'', 2), (''j3'', 3)]) sample_cp) =
     [(''j1'', 1), (''j2'', 2)]"
proof -
  define user where "user = \<lparr>du_id = ''rx:user:b'', du_email = Some ''b@x'', du_name = None,
    du_role = Role_Member, du_status = Status_Active, du_created = 0, du_has_password = False\<rparr>"
  have get: "cp_get_user ''rx:user:b'' sample_cp = Inr (Some user)"
    by (simp add: cp_get_user_def row_user_opt_def row_user_def global_role_of_def user_status_of_def
        enum_of_def str_or_def global_role_value_def user_status_value_def user_def sample_cp_def)
  obtain p where p: "principal_for_user user ''session'' None sample_cp = Inr p"
    by (simp add: principal_for_user_def mk_cp_principal_def Let_def user_def)
  have "filter_jobs_visible p [(''j1'', 1 :: nat), (''j2'', 2), (''j3'', 3)]
       (job_meta_map (map fst [(''j1'', 1 :: nat), (''j2'', 2), (''j3'', 3)]) sample_cp) =
     [(''j1'', 1), (''j2'', 2)]"
    unfolding jobs_visible_to_owner_and_org [OF p]
    by (simp add: user_def is_org_member_def sample_cp_def)
  with get p show ?thesis by blast
qed

end
