(* ===== verification/Dashboard_Rpc.thy ===== *)
theory Dashboard_Rpc
  imports Control_Plane_Laws
begin

text \<open>
  The hub's side of the dashboard RPC (bootstrap/factory/dashboard/rpc_wrap.py,
  principal_rehydrate.py, auth_rpc.py, org_rpc.py, bootstrap/factory/dashboard_jobs_rpc.py, the
  principal stamp of core/auth/control_plane_wire.py and the request models of roxabi-contracts):
  every request is decoded, its proof of identity is turned into a principal from the identity
  store, and the handler of its subject runs on what is left of the payload.

  A payload is a JSON value. Pydantic and the JSON codec are third-party: a string field accepts
  strings only, \<open>lax_int\<close> is what the integer field accepts, \<open>to_str\<close> is Python's
  \<open>str()\<close> on values that are no strings. The clock readings, identifiers, tokens and the
  list of running jobs an RPC sees are its \<open>draws\<close>. What a handler publishes or asks of the
  job registry is recorded in order. Responses are values of a datatype, one constructor per shape.
\<close>

subsection \<open>Messages\<close>

datatype wire_value =
    W_Null
  | W_Bool bool
  | W_Num rat
  | W_Str string
  | W_List "wire_value list"
  | W_Dict "(string \<times> wire_value) list"

type_synonym payload = "(string, wire_value) dict"

datatype msg_body = Empty_Body | Undecodable | Decoded wire_value

datatype rpc_exn = Exn_Bad_Request | Exn_Other

datatype rpc_result =
    Rpc_Fail string string
  | Rpc_Done
  | Session_Opened cp_user cp_principal string string int
  | Session_Resolved "cp_user option" cp_principal string
  | Key_Resolved "cp_user option" cp_principal string
  | Invite_Created invite_record string
  | Org_List "org_record list" "string option"
  | Org_Created org_record
  | Job_List "(string \<times> wire_value) list"
  | Job_Refused string
  | Job_Forbidden string
  | Job_Accepted string string string

record job_envelope =
  je_job :: string
  je_name :: string
  je_prompt :: string
  je_pool :: string
  je_backend :: string
  je_model :: string
  je_system_prompt :: string
  je_launched_by :: string
  je_org :: "string option"

datatype hub_effect =
    Publish_Job string job_envelope
  | Publish_Text string string
  | Registry_Open string string string
  | Registry_Close string

record rpc_hub =
  hb_cp :: "control_plane option"
  hb_agents :: "(string, string) dict"
  hb_agent_rows :: "(string, string \<times> string) dict"
  hb_effects :: "hub_effect list"

record rpc_env =
  re_sha :: sha
  re_kdf :: kdf
  re_lax_int :: "wire_value \<Rightarrow> int option"
  re_to_str :: "wire_value \<Rightarrow> string"

record draws =
  dr_proof_now :: time
  dr_now :: time
  dr_later :: time
  dr_id :: string
  dr_id2 :: string
  dr_token :: string
  dr_salt :: bytes
  dr_rows :: "(string \<times> wire_value) list"

type_synonym rpc_handler =
  "rpc_env \<Rightarrow> draws \<Rightarrow> cp_principal option \<Rightarrow> payload \<Rightarrow> rpc_hub \<Rightarrow> (rpc_exn + rpc_result) \<times> rpc_hub"

text \<open>Python truth of a value, and \<open>payload.get(k)\<close>.\<close>

fun wire_truthy :: "wire_value \<Rightarrow> bool" where
  "wire_truthy W_Null = False"
| "wire_truthy (W_Bool b) = b"
| "wire_truthy (W_Num x) = (x \<noteq> 0)"
| "wire_truthy (W_Str s) = (s \<noteq> [])"
| "wire_truthy (W_List xs) = (xs \<noteq> [])"
| "wire_truthy (W_Dict d) = (d \<noteq> [])"

definition wget :: "payload \<Rightarrow> string \<Rightarrow> wire_value" where
  "wget pl k = (case map_of pl k of None \<Rightarrow> W_Null | Some v \<Rightarrow> v)"

definition wstr :: "rpc_env \<Rightarrow> wire_value \<Rightarrow> string" where
  "wstr env v = (case v of W_Str s \<Rightarrow> s | _ \<Rightarrow> re_to_str env v)"

subsection \<open>The principal stamp\<close>

definition principal_keys :: "string list" where
  "principal_keys = [''principal_user_id'', ''principal_roles'', ''principal_org_ids'',
                     ''principal_active_org_id'', ''principal_via'']"

definition proof_keys :: "string list" where
  "proof_keys = [''session_token'', ''api_key'']"

definition strip_principal_payload :: "payload \<Rightarrow> payload" where
  "strip_principal_payload pl = filter (\<lambda>(k, _). k \<notin> set principal_keys) pl"

definition strip_proof_payload :: "payload \<Rightarrow> payload" where
  "strip_proof_payload pl = filter (\<lambda>(k, _). k \<notin> set proof_keys) pl"

definition or_empty_list :: "wire_value \<Rightarrow> wire_value" where
  "or_empty_list v = (if wire_truthy v then v else W_List [])"

definition parse_principal_from_payload :: "rpc_env \<Rightarrow> payload \<Rightarrow> cp_principal option" where
  "parse_principal_from_payload env pl =
     (case wget pl ''principal_user_id'' of
        W_Str uid \<Rightarrow>
          if uid = [] then None
          else
            (case (or_empty_list (wget pl ''principal_roles''), or_empty_list (wget pl ''principal_org_ids'')) of
               (W_List roles, W_List orgs) \<Rightarrow>
                 (let via = (case wget pl ''principal_via'' of
                        W_Str v \<Rightarrow> if v \<in> set auth_vias then v else ''session'' | _ \<Rightarrow> ''session'');
                      active = (case wget pl ''principal_active_org_id'' of W_Str a \<Rightarrow> Some a | _ \<Rightarrow> None)
                  in case mk_cp_principal uid (set (map (wstr env) roles)) (set (map (wstr env) orgs)) active via of
                       Inl _ \<Rightarrow> None
                     | Inr p \<Rightarrow> Some p)
             | _ \<Rightarrow> None)
      | _ \<Rightarrow> None)"

text \<open>
  The stamp a client puts on its payload (\<open>stamp_principal_payload\<close>): its copy of the dict gets
  the principal's fields, and the proofs of the request unless the payload has its own. The order of
  the two sorted lists is left to the argument \<open>sorted_of\<close>.
\<close>

definition stamp_principal_payload ::
    "(string set \<Rightarrow> string list) \<Rightarrow> string option \<Rightarrow> string option \<Rightarrow> cp_principal \<Rightarrow> payload \<Rightarrow> payload" where
  "stamp_principal_payload sorted_of session_token api_key p pl =
     (let strs = (\<lambda>s. W_List (map W_Str (sorted_of s)));
          out1 = AList.update ''principal_user_id'' (W_Str (pp_user p)) pl;
          out2 = AList.update ''principal_roles'' (strs (pp_roles p)) out1;
          out3 = AList.update ''principal_org_ids'' (strs (pp_orgs p)) out2;
          out4 = AList.update ''principal_active_org_id''
                   (case pp_active_org p of None \<Rightarrow> W_Null | Some a \<Rightarrow> W_Str a) out3;
          out5 = AList.update ''principal_via'' (W_Str (pp_via p)) out4;
          add = (\<lambda>k t out. case t of None \<Rightarrow> out | Some s \<Rightarrow>
                   if s \<noteq> [] \<and> map_of out k = None then AList.update k (W_Str s) out else out)
      in add ''api_key'' api_key (add ''session_token'' session_token out5))"

subsection \<open>Rehydration\<close>

definition accept_proof ::
    "cp_principal option \<Rightarrow> cp_error + cp_principal option \<Rightarrow> rpc_exn + cp_principal option" where
  "accept_proof wire got =
     (case got of
        Inl _ \<Rightarrow> Inl Exn_Other
      | Inr None \<Rightarrow> Inr None
      | Inr (Some p) \<Rightarrow>
          (case wire of
             None \<Rightarrow> Inr (Some p)
           | Some w \<Rightarrow> if pp_user p \<noteq> pp_user w then Inr None else Inr (Some p)))"

text \<open>The stripped text of a proof field, \<open>None\<close> where it is no string or blank.\<close>

definition proof_field :: "payload \<Rightarrow> string \<Rightarrow> string option" where
  "proof_field pl k = (case wget pl k of
     W_Str s \<Rightarrow> if py_strip s = [] then None else Some (py_strip s) | _ \<Rightarrow> None)"

definition rehydrate_principal ::
    "rpc_env \<Rightarrow> time \<Rightarrow> cp_principal option \<Rightarrow> payload \<Rightarrow> rpc_hub \<Rightarrow>
     (rpc_exn + cp_principal option) \<times> rpc_hub" where
  "rehydrate_principal env now wire pl hub =
     (case hb_cp hub of
        None \<Rightarrow> (Inr None, hub)
      | Some cp \<Rightarrow>
          (case proof_field pl ''session_token'' of
             Some tok \<Rightarrow>
               (case resolve_session (re_sha env) now tok cp of
                  (got, cp') \<Rightarrow> (accept_proof wire got, hub\<lparr>hb_cp := Some cp'\<rparr>))
           | None \<Rightarrow>
               (case proof_field pl ''api_key'' of
                  Some key \<Rightarrow> (accept_proof wire (resolve_api_key (re_sha env) key cp), hub)
                | None \<Rightarrow> (Inr None, hub))))"

subsection \<open>Requests\<close>

definition req_str :: "payload \<Rightarrow> string \<Rightarrow> rpc_exn + string" where
  "req_str pl k = (case map_of pl k of Some (W_Str s) \<Rightarrow> Inr s | _ \<Rightarrow> Inl Exn_Bad_Request)"

definition req_str_len :: "nat \<Rightarrow> nat option \<Rightarrow> payload \<Rightarrow> string \<Rightarrow> rpc_exn + string" where
  "req_str_len lo hi pl k = (case req_str pl k of
     Inl e \<Rightarrow> Inl e
   | Inr s \<Rightarrow> if length s < lo \<or> (case hi of None \<Rightarrow> False | Some h \<Rightarrow> h < length s)
             then Inl Exn_Bad_Request else Inr s)"

definition opt_str :: "payload \<Rightarrow> string \<Rightarrow> rpc_exn + string option" where
  "opt_str pl k = (case map_of pl k of
     None \<Rightarrow> Inr None | Some W_Null \<Rightarrow> Inr None | Some (W_Str s) \<Rightarrow> Inr (Some s) | _ \<Rightarrow> Inl Exn_Bad_Request)"

definition default_str :: "string \<Rightarrow> payload \<Rightarrow> string \<Rightarrow> rpc_exn + string" where
  "default_str d pl k = (case map_of pl k of
     None \<Rightarrow> Inr d | Some (W_Str s) \<Rightarrow> Inr s | _ \<Rightarrow> Inl Exn_Bad_Request)"

definition ttl_hours_field :: "rpc_env \<Rightarrow> payload \<Rightarrow> rpc_exn + int" where
  "ttl_hours_field env pl = (case map_of pl ''ttl_hours'' of
     None \<Rightarrow> Inr 72
   | Some v \<Rightarrow> (case re_lax_int env v of
       None \<Rightarrow> Inl Exn_Bad_Request
     | Some n \<Rightarrow> if 1 \<le> n \<and> n \<le> 24 * 30 then Inr n else Inl Exn_Bad_Request))"

subsection \<open>Identity handlers\<close>

definition rpc_session_ttl :: int where
  "rpc_session_ttl = 1209600"

definition unavailable :: rpc_result where
  "unavailable = Rpc_Fail ''unavailable'' ''control-plane not configured''"

definition put_cp :: "control_plane \<Rightarrow> rpc_hub \<Rightarrow> rpc_hub" where
  "put_cp cp hub = hub\<lparr>hb_cp := Some cp\<rparr>"

text \<open>The end of login and of accepting an invite: a session for the user, and its principal.\<close>

definition open_session ::
    "rpc_env \<Rightarrow> draws \<Rightarrow> cp_user \<Rightarrow> control_plane \<Rightarrow> rpc_hub \<Rightarrow> (rpc_exn + rpc_result) \<times> rpc_hub" where
  "open_session env dr user cp hub =
     (case create_session (re_sha env) (dr_id dr) (dr_token dr) (dr_later dr) (du_id user) rpc_session_ttl cp of
        (Inl _, cp') \<Rightarrow> (Inl Exn_Other, put_cp cp' hub)
      | (Inr (ses, token), cp') \<Rightarrow>
          (case principal_for_user user ''session'' None cp' of
             Inl _ \<Rightarrow> (Inl Exn_Other, put_cp cp' hub)
           | Inr p \<Rightarrow> (Inr (Session_Opened user p token (sr_id ses) rpc_session_ttl), put_cp cp' hub)))"

definition handle_auth_login :: rpc_handler where
  "handle_auth_login env dr who pl hub =
     (case hb_cp hub of
        None \<Rightarrow> (Inr unavailable, hub)
      | Some cp \<Rightarrow>
          (case (req_str pl ''email'', req_str pl ''password'') of
             (Inr email, Inr password) \<Rightarrow>
               (case cp_verify_password (re_kdf env) email password cp of
                  Inl _ \<Rightarrow> (Inl Exn_Other, hub)
                | Inr None \<Rightarrow> (Inr (Rpc_Fail ''unauthorized'' ''invalid email or password''), hub)
                | Inr (Some user) \<Rightarrow> open_session env dr user cp hub)
           | _ \<Rightarrow> (Inl Exn_Bad_Request, hub)))"

definition handle_auth_session_resolve :: rpc_handler where
  "handle_auth_session_resolve env dr who pl hub =
     (case hb_cp hub of
        None \<Rightarrow> (Inr unavailable, hub)
      | Some cp \<Rightarrow>
          (case req_str pl ''session_token'' of
             Inl e \<Rightarrow> (Inl e, hub)
           | Inr tok \<Rightarrow>
               (case resolve_session_with_id (re_sha env) (dr_now dr) tok cp of
                  (Inl _, cp') \<Rightarrow> (Inl Exn_Other, put_cp cp' hub)
                | (Inr None, cp') \<Rightarrow>
                    (Inr (Rpc_Fail ''unauthorized'' ''session expired or invalid''), put_cp cp' hub)
                | (Inr (Some (p, sid)), cp') \<Rightarrow>
                    (case cp_get_user (pp_user p) cp' of
                       Inl _ \<Rightarrow> (Inl Exn_Other, put_cp cp' hub)
                     | Inr user \<Rightarrow> (Inr (Session_Resolved user p sid), put_cp cp' hub)))))"

definition handle_auth_api_key_resolve :: rpc_handler where
  "handle_auth_api_key_resolve env dr who pl hub =
     (case hb_cp hub of
        None \<Rightarrow> (Inr unavailable, hub)
      | Some cp \<Rightarrow>
          (case req_str pl ''api_key'' of
             Inl e \<Rightarrow> (Inl e, hub)
           | Inr key \<Rightarrow>
               (case resolve_api_key_with_id (re_sha env) key cp of
                  Inl _ \<Rightarrow> (Inl Exn_Other, hub)
                | Inr None \<Rightarrow> (Inr (Rpc_Fail ''unauthorized'' ''invalid api key''), hub)
                | Inr (Some (p, kid)) \<Rightarrow>
                    (case cp_get_user (pp_user p) cp of
                       Inl _ \<Rightarrow> (Inl Exn_Other, hub)
                     | Inr user \<Rightarrow> (Inr (Key_Resolved user p kid), hub)))))"

definition handle_auth_logout :: rpc_handler where
  "handle_auth_logout env dr who pl hub =
     (case hb_cp hub of
        None \<Rightarrow> (Inr unavailable, hub)
      | Some cp \<Rightarrow>
          (case opt_str pl ''session_token'' of
             Inl e \<Rightarrow> (Inl e, hub)
           | Inr tok \<Rightarrow>
               (Inr Rpc_Done,
                case tok of
                  None \<Rightarrow> hub
                | Some t \<Rightarrow> if t = [] then hub
                            else put_cp (snd (cp_revoke_session (re_sha env) t cp)) hub)))"

definition handle_auth_password_change :: rpc_handler where
  "handle_auth_password_change env dr who pl hub =
     (case hb_cp hub of
        None \<Rightarrow> (Inr unavailable, hub)
      | Some cp \<Rightarrow>
          (case who of
             None \<Rightarrow> (Inr (Rpc_Fail ''unauthorized'' ''principal required''), hub)
           | Some p \<Rightarrow>
               (case (req_str pl ''current_password'', req_str_len 8 None pl ''new_password'') of
                  (Inr current, Inr new) \<Rightarrow>
                    (case cp_get_user (pp_user p) cp of
                       Inl _ \<Rightarrow> (Inl Exn_Other, hub)
                     | Inr None \<Rightarrow> (Inr (Rpc_Fail ''unauthorized'' ''user not found''), hub)
                     | Inr (Some user) \<Rightarrow>
                         (case du_email user of
                            None \<Rightarrow> (Inr (Rpc_Fail ''unauthorized'' ''user not found''), hub)
                          | Some email \<Rightarrow>
                              if email = [] then (Inr (Rpc_Fail ''unauthorized'' ''user not found''), hub)
                              else
                                (case cp_verify_password (re_kdf env) email current cp of
                                   Inl _ \<Rightarrow> (Inl Exn_Other, hub)
                                 | Inr None \<Rightarrow>
                                     (Inr (Rpc_Fail ''unauthorized'' ''current password invalid''), hub)
                                 | Inr (Some verified) \<Rightarrow>
                                     if du_id verified \<noteq> du_id user
                                     then (Inr (Rpc_Fail ''unauthorized'' ''current password invalid''), hub)
                                     else
                                       (case set_password (re_kdf env) (dr_salt dr) (du_id user) new cp of
                                          (Inl _, cp') \<Rightarrow> (Inl Exn_Other, put_cp cp' hub)
                                        | (Inr _, cp') \<Rightarrow> (Inr Rpc_Done, put_cp cp' hub)))))
                | _ \<Rightarrow> (Inl Exn_Bad_Request, hub))))"

definition handle_auth_invite_create :: rpc_handler where
  "handle_auth_invite_create env dr who pl hub =
     (case hb_cp hub of
        None \<Rightarrow> (Inr unavailable, hub)
      | Some cp \<Rightarrow>
          (case (req_str pl ''email'', ttl_hours_field env pl, opt_str pl ''session_token'') of
             (Inr email, Inr ttl, Inr tok) \<Rightarrow>
               (case tok of
                  None \<Rightarrow> (Inr (Rpc_Fail ''unauthorized'' ''session_token required''), hub)
                | Some t \<Rightarrow>
                    if t = [] then (Inr (Rpc_Fail ''unauthorized'' ''session_token required''), hub)
                    else
                      (case resolve_session (re_sha env) (dr_now dr) t cp of
                         (Inl _, cp') \<Rightarrow> (Inl Exn_Other, put_cp cp' hub)
                       | (Inr None, cp') \<Rightarrow>
                           (Inr (Rpc_Fail ''unauthorized'' ''session expired or invalid''), put_cp cp' hub)
                       | (Inr (Some p), cp') \<Rightarrow>
                           if \<not> az_allowed (cp_authorize p ''users.invite'' None)
                           then (Inr (Rpc_Fail ''forbidden'' ''admin only''), put_cp cp' hub)
                           else
                             (case create_invite (re_sha env) (dr_id dr) (dr_token dr) (dr_later dr) email
                                     (pp_user p) (dr_later dr + of_int (3600 * ttl)) None cp' of
                                (Inl e, cp'') \<Rightarrow>
                                  (if is_value_error e
                                   then Inr (Rpc_Fail ''bad_request'' ''invite create failed'')
                                   else Inl Exn_Other, put_cp cp'' hub)
                              | (Inr (rec, token), cp'') \<Rightarrow>
                                  (Inr (Invite_Created rec token), put_cp cp'' hub))))
           | _ \<Rightarrow> (Inl Exn_Bad_Request, hub)))"

definition handle_auth_invite_accept :: rpc_handler where
  "handle_auth_invite_accept env dr who pl hub =
     (case hb_cp hub of
        None \<Rightarrow> (Inr unavailable, hub)
      | Some cp \<Rightarrow>
          (case (req_str pl ''token'', req_str_len 8 None pl ''password'', opt_str pl ''display_name'') of
             (Inr tok, Inr password, Inr name) \<Rightarrow>
               (case accept_invite (re_sha env) (re_kdf env) (dr_id2 dr) (dr_salt dr) (dr_now dr) tok password name cp of
                  (Inl e, cp') \<Rightarrow>
                    (if is_value_error e
                     then Inr (Rpc_Fail ''bad_request'' ''invalid or expired invite'')
                     else Inl Exn_Other, put_cp cp' hub)
                | (Inr user, cp') \<Rightarrow> open_session env dr user cp' hub)
           | _ \<Rightarrow> (Inl Exn_Bad_Request, hub)))"

subsection \<open>Organizations\<close>

definition handle_org_list :: rpc_handler where
  "handle_org_list env dr who pl hub =
     (case hb_cp hub of
        None \<Rightarrow> (Inr unavailable, hub)
      | Some cp \<Rightarrow>
          (case who of
             None \<Rightarrow> (Inr (Rpc_Fail ''unauthorized'' ''principal required''), hub)
           | Some p \<Rightarrow> (Inr (Org_List (list_orgs_for_user (pp_user p) cp) (pp_active_org p)), hub)))"

definition handle_org_create :: rpc_handler where
  "handle_org_create env dr who pl hub =
     (case hb_cp hub of
        None \<Rightarrow> (Inr unavailable, hub)
      | Some cp \<Rightarrow>
          (case who of
             None \<Rightarrow> (Inr (Rpc_Fail ''unauthorized'' ''principal required''), hub)
           | Some p \<Rightarrow>
               (let decision = cp_authorize p ''orgs.create'' None
                in if \<not> az_allowed decision
                   then (Inr (Rpc_Fail ''forbidden'' (str_or (az_reason decision) ''forbidden'')), hub)
                   else
                     (case req_str_len 1 (Some 120) pl ''name'' of
                        Inl e \<Rightarrow> (Inl e, hub)
                      | Inr name \<Rightarrow>
                          (case create_org (dr_id dr) (dr_now dr) name (pp_user p) cp of
                             (Inl (Value_Error m), cp') \<Rightarrow>
                               (Inr (Rpc_Fail ''bad_request'' (take 120 m)), put_cp cp' hub)
                           | (Inl _, cp') \<Rightarrow> (Inl Exn_Other, put_cp cp' hub)
                           | (Inr org, cp') \<Rightarrow> (Inr (Org_Created org), put_cp cp' hub))))))"

subsection \<open>Jobs\<close>

definition allowed_job_names :: "string list" where
  "allowed_job_names = [''claude'', ''omp'', ''test'']"

definition safe_segment_char :: "char \<Rightarrow> bool" where
  "safe_segment_char c =
     (let n = of_char c :: nat
      in 65 \<le> n \<and> n \<le> 90 \<or> 97 \<le> n \<and> n \<le> 122 \<or> 48 \<le> n \<and> n \<le> 57 \<or> n = 95 \<or> n = 45)"

definition valid_job_token :: "string \<Rightarrow> bool" where
  "valid_job_token s \<longleftrightarrow> list_all (\<lambda>seg. seg \<noteq> [] \<and> list_all safe_segment_char seg) (py_split (CHR ''.'') s)"

definition steer_subject :: "string \<Rightarrow> string" where
  "steer_subject job_id = ''factory.job.'' @ job_id @ ''.steer''"

text \<open>\<open>None\<close> is the \<open>ValueError\<close> of a token with a wildcard or an empty segment.\<close>

definition jobs_steer :: "string \<Rightarrow> string option" where
  "jobs_steer job_id = (if valid_job_token job_id then Some (steer_subject job_id) else None)"

definition cancel_token :: string where
  "cancel_token = ''__factory_cancel__''"

definition emit_effects :: "hub_effect list \<Rightarrow> rpc_hub \<Rightarrow> rpc_hub" where
  "emit_effects es hub = hub\<lparr>hb_effects := hb_effects hub @ es\<rparr>"

definition concurrency_mode_for_backend :: "string \<Rightarrow> string" where
  "concurrency_mode_for_backend backend =
     (if py_lower (py_strip backend) = ''omp-rpc'' \<or> py_lower (py_strip backend) = ''omp''
      then ''steer'' else ''queue'')"

definition handle_jobs_list :: rpc_handler where
  "handle_jobs_list env dr who pl hub =
     (case who of
        None \<Rightarrow> (Inr (Rpc_Fail ''unauthorized'' ''principal required''), hub)
      | Some p \<Rightarrow>
          (Inr (Job_List
             (case hb_cp hub of
                Some cp \<Rightarrow> filter_jobs_visible p (dr_rows dr) (job_meta_map (map fst (dr_rows dr)) cp)
              | None \<Rightarrow> if cp_is_admin p then dr_rows dr else [])), hub))"

text \<open>The web pool of an agent, \<open>RoutingKey(WEB, "smoke", "agent:<name>").to_pool_id()\<close>.\<close>

definition web_pool :: "string \<Rightarrow> string" where
  "web_pool agent = ''web:smoke:agent:'' @ agent"

definition launch_envelope ::
    "draws \<Rightarrow> cp_principal \<Rightarrow> string \<Rightarrow> string \<Rightarrow> string \<Rightarrow> string option \<Rightarrow> string option \<Rightarrow> rpc_hub \<Rightarrow> job_envelope" where
  "launch_envelope dr p agent prompt job_name pool_id model hub =
     (let (backend, dflt) = (case map_of (hb_agent_rows hub) agent of
            Some bm \<Rightarrow> bm | None \<Rightarrow> (''claude-cli'', ''sonnet''));
          wanted = (case model of None \<Rightarrow> dflt | Some m \<Rightarrow> str_or m dflt)
      in \<lparr>je_job = dr_id dr, je_name = job_name, je_prompt = prompt,
          je_pool = (case pool_id of None \<Rightarrow> web_pool agent | Some q \<Rightarrow> str_or q (web_pool agent)),
          je_backend = (if job_name = ''claude'' then backend else ''omp-rpc''),
          je_model = (if job_name = ''claude'' then wanted else str_or wanted ''grok-4-fast''),
          je_system_prompt = (case map_of (hb_agents hub) agent of None \<Rightarrow> [] | Some s \<Rightarrow> s),
          je_launched_by = pp_user p, je_org = pp_active_org p\<rparr>)"

definition handle_jobs_launch :: rpc_handler where
  "handle_jobs_launch env dr who pl hub =
     (case who of
        None \<Rightarrow> (Inr (Rpc_Fail ''unauthorized'' ''principal required''), hub)
      | Some p \<Rightarrow>
          (case (req_str pl ''agent'', req_str_len 1 (Some 8000) pl ''prompt'',
                 default_str ''omp'' pl ''job_name'', opt_str pl ''pool_id'', opt_str pl ''model'',
                 default_str [] pl ''system_prompt'') of
             (Inr agent, Inr prompt, Inr job_name, Inr pool_id, Inr model, Inr _) \<Rightarrow>
               if map_of (hb_agents hub) agent = None
               then (Inr (Job_Refused (''unknown agent: '' @ py_repr agent)), hub)
               else if job_name \<notin> set allowed_job_names
               then (Inr (Job_Refused (''job_name not allowed: '' @ py_repr job_name)), hub)
               else if (case pp_active_org p of None \<Rightarrow> False | Some org \<Rightarrow> org \<notin> pp_orgs p)
               then (Inr (Job_Refused ''active org not in memberships''), hub)
               else
                 (let e = launch_envelope dr p agent prompt job_name pool_id model hub;
                      subject = ''factory.jobs.'' @ job_name;
                      hub' = emit_effects [Publish_Job subject e,
                               Registry_Open (je_job e) (je_pool e) (concurrency_mode_for_backend (je_backend e))] hub
                  in (Inr (Job_Accepted (je_job e) (''dispatched '' @ job_name) subject),
                      case hb_cp hub' of
                        None \<Rightarrow> hub'
                      | Some cp \<Rightarrow>
                          put_cp (record_job_launch (dr_now dr) (je_job e) (pp_user p) (pp_active_org p) cp) hub'))
           | _ \<Rightarrow> (Inl Exn_Bad_Request, hub)))"

definition authorize_job_action :: "cp_principal \<Rightarrow> string \<Rightarrow> string \<Rightarrow> rpc_hub \<Rightarrow> bool" where
  "authorize_job_action p job_id action hub =
     (if cp_is_admin p then True
      else
        (let (launched_by, org) = (case hb_cp hub of None \<Rightarrow> (None, None) | Some cp \<Rightarrow> get_job_meta job_id cp)
         in az_allowed (cp_authorize p action
              (Some \<lparr>rr_kind = ''job'', rr_owner = launched_by, rr_org = org, rr_id = None\<rparr>))))"

definition not_allowed_message :: "string \<Rightarrow> string \<Rightarrow> string" where
  "not_allowed_message action job_id = ''not allowed to '' @ action @ '' job '' @ job_id"

definition handle_jobs_steer :: rpc_handler where
  "handle_jobs_steer env dr who pl hub =
     (case who of
        None \<Rightarrow> (Inr (Rpc_Fail ''unauthorized'' ''principal required''), hub)
      | Some p \<Rightarrow>
          (case (req_str pl ''job_id'', req_str_len 1 (Some 4000) pl ''text'') of
             (Inr job_id, Inr txt) \<Rightarrow>
               if \<not> authorize_job_action p job_id ''jobs.steer'' hub
               then (Inr (Job_Forbidden (not_allowed_message ''jobs.steer'' job_id)), hub)
               else
                 (case jobs_steer job_id of
                    None \<Rightarrow> (Inl Exn_Other, hub)
                  | Some subject \<Rightarrow>
                      (Inr (Job_Accepted job_id (''steer published to '' @ job_id) []),
                       emit_effects [Publish_Text subject txt] hub))
           | _ \<Rightarrow> (Inl Exn_Bad_Request, hub)))"

definition handle_jobs_cancel :: rpc_handler where
  "handle_jobs_cancel env dr who pl hub =
     (case who of
        None \<Rightarrow> (Inr (Rpc_Fail ''unauthorized'' ''principal required''), hub)
      | Some p \<Rightarrow>
          (case req_str pl ''job_id'' of
             Inl e \<Rightarrow> (Inl e, hub)
           | Inr job_id \<Rightarrow>
               if \<not> authorize_job_action p job_id ''jobs.cancel'' hub
               then (Inr (Job_Forbidden (not_allowed_message ''jobs.cancel'' job_id)), hub)
               else
                 (let hub' = emit_effects [Registry_Close job_id] hub
                  in case jobs_steer job_id of
                       None \<Rightarrow> (Inl Exn_Other, hub')
                     | Some subject \<Rightarrow>
                         (Inr (Job_Accepted job_id (''cancel published to '' @ job_id) []),
                          emit_effects [Publish_Text subject cancel_token] hub'))))"

subsection \<open>The wrapper\<close>

definition public_auth_subjects :: "string list" where
  "public_auth_subjects =
     [''factory.dashboard.auth.login'', ''factory.dashboard.auth.logout'',
      ''factory.dashboard.auth.session.resolve'', ''factory.dashboard.auth.invite.accept'',
      ''factory.dashboard.auth.api_key.resolve'']"

text \<open>The subscriptions of \<open>start_dashboard_rpc\<close> whose handlers are modelled.\<close>

definition rpc_handlers :: "(string, rpc_handler) dict" where
  "rpc_handlers =
     [(''factory.dashboard.jobs.list'', handle_jobs_list),
      (''factory.dashboard.jobs.launch'', handle_jobs_launch),
      (''factory.dashboard.jobs.steer'', handle_jobs_steer),
      (''factory.dashboard.jobs.cancel'', handle_jobs_cancel),
      (''factory.dashboard.auth.login'', handle_auth_login),
      (''factory.dashboard.auth.logout'', handle_auth_logout),
      (''factory.dashboard.auth.session.resolve'', handle_auth_session_resolve),
      (''factory.dashboard.auth.invite.create'', handle_auth_invite_create),
      (''factory.dashboard.auth.invite.accept'', handle_auth_invite_accept),
      (''factory.dashboard.auth.api_key.resolve'', handle_auth_api_key_resolve),
      (''factory.dashboard.auth.password.change'', handle_auth_password_change),
      (''factory.dashboard.org.list'', handle_org_list),
      (''factory.dashboard.org.create'', handle_org_create)]"

definition answer :: "(rpc_exn + rpc_result) \<times> rpc_hub \<Rightarrow> rpc_result \<times> rpc_hub" where
  "answer r = (case r of
     (Inl Exn_Bad_Request, hub) \<Rightarrow> (Rpc_Fail ''bad_request'' [], hub)
   | (Inl Exn_Other, hub) \<Rightarrow> (Rpc_Fail ''internal_error'' [], hub)
   | (Inr x, hub) \<Rightarrow> (x, hub))"

definition principal_denied :: rpc_result where
  "principal_denied = Rpc_Fail ''unauthorized'' ''principal required''"

definition wrapped :: "rpc_handler \<Rightarrow> rpc_env \<Rightarrow> draws \<Rightarrow> string \<Rightarrow> payload \<Rightarrow> rpc_hub \<Rightarrow> rpc_result \<times> rpc_hub" where
  "wrapped handler env dr subject pl hub =
     (let wire = parse_principal_from_payload env pl;
          business = strip_principal_payload pl
      in if subject \<in> set public_auth_subjects then answer (handler env dr wire business hub)
         else
           (case rehydrate_principal env (dr_proof_now dr) wire pl hub of
              (Inl e, hub') \<Rightarrow> answer (Inl e, hub')
            | (Inr None, hub') \<Rightarrow> (principal_denied, hub')
            | (Inr (Some p), hub') \<Rightarrow>
                answer (handler env dr (Some p) (strip_proof_payload business) hub')))"

definition wrap_dashboard_handler ::
    "rpc_handler \<Rightarrow> rpc_env \<Rightarrow> draws \<Rightarrow> string \<Rightarrow> msg_body \<Rightarrow> rpc_hub \<Rightarrow> rpc_result \<times> rpc_hub" where
  "wrap_dashboard_handler handler env dr subject body hub =
     (case body of
        Empty_Body \<Rightarrow> wrapped handler env dr subject [] hub
      | Undecodable \<Rightarrow> answer (Inl Exn_Bad_Request, hub)
      | Decoded (W_Dict pl) \<Rightarrow> wrapped handler env dr subject pl hub
      | Decoded _ \<Rightarrow> answer (Inl Exn_Other, hub))"

definition dashboard_rpc ::
    "rpc_env \<Rightarrow> draws \<Rightarrow> string \<Rightarrow> msg_body \<Rightarrow> rpc_hub \<Rightarrow> (rpc_result \<times> rpc_hub) option" where
  "dashboard_rpc env dr subject body hub = (case map_of rpc_handlers subject of
     None \<Rightarrow> None
   | Some handler \<Rightarrow> Some (wrap_dashboard_handler handler env dr subject body hub))"

subsection \<open>The wrapper's guarantees\<close>

lemma map_of_strip [simp]:
  "map_of (strip_principal_payload pl) k = (if k \<in> set principal_keys then None else map_of pl k)"
  "map_of (strip_proof_payload pl) k = (if k \<in> set proof_keys then None else map_of pl k)"
proof -
  have "map_of (filter (\<lambda>(k, _). k \<notin> S) pl) k = (if k \<in> S then None else map_of pl k)" for S
    by (induction pl) auto
  then show "map_of (strip_principal_payload pl) k = (if k \<in> set principal_keys then None else map_of pl k)"
    "map_of (strip_proof_payload pl) k = (if k \<in> set proof_keys then None else map_of pl k)"
    by (simp_all add: strip_principal_payload_def strip_proof_payload_def)
qed

lemma proof_not_principal: "''session_token'' \<notin> set principal_keys" "''api_key'' \<notin> set principal_keys"
  by (simp_all add: principal_keys_def)

lemma proof_field_strip:
  "proof_field (strip_principal_payload pl) ''session_token'' = proof_field pl ''session_token''"
  "proof_field (strip_principal_payload pl) ''api_key'' = proof_field pl ''api_key''"
  by (simp_all add: proof_field_def wget_def proof_not_principal)

lemma accept_proof_user:
  "map_option pp_user wire = map_option pp_user wire' \<Longrightarrow> accept_proof wire got = accept_proof wire' got"
  by (cases wire; cases wire') (simp_all add: accept_proof_def split: sum.splits option.splits)

lemma rehydrate_user_only:
  assumes "strip_principal_payload pl = strip_principal_payload pl'"
    "map_option pp_user wire = map_option pp_user wire'"
  shows "rehydrate_principal env now wire pl hub = rehydrate_principal env now wire' pl' hub"
proof -
  have "proof_field pl k = proof_field pl' k" if "k = ''session_token'' \<or> k = ''api_key''" for k
    using that proof_field_strip [of pl] proof_field_strip [of pl'] assms(1) by auto
  then show ?thesis
    by (simp add: rehydrate_principal_def accept_proof_user [OF assms(2)] cong: option.case_cong)
qed

text \<open>
  On a protected subject the stamp of a request counts for its user id at most: whatever roles,
  organizations, active organization or provenance a client claims, the answer and the hub after it
  are the same.
\<close>

theorem wire_stamp_not_trusted:
  assumes "subject \<notin> set public_auth_subjects"
    "strip_principal_payload pl = strip_principal_payload pl'"
    "map_option pp_user (parse_principal_from_payload env pl) =
     map_option pp_user (parse_principal_from_payload env pl')"
  shows "dashboard_rpc env dr subject (Decoded (W_Dict pl)) hub =
    dashboard_rpc env dr subject (Decoded (W_Dict pl')) hub"
proof -
  have "wrapped h env dr subject pl hub = wrapped h env dr subject pl' hub" for h
    using assms(1) by (simp add: wrapped_def Let_def assms(2) rehydrate_user_only [OF assms(2,3)])
  then have "wrap_dashboard_handler h env dr subject (Decoded (W_Dict pl)) hub =
      wrap_dashboard_handler h env dr subject (Decoded (W_Dict pl')) hub" for h
    by (simp add: wrap_dashboard_handler_def)
  then show ?thesis by (simp only: dashboard_rpc_def)
qed

lemma accept_proof_Inr:
  "accept_proof wire got = Inr (Some p) \<longleftrightarrow>
     got = Inr (Some p) \<and> (\<forall>w. wire = Some w \<longrightarrow> pp_user w = pp_user p)"
  by (auto simp: accept_proof_def split: sum.splits option.splits)

lemma resolve_session_keeps:
  assumes "fst (resolve_session sha now raw st) = Inr (Some p)"
  shows "snd (resolve_session sha now raw st) = st"
proof -
  obtain sid where "fst (resolve_session_with_id sha now raw st) = Inr (Some (p, sid))"
    using resolve_session_pair [OF assms] .
  then show ?thesis by (auto elim: resolve_session_Inr)
qed

text \<open>What counts as proof of a principal.\<close>

definition proven :: "rpc_env \<Rightarrow> time \<Rightarrow> payload \<Rightarrow> control_plane \<Rightarrow> cp_principal \<Rightarrow> bool" where
  "proven env now pl cp p \<longleftrightarrow>
     (case proof_field pl ''session_token'' of
        Some tok \<Rightarrow> fst (resolve_session (re_sha env) now tok cp) = Inr (Some p)
      | None \<Rightarrow> (case proof_field pl ''api_key'' of
                  Some key \<Rightarrow> resolve_api_key (re_sha env) key cp = Inr (Some p)
                | None \<Rightarrow> False))"

lemma rehydrate_Inr:
  assumes "rehydrate_principal env now wire pl hub = (Inr (Some p), hub')"
  obtains cp where "hb_cp hub = Some cp" "hub' = hub" "proven env now pl cp p"
    "\<forall>w. wire = Some w \<longrightarrow> pp_user w = pp_user p"
proof -
  obtain cp where cp: "hb_cp hub = Some cp"
    using assms by (auto simp: rehydrate_principal_def split: option.splits)
  then have same: "hub\<lparr>hb_cp := Some cp\<rparr> = hub" by simp
  show ?thesis
  proof (cases "proof_field pl ''session_token''")
    case None
    then obtain key where key: "proof_field pl ''api_key'' = Some key"
      using assms cp by (cases "proof_field pl ''api_key''") (simp_all add: rehydrate_principal_def)
    have acc: "accept_proof wire (resolve_api_key (re_sha env) key cp) = Inr (Some p)" "hub' = hub"
      using assms by (simp_all add: rehydrate_principal_def cp None key)
    from acc(1) have got: "resolve_api_key (re_sha env) key cp = Inr (Some p)"
      and user: "\<forall>w. wire = Some w \<longrightarrow> pp_user w = pp_user p"
      unfolding accept_proof_Inr by blast+
    from got have "proven env now pl cp p" by (simp add: proven_def None key)
    from that [OF cp acc(2) this user] show ?thesis .
  next
    case (Some tok)
    obtain got cp' where res: "resolve_session (re_sha env) now tok cp = (got, cp')"
      by (cases "resolve_session (re_sha env) now tok cp")
    then have both: "accept_proof wire got = Inr (Some p)" and hub': "hub' = hub\<lparr>hb_cp := Some cp'\<rparr>"
      using assms by (simp_all add: rehydrate_principal_def cp Some)
    from both have got: "got = Inr (Some p)" and user: "\<forall>w. wire = Some w \<longrightarrow> pp_user w = pp_user p"
      unfolding accept_proof_Inr by blast+
    have keep: "cp' = cp" using resolve_session_keeps [of "re_sha env" now tok cp p] res got by simp
    have "hub' = hub" using hub' keep same by simp
    moreover have "proven env now pl cp p" using res got by (simp add: proven_def Some)
    ultimately show ?thesis using user by (rule that [OF cp])
  qed
qed

lemma rehydrate_effects:
  "hb_effects (snd (rehydrate_principal env now wire pl hub)) = hb_effects hub"
  by (simp add: rehydrate_principal_def split: option.splits prod.splits)

lemma rehydrate_tables:
  assumes "hb_cp hub = Some cp"
  obtains P where "hb_cp (snd (rehydrate_principal env now wire pl hub)) =
    Some (cp\<lparr>cp_sessions := filter P (cp_sessions cp)\<rparr>)"
proof (cases "proof_field pl ''session_token''")
  case None
  then have "hb_cp (snd (rehydrate_principal env now wire pl hub)) = Some cp"
    using assms by (simp add: rehydrate_principal_def split: option.splits)
  then show ?thesis by (intro that [of "\<lambda>_. True"]) simp
next
  case (Some tok)
  obtain got cp' where res: "resolve_session (re_sha env) now tok cp = (got, cp')"
    by (cases "resolve_session (re_sha env) now tok cp")
  have "cp' = snd (resolve_session_with_id (re_sha env) now tok cp)"
    using snd_resolve_session [of "re_sha env" now tok cp] by (simp add: res)
  then have eq: "hb_cp (snd (rehydrate_principal env now wire pl hub)) =
      Some (snd (resolve_session_with_id (re_sha env) now tok cp))"
    using assms by (simp add: rehydrate_principal_def Some res)
  show ?thesis
    by (rule resolve_with_id_cases [of "re_sha env" now tok cp])
       (use that [of "\<lambda>_. True"] that eq in simp_all)
qed


lemma tokenless_invite_create:
  assumes "map_of pl ''session_token'' = None"
  shows "snd (handle_auth_invite_create env dr who pl hub) = hub"
    "fst (handle_auth_invite_create env dr who pl hub) \<noteq> Inr (Invite_Created rec token)"
    "hb_cp hub = Some cp \<Longrightarrow> req_str pl ''email'' = Inr email \<Longrightarrow> ttl_hours_field env pl = Inr ttl \<Longrightarrow>
     fst (handle_auth_invite_create env dr who pl hub) = Inr (Rpc_Fail ''unauthorized'' ''session_token required'')"
proof -
  have none: "opt_str pl ''session_token'' = Inr None" using assms by (simp add: opt_str_def)
  show "snd (handle_auth_invite_create env dr who pl hub) = hub"
    "fst (handle_auth_invite_create env dr who pl hub) \<noteq> Inr (Invite_Created rec token)"
    by (simp_all add: handle_auth_invite_create_def none unavailable_def split: option.split sum.split)
  assume "hb_cp hub = Some cp" "req_str pl ''email'' = Inr email" "ttl_hours_field env pl = Inr ttl"
  then show "fst (handle_auth_invite_create env dr who pl hub) = Inr (Rpc_Fail ''unauthorized'' ''session_token required'')"
    by (simp add: handle_auth_invite_create_def none)
qed

definition invite_create_subject :: string where
  "invite_create_subject = ''factory.dashboard.auth.invite.create''"

lemma invite_create_route:
  "map_of rpc_handlers invite_create_subject = Some handle_auth_invite_create"
  "invite_create_subject \<notin> set public_auth_subjects"
  by (simp_all add: rpc_handlers_def public_auth_subjects_def invite_create_subject_def)

lemma answer_keeps: "snd (answer (r, hub)) = hub"
  by (cases r) (auto simp: answer_def split: rpc_exn.split)

lemma answer_result: "fst (answer (r, hub)) = x \<Longrightarrow> r = Inr x \<or> (\<exists>m. x = Rpc_Fail m [])"
  by (cases r) (auto simp: answer_def split: rpc_exn.splits)

lemma snd_answer: "snd (answer x) = snd x"
  by (cases x) (simp add: answer_keeps)

lemma rehydrate_invites:
  "map_option cp_invites (hb_cp (snd (rehydrate_principal env now wire pl hub))) = map_option cp_invites (hb_cp hub)"
proof (cases "hb_cp hub")
  case None
  then show ?thesis by (simp add: rehydrate_principal_def)
next
  case (Some cp)
  then obtain P where "hb_cp (snd (rehydrate_principal env now wire pl hub)) = Some (cp\<lparr>cp_sessions := filter P (cp_sessions cp)\<rparr>)"
    by (rule rehydrate_tables)
  with Some show ?thesis by simp
qed

lemma answer_invite: "fst x \<noteq> Inr (Invite_Created rec token) \<Longrightarrow> fst (answer x) \<noteq> Invite_Created rec token"
  using answer_result [of "fst x" "snd x" "Invite_Created rec token"] by auto

definition login_subject :: string where
  "login_subject = ''factory.dashboard.auth.login''"

lemma login_route [simp]:
  "map_of rpc_handlers login_subject = Some handle_auth_login" "login_subject \<in> set public_auth_subjects"
  by (simp_all add: rpc_handlers_def public_auth_subjects_def login_subject_def)

lemma answer_InrD:
  assumes "answer x = (y, hub')" "\<And>c m. y \<noteq> Rpc_Fail c m"
  shows "x = (Inr y, hub')"
  using assms by (cases x) (auto simp: answer_def split: sum.splits rpc_exn.splits)

text \<open>
  C18: no invite is ever created over the RPC, whatever the request: its subject is protected, so the
  wrapper has taken the session token out of the payload by the time the handler asks for it.
\<close>

theorem rpc_never_creates_invite:
  "\<exists>res hub'. dashboard_rpc env dr invite_create_subject body hub = Some (res, hub') \<and>
     (\<nexists>rec token. res = Invite_Created rec token) \<and>
     map_option cp_invites (hb_cp hub') = map_option cp_invites (hb_cp hub)"
proof -
  have w: "fst (wrapped handle_auth_invite_create env dr invite_create_subject pl hub) \<noteq> Invite_Created rec token"
    "map_option cp_invites (hb_cp (snd (wrapped handle_auth_invite_create env dr invite_create_subject pl hub))) =
      map_option cp_invites (hb_cp hub)" for pl rec token
  proof -
    obtain r hub1 where re: "rehydrate_principal env (dr_proof_now dr) (parse_principal_from_payload env pl) pl hub = (r, hub1)"
      by (cases "rehydrate_principal env (dr_proof_now dr) (parse_principal_from_payload env pl) pl hub")
    have tab: "map_option cp_invites (hb_cp hub1) = map_option cp_invites (hb_cp hub)"
      using rehydrate_invites [of env "dr_proof_now dr" "parse_principal_from_payload env pl" pl hub] re by simp
    let ?pl = "strip_proof_payload (strip_principal_payload pl)"
    have "map_of ?pl ''session_token'' = None" by (simp add: proof_keys_def)
    note h = tokenless_invite_create(1,2) [OF this]
    have eq: "wrapped handle_auth_invite_create env dr invite_create_subject pl hub =
      (case r of Inl e \<Rightarrow> answer (Inl e, hub1) | Inr None \<Rightarrow> (principal_denied, hub1)
       | Inr (Some p) \<Rightarrow> answer (handle_auth_invite_create env dr (Some p) ?pl hub1))"
      by (simp add: wrapped_def invite_create_route(2) re Let_def split: sum.split option.split)
    show "fst (wrapped handle_auth_invite_create env dr invite_create_subject pl hub) \<noteq> Invite_Created rec token"
      using answer_invite [OF h(2)] answer_invite [of "(Inl e, hub1)" for e]
      by (simp add: eq principal_denied_def split: sum.split option.split)
    show "map_option cp_invites (hb_cp (snd (wrapped handle_auth_invite_create env dr invite_create_subject pl hub))) =
      map_option cp_invites (hb_cp hub)"
      using tab h(1) by (simp add: eq snd_answer split: sum.split option.split)
  qed
  have bad: "fst (answer (Inl e, hub)) \<noteq> Invite_Created rec token" "snd (answer (Inl e, hub)) = hub" for e rec token
    by (cases e; simp add: answer_def)+
  have "fst (wrap_dashboard_handler handle_auth_invite_create env dr invite_create_subject body hub) \<noteq> Invite_Created rec token \<and>
    map_option cp_invites (hb_cp (snd (wrap_dashboard_handler handle_auth_invite_create env dr invite_create_subject body hub))) =
    map_option cp_invites (hb_cp hub)" for rec token
    by (simp add: wrap_dashboard_handler_def w bad split: msg_body.split wire_value.split)
  then show ?thesis
    by (cases "wrap_dashboard_handler handle_auth_invite_create env dr invite_create_subject body hub")
       (auto simp: dashboard_rpc_def invite_create_route(1))
qed

subsection \<open>Signing in\<close>

lemma created_session_resolves:
  assumes "create_session sha fresh tok now uid ttl cp = (Inr (ses, token), cp')" "token \<noteq> []"
    "later \<le> now + of_int ttl"
    "cp_get_user uid cp = Inr (Some user)" "du_status user = Status_Active"
    "principal_for_user user ''session'' None cp' = Inr p"
  shows "resolve_session sha later token cp' = (Inr (Some p), cp')"
proof -
  define row where "row = \<lparr>se_user = uid, se_hash = sha tok, se_expires = now + of_int ttl, se_created = now\<rparr>"
  obtain rows where ins: "insert_unique se_hash (''ses:'' @ fresh) row (cp_sessions cp) = Some rows"
    and cp': "cp' = cp\<lparr>cp_sessions := rows\<rparr>" and tok: "token = tok" "sr_id ses = ''ses:'' @ fresh"
    using assms(1) by (auto simp: create_session_def row_def Let_def split: option.splits)
  have f: "find_row (\<lambda>_ s. se_hash s = sha token) (cp_sessions cp') = Some (''ses:'' @ fresh, row)"
    using find_insert_unique [OF ins, of "sha token"] by (simp add: cp' row_def tok)
  have "cp_get_user uid cp' = Inr (Some user)" using assms(4) by (simp add: cp_get_user_def cp')
  then have "active_principal (se_user row) ''session'' (''ses:'' @ fresh) cp' = Inr (Some (p, ''ses:'' @ fresh))"
    unfolding active_principal_iff using assms(5,6) by (simp add: row_def)
  moreover have "\<not> se_expires row < later" using assms(3) by (simp add: row_def)
  ultimately show ?thesis
    using assms(2) f by (simp add: resolve_session_def resolve_session_with_id_def)
qed

lemma user_found_by_email:
  assumes "cp_inv cp" "cp_get_user_by_email email cp = Inr (Some user)"
  shows "cp_get_user (du_id user) cp = Inr (Some user)"
proof -
  obtain uid row where f: "find_row (\<lambda>_ r. uc_email r = Some (cp_normalize_email email)) (cp_users cp) = Some (uid, row)"
    and u: "row_user uid row = Inr user"
    using assms(2) by (auto simp: cp_get_user_by_email_def row_user_opt_def split: option.splits sum.splits)
  have "dict_wf (cp_users cp)" using assms(1) by (simp add: cp_inv_def users_ok_def)
  with find_row_SomeD [OF f] have "map_of (cp_users cp) uid = Some row"
    by (auto simp: dict_wf_def)
  moreover have "du_id user = uid" using row_user_Inr [OF u] by simp
  ultimately show ?thesis using u by (simp add: cp_get_user_def row_user_opt_def)
qed

lemma login_opened:
  assumes "handle_auth_login env dr who pl hub = (Inr (Session_Opened user p token sid ttl), hub')"
  obtains cp email pw ses cp' where "hb_cp hub = Some cp"
    "cp_verify_password (re_kdf env) email pw cp = Inr (Some user)"
    "create_session (re_sha env) (dr_id dr) (dr_token dr) (dr_later dr) (du_id user) rpc_session_ttl cp = (Inr (ses, token), cp')"
    "principal_for_user user ''session'' None cp' = Inr p" "ttl = rpc_session_ttl" "hub' = put_cp cp' hub"
    "req_str pl ''email'' = Inr email" "req_str pl ''password'' = Inr pw"
proof -
  obtain cp where cp: "hb_cp hub = Some cp"
    using assms by (cases "hb_cp hub") (simp_all add: handle_auth_login_def unavailable_def)
  obtain email pw where req: "req_str pl ''email'' = Inr email" "req_str pl ''password'' = Inr pw"
    using assms by (cases "req_str pl ''email''"; cases "req_str pl ''password''") (simp_all add: handle_auth_login_def cp)
  have ver: "cp_verify_password (re_kdf env) email pw cp = Inr (Some u) \<Longrightarrow>
      open_session env dr u cp hub = (Inr (Session_Opened user p token sid ttl), hub')" for u
    using assms by (simp add: handle_auth_login_def cp req)
  obtain u where u: "cp_verify_password (re_kdf env) email pw cp = Inr (Some u)"
    using assms by (simp add: handle_auth_login_def cp req split: sum.splits option.splits)
  obtain ses t cp' where c: "create_session (re_sha env) (dr_id dr) (dr_token dr) (dr_later dr) (du_id u) rpc_session_ttl cp = (Inr (ses, t), cp')"
    using ver [OF u] by (auto simp: open_session_def split: prod.splits sum.splits)
  have pr: "principal_for_user u ''session'' None cp' = Inr p \<and> u = user \<and> t = token \<and> ttl = rpc_session_ttl \<and> hub' = put_cp cp' hub"
    using ver [OF u] by (simp add: open_session_def c split: sum.splits)
  show ?thesis by (rule that [OF cp]) (use u c pr req in auto)
qed


lemma hash_nonempty:
  assumes "hash_password kdf salt pw = Inr h"
  shows "h \<noteq> []"
proof -
  obtain dk where "h = hash_header @ b64_encode salt @ ''$'' @ b64_encode dk" using hash_cases [OF assms] .
  then show ?thesis by (simp add: hash_header_def)
qed

lemma password_set_verifies:
  assumes "kdf_ok kdf" "list_all is_byte salt" "cp_inv st"
    "cp_get_user_by_email email st = Inr (Some u)" "du_status u = Status_Active"
    "set_password kdf salt (du_id u) pw st = (Inr (), st')"
  shows "cp_verify_password kdf email pw st' = Inr (Some (u\<lparr>du_has_password := True\<rparr>))"
proof -
  obtain h where h: "hash_password kdf salt pw = Inr h"
    and st': "st' = st\<lparr>cp_users := update_rows (\<lambda>i _. i = du_id u) (\<lambda>r. r\<lparr>uc_hash := Some h\<rparr>) (cp_users st)\<rparr>"
    using assms(6) by (auto simp: set_password_def split: sum.splits)
  obtain uid row where f: "find_row (\<lambda>_ r. uc_email r = Some (cp_normalize_email email)) (cp_users st) = Some (uid, row)"
    and u: "row_user uid row = Inr u"
    using assms(4) by (auto simp: cp_get_user_by_email_def row_user_opt_def split: option.splits sum.splits)
  have uid: "du_id u = uid" using row_user_Inr [OF u] by simp
  have h_ne: "h \<noteq> []" using hash_nonempty [OF h] .
  then have keep: "row_user uid (row\<lparr>uc_hash := Some h\<rparr>) = Inr (u\<lparr>du_has_password := True\<rparr>)"
    using u by (auto simp: row_user_def split: sum.splits)
  have mail: "cp_get_user_by_email email st' = Inr (Some (u\<lparr>du_has_password := True\<rparr>))"
    by (simp add: cp_get_user_by_email_def st' find_update_rows f uid row_user_opt_def keep)
  have "cp_get_user (du_id u) st = Inr (Some u)" by (rule user_found_by_email [OF assms(3,4)])
  then obtain r where "map_of (cp_users st) (du_id u) = Some r" by (rule get_user_Inr)
  then have hash: "map_option uc_hash (map_of (cp_users st') (du_id u)) = Some (Some h)"
    by (simp add: st' map_of_update_rows)
  have ok: "verify_password kdf pw h = Some True"
    using verify_own_password [OF assms(1,2) h] .
  from mail hash ok h_ne assms(5) show ?thesis by (auto simp: cp_verify_password_def)
qed

definition sample_rpc_hub :: rpc_hub where
  "sample_rpc_hub = \<lparr>hb_cp = Some (snd (set_password sample_kdf [7] ''rx:user:b'' ''pw'' sample_cp)),
     hb_agents = [(''smith'', ''Be brief'')], hb_agent_rows = [], hb_effects = []\<rparr>"

definition sample_env :: rpc_env where
  "sample_env = \<lparr>re_sha = plain_sha, re_kdf = sample_kdf, re_lax_int = (\<lambda>_. None), re_to_str = (\<lambda>_. [])\<rparr>"

definition sample_draws :: draws where
  "sample_draws = \<lparr>dr_proof_now = 5, dr_now = 5, dr_later = 5, dr_id = ''1'', dr_id2 = ''2'',
     dr_token = ''tok'', dr_salt = [], dr_rows = []\<rparr>"

definition sample_creds :: payload where
  "sample_creds = [(''email'', W_Str ''b@x''), (''password'', W_Str ''pw'')]"

lemma sample_member:
  obtains u where "cp_get_user_by_email ''b@x'' sample_cp = Inr (Some u)" "du_id u = ''rx:user:b''"
    "du_status u = Status_Active" "du_role u = Role_Member"
  by (simp add: cp_get_user_by_email_def sample_cp_def cp_init_def cp_normalize_email_def py_lower_def py_strip_def
      is_space_def lower_char_def Let_def row_user_opt_def row_user_def global_role_of_def user_status_of_def
      enum_of_def str_or_def global_role_value_def user_status_value_def)

lemma sample_login:
  obtains user p hub' where
    "dashboard_rpc sample_env sample_draws login_subject (Decoded (W_Dict sample_creds)) sample_rpc_hub =
       Some (Session_Opened user p ''tok'' ''ses:1'' 1209600, hub')" "du_id user = ''rx:user:b''"
proof -
  let ?cp = "snd (set_password sample_kdf [7] ''rx:user:b'' ''pw'' sample_cp)"
  obtain u where u: "cp_get_user_by_email ''b@x'' sample_cp = Inr (Some u)" "du_id u = ''rx:user:b''"
    "du_status u = Status_Active" "du_role u = Role_Member" by (rule sample_member)
  define v where "v = u\<lparr>du_has_password := True\<rparr>"
  have v: "du_id v = ''rx:user:b''" by (simp add: v_def u(2))
  obtain h where "hash_password sample_kdf [7] ''pw'' = Inr h"
    by (simp add: hash_password_def sample_kdf_def dk_len_def)
  then have "set_password sample_kdf [7] (du_id u) ''pw'' sample_cp = (Inr (), ?cp)"
    by (simp add: set_password_def u(2))
  from password_set_verifies [OF sample_kdf_ok _ sample_cp_inv u(1,3) this]
  have ver: "cp_verify_password sample_kdf ''b@x'' ''pw'' ?cp = Inr (Some v)" by (simp add: is_byte_def v_def)
  have "cp_sessions ?cp = []" by (simp add: set_password_def split: sum.split)
  then obtain ses cp' where ses: "create_session plain_sha ''1'' ''tok'' 5 (du_id v) rpc_session_ttl ?cp = (Inr (ses, ''tok''), cp')"
    "sr_id ses = ''ses:1''"
    by (simp add: create_session_def insert_unique_def Let_def)
  obtain p where p: "principal_for_user v ''session'' None cp' = Inr p"
    using v by (simp add: principal_for_user_def mk_cp_principal_def Let_def)
  have "handle_auth_login sample_env sample_draws w sample_creds sample_rpc_hub =
      (Inr (Session_Opened v p ''tok'' ''ses:1'' rpc_session_ttl), put_cp cp' sample_rpc_hub)" for w
    by (simp add: handle_auth_login_def sample_env_def sample_draws_def sample_creds_def sample_rpc_hub_def
        req_str_def ver open_session_def ses p)
  moreover have "strip_principal_payload sample_creds = sample_creds"
    by (simp add: strip_principal_payload_def sample_creds_def principal_keys_def)
  ultimately have "dashboard_rpc sample_env sample_draws login_subject (Decoded (W_Dict sample_creds)) sample_rpc_hub =
       Some (Session_Opened v p ''tok'' ''ses:1'' 1209600, put_cp cp' sample_rpc_hub)"
    by (simp add: dashboard_rpc_def wrap_dashboard_handler_def wrapped_def Let_def answer_def rpc_session_ttl_def)
  from this v show ?thesis by (rule that)
qed

lemma sample_hub_inv: "\<forall>cp. hb_cp sample_rpc_hub = Some cp \<longrightarrow> cp_inv cp"
  by (simp add: sample_rpc_hub_def set_password_inv sample_cp_inv)


subsection \<open>Launching\<close>

lemma proven_principal:
  assumes "proven env now pl cp p"
  shows "pp_active_org p = None \<and> pp_user p \<noteq> []"
proof -
  have act: "pp_active_org p = None \<and> pp_user p \<noteq> []" if "active_principal uid via i cp = Inr (Some (p, j))" for uid via i j
    using that unfolding active_principal_iff principal_for_user_iff by auto
  show ?thesis
  proof (cases "proof_field pl ''session_token''")
    case (Some tok)
    with assms have "fst (resolve_session (re_sha env) now tok cp) = Inr (Some p)" by (simp add: proven_def)
    then obtain sid where "fst (resolve_session_with_id (re_sha env) now tok cp) = Inr (Some (p, sid))"
      by (rule resolve_session_pair)
    then obtain s :: session_row where "active_principal (se_user s) ''session'' sid cp = Inr (Some (p, sid))"
      by (rule resolve_session_Inr) blast
    then show ?thesis by (rule act)
  next
    case None
    with assms obtain key where "resolve_api_key (re_sha env) key cp = Inr (Some p)"
      by (auto simp: proven_def split: option.splits)
    then obtain kid where "resolve_api_key_with_id (re_sha env) key cp = Inr (Some (p, kid))"
      by (rule resolve_key_pair)
    then obtain r :: api_key_row where "active_principal (ak_user r) ''api_key'' kid cp = Inr (Some (p, kid))"
      by (rule resolve_api_key_Inr) blast
    then show ?thesis by (rule act)
  qed
qed

definition launch_subject :: string where
  "launch_subject = ''factory.dashboard.jobs.launch''"

lemma launch_route [simp]:
  "map_of rpc_handlers launch_subject = Some handle_jobs_launch" "launch_subject \<notin> set public_auth_subjects"
  by (simp_all add: rpc_handlers_def public_auth_subjects_def launch_subject_def)

text \<open>A protected request that is not answered by a failure ran its handler for a proven principal.\<close>

lemma protected_ran:
  assumes "map_of rpc_handlers subject = Some handler" "subject \<notin> set public_auth_subjects"
    "dashboard_rpc env dr subject body hub = Some (res, hub')" "\<And>c m. res \<noteq> Rpc_Fail c m"
  obtains pl cp p where "body = Decoded (W_Dict pl)" "hb_cp hub = Some cp" "proven env (dr_proof_now dr) pl cp p"
    "handler env dr (Some p) (strip_proof_payload (strip_principal_payload pl)) hub = (Inr res, hub')"
proof -
  have w: "wrap_dashboard_handler handler env dr subject body hub = (res, hub')"
    using assms(1,3) by (simp add: dashboard_rpc_def)
  have ans: "answer (Inl e, h) \<noteq> (res, hub')" for e h
    using assms(4) by (cases e) (auto simp: answer_def)
  have ran: "\<exists>cp p. hb_cp hub = Some cp \<and> proven env (dr_proof_now dr) pl cp p \<and>
      handler env dr (Some p) (strip_proof_payload (strip_principal_payload pl)) hub = (Inr res, hub')"
    if wr: "wrapped handler env dr subject pl hub = (res, hub')" for pl
  proof -
    obtain r hub1 where re: "rehydrate_principal env (dr_proof_now dr) (parse_principal_from_payload env pl) pl hub = (r, hub1)"
      by (cases "rehydrate_principal env (dr_proof_now dr) (parse_principal_from_payload env pl) pl hub")
    have "(case r of Inl e \<Rightarrow> answer (Inl e, hub1) | Inr None \<Rightarrow> (principal_denied, hub1)
       | Inr (Some p) \<Rightarrow> answer (handler env dr (Some p) (strip_proof_payload (strip_principal_payload pl)) hub1)) = (res, hub')"
      using wr assms(2) by (simp add: wrapped_def Let_def re split: sum.splits option.splits)
    moreover have "principal_denied \<noteq> res" using assms(4) by (simp add: principal_denied_def) metis
    ultimately obtain p where p: "r = Inr (Some p)"
      "answer (handler env dr (Some p) (strip_proof_payload (strip_principal_payload pl)) hub1) = (res, hub')"
      by (cases r) (auto simp: ans split: option.splits)
    from re p(1) obtain cp where "hb_cp hub = Some cp" "hub1 = hub" "proven env (dr_proof_now dr) pl cp p"
      using rehydrate_Inr by blast
    moreover note answer_InrD [OF p(2) assms(4)]
    ultimately show ?thesis by blast
  qed
  consider "body = Empty_Body" | pl where "body = Decoded (W_Dict pl)"
    using w ans by (cases body) (auto simp: wrap_dashboard_handler_def split: wire_value.splits)
  then show ?thesis
  proof cases
    case 1
    with w have "wrapped handler env dr subject [] hub = (res, hub')" by (simp add: wrap_dashboard_handler_def)
    then obtain cp p where "proven env (dr_proof_now dr) [] cp p" using ran by blast
    then show ?thesis by (simp add: proven_def proof_field_def wget_def)
  next
    case 2
    with w have "wrapped handler env dr subject pl hub = (res, hub')" by (simp add: wrap_dashboard_handler_def)
    then show ?thesis using ran that 2 by blast
  qed
qed

lemma launch_accepted:
  assumes "handle_jobs_launch env dr (Some p) pl hub = (Inr (Job_Accepted jid msg subj), hub')" "hb_cp hub = Some cp"
  obtains agent prompt_text job_name pool_id model where
    "map_of (hb_agents hub) agent \<noteq> None" "job_name \<in> set allowed_job_names"
    "jid = dr_id dr" "subj = ''factory.jobs.'' @ job_name"
    "hub' = put_cp (record_job_launch (dr_now dr) (dr_id dr) (pp_user p) (pp_active_org p) cp)
       (let e = launch_envelope dr p agent prompt_text job_name pool_id model hub
        in emit_effects [Publish_Job subj e,
             Registry_Open (je_job e) (je_pool e) (concurrency_mode_for_backend (je_backend e))] hub)"
proof -
  have job: "je_job (launch_envelope dr p agent prompt_text job_name pool_id model hub) = dr_id dr"
    for agent prompt_text job_name pool_id model
    by (simp add: launch_envelope_def Let_def split: prod.split)
  have cp: "hb_cp (emit_effects es hub) = Some cp" for es using assms(2) by (simp add: emit_effects_def)
  show ?thesis
    using assms(1)
    by (simp add: handle_jobs_launch_def Let_def job cp split: sum.splits option.splits if_splits)
       (rule that; force simp: Let_def job)+
qed

text \<open>
  C17: an accepted launch is for a proven principal, an agent the hub has and one of the allowed job
  names; the job runs under the hub's system prompt for that agent, whatever the request says, and it is
  published and recorded as the principal's own, without an organization: on the hub
  after it, nobody but that user and the administrators may steer or cancel it.
\<close>

theorem launched_job_is_launchers:
  assumes "dashboard_rpc env dr launch_subject body hub = Some (Job_Accepted jid msg subj, hub')"
  shows "\<exists>pl cp p agent sys e. body = Decoded (W_Dict pl) \<and> hb_cp hub = Some cp \<and> proven env (dr_proof_now dr) pl cp p \<and>
    map_of (hb_agents hub) agent = Some sys \<and> je_name e \<in> set allowed_job_names \<and>
    subj = ''factory.jobs.'' @ je_name e \<and> je_job e = jid \<and>
    je_system_prompt e = sys \<and> je_launched_by e = pp_user p \<and> je_org e = None \<and>
    hb_effects hub' = hb_effects hub @ [Publish_Job subj e,
      Registry_Open jid (je_pool e) (concurrency_mode_for_backend (je_backend e))] \<and>
    (\<forall>q. \<forall>action \<in> {''jobs.steer'', ''jobs.cancel''}.
       authorize_job_action q jid action hub' = (''admin'' \<in> pp_roles q \<or> pp_user q = pp_user p))"
proof -
  obtain pl cp p where b: "body = Decoded (W_Dict pl)" "hb_cp hub = Some cp" "proven env (dr_proof_now dr) pl cp p"
    and h: "handle_jobs_launch env dr (Some p) (strip_proof_payload (strip_principal_payload pl)) hub =
      (Inr (Job_Accepted jid msg subj), hub')"
    by (rule protected_ran [OF launch_route assms]) auto
  note pr = proven_principal [OF b(3)]
  obtain agent prompt_text job_name pool_id model where l:
    "map_of (hb_agents hub) agent \<noteq> None" "job_name \<in> set allowed_job_names"
    "jid = dr_id dr" "subj = ''factory.jobs.'' @ job_name"
    "hub' = put_cp (record_job_launch (dr_now dr) (dr_id dr) (pp_user p) (pp_active_org p) cp)
       (let e = launch_envelope dr p agent prompt_text job_name pool_id model hub
        in emit_effects [Publish_Job subj e,
             Registry_Open (je_job e) (je_pool e) (concurrency_mode_for_backend (je_backend e))] hub)"
    by (rule launch_accepted [OF h b(2)])
  define e where "e = launch_envelope dr p agent prompt_text job_name pool_id model hub"
  obtain sys where sys: "map_of (hb_agents hub) agent = Some sys" using l(1) by auto
  have e: "je_name e = job_name" "je_job e = jid" "je_system_prompt e = sys" "je_launched_by e = pp_user p" "je_org e = None"
    by (simp_all add: e_def launch_envelope_def Let_def sys l(3) pr split: prod.split)
  have eff: "hb_effects hub' = hb_effects hub @ [Publish_Job subj e,
      Registry_Open jid (je_pool e) (concurrency_mode_for_backend (je_backend e))]"
    using e(2) by (simp add: l(5) put_cp_def emit_effects_def Let_def flip: e_def)
  have "hb_cp hub' = Some (record_job_launch (dr_now dr) jid (pp_user p) None cp)"
    by (simp add: l(3,5) put_cp_def pr)
  moreover have "get_job_meta jid (record_job_launch (dr_now dr) jid (pp_user p) None cp) = (Some (pp_user p), None)"
    by (simp add: get_job_meta_def record_job_launch_def update_conv')
  ultimately have "authorize_job_action q jid action hub' = (''admin'' \<in> pp_roles q \<or> pp_user q = pp_user p)"
    if "action \<in> {''jobs.steer'', ''jobs.cancel''}" for q action
    using that pr by (auto simp: authorize_job_action_def cp_is_admin_def cp_authorize_def admin_only_actions_def)
  then show ?thesis using b sys l(2,4) e eff by blast
qed

subsection \<open>Witnesses\<close>

definition sample_launch :: payload where
  "sample_launch = [(''api_key'', W_Str ''fak_k''), (''agent'', W_Str ''smith''), (''prompt'', W_Str ''go'')]"

lemma sample_key_resolves:
  obtains cp p where "hb_cp sample_rpc_hub = Some cp" "resolve_api_key plain_sha ''fak_k'' cp = Inr (Some p)"
    "pp_user p = ''rx:user:b''" "pp_roles p = {''member''}"
proof -
  let ?cp = "snd (set_password sample_kdf [7] ''rx:user:b'' ''pw'' sample_cp)"
  obtain h where h: "hash_password sample_kdf [7] ''pw'' = Inr h"
    by (simp add: hash_password_def sample_kdf_def dk_len_def)
  have users: "\<exists>u. cp_get_user ''rx:user:b'' ?cp = Inr (Some u) \<and> du_id u = ''rx:user:b'' \<and>
      du_status u = Status_Active \<and> du_role u = Role_Member"
    by (simp add: set_password_def h cp_get_user_def map_of_update_rows sample_cp_def cp_init_def row_user_opt_def
        row_user_def global_role_of_def user_status_of_def enum_of_def str_or_def global_role_value_def
        user_status_value_def)
  then obtain p where p: "active_principal ''rx:user:b'' ''api_key'' ''key:1'' ?cp = Inr (Some (p, ''key:1''))"
      "pp_user p = ''rx:user:b''" "pp_roles p = {''member''}"
    unfolding active_principal_iff principal_for_user_iff
    by (auto simp: global_role_value_def)
  have keys: "cp_keys ?cp = cp_keys sample_cp" by simp
  have "resolve_api_key plain_sha ''fak_k'' ?cp = Inr (Some p)"
    using p(1) keys by (simp add: resolve_api_key_def resolve_api_key_with_id_def plain_sha_def)
  with p(2,3) show ?thesis by (intro that [of ?cp p]) (simp_all add: sample_rpc_hub_def)
qed

lemma sample_launch_accepted:
  obtains p hub' where
    "dashboard_rpc sample_env sample_draws launch_subject (Decoded (W_Dict sample_launch)) sample_rpc_hub =
      Some (Job_Accepted ''1'' ''dispatched omp'' ''factory.jobs.omp'', hub')"
proof -
  obtain cp p where p: "hb_cp sample_rpc_hub = Some cp" "resolve_api_key plain_sha ''fak_k'' cp = Inr (Some p)"
    "pp_user p = ''rx:user:b''" "pp_roles p = {''member''}" by (rule sample_key_resolves)
  have wire: "parse_principal_from_payload sample_env sample_launch = None"
    by (simp add: parse_principal_from_payload_def wget_def sample_launch_def)
  have re: "rehydrate_principal sample_env (dr_proof_now sample_draws) None sample_launch sample_rpc_hub =
      (Inr (Some p), sample_rpc_hub)"
    by (simp add: rehydrate_principal_def p proof_field_def wget_def sample_launch_def py_strip_def is_space_def
        Let_def sample_env_def accept_proof_def)
  have proven: "proven sample_env (dr_proof_now sample_draws) sample_launch cp p"
    by (simp add: proven_def proof_field_def wget_def sample_launch_def py_strip_def is_space_def Let_def
        sample_env_def p(2))
  note org = conjunct1 [OF proven_principal [OF proven]]
  have left: "strip_proof_payload (strip_principal_payload sample_launch) = [(''agent'', W_Str ''smith''), (''prompt'', W_Str ''go'')]"
    by (simp add: strip_proof_payload_def strip_principal_payload_def sample_launch_def proof_keys_def principal_keys_def)
  have agents: "hb_agents sample_rpc_hub = [(''smith'', ''Be brief'')]" by (simp add: sample_rpc_hub_def)
  have "\<exists>hub'. handle_jobs_launch sample_env sample_draws (Some p) [(''agent'', W_Str ''smith''), (''prompt'', W_Str ''go'')] sample_rpc_hub =
      (Inr (Job_Accepted ''1'' ''dispatched omp'' ''factory.jobs.omp''), hub')"
    by (simp add: handle_jobs_launch_def req_str_def req_str_len_def default_str_def opt_str_def agents org
        allowed_job_names_def Let_def launch_envelope_def sample_draws_def split: prod.split)
  then obtain hub' where "handle_jobs_launch sample_env sample_draws (Some p) [(''agent'', W_Str ''smith''), (''prompt'', W_Str ''go'')] sample_rpc_hub =
      (Inr (Job_Accepted ''1'' ''dispatched omp'' ''factory.jobs.omp''), hub')" ..
  then have "dashboard_rpc sample_env sample_draws launch_subject (Decoded (W_Dict sample_launch)) sample_rpc_hub =
      Some (Job_Accepted ''1'' ''dispatched omp'' ''factory.jobs.omp'', hub')"
    by (simp add: dashboard_rpc_def wrap_dashboard_handler_def wrapped_def Let_def wire re left answer_def)
  then show ?thesis by (rule that)
qed

lemma launched_job_is_launchers_witness:
  "\<exists>hub' owner. dashboard_rpc sample_env sample_draws launch_subject (Decoded (W_Dict sample_launch)) sample_rpc_hub =
      Some (Job_Accepted ''1'' ''dispatched omp'' ''factory.jobs.omp'', hub') \<and>
     (\<forall>q. authorize_job_action q ''1'' ''jobs.steer'' hub' = (''admin'' \<in> pp_roles q \<or> pp_user q = owner))"
proof -
  obtain p hub' where l: "dashboard_rpc sample_env sample_draws launch_subject (Decoded (W_Dict sample_launch)) sample_rpc_hub =
      Some (Job_Accepted ''1'' ''dispatched omp'' ''factory.jobs.omp'', hub')"
    by (rule sample_launch_accepted)
  from launched_job_is_launchers [OF l] l show ?thesis by auto
qed


lemma wire_stamp_not_trusted_witness:
  "dashboard_rpc sample_env sample_draws launch_subject (Decoded (W_Dict
     [(''principal_user_id'', W_Str ''rx:user:b''), (''principal_roles'', W_List [W_Str ''admin'']), (''api_key'', W_Str ''fak_k'')])) sample_rpc_hub =
   dashboard_rpc sample_env sample_draws launch_subject (Decoded (W_Dict
     [(''principal_user_id'', W_Str ''rx:user:b''), (''api_key'', W_Str ''fak_k'')])) sample_rpc_hub"
  by (rule wire_stamp_not_trusted)
     (simp_all add: launch_route strip_principal_payload_def principal_keys_def parse_principal_from_payload_def wget_def
       or_empty_list_def Let_def mk_cp_principal_def auth_vias_def)

end
