(* ===== verification/Blob_Store.thy ===== *)
theory Blob_Store
  imports Password_Hash
begin

text \<open>
  The content-addressed blob store (packages/roxabi-blobs): files named by the digest of their
  bytes, and a SQLite manifest of the blobs and of the references to them.

  The digest \<open>hashlib.sha256(data).hexdigest()\<close>, the clock and the outcome of every system call
  are arguments. The manifest is seen through the store's one connection: \<open>bs_db\<close> is what
  it reads, pending changes included, \<open>bs_committed\<close> what survives closing it or a crash.
  A statement SQLite refuses is given by its position in the operation. The root is an absolute path;
  files and directories of the store are reached without symbolic links. Rows of equal
  \<open>ingested_at\<close> stay in insertion order where SQLite leaves the order open.
\<close>

subsection \<open>Timestamps\<close>

text \<open>A UTC \<open>datetime\<close> and its \<open>isoformat()\<close>, which drops the microseconds where they are zero.\<close>

record utc =
  ut_year :: nat
  ut_month :: nat
  ut_day :: nat
  ut_hour :: nat
  ut_min :: nat
  ut_sec :: nat
  ut_us :: nat

fun padded :: "nat \<Rightarrow> nat \<Rightarrow> string" where
  "padded 0 n = []"
| "padded (Suc w) n = padded w (n div 10) @ [char_of (48 + n mod 10)]"

definition isoformat :: "utc \<Rightarrow> string" where
  "isoformat t =
     padded 4 (ut_year t) @ ''-'' @ padded 2 (ut_month t) @ ''-'' @ padded 2 (ut_day t) @ ''T'' @
     padded 2 (ut_hour t) @ '':'' @ padded 2 (ut_min t) @ '':'' @ padded 2 (ut_sec t) @
     (if ut_us t = 0 then [] else ''.'' @ padded 6 (ut_us t)) @ ''+00:00''"

subsection \<open>Paths\<close>

type_synonym fpath = "string list"

definition path_str :: "fpath \<Rightarrow> string" where
  "path_str p = concat (map (\<lambda>s. CHR ''/'' # s) p)"

text \<open>\<open>Path(s).resolve()\<close> without symbolic links: \<open>None\<close> is the \<open>ValueError\<close> of a null character.\<close>

definition resolve_step :: "fpath \<Rightarrow> string \<Rightarrow> fpath" where
  "resolve_step p s = (if s = [] \<or> s = ''.'' then p else if s = ''..'' then butlast p else p @ [s])"

definition resolve_path :: "fpath \<Rightarrow> string \<Rightarrow> fpath option" where
  "resolve_path cwd s =
     (if CHR 0x00 \<in> set s then None
      else Some (foldl resolve_step (if startswith ''/'' s then [] else cwd) (py_split (CHR ''/'') s)))"

definition safe_resolve_in_root :: "fpath \<Rightarrow> string \<Rightarrow> fpath \<Rightarrow> fpath option" where
  "safe_resolve_in_root cwd candidate base =
     (case resolve_path cwd candidate of
        None \<Rightarrow> None
      | Some p \<Rightarrow> if take (length base) p = base then Some p else None)"

subsection \<open>State\<close>

datatype blob_error =
    Blob_Not_Found
  | Too_Large nat nat
  | Write_Refused string string
  | Delete_Refused int
  | Unlink_Refused string string
  | Blob_Consistency string
  | Blob_State
  | Raw_Os_Error
  | Raw_Sqlite_Error
  | Raw_Overflow

text \<open>\<open>BlobWriteError\<close>.\<close>

fun is_write_error :: "blob_error \<Rightarrow> bool" where
  "is_write_error (Too_Large n m) = True"
| "is_write_error (Write_Refused h m) = True"
| "is_write_error (Delete_Refused i) = True"
| "is_write_error (Unlink_Refused h m) = True"
| "is_write_error e = False"

record blob_row =
  bl_mime :: string
  bl_size :: nat
  bl_path :: string
  bl_seen :: string

record blob_ref_row =
  rf_hash :: string
  rf_source :: string
  rf_platform_ref :: "string option"
  rf_message_id :: "string option"
  rf_filename :: "string option"
  rf_ingested :: string

record manifest =
  mf_blobs :: "(string, blob_row) dict"
  mf_refs :: "(int, blob_ref_row) dict"
  mf_next :: int

record blob_ref =
  br_store_key :: string
  br_hash :: string
  br_mime :: string
  br_size :: nat
  br_filename :: "string option"
  br_source :: string
  br_platform_ref :: "string option"
  br_message_id :: "string option"
  br_id :: "int option"
  br_created :: string

record blob_store =
  bs_root :: fpath
  bs_max :: "nat option"
  bs_open :: bool
  bs_db :: manifest
  bs_committed :: manifest
  bs_files :: "(fpath, bytes) dict"
  bs_dirs :: "fpath list"

type_synonym digest = "bytes \<Rightarrow> string"

text \<open>
  What the system calls of a write do: the directory or the file cannot be created, the one
  \<open>os.write\<close> takes so many bytes, or an \<open>OSError\<close> comes after so many bytes.
\<close>

datatype file_io = Mkdir_Failed | Open_Failed string | Wrote nat | Write_Failed nat string

definition empty_manifest :: manifest where
  "empty_manifest = \<lparr>mf_blobs = [], mf_refs = [], mf_next = 1\<rparr>"

definition fs_blob_store :: "fpath \<Rightarrow> nat option \<Rightarrow> blob_store" where
  "fs_blob_store base max_bytes =
     \<lparr>bs_root = base, bs_max = max_bytes, bs_open = False, bs_db = empty_manifest,
      bs_committed = empty_manifest, bs_files = [], bs_dirs = []\<rparr>"

text \<open>Entering and leaving the context: what was not committed is gone with the connection.\<close>

definition blob_open :: "blob_store \<Rightarrow> blob_store" where
  "blob_open st = st\<lparr>bs_open := True, bs_db := bs_committed st\<rparr>"

definition blob_close :: "blob_store \<Rightarrow> blob_store" where
  "blob_close st = st\<lparr>bs_open := False, bs_db := bs_committed st\<rparr>"

definition commit :: "blob_store \<Rightarrow> blob_store" where
  "commit st = st\<lparr>bs_committed := bs_db st\<rparr>"

definition shard_for :: "string \<Rightarrow> string" where
  "shard_for content_hash = take 2 content_hash"

definition shard_dir :: "fpath \<Rightarrow> string \<Rightarrow> fpath" where
  "shard_dir base h = base @ [shard_for h]"

definition blob_path :: "fpath \<Rightarrow> string \<Rightarrow> fpath" where
  "blob_path base h = shard_dir base h @ [h]"

subsection \<open>Writing\<close>

definition lookup_existing :: "string \<Rightarrow> blob_store \<Rightarrow> (string \<times> string \<times> nat) option" where
  "lookup_existing h st =
     map_option (\<lambda>r. (bl_path r, bl_mime r, bl_size r)) (map_of (mf_blobs (bs_db st)) h)"

definition add_dir :: "fpath \<Rightarrow> blob_store \<Rightarrow> blob_store" where
  "add_dir d st = (if d \<in> set (bs_dirs st) then st else st\<lparr>bs_dirs := bs_dirs st @ [d]\<rparr>)"

definition put_file :: "fpath \<Rightarrow> bytes \<Rightarrow> blob_store \<Rightarrow> blob_store" where
  "put_file p data st = st\<lparr>bs_files := AList.update p data (bs_files st)\<rparr>"

definition drop_file :: "fpath \<Rightarrow> blob_store \<Rightarrow> blob_store" where
  "drop_file p st = st\<lparr>bs_files := filter (\<lambda>f. fst f \<noteq> p) (bs_files st)\<rparr>"

text \<open>A file that is there already is trusted: \<open>O_EXCL\<close> refuses and the error is swallowed.\<close>

definition write_blob_file ::
    "file_io \<Rightarrow> string \<Rightarrow> bytes \<Rightarrow> blob_store \<Rightarrow> (blob_error + unit) \<times> blob_store" where
  "write_blob_file io h data st =
     (case io of
        Mkdir_Failed \<Rightarrow> (Inl Raw_Os_Error, st)
      | _ \<Rightarrow>
          (let st1 = add_dir (shard_dir (bs_root st) h) st; p = blob_path (bs_root st) h
           in if map_of (bs_files st1) p \<noteq> None then (Inr (), st1)
              else
                (case io of
                   Wrote n \<Rightarrow> (Inr (), put_file p (take n data) st1)
                 | Open_Failed m \<Rightarrow> (Inl (Write_Refused (take 12 h) m), st1)
                 | Write_Failed n m \<Rightarrow> (Inl (Write_Refused (take 12 h) m), drop_file p (put_file p (take n data) st1))
                 | Mkdir_Failed \<Rightarrow> (Inl Raw_Os_Error, st1))))"

definition insert_blob :: "string \<Rightarrow> string \<Rightarrow> nat \<Rightarrow> string \<Rightarrow> blob_store \<Rightarrow> blob_store" where
  "insert_blob h mime len seen st =
     (let db = bs_db st;
          row = \<lparr>bl_mime = mime, bl_size = len, bl_path = path_str (blob_path (bs_root st) h), bl_seen = seen\<rparr>
      in if map_of (mf_blobs db) h \<noteq> None then st
         else st\<lparr>bs_db := db\<lparr>mf_blobs := mf_blobs db @ [(h, row)]\<rparr>\<rparr>)"

definition insert_ref :: "blob_ref_row \<Rightarrow> blob_store \<Rightarrow> int \<times> blob_store" where
  "insert_ref row st =
     (let db = bs_db st
      in (mf_next db,
          st\<lparr>bs_db := db\<lparr>mf_refs := mf_refs db @ [(mf_next db, row)], mf_next := mf_next db + 1\<rparr>\<rparr>))"

definition sqlite_int :: "int \<Rightarrow> bool" where
  "sqlite_int i \<longleftrightarrow> - (2 ^ 63) \<le> i \<and> i < 2 ^ 63"

record put_args =
  pa_mime :: string
  pa_source :: string
  pa_filename :: "string option"
  pa_platform_ref :: "string option"
  pa_message_id :: "string option"

text \<open>
  The rows of a put once the file is there. SQLite refuses an \<open>AUTOINCREMENT\<close> key past its largest
  integer.
\<close>

definition put_rows ::
    "nat option \<Rightarrow> utc \<Rightarrow> string \<Rightarrow> nat \<Rightarrow> put_args \<Rightarrow> (string \<times> string \<times> nat) \<Rightarrow> blob_store \<Rightarrow>
     (blob_error + blob_ref) \<times> blob_store" where
  "put_rows bad now h len a found st =
     (case found of (path, mime, sz) \<Rightarrow>
        if bad = Some 3 \<or> \<not> sqlite_int (mf_next (bs_db st)) then (Inl Raw_Sqlite_Error, st)
        else
          (case insert_ref \<lparr>rf_hash = h, rf_source = pa_source a, rf_platform_ref = pa_platform_ref a,
                            rf_message_id = pa_message_id a, rf_filename = pa_filename a,
                            rf_ingested = isoformat now\<rparr> st of
             (rid, st') \<Rightarrow>
               if bad = Some 4 then (Inl Raw_Sqlite_Error, st')
               else (Inr \<lparr>br_store_key = path, br_hash = h, br_mime = mime, br_size = sz,
                          br_filename = pa_filename a, br_source = pa_source a,
                          br_platform_ref = pa_platform_ref a, br_message_id = pa_message_id a,
                          br_id = Some rid, br_created = isoformat now\<rparr>, commit st')))"

definition put_locked ::
    "digest \<Rightarrow> nat option \<Rightarrow> file_io \<Rightarrow> utc \<Rightarrow> bytes \<Rightarrow> put_args \<Rightarrow> blob_store \<Rightarrow>
     (blob_error + blob_ref) \<times> blob_store" where
  "put_locked sha bad io now data a st =
     (let h = sha data
      in if bad = Some 0 then (Inl Raw_Sqlite_Error, st)
         else
           (case lookup_existing h st of
              Some found \<Rightarrow> put_rows bad now h (length data) a found st
            | None \<Rightarrow>
                (case write_blob_file io h data st of
                   (Inl e, st1) \<Rightarrow> (Inl e, st1)
                 | (Inr _, st1) \<Rightarrow>
                     if bad = Some 1 then (Inl Raw_Sqlite_Error, st1)
                     else
                       (let st2 = insert_blob h (pa_mime a) (length data) (isoformat now) st1
                        in if bad = Some 2 then (Inl Raw_Sqlite_Error, st2)
                           else
                             put_rows bad now h (length data) a
                               (case lookup_existing h st2 of
                                  Some found \<Rightarrow> found
                                | None \<Rightarrow> (path_str (blob_path (bs_root st) h), pa_mime a, length data)) st2))))"

definition blob_put ::
    "digest \<Rightarrow> nat option \<Rightarrow> file_io \<Rightarrow> utc \<Rightarrow> bytes \<Rightarrow> put_args \<Rightarrow> blob_store \<Rightarrow>
     (blob_error + blob_ref) \<times> blob_store" where
  "blob_put sha bad io now data a st =
     (if (case bs_max st of None \<Rightarrow> False | Some m \<Rightarrow> m < length data)
      then (Inl (Too_Large (length data) (case bs_max st of None \<Rightarrow> 0 | Some m \<Rightarrow> m)), st)
      else if \<not> bs_open st then (Inl Blob_State, st)
      else put_locked sha bad io now data a st)"

text \<open>The process dies during a put after so many bytes of the file are written, before the commit.\<close>

definition put_crash :: "digest \<Rightarrow> nat \<Rightarrow> bytes \<Rightarrow> blob_store \<Rightarrow> blob_store" where
  "put_crash sha n data st =
     blob_close
       (if bs_open st \<and> lookup_existing (sha data) st = None
        then snd (write_blob_file (Wrote n) (sha data) data st) else st)"

subsection \<open>Reading\<close>

text \<open>
  Reading a path that is a directory, or goes through a file, is an \<open>OSError\<close> of another kind than
  \<open>FileNotFoundError\<close>.
\<close>

definition not_a_file :: "fpath \<Rightarrow> blob_store \<Rightarrow> bool" where
  "not_a_file p st \<longleftrightarrow>
     p = bs_root st \<or> p \<in> set (bs_dirs st) \<or>
     list_ex (\<lambda>(f, _). length f < length p \<and> take (length f) p = f) (bs_files st)"

definition blob_get :: "fpath \<Rightarrow> string \<Rightarrow> blob_store \<Rightarrow> blob_error + bytes" where
  "blob_get cwd store_key st =
     (if \<not> bs_open st then Inl Blob_State
      else
        (case safe_resolve_in_root cwd store_key (bs_root st) of
           None \<Rightarrow> Inl Blob_Not_Found
         | Some p \<Rightarrow>
             (case map_of (bs_files st) p of
                Some data \<Rightarrow> Inr data
              | None \<Rightarrow> if not_a_file p st then Inl Raw_Os_Error else Inl Blob_Not_Found)))"

text \<open>\<open>ORDER BY ingested_at DESC LIMIT 1\<close>.\<close>

fun latest :: "(int \<times> blob_ref_row) list \<Rightarrow> (int \<times> blob_ref_row) option" where
  "latest [] = None"
| "latest (r # rs) = (case latest rs of
     None \<Rightarrow> Some r
   | Some s \<Rightarrow> if rf_ingested (snd r) < rf_ingested (snd s) then Some s else Some r)"

definition refs_of :: "string \<Rightarrow> manifest \<Rightarrow> (int \<times> blob_ref_row) list" where
  "refs_of h db = filter (\<lambda>(_, r). rf_hash r = h) (mf_refs db)"

definition blob_exists :: "bool \<Rightarrow> string \<Rightarrow> blob_store \<Rightarrow> blob_error + blob_ref option" where
  "blob_exists bad h st =
     (if \<not> bs_open st then Inl Blob_State
      else if bad then Inl (Blob_Consistency (take 12 h))
      else
        (case (map_of (mf_blobs (bs_db st)) h, latest (refs_of h (bs_db st))) of
           (Some b, Some (_, r)) \<Rightarrow>
             Inr (Some \<lparr>br_store_key = bl_path b, br_hash = h, br_mime = bl_mime b, br_size = bl_size b,
                        br_filename = rf_filename r, br_source = rf_source r,
                        br_platform_ref = rf_platform_ref r, br_message_id = rf_message_id r,
                        br_id = None, br_created = rf_ingested r\<rparr>)
         | _ \<Rightarrow> Inr None))"

subsection \<open>Deleting\<close>

definition joined_ref :: "int \<Rightarrow> manifest \<Rightarrow> (string \<times> string) option" where
  "joined_ref rid db = (case map_of (mf_refs db) rid of
     None \<Rightarrow> None
   | Some r \<Rightarrow> map_option (\<lambda>b. (rf_hash r, bl_path b)) (map_of (mf_blobs db) (rf_hash r)))"

definition delete_ref :: "int \<Rightarrow> blob_store \<Rightarrow> blob_store" where
  "delete_ref rid st =
     st\<lparr>bs_db := (bs_db st)\<lparr>mf_refs := filter (\<lambda>r. fst r \<noteq> rid) (mf_refs (bs_db st))\<rparr>\<rparr>"

definition delete_blob :: "string \<Rightarrow> blob_store \<Rightarrow> blob_store" where
  "delete_blob h st =
     st\<lparr>bs_db := (bs_db st)\<lparr>mf_blobs := filter (\<lambda>b. fst b \<noteq> h) (mf_blobs (bs_db st))\<rparr>\<rparr>"

text \<open>The manifest's part of a delete, up to the commit: the hash and the path to unlink, if any.\<close>

definition delete_rows ::
    "nat option \<Rightarrow> int \<Rightarrow> blob_store \<Rightarrow> (blob_error + (string \<times> string) option) \<times> blob_store" where
  "delete_rows bad rid st =
     (if \<not> sqlite_int rid then (Inl Raw_Overflow, st)
      else if bad = Some 0 then (Inl (Delete_Refused rid), st)
      else
        (case joined_ref rid (bs_db st) of
           None \<Rightarrow> (Inr None, st)
         | Some (h, path) \<Rightarrow>
             if bad = Some 1 then (Inl (Delete_Refused rid), st)
             else
               (let st1 = delete_ref rid st
                in if bad = Some 2 then (Inl (Delete_Refused rid), st1)
                   else
                     (let last = (refs_of h (bs_db st1) = [])
                      in if last \<and> bad = Some 3 then (Inl (Delete_Refused rid), st1)
                         else
                           (let st2 = (if last then delete_blob h st1 else st1)
                            in if bad = Some 4 then (Inl (Delete_Refused rid), st2)
                               else (Inr (if last then Some (h, path) else None), commit st2))))))"

definition blob_delete ::
    "fpath \<Rightarrow> nat option \<Rightarrow> string option \<Rightarrow> int \<Rightarrow> blob_store \<Rightarrow> (blob_error + unit) \<times> blob_store" where
  "blob_delete cwd bad unlink_error rid st =
     (if \<not> bs_open st then (Inl Blob_State, st)
      else
        (case delete_rows bad rid st of
           (Inl e, st1) \<Rightarrow> (Inl e, st1)
         | (Inr None, st1) \<Rightarrow> (Inr (), st1)
         | (Inr (Some (h, path)), st1) \<Rightarrow>
             (case safe_resolve_in_root cwd path (bs_root st1) of
                None \<Rightarrow> (Inr (), st1)
              | Some p \<Rightarrow>
                  (case unlink_error of
                     Some m \<Rightarrow> (Inl (Unlink_Refused (take 12 h) m), st1)
                   | None \<Rightarrow> (Inr (), drop_file p st1)))))"

text \<open>The process dies between the commit of a delete and the unlink.\<close>

definition delete_crash :: "int \<Rightarrow> blob_store \<Rightarrow> blob_store" where
  "delete_crash rid st = blob_close (if bs_open st then snd (delete_rows None rid st) else st)"

text \<open>
  \<open>sweep_older_than\<close>: the references older than the cutoff, whose source is not excluded, are
  read first and deleted one by one; an error ends the loop.
\<close>

fun sweep_loop ::
    "fpath \<Rightarrow> (int \<Rightarrow> string option) \<Rightarrow> int list \<Rightarrow> nat \<Rightarrow> nat \<Rightarrow> blob_store \<Rightarrow>
     (blob_error + nat \<times> nat) \<times> blob_store" where
  "sweep_loop cwd unlink [] d u st = (Inr (d, u), st)"
| "sweep_loop cwd unlink (i # ids) d u st =
     (case map_of (mf_refs (bs_db st)) i of
        None \<Rightarrow> sweep_loop cwd unlink ids d u st
      | Some r \<Rightarrow>
          (let remaining = length (refs_of (rf_hash r) (bs_db st))
           in case blob_delete cwd None (unlink i) i st of
                (Inl e, st1) \<Rightarrow> (Inl e, st1)
              | (Inr _, st1) \<Rightarrow>
                  sweep_loop cwd unlink ids (d + 1) (if remaining = 1 then u + 1 else u) st1))"

definition stale :: "utc \<Rightarrow> string list \<Rightarrow> blob_ref_row \<Rightarrow> bool" where
  "stale cutoff exclude r \<longleftrightarrow> rf_ingested r < isoformat cutoff \<and> rf_source r \<notin> set exclude"

definition sweep_older_than ::
    "fpath \<Rightarrow> (int \<Rightarrow> string option) \<Rightarrow> utc \<Rightarrow> string list \<Rightarrow> blob_store \<Rightarrow>
     (blob_error + nat \<times> nat) \<times> blob_store" where
  "sweep_older_than cwd unlink cutoff exclude st =
     (if \<not> bs_open st then (Inl Blob_State, st)
      else
        sweep_loop cwd unlink (map fst (filter (\<lambda>(_, r). stale cutoff exclude r) (mf_refs (bs_db st)))) 0 0 st)"

subsection \<open>Timestamps in text order\<close>

lemma append_less:
  fixes a b x y :: string
  assumes "length a = length b"
  shows "a @ x < b @ y \<longleftrightarrow> a < b \<or> a = b \<and> x < y"
  using assms by (induction a b rule: list_induct2) auto

lemma length_padded [simp]: "length (padded w n) = w"
  by (induction w arbitrary: n) auto

lemma digit_less: "i < 10 \<Longrightarrow> j < 10 \<Longrightarrow> (char_of (48 + i) :: char) < char_of (48 + j) \<longleftrightarrow> i < j"
  for i j :: nat
  by (simp add: less_char_def)

lemma div_mod_less: "m div 10 < n div 10 \<or> m div 10 = n div 10 \<and> m mod 10 < n mod 10 \<longleftrightarrow> m < n" for m n :: nat
proof -
  have "q < q' \<or> q = q' \<and> r < r' \<longleftrightarrow> 10 * q + r < 10 * q' + r'" if "r < 10" "r' < 10" for q q' r r' :: nat
    using that by (cases q q' rule: linorder_cases) auto
  from this [of "m mod 10" "n mod 10" "m div 10" "n div 10"] show ?thesis by simp
qed

lemma padded_less:
  assumes "m < 10 ^ w" "n < 10 ^ w"
  shows "padded w m < padded w n \<longleftrightarrow> m < n"
  using assms
proof (induction w arbitrary: m n)
  case (Suc w)
  have IH: "padded w (m div 10) < padded w (n div 10) \<longleftrightarrow> m div 10 < n div 10"
    "padded w (n div 10) < padded w (m div 10) \<longleftrightarrow> n div 10 < m div 10"
    using Suc.IH [of "m div 10" "n div 10"] Suc.IH [of "n div 10" "m div 10"] Suc.prems by auto
  then have eq: "padded w (m div 10) = padded w (n div 10) \<longleftrightarrow> m div 10 = n div 10"
    by (metis less_irrefl linorder_neqE_nat)
  have "padded (Suc w) m < padded (Suc w) n \<longleftrightarrow>
      m div 10 < n div 10 \<or> m div 10 = n div 10 \<and> m mod 10 < n mod 10"
    by (simp add: append_less IH eq digit_less)
  also have "\<dots> \<longleftrightarrow> m < n" by (simp only: div_mod_less)
  finally show ?case .
qed simp

lemma padded_eq:
  assumes "m < 10 ^ w" "n < 10 ^ w"
  shows "padded w m = padded w n \<longleftrightarrow> m = n"
  using padded_less [OF assms] padded_less [OF assms(2,1)] by (metis less_irrefl linorder_neqE_nat)

lemma field_less:
  assumes "m < 10 ^ w" "n < 10 ^ w"
  shows "padded w m @ x < padded w n @ y \<longleftrightarrow> m < n \<or> m = n \<and> x < y"
  by (simp add: append_less padded_less [OF assms] padded_eq [OF assms])

lemma same_start_less: "s @ x < s @ y \<longleftrightarrow> x < y" for s x y :: string
  by (simp add: append_less)

definition utc_ok :: "utc \<Rightarrow> bool" where
  "utc_ok t \<longleftrightarrow> ut_year t < 10000 \<and> ut_month t \<le> 12 \<and> ut_day t \<le> 31 \<and> ut_hour t < 24 \<and>
     ut_min t < 60 \<and> ut_sec t < 60 \<and> ut_us t < 1000000"

definition utc_key :: "utc \<Rightarrow> nat list" where
  "utc_key t = [ut_year t, ut_month t, ut_day t, ut_hour t, ut_min t, ut_sec t, ut_us t]"

lemma fraction_less:
  assumes "m < 1000000" "n < 1000000"
  shows "(if m = 0 then [] else ''.'' @ padded 6 m) @ ''+00:00'' < (if n = 0 then [] else ''.'' @ padded 6 n) @ ''+00:00'' \<longleftrightarrow> m < n"
  using padded_less [of m 6 n] assms
  by (auto simp: append_less less_char_def)

text \<open>
  Comparing two stored timestamps as text, which is what the manifest's queries do, compares the
  times: also where \<open>isoformat\<close> leaves out a zero fraction.
\<close>

theorem iso_text_order:
  assumes "utc_ok a" "utc_ok b"
  shows "isoformat a < isoformat b \<longleftrightarrow> utc_key a < utc_key b"
proof -
  have b: "ut_year a < 10 ^ 4" "ut_year b < 10 ^ 4" "ut_month a < 10 ^ 2" "ut_month b < 10 ^ 2"
    "ut_day a < 10 ^ 2" "ut_day b < 10 ^ 2" "ut_hour a < 10 ^ 2" "ut_hour b < 10 ^ 2"
    "ut_min a < 10 ^ 2" "ut_min b < 10 ^ 2" "ut_sec a < 10 ^ 2" "ut_sec b < 10 ^ 2"
    "ut_us a < 1000000" "ut_us b < 1000000"
    using assms by (auto simp: utc_ok_def)
  have "isoformat a < isoformat b \<longleftrightarrow>
      ut_year a < ut_year b \<or> ut_year a = ut_year b \<and> (ut_month a < ut_month b \<or> ut_month a = ut_month b \<and>
      (ut_day a < ut_day b \<or> ut_day a = ut_day b \<and> (ut_hour a < ut_hour b \<or> ut_hour a = ut_hour b \<and>
      (ut_min a < ut_min b \<or> ut_min a = ut_min b \<and> (ut_sec a < ut_sec b \<or> ut_sec a = ut_sec b \<and>
      ut_us a < ut_us b)))))"
    unfolding isoformat_def
    by (simp only: field_less [OF b(1,2)] field_less [OF b(3,4)] field_less [OF b(5,6)] field_less [OF b(7,8)]
        field_less [OF b(9,10)] field_less [OF b(11,12)] fraction_less [OF b(13,14)] same_start_less)
  then show ?thesis by (simp add: utc_key_def)
qed

subsection \<open>Paths of blobs\<close>

definition seg_ok :: "string \<Rightarrow> bool" where
  "seg_ok s \<longleftrightarrow> s \<noteq> [] \<and> s \<noteq> ''.'' \<and> s \<noteq> ''..'' \<and> CHR ''/'' \<notin> set s \<and> CHR 0x00 \<notin> set s"

definition hex_char :: "char \<Rightarrow> bool" where
  "hex_char c \<longleftrightarrow> c \<in> set ''0123456789abcdef''"

text \<open>What \<open>hexdigest\<close> promises: 64 hexadecimal digits.\<close>

definition hex_name :: "string \<Rightarrow> bool" where
  "hex_name h \<longleftrightarrow> length h = 64 \<and> list_all hex_char h"

definition hex_digest :: "digest \<Rightarrow> bool" where
  "hex_digest sha \<longleftrightarrow> (\<forall>data. hex_name (sha data))"

lemma hex_seg:
  assumes "list_all hex_char s" "s \<noteq> []"
  shows "seg_ok s"
proof -
  have c: "hex_char x" if "x \<in> set s" for x using assms(1) that by (simp add: list_all_iff)
  have "\<not> hex_char (CHR ''/'')" "\<not> hex_char (CHR 0x00)" "\<not> hex_char (CHR ''.'')" by (simp_all add: hex_char_def)
  then have "CHR ''/'' \<notin> set s" "CHR 0x00 \<notin> set s" "CHR ''.'' \<notin> set s" using c by blast+
  then show ?thesis using assms(2) by (auto simp: seg_ok_def)
qed

lemma split_at: "c \<notin> set s \<Longrightarrow> py_split c (s @ c # r) = s # py_split c r"
  by (induction s) auto

lemma split_none: "c \<notin> set s \<Longrightarrow> py_split c s = [s]"
  by (induction s) auto

lemma split_segments:
  assumes "CHR ''/'' \<notin> set s" "\<forall>q \<in> set p. CHR ''/'' \<notin> set q"
  shows "py_split (CHR ''/'') (s @ path_str p) = s # p"
  using assms
proof (induction p arbitrary: s)
  case Nil
  then show ?case by (simp add: path_str_def split_none)
next
  case (Cons q p)
  have "path_str (q # p) = CHR ''/'' # q @ path_str p" by (simp add: path_str_def)
  with Cons show ?case by (simp add: split_at)
qed

lemma resolve_segments: "\<forall>q \<in> set p. seg_ok q \<Longrightarrow> foldl resolve_step a p = a @ p"
  by (induction p arbitrary: a) (auto simp: resolve_step_def seg_ok_def)

lemma resolve_path_str:
  assumes "p \<noteq> []" "\<forall>q \<in> set p. seg_ok q"
  shows "resolve_path cwd (path_str p) = Some p"
proof -
  have "py_split (CHR ''/'') ([] @ path_str p) = [] # p"
    using assms(2) by (intro split_segments) (auto simp: seg_ok_def)
  then have "py_split (CHR ''/'') (path_str p) = [] # p" by simp
  moreover have "startswith ''/'' (path_str p)" using assms(1) by (cases p) (simp_all add: path_str_def startswith_def)
  moreover have "CHR 0x00 \<notin> set (path_str p)"
    using assms(2) by (auto simp: path_str_def seg_ok_def)
  ultimately show ?thesis
    using resolve_segments [OF assms(2), of "[]"] by (simp add: resolve_path_def resolve_step_def)
qed

definition root_ok :: "blob_store \<Rightarrow> bool" where
  "root_ok st \<longleftrightarrow> list_all seg_ok (bs_root st)"

lemma resolve_blob_path:
  assumes "root_ok st" "hex_name h"
  shows "safe_resolve_in_root cwd (path_str (blob_path (bs_root st) h)) (bs_root st) = Some (blob_path (bs_root st) h)"
proof -
  have h: "list_all hex_char h" "length h = 64" using assms(2) by (simp_all add: hex_name_def)
  then have "seg_ok h" by (intro hex_seg) auto
  moreover have "set (take 2 h) \<subseteq> set h" by (rule set_take_subset)
  with h have "seg_ok (shard_for h)"
    unfolding shard_for_def by (intro hex_seg) (auto simp: list_all_iff)
  ultimately have "\<forall>q \<in> set (blob_path (bs_root st) h). seg_ok q"
    using assms(1) by (auto simp: blob_path_def shard_dir_def root_ok_def list_all_iff)
  moreover have "blob_path (bs_root st) h \<noteq> []" by (simp add: blob_path_def)
  ultimately show ?thesis
    by (simp add: safe_resolve_in_root_def resolve_path_str) (simp add: blob_path_def shard_dir_def)
qed

lemma blob_path_inj [simp]: "blob_path base h = blob_path base h' \<longleftrightarrow> h = h'"
  by (auto simp: blob_path_def shard_dir_def)

text \<open>\<open>get\<close> reads nothing outside the root.\<close>

lemma get_inside_root:
  assumes "blob_get cwd key st = Inr data"
  obtains p where "take (length (bs_root st)) p = bs_root st" "map_of (bs_files st) p = Some data"
  using assms
  by (auto simp: blob_get_def safe_resolve_in_root_def split: if_splits option.splits)

subsection \<open>Operations and the safety invariant\<close>

datatype blob_op =
    B_Open
  | B_Close
  | B_Put "nat option" file_io utc bytes put_args
  | B_Put_Crash nat bytes
  | B_Delete fpath "nat option" "string option" int
  | B_Delete_Crash int
  | B_Sweep fpath "int \<Rightarrow> string option" utc "string list"

primrec blob_step :: "digest \<Rightarrow> blob_store \<Rightarrow> blob_op \<Rightarrow> blob_store" where
  "blob_step sha st B_Open = blob_open st"
| "blob_step sha st B_Close = blob_close st"
| "blob_step sha st (B_Put bad io now data a) = snd (blob_put sha bad io now data a st)"
| "blob_step sha st (B_Put_Crash n data) = put_crash sha n data st"
| "blob_step sha st (B_Delete cwd bad u rid) = snd (blob_delete cwd bad u rid st)"
| "blob_step sha st (B_Delete_Crash rid) = delete_crash rid st"
| "blob_step sha st (B_Sweep cwd unlink cutoff exclude) = snd (sweep_older_than cwd unlink cutoff exclude st)"

text \<open>The operation leaves no torn file: what it writes it writes whole, or cleans up.\<close>

primrec untorn :: "blob_op \<Rightarrow> bool" where
  "untorn B_Open = True"
| "untorn B_Close = True"
| "untorn (B_Put bad io now data a) = (case io of Wrote n \<Rightarrow> length data \<le> n | _ \<Rightarrow> True)"
| "untorn (B_Put_Crash n data) = (length data \<le> n)"
| "untorn (B_Delete cwd bad u rid) = True"
| "untorn (B_Delete_Crash rid) = True"
| "untorn (B_Sweep cwd unlink cutoff exclude) = True"

text \<open>A manifest a reader can rely on: no reference without a blob, no blob without its file.\<close>

definition view_ok :: "digest \<Rightarrow> blob_store \<Rightarrow> manifest \<Rightarrow> bool" where
  "view_ok sha st db \<longleftrightarrow>
     dict_wf (mf_blobs db) \<and> dict_wf (mf_refs db) \<and> (\<forall>r \<in> set (mf_refs db). fst r < mf_next db) \<and>
     (\<forall>r \<in> set (mf_refs db). rf_hash (snd r) \<in> fst ` set (mf_blobs db)) \<and>
     (\<forall>b \<in> set (mf_blobs db). hex_name (fst b) \<and> bl_path (snd b) = path_str (blob_path (bs_root st) (fst b)) \<and>
        map_of (bs_files st) (blob_path (bs_root st) (fst b)) \<noteq> None)"

definition blob_safe :: "digest \<Rightarrow> blob_store \<Rightarrow> bool" where
  "blob_safe sha st \<longleftrightarrow> root_ok st \<and> view_ok sha st (bs_db st) \<and> view_ok sha st (bs_committed st) \<and>
     (\<forall>h d. hex_name h \<longrightarrow> map_of (bs_files st) (blob_path (bs_root st) h) = Some d \<longrightarrow> sha d = h)"

lemma view_ok_files:
  assumes "view_ok sha st db" "bs_root st' = bs_root st"
    "\<And>h. h \<in> fst ` set (mf_blobs db) \<Longrightarrow> map_of (bs_files st) (blob_path (bs_root st) h) \<noteq> None \<Longrightarrow>
      map_of (bs_files st') (blob_path (bs_root st) h) \<noteq> None"
  shows "view_ok sha st' db"
  using assms unfolding view_ok_def by auto

lemma view_ok_empty [simp]: "view_ok sha st empty_manifest"
  by (simp add: view_ok_def empty_manifest_def)

lemma blob_safe_init: "list_all seg_ok base \<Longrightarrow> blob_safe sha (fs_blob_store base m)"
  by (simp add: blob_safe_def fs_blob_store_def root_ok_def)

lemma blob_safe_open: "blob_safe sha st \<Longrightarrow> blob_safe sha (blob_open st)"
  and blob_safe_close: "blob_safe sha st \<Longrightarrow> blob_safe sha (blob_close st)"
  and blob_safe_commit: "blob_safe sha st \<Longrightarrow> blob_safe sha (commit st)"
  by (auto simp: blob_safe_def blob_open_def blob_close_def commit_def root_ok_def blob_path_def shard_dir_def
      view_ok_def)

lemma view_ok_ref:
  assumes "view_ok sha st db" "rf_hash row \<in> fst ` set (mf_blobs db)"
  shows "view_ok sha st (db\<lparr>mf_refs := mf_refs db @ [(mf_next db, row)], mf_next := mf_next db + 1\<rparr>)"
proof -
  have v: "dict_wf (mf_refs db)" "\<And>r. r \<in> set (mf_refs db) \<Longrightarrow> fst r < mf_next db" using assms(1) by (auto simp: view_ok_def)
  then have "mf_next db \<notin> fst ` set (mf_refs db)" by fastforce
  with v(1) have "dict_wf (mf_refs db @ [(mf_next db, row)])" by (simp add: dict_wf_append_new)
  moreover have "\<forall>r \<in> set (mf_refs db @ [(mf_next db, row)]). fst r < mf_next db + 1" using v(2) by force
  ultimately show ?thesis using assms by (simp add: view_ok_def)
qed

lemma view_ok_blob:
  assumes "view_ok sha st db" "hex_name h" "h \<notin> fst ` set (mf_blobs db)" "bl_path row = path_str (blob_path (bs_root st) h)"
    "map_of (bs_files st) (blob_path (bs_root st) h) \<noteq> None"
  shows "view_ok sha st (db\<lparr>mf_blobs := mf_blobs db @ [(h, row)]\<rparr>)"
  using assms by (auto simp: view_ok_def dict_wf_def)

lemma view_ok_unref:
  "view_ok sha st db \<Longrightarrow> view_ok sha st (db\<lparr>mf_refs := filter P (mf_refs db)\<rparr>)"
  by (simp add: view_ok_def)

lemma view_ok_unblob:
  assumes "view_ok sha st db" "refs_of h db = []"
  shows "view_ok sha st (db\<lparr>mf_blobs := filter (\<lambda>b. fst b \<noteq> h) (mf_blobs db)\<rparr>)"
  using assms by (fastforce simp: view_ok_def refs_of_def filter_empty_conv)

lemma update_db_safe:
  assumes "blob_safe sha st" "view_ok sha st db"
  shows "blob_safe sha (st\<lparr>bs_db := db\<rparr>)"
proof -
  show ?thesis using assms by (simp add: blob_safe_def view_ok_def root_ok_def)
qed

lemma map_of_put_file: "map_of (bs_files (put_file p data st)) = (map_of (bs_files st))(p \<mapsto> data)"
  by (simp add: put_file_def update_conv')

lemma map_of_drop_file: "map_of (bs_files (drop_file p st)) q = (if q = p then None else map_of (bs_files st) q)"
proof -
  have "map_of (filter (\<lambda>f. fst f \<noteq> p) fs) q = (if q = p then None else map_of fs q)" for fs :: "(fpath, bytes) dict"
    by (induction fs) auto
  then show ?thesis by (simp add: drop_file_def)
qed

lemma file_frame [simp]:
  "bs_root (put_file p d st) = bs_root st" "bs_db (put_file p d st) = bs_db st"
  "bs_committed (put_file p d st) = bs_committed st" "bs_open (put_file p d st) = bs_open st"
  "bs_root (drop_file p st) = bs_root st" "bs_db (drop_file p st) = bs_db st"
  "bs_committed (drop_file p st) = bs_committed st" "bs_open (drop_file p st) = bs_open st"
  "bs_root (add_dir p st) = bs_root st" "bs_db (add_dir p st) = bs_db st" "bs_files (add_dir p st) = bs_files st"
  "bs_committed (add_dir p st) = bs_committed st" "bs_open (add_dir p st) = bs_open st"
  "bs_max (put_file p d st) = bs_max st" "bs_max (drop_file p st) = bs_max st" "bs_max (add_dir p st) = bs_max st"
  by (simp_all add: put_file_def drop_file_def add_dir_def)

text \<open>Changing files: what the views name must stay, and what is at a blob's path must be its content.\<close>

lemma files_safe:
  assumes "blob_safe sha st" "bs_root st' = bs_root st" "bs_db st' = bs_db st" "bs_committed st' = bs_committed st"
    "\<And>h. h \<in> fst ` set (mf_blobs (bs_db st)) \<union> fst ` set (mf_blobs (bs_committed st)) \<Longrightarrow>
      map_of (bs_files st') (blob_path (bs_root st) h) = map_of (bs_files st) (blob_path (bs_root st) h)"
    "\<And>h d. hex_name h \<Longrightarrow> map_of (bs_files st') (blob_path (bs_root st) h) = Some d \<Longrightarrow>
      map_of (bs_files st) (blob_path (bs_root st) h) = Some d \<or> sha d = h"
  shows "blob_safe sha st'"
proof -
  have "view_ok sha st' db" if "view_ok sha st db" "db = bs_db st \<or> db = bs_committed st" for db
  proof (rule view_ok_files [OF that(1) assms(2)])
    fix h assume "h \<in> fst ` set (mf_blobs db)" "map_of (bs_files st) (blob_path (bs_root st) h) \<noteq> None"
    then show "map_of (bs_files st') (blob_path (bs_root st) h) \<noteq> None"
      using that(2) assms(5) [of h] by (elim disjE) simp_all
  qed
  then have "view_ok sha st' (bs_db st)" "view_ok sha st' (bs_committed st)"
    using assms(1) by (simp_all add: blob_safe_def)
  moreover have "sha d = h" if "hex_name h" "map_of (bs_files st') (blob_path (bs_root st') h) = Some d" for h d
    using assms(1,2,6) that unfolding blob_safe_def by auto
  ultimately show ?thesis using assms(1-4) by (simp add: blob_safe_def root_ok_def)
qed

lemma write_file_frame [simp]:
  "bs_root (snd (write_blob_file io h data st)) = bs_root st"
  "bs_db (snd (write_blob_file io h data st)) = bs_db st"
  "bs_committed (snd (write_blob_file io h data st)) = bs_committed st"
  "bs_open (snd (write_blob_file io h data st)) = bs_open st"
  "bs_max (snd (write_blob_file io h data st)) = bs_max st"
  by (simp_all add: write_blob_file_def Let_def split: file_io.split)

lemma write_file_files:
  assumes "case io of Wrote n \<Rightarrow> length data \<le> n | _ \<Rightarrow> True"
  shows "map_of (bs_files (snd (write_blob_file io h data st))) =
    (case io of Wrote n \<Rightarrow> if map_of (bs_files st) (blob_path (bs_root st) h) = None
        then (map_of (bs_files st))(blob_path (bs_root st) h \<mapsto> data) else map_of (bs_files st)
     | _ \<Rightarrow> map_of (bs_files st))"
proof -
  show ?thesis
    using assms
    by (auto simp: write_blob_file_def Let_def map_of_put_file map_of_drop_file fun_eq_iff split: file_io.split)
qed

lemma write_file_Inr:
  assumes "write_blob_file io h data st = (Inr u, st')" "case io of Wrote n \<Rightarrow> length data \<le> n | _ \<Rightarrow> True"
  shows "map_of (bs_files st') (blob_path (bs_root st) h) =
    (case map_of (bs_files st) (blob_path (bs_root st) h) of None \<Rightarrow> Some data | Some d \<Rightarrow> Some d)"
proof -
  show ?thesis using assms
    by (auto simp: write_blob_file_def Let_def map_of_put_file split: file_io.splits if_splits option.splits)
qed

lemma write_file_safe:
  assumes "blob_safe sha st" "case io of Wrote n \<Rightarrow> length data \<le> n | _ \<Rightarrow> True"
  shows "blob_safe sha (snd (write_blob_file io (sha data) data st))"
proof (rule files_safe [OF assms(1)])
  note fs = write_file_files [OF assms(2), of "sha data" st]
  fix h
  have named: "map_of (bs_files st) (blob_path (bs_root st) h) \<noteq> None"
    if "h \<in> fst ` set (mf_blobs (bs_db st)) \<union> fst ` set (mf_blobs (bs_committed st))"
    using assms(1) that by (auto simp: blob_safe_def view_ok_def)
  then show "map_of (bs_files (snd (write_blob_file io (sha data) data st))) (blob_path (bs_root st) h) = map_of (bs_files st) (blob_path (bs_root st) h)"
    if "h \<in> fst ` set (mf_blobs (bs_db st)) \<union> fst ` set (mf_blobs (bs_committed st))"
    using that by (auto simp: fs split: file_io.split)
  show "map_of (bs_files st) (blob_path (bs_root st) h) = Some d \<or> sha d = h"
    if "map_of (bs_files (snd (write_blob_file io (sha data) data st))) (blob_path (bs_root st) h) = Some d" for d
    using that by (auto simp: fs split: file_io.splits if_splits)
qed simp_all

lemma insert_ref_safe:
  assumes "blob_safe sha st" "rf_hash row \<in> fst ` set (mf_blobs (bs_db st))"
  shows "blob_safe sha (snd (insert_ref row st))"
proof -
  have "view_ok sha st (bs_db st)" using assms(1) by (simp add: blob_safe_def)
  from update_db_safe [OF assms(1) view_ok_ref [OF this assms(2)]]
  show ?thesis by (simp add: insert_ref_def Let_def)
qed

lemma put_rows_safe:
  assumes "blob_safe sha st" "h \<in> fst ` set (mf_blobs (bs_db st))"
  shows "blob_safe sha (snd (put_rows bad now h len a found st))"
proof -
  have "blob_safe sha (snd (insert_ref row st))" if "rf_hash row = h" for row
    using insert_ref_safe [OF assms(1)] assms(2) that by simp
  then show ?thesis
    using assms(1) by (simp add: put_rows_def blob_safe_commit split: prod.split)
      (metis snd_conv blob_ref_row.select_convs(1) blob_safe_commit)
qed

lemma lookup_iff: "lookup_existing h st = None \<longleftrightarrow> h \<notin> fst ` set (mf_blobs (bs_db st))"
  by (simp add: lookup_existing_def map_of_eq_None_iff)

lemma insert_blob_has: "h \<in> fst ` set (mf_blobs (bs_db (insert_blob h mime len seen st)))"
  by (auto simp: insert_blob_def Let_def map_of_eq_None_iff)

lemma insert_blob_safe:
  assumes "blob_safe sha st" "hex_name h" "map_of (bs_files st) (blob_path (bs_root st) h) \<noteq> None"
  shows "blob_safe sha (insert_blob h mime len seen st)"
proof (cases "h \<in> fst ` set (mf_blobs (bs_db st))")
  case True
  then have "map_of (mf_blobs (bs_db st)) h \<noteq> None" by (simp add: map_of_eq_None_iff)
  then show ?thesis using assms(1) by (simp add: insert_blob_def)
next
  case False
  then have "map_of (mf_blobs (bs_db st)) h = None" by (simp add: map_of_eq_None_iff)
  moreover have "view_ok sha st (bs_db st)" using assms(1) by (simp add: blob_safe_def)
  ultimately show ?thesis
    using assms False by (simp add: insert_blob_def Let_def update_db_safe view_ok_blob)
qed

lemma put_safe:
  assumes "hex_digest sha" "blob_safe sha st" "case io of Wrote n \<Rightarrow> length data \<le> n | _ \<Rightarrow> True"
  shows "blob_safe sha (snd (blob_put sha bad io now data a st))"
proof -
  have hex: "hex_name (sha data)" using assms(1) by (simp add: hex_digest_def)
  have "blob_safe sha (snd (put_locked sha bad io now data a st))"
  proof (cases "lookup_existing (sha data) st")
    case (Some found)
    then have "sha data \<in> fst ` set (mf_blobs (bs_db st))" using lookup_iff [of "sha data" st] by auto
    with Some assms(2) show ?thesis by (simp add: put_locked_def Let_def put_rows_safe)
  next
    case None
    obtain r st1 where w: "write_blob_file io (sha data) data st = (r, st1)"
      by (cases "write_blob_file io (sha data) data st")
    have safe1: "blob_safe sha st1" using write_file_safe [OF assms(2,3)] by (simp add: w)
    show ?thesis
    proof (cases r)
      case (Inl e)
      with None w safe1 assms(2) show ?thesis by (simp add: put_locked_def Let_def)
    next
      case (Inr u)
      have root: "bs_root st1 = bs_root st" using write_file_frame(1) [of io "sha data" data st] by (simp add: w)
      have "map_of (bs_files st1) (blob_path (bs_root st) (sha data)) \<noteq> None"
        using write_file_Inr [OF w [unfolded Inr] assms(3)] by (simp split: option.splits)
      then have "blob_safe sha (insert_blob (sha data) (pa_mime a) (length data) (isoformat now) st1)"
        using safe1 hex root by (simp add: insert_blob_safe)
      with None w Inr safe1 assms(2) show ?thesis
        by (simp add: put_locked_def Let_def put_rows_safe insert_blob_has)
    qed
  qed
  then show ?thesis using assms(2) by (simp add: blob_put_def)
qed

lemma joined_refD:
  "joined_ref rid db = Some (h, path) \<Longrightarrow>
     \<exists>r b. map_of (mf_refs db) rid = Some r \<and> rf_hash r = h \<and> map_of (mf_blobs db) h = Some b \<and> path = bl_path b"
  by (auto simp: joined_ref_def split: option.splits)

lemma delete_ref_safe: "blob_safe sha st \<Longrightarrow> blob_safe sha (delete_ref rid st)"
  unfolding delete_ref_def by (rule update_db_safe) (simp_all add: blob_safe_def view_ok_unref)

lemma delete_blob_safe: "blob_safe sha st \<Longrightarrow> refs_of h (bs_db st) = [] \<Longrightarrow> blob_safe sha (delete_blob h st)"
  unfolding delete_blob_def by (rule update_db_safe) (simp_all add: blob_safe_def view_ok_unblob)

lemma delete_rows_safe:
  assumes "blob_safe sha st"
  shows "blob_safe sha (snd (delete_rows bad rid st))"
  using assms
  by (auto simp: delete_rows_def Let_def delete_ref_safe delete_blob_safe blob_safe_commit split: option.split)

lemma delete_rows_frame [simp]:
  "bs_root (snd (delete_rows bad rid st)) = bs_root st" "bs_files (snd (delete_rows bad rid st)) = bs_files st"
  "bs_open (snd (delete_rows bad rid st)) = bs_open st" "bs_dirs (snd (delete_rows bad rid st)) = bs_dirs st"
  by (auto simp: delete_rows_def Let_def delete_ref_def delete_blob_def commit_def split: option.split)

text \<open>A file is unlinked only when no view names its blob.\<close>

lemma delete_rows_last:
  assumes "blob_safe sha st" "delete_rows bad rid st = (Inr (Some (h, path)), st')"
  shows "hex_name h \<and> path = path_str (blob_path (bs_root st) h) \<and> bs_committed st' = bs_db st' \<and>
    h \<notin> fst ` set (mf_blobs (bs_db st'))"
proof -
  obtain p where j: "joined_ref rid (bs_db st) = Some (h, p)" "path = p"
    and st': "st' = commit (delete_blob h (delete_ref rid st))"
    using assms(2) by (auto simp: delete_rows_def Let_def split: if_splits option.splits)
  obtain b where b: "map_of (mf_blobs (bs_db st)) h = Some b" "p = bl_path b"
    using joined_refD [OF j(1)] by blast
  have "(h, b) \<in> set (mf_blobs (bs_db st))" using b(1) by (rule map_of_SomeD)
  then have "hex_name h \<and> bl_path b = path_str (blob_path (bs_root st) h)"
    using assms(1) by (auto simp: blob_safe_def view_ok_def)
  then show ?thesis using b(2) j(2)
    by (auto simp: st' commit_def delete_blob_def delete_ref_def)
qed

lemma delete_safe:
  assumes "blob_safe sha st"
  shows "blob_safe sha (snd (blob_delete cwd bad u rid st))"
proof -
  obtain r st1 where d: "delete_rows bad rid st = (r, st1)" by (cases "delete_rows bad rid st")
  have safe1: "blob_safe sha st1" using delete_rows_safe [OF assms, of bad rid] by (simp add: d)
  have root: "bs_root st1 = bs_root st" "bs_open st1 = bs_open st" using delete_rows_frame [of bad rid st] by (simp_all add: d)
  consider "\<exists>e. r = Inl e" | "r = Inr None" | h path where "r = Inr (Some (h, path))"
    by (metis old.prod.exhaust option.exhaust sum.exhaust)
  then show ?thesis
  proof cases
    case (3 h path)
    note l = delete_rows_last [OF assms d [unfolded 3]]
    have res: "safe_resolve_in_root cwd path (bs_root st1) = Some (blob_path (bs_root st1) h)"
      using l root resolve_blob_path [of st1 h cwd] safe1 by (simp add: blob_safe_def)
    have "blob_safe sha (drop_file (blob_path (bs_root st1) h) st1)"
      by (rule files_safe [OF safe1]) (use l in \<open>auto simp: map_of_drop_file split: if_splits\<close>)
    with 3 d res safe1 assms show ?thesis by (simp add: blob_delete_def split: option.split)
  qed (use d safe1 assms in \<open>auto simp: blob_delete_def\<close>)
qed

lemma sweep_safe: "blob_safe sha st \<Longrightarrow> blob_safe sha (snd (sweep_loop cwd unlink ids d u st))"
proof (induction ids arbitrary: d u st)
  case (Cons i ids)
  have "blob_safe sha (snd (blob_delete cwd None (unlink i) i st))" by (rule delete_safe [OF Cons.prems])
  then show ?case
    using Cons by (auto simp: Let_def split: option.split sum.split prod.split)
qed simp

lemma put_crash_safe:
  assumes "blob_safe sha st" "length data \<le> n"
  shows "blob_safe sha (put_crash sha n data st)"
  using write_file_safe [where io = "Wrote n", OF assms(1), of data] assms by (simp add: put_crash_def blob_safe_close)

lemma step_safe:
  assumes "hex_digest sha" "blob_safe sha st" "untorn op"
  shows "blob_safe sha (blob_step sha st op)"
  using assms
  by (cases op)
     (simp_all add: blob_safe_open blob_safe_close put_safe put_crash_safe delete_safe sweep_safe delete_crash_def
       delete_rows_safe sweep_older_than_def)

subsection \<open>References keep their content\<close>

text \<open>
  The contract of a store of counted references: a reference that is held is readable, and only the
  operations aimed at it end that.
\<close>

locale ref_store =
  fixes ok :: "'s \<Rightarrow> bool"
    and step :: "'s \<Rightarrow> 'op \<Rightarrow> 's"
    and sound :: "'op \<Rightarrow> bool"
    and holds :: "'s \<Rightarrow> 'r \<Rightarrow> 'v \<Rightarrow> bool"
    and spares :: "'r \<Rightarrow> 'v \<Rightarrow> 'op \<Rightarrow> bool"
    and readable :: "'s \<Rightarrow> 'v \<Rightarrow> bool"
  assumes step_ok: "ok s \<Longrightarrow> sound op \<Longrightarrow> ok (step s op)"
    and step_holds: "ok s \<Longrightarrow> spares r v op \<Longrightarrow> holds s r v \<Longrightarrow> holds (step s op) r v"
    and holds_readable: "ok s \<Longrightarrow> holds s r v \<Longrightarrow> readable s v"
begin

lemma run_ok: "ok s \<Longrightarrow> list_all sound ops \<Longrightarrow> ok (foldl step s ops)"
  by (induction ops arbitrary: s) (simp_all add: step_ok)

lemma run_holds:
  "ok s \<Longrightarrow> list_all sound ops \<Longrightarrow> list_all (spares r v) ops \<Longrightarrow> holds s r v \<Longrightarrow> holds (foldl step s ops) r v"
  by (induction ops arbitrary: s) (simp_all add: step_ok step_holds)

lemma run_readable:
  assumes "ok s" "list_all sound ops" "list_all (spares r v) ops" "holds s r v"
  shows "readable (foldl step s ops) v"
  using holds_readable [OF run_ok [OF assms(1,2)] run_holds [OF assms]] .

end

definition holds_ref :: "blob_store \<Rightarrow> int \<Rightarrow> blob_ref_row \<Rightarrow> bool" where
  "holds_ref st rid row \<longleftrightarrow>
     map_of (mf_refs (bs_db st)) rid = Some row \<and> map_of (mf_refs (bs_committed st)) rid = Some row"

primrec spares_ref :: "int \<Rightarrow> blob_ref_row \<Rightarrow> blob_op \<Rightarrow> bool" where
  "spares_ref rid row B_Open = True"
| "spares_ref rid row B_Close = True"
| "spares_ref rid row (B_Put bad io now data a) = True"
| "spares_ref rid row (B_Put_Crash n data) = True"
| "spares_ref rid row (B_Delete cwd bad u i) = (i \<noteq> rid)"
| "spares_ref rid row (B_Delete_Crash i) = (i \<noteq> rid)"
| "spares_ref rid row (B_Sweep cwd unlink cutoff exclude) = (\<not> stale cutoff exclude row)"

definition content_readable :: "digest \<Rightarrow> blob_store \<Rightarrow> blob_ref_row \<Rightarrow> bool" where
  "content_readable sha st row \<longleftrightarrow> hex_name (rf_hash row) \<and>
     (\<exists>d. map_of (bs_files st) (blob_path (bs_root st) (rf_hash row)) = Some d \<and> sha d = rf_hash row)"

definition blob_ok :: "digest \<Rightarrow> blob_store \<Rightarrow> bool" where
  "blob_ok sha st \<longleftrightarrow> hex_digest sha \<and> blob_safe sha st"

lemma holds_open: "holds_ref st rid row \<Longrightarrow> holds_ref (blob_open st) rid row"
  and holds_close: "holds_ref st rid row \<Longrightarrow> holds_ref (blob_close st) rid row"
  and holds_commit: "holds_ref st rid row \<Longrightarrow> holds_ref (commit st) rid row"
  by (simp_all add: holds_ref_def blob_open_def blob_close_def commit_def)

lemma insert_blob_frame [simp]:
  "bs_root (insert_blob h m n t st) = bs_root st" "bs_open (insert_blob h m n t st) = bs_open st"
  "bs_files (insert_blob h m n t st) = bs_files st" "bs_max (insert_blob h m n t st) = bs_max st"
  "bs_committed (insert_blob h m n t st) = bs_committed st"
  "mf_refs (bs_db (insert_blob h m n t st)) = mf_refs (bs_db st)"
  "mf_next (bs_db (insert_blob h m n t st)) = mf_next (bs_db st)"
  by (simp_all add: insert_blob_def Let_def)

lemma holds_write: "holds_ref (snd (write_blob_file io h data st)) rid row = holds_ref st rid row"
  and holds_insert_blob: "holds_ref (insert_blob h m n t st) rid row = holds_ref st rid row"
  and holds_drop: "holds_ref (drop_file p st) rid row = holds_ref st rid row"
  by (simp_all add: holds_ref_def)

lemma holds_insert_ref: "holds_ref st rid row \<Longrightarrow> holds_ref (snd (insert_ref r st)) rid row"
  by (simp add: holds_ref_def insert_ref_def Let_def)

lemma holds_put_rows: "holds_ref st rid row \<Longrightarrow> holds_ref (snd (put_rows bad now h len a found st)) rid row"
  using holds_insert_ref [of st rid row]
  by (auto simp: put_rows_def split: prod.split intro!: holds_commit) (metis snd_conv)+

lemma holds_put:
  assumes "holds_ref st rid row"
  shows "holds_ref (snd (blob_put sha bad io now data a st)) rid row"
proof -
  obtain r st1 where w: "write_blob_file io (sha data) data st = (r, st1)"
    by (cases "write_blob_file io (sha data) data st")
  have "holds_ref st1 rid row" using assms holds_write [of io "sha data" data st rid row] by (simp add: w)
  then have "holds_ref (insert_blob h m n t st1) rid row" for h m n t by (simp add: holds_insert_blob)
  note rows = holds_put_rows [OF this]
  have "holds_ref (snd (put_locked sha bad io now data a st)) rid row"
  proof (cases "lookup_existing (sha data) st")
    case (Some found)
    then show ?thesis using assms by (simp add: put_locked_def Let_def holds_put_rows)
  next
    case None
    then show ?thesis using \<open>holds_ref st1 rid row\<close> assms
      by (cases r) (simp_all add: put_locked_def Let_def w holds_insert_blob rows)
  qed
  then show ?thesis using assms by (simp add: blob_put_def)
qed

lemma map_of_filter_other: "k \<noteq> i \<Longrightarrow> map_of (filter (\<lambda>r. fst r \<noteq> i) d) k = map_of d k"
  by (induction d) auto

lemma holds_delete_rows: "rid \<noteq> i \<Longrightarrow> holds_ref st rid row \<Longrightarrow> holds_ref (snd (delete_rows bad i st)) rid row"
  by (auto simp: delete_rows_def Let_def delete_ref_def delete_blob_def commit_def holds_ref_def
      map_of_filter_other split: option.split)

lemma holds_delete: "rid \<noteq> i \<Longrightarrow> holds_ref st rid row \<Longrightarrow> holds_ref (snd (blob_delete cwd bad u i st)) rid row"
  using holds_delete_rows [of rid i st row bad]
  by (cases "delete_rows bad i st") (auto simp: blob_delete_def holds_drop split: sum.split option.split)

lemma holds_sweep: "rid \<notin> set ids \<Longrightarrow> holds_ref st rid row \<Longrightarrow> holds_ref (snd (sweep_loop cwd unlink ids d u st)) rid row"
proof (induction ids arbitrary: d u st)
  case (Cons i ids)
  then have "holds_ref (snd (blob_delete cwd None (unlink i) i st)) rid row" by (simp add: holds_delete)
  with Cons show ?case
    by (cases "blob_delete cwd None (unlink i) i st") (simp add: Let_def split: option.split sum.split)
qed simp

lemma step_holds_ref:
  assumes "blob_safe sha st" "spares_ref rid row op" "holds_ref st rid row"
  shows "holds_ref (blob_step sha st op) rid row"
proof (cases op)
  case (B_Sweep cwd unlink cutoff exclude)
  have "dict_wf (mf_refs (bs_db st))" using assms(1) by (simp add: blob_safe_def view_ok_def)
  then have "r = row" if "(rid, r) \<in> set (mf_refs (bs_db st))" for r
    using that assms(3) by (simp add: holds_ref_def flip: dict_get_iff)
  then have "rid \<notin> set (map fst (filter (\<lambda>(_, r). stale cutoff exclude r) (mf_refs (bs_db st))))"
    using assms(2) B_Sweep by auto
  then show ?thesis using B_Sweep assms(3) by (simp add: sweep_older_than_def holds_sweep del: set_map set_filter)
qed (use assms(2,3) holds_write [where io = "Wrote n" for n] in
      \<open>auto simp: holds_open holds_close holds_put put_crash_def holds_delete delete_crash_def holds_delete_rows intro!: holds_close\<close>)

lemma held_readable:
  assumes "blob_safe sha st" "holds_ref st rid row"
  shows "content_readable sha st row"
proof -
  have v: "view_ok sha st (bs_db st)" using assms(1) by (simp add: blob_safe_def)
  have "(rid, row) \<in> set (mf_refs (bs_db st))" using assms(2) by (auto simp: holds_ref_def dest: map_of_SomeD)
  then have "rf_hash row \<in> fst ` set (mf_blobs (bs_db st))" using v unfolding view_ok_def by (metis snd_conv)
  then obtain d where "hex_name (rf_hash row)" "map_of (bs_files st) (blob_path (bs_root st) (rf_hash row)) = Some d"
    using v by (auto simp: view_ok_def)
  then show ?thesis using assms(1) by (auto simp: blob_safe_def content_readable_def)
qed

interpretation fs_refs: ref_store "blob_ok sha" "blob_step sha" untorn holds_ref spares_ref "content_readable sha"
  for sha :: digest
  by unfold_locales (simp_all add: blob_ok_def step_safe step_holds_ref held_readable)

text \<open>The row a reference returned by \<open>put\<close> stands for.\<close>

definition ref_row :: "blob_ref \<Rightarrow> blob_ref_row" where
  "ref_row ref = \<lparr>rf_hash = br_hash ref, rf_source = br_source ref, rf_platform_ref = br_platform_ref ref,
     rf_message_id = br_message_id ref, rf_filename = br_filename ref, rf_ingested = br_created ref\<rparr>"

lemma map_of_append_next:
  assumes "\<forall>r \<in> set refs. fst r < (n :: int)"
  shows "map_of (refs @ [(n, row)]) n = Some row"
proof -
  have "n \<notin> fst ` set refs" using assms by force
  then have "map_of refs n = None" by (simp add: map_of_eq_None_iff)
  then show ?thesis by (simp add: map_add_def)
qed

lemma put_rows_Inr:
  assumes "put_rows bad now h len a found st = (Inr ref, st')" "view_ok sha st (bs_db st)"
  shows "br_hash ref = h \<and> br_store_key ref = fst found \<and> br_id ref = Some (mf_next (bs_db st)) \<and>
    br_mime ref = fst (snd found) \<and> br_size ref = snd (snd found) \<and>
    br_source ref = pa_source a \<and> br_created ref = isoformat now \<and>
    holds_ref st' (mf_next (bs_db st)) (ref_row ref) \<and>
    mf_refs (bs_db st') = mf_refs (bs_db st) @ [(mf_next (bs_db st), ref_row ref)] \<and>
    mf_blobs (bs_db st') = mf_blobs (bs_db st) \<and> mf_next (bs_db st') = mf_next (bs_db st) + 1 \<and>
    bs_committed st' = bs_db st' \<and>
    bs_root st' = bs_root st \<and> bs_open st' = bs_open st \<and> bs_files st' = bs_files st \<and> bs_dirs st' = bs_dirs st \<and>
    bs_max st' = bs_max st"
proof -
  obtain path mime sz where f: "found = (path, mime, sz)" by (cases found)
  have n: "\<forall>r \<in> set (mf_refs (bs_db st)). fst r < mf_next (bs_db st)" using assms(2) by (simp add: view_ok_def)
  have "ref = \<lparr>br_store_key = path, br_hash = h, br_mime = mime, br_size = sz,
      br_filename = pa_filename a, br_source = pa_source a, br_platform_ref = pa_platform_ref a,
      br_message_id = pa_message_id a, br_id = Some (mf_next (bs_db st)), br_created = isoformat now\<rparr>"
    and "st' = commit (snd (insert_ref (ref_row ref) st))"
    using assms(1) by (auto simp: put_rows_def f insert_ref_def Let_def ref_row_def split: if_splits)
  then show ?thesis
    using map_of_append_next [OF n]
    by (simp add: f insert_ref_def Let_def commit_def holds_ref_def ref_row_def del: map_of_append)
qed

lemma put_Inr:
  assumes "hex_digest sha" "blob_safe sha st" "blob_put sha bad io now data a st = (Inr ref, st')"
    "case io of Wrote n \<Rightarrow> length data \<le> n | _ \<Rightarrow> True"
  obtains rid where "br_id ref = Some rid" "holds_ref st' rid (ref_row ref)" "br_hash ref = sha data"
    "br_store_key ref = path_str (blob_path (bs_root st) (sha data))" "bs_root st' = bs_root st" "bs_open st"
proof -
  let ?h = "sha data"
  have hex: "hex_name ?h" using assms(1) by (simp add: hex_digest_def)
  have v: "view_ok sha st (bs_db st)" using assms(2) by (simp add: blob_safe_def)
  have op: "bs_open st" and put: "put_locked sha bad io now data a st = (Inr ref, st')"
    using assms(3) by (auto simp: blob_put_def split: if_splits)
  have path: "bl_path b = path_str (blob_path (bs_root st') h)" if "view_ok sha st' (bs_db st')" "map_of (mf_blobs (bs_db st')) h = Some b" for b h st'
    using that(1) map_of_SomeD [OF that(2)] by (fastforce simp: view_ok_def)
  show ?thesis
  proof (cases "lookup_existing ?h st")
    case (Some found)
    then have rows: "put_rows bad now ?h (length data) a found st = (Inr ref, st')"
      using put by (simp add: put_locked_def Let_def split: if_splits)
    from Some obtain b where "map_of (mf_blobs (bs_db st)) ?h = Some b" "fst found = bl_path b"
      by (auto simp: lookup_existing_def)
    with path [OF v] have "fst found = path_str (blob_path (bs_root st) ?h)" by simp
    with put_rows_Inr [OF rows v] op show ?thesis by (intro that) auto
  next
    case None
    obtain r st1 where w: "write_blob_file io ?h data st = (r, st1)"
      by (cases "write_blob_file io ?h data st")
    define st2 where "st2 = insert_blob ?h (pa_mime a) (length data) (isoformat now) st1"
    have st1: "bs_root st1 = bs_root st" "bs_db st1 = bs_db st"
      using write_file_frame [of io ?h data st] by (simp_all add: w)
    obtain u where r: "r = Inr u" using put None w by (cases r) (auto simp: put_locked_def Let_def split: if_splits)
    define found where "found = (case lookup_existing ?h st2 of Some found \<Rightarrow> found
      | None \<Rightarrow> (path_str (blob_path (bs_root st) ?h), pa_mime a, length data))"
    have rows: "put_rows bad now ?h (length data) a found st2 = (Inr ref, st')"
      using put None by (simp add: put_locked_def Let_def w r found_def st2_def split: if_splits)
    have "map_of (bs_files st1) (blob_path (bs_root st) ?h) \<noteq> None"
      using write_file_Inr [OF w [unfolded r] assms(4)] by (simp split: option.splits)
    then have "blob_safe sha st2"
      using write_file_safe [OF assms(2,4)] hex st1(1) by (simp add: w st2_def insert_blob_safe)
    then have v2: "view_ok sha st2 (bs_db st2)" by (simp add: blob_safe_def)
    have "\<exists>b. map_of (mf_blobs (bs_db st2)) ?h = Some b"
      using insert_blob_has [of ?h "pa_mime a" "length data" "isoformat now" st1]
      unfolding st2_def by (metis map_of_eq_None_iff option.exhaust)
    then obtain b where b: "map_of (mf_blobs (bs_db st2)) ?h = Some b" ..
    then have "fst found = path_str (blob_path (bs_root st) ?h)"
      using path [OF v2 b] st1(1) by (simp add: found_def lookup_existing_def st2_def)
    with put_rows_Inr [OF rows v2] op st1(1) show ?thesis by (intro that) (auto simp: st2_def)
  qed
qed

lemma readable_get:
  assumes "content_readable sha st row" "root_ok st" "bs_open st"
  shows "\<exists>d. blob_get cwd (path_str (blob_path (bs_root st) (rf_hash row))) st = Inr d \<and> sha d = rf_hash row"
  using assms resolve_blob_path [OF assms(2), of "rf_hash row" cwd]
  by (auto simp: content_readable_def blob_get_def)

lemma step_root [simp]: "bs_root (blob_step sha st op) = bs_root st"
proof -
  have d: "bs_root (snd (blob_delete cwd bad u rid st)) = bs_root st" for cwd bad u rid st
    using delete_rows_frame(1) [of bad rid st]
    by (cases "delete_rows bad rid st") (auto simp: blob_delete_def split: sum.split option.split)
  have s: "bs_root (snd (sweep_loop cwd unlink ids n m st)) = bs_root st" for cwd unlink ids n m
  proof (induction ids arbitrary: n m st)
    case (Cons i ids)
    show ?case using Cons d [of cwd None "unlink i" i st]
      by (cases "blob_delete cwd None (unlink i) i st") (simp add: Let_def split: option.split sum.split)
  qed simp
  have r: "bs_root (snd (put_rows bad now h len a found st)) = bs_root st" for bad now h len a found st
    by (simp add: put_rows_def insert_ref_def Let_def commit_def split: prod.split)
  have p: "bs_root (snd (blob_put sha bad io now data a st)) = bs_root st" for bad io now data a
  proof (cases "write_blob_file io (sha data) data st")
    case (Pair w st1)
    then have "bs_root st1 = bs_root st" using write_file_frame(1) [of io "sha data" data st] by simp
    then show ?thesis by (simp add: blob_put_def put_locked_def Let_def Pair r split: option.split sum.split)
  qed
  show ?thesis
    by (cases op)
       (simp_all add: blob_open_def blob_close_def put_crash_def delete_crash_def sweep_older_than_def d s p)
qed

lemma run_root [simp]: "bs_root (foldl (blob_step sha) st ops) = bs_root st"
  by (induction ops arbitrary: st) simp_all

lemma run_safe:
  assumes "hex_digest sha" "list_all seg_ok base" "list_all untorn ops"
  shows "blob_safe sha (foldl (blob_step sha) (fs_blob_store base m) ops)"
  using fs_refs.run_ok [of sha "fs_blob_store base m" ops] assms by (simp add: blob_ok_def blob_safe_init)

text \<open>
  C19: once a put has returned, the bytes stay readable under the key it returned: whatever puts,
  deletes, sweeps, SQLite refusals, failing unlinks, crashes and restarts follow, as long as none is
  aimed at that reference and no write is cut short; bytes of equal digest stored by anyone count as the
  same bytes.
\<close>

theorem stored_blob_stays_readable:
  assumes "hex_digest sha" "list_all seg_ok base"
    "list_all untorn before" "list_all untorn after" "case io of Wrote n \<Rightarrow> length data \<le> n | _ \<Rightarrow> True"
    "blob_put sha bad io now data a (foldl (blob_step sha) (fs_blob_store base m) before) = (Inr ref, st)"
    "br_id ref = Some rid" "list_all (spares_ref rid (ref_row ref)) after"
    "bs_open (foldl (blob_step sha) st after)"
  shows "\<exists>d. blob_get cwd (br_store_key ref) (foldl (blob_step sha) st after) = Inr d \<and> sha d = sha data"
proof -
  note safe0 = run_safe [OF assms(1-3), of m]
  have ok1: "blob_ok sha st"
    using put_safe [OF assms(1) safe0 assms(5), of bad now a] assms(1) by (simp add: assms(6) blob_ok_def)
  obtain rid' where r: "br_id ref = Some rid'" "holds_ref st rid' (ref_row ref)" "br_hash ref = sha data"
    "br_store_key ref = path_str (blob_path (bs_root (foldl (blob_step sha) (fs_blob_store base m) before)) (sha data))"
    "bs_root st = bs_root (foldl (blob_step sha) (fs_blob_store base m) before)"
    by (rule put_Inr [OF assms(1) safe0 assms(6,5)])
  have "holds_ref st rid (ref_row ref)" using r(1,2) assms(7) by simp
  from fs_refs.run_readable [OF ok1 assms(4,8) this]
  have "content_readable sha (foldl (blob_step sha) st after) (ref_row ref)" .
  moreover have "root_ok (foldl (blob_step sha) st after)"
    using ok1 by (simp add: root_ok_def blob_ok_def blob_safe_def)
  ultimately have "\<exists>d. blob_get cwd (path_str (blob_path (bs_root st) (rf_hash (ref_row ref)))) (foldl (blob_step sha) st after) = Inr d \<and>
      sha d = rf_hash (ref_row ref)"
    using readable_get [OF _ _ assms(9), of sha "ref_row ref" cwd] by simp
  then show ?thesis using r(3-5) by (simp add: ref_row_def)
qed

subsection \<open>Torn files\<close>

lemma put_new:
  assumes "bs_open st" "\<forall>m. bs_max st = Some m \<longrightarrow> length data \<le> m" "lookup_existing (sha data) st = None"
    "write_blob_file io (sha data) data st = (Inr u, st1)" "sqlite_int (mf_next (bs_db st))"
  shows "\<exists>ref st'. blob_put sha None io now data a st = (Inr ref, st') \<and>
    br_store_key ref = path_str (blob_path (bs_root st) (sha data)) \<and> br_size ref = length data \<and> br_mime ref = pa_mime a \<and>
    bs_files st' = bs_files st1 \<and> bs_root st' = bs_root st \<and> bs_open st' \<and>
    mf_refs (bs_db st') = mf_refs (bs_db st) @ [(mf_next (bs_db st),
      \<lparr>rf_hash = sha data, rf_source = pa_source a, rf_platform_ref = pa_platform_ref a,
       rf_message_id = pa_message_id a, rf_filename = pa_filename a, rf_ingested = isoformat now\<rparr>)] \<and>
    mf_next (bs_db st') = mf_next (bs_db st) + 1 \<and> br_id ref = Some (mf_next (bs_db st)) \<and>
    fst ` set (mf_blobs (bs_db st')) = insert (sha data) (fst ` set (mf_blobs (bs_db st))) \<and>
    bs_committed st' = bs_db st'"
proof -
  have st1: "bs_root st1 = bs_root st" "bs_db st1 = bs_db st" "bs_open st1 = bs_open st"
    using write_file_frame [of io "sha data" data st] by (simp_all add: assms(4))
  have none: "map_of (mf_blobs (bs_db st)) (sha data) = None" using assms(3) by (simp add: lookup_existing_def)
  then have look: "lookup_existing (sha data) (insert_blob (sha data) (pa_mime a) (length data) seen st1) =
      Some (path_str (blob_path (bs_root st) (sha data)), pa_mime a, length data)" for seen
    by (simp add: lookup_existing_def insert_blob_def Let_def st1 map_add_def)
  have max: "\<not> (case bs_max st of None \<Rightarrow> False | Some m \<Rightarrow> m < length data)"
    using assms(2) by (auto split: option.splits)
  show ?thesis
    using assms(1) none
    by (simp add: blob_put_def max put_locked_def Let_def assms(3,4) look put_rows_def insert_ref_def commit_def st1 assms(5))
       (simp add: insert_blob_def Let_def st1)
qed

lemma get_at_path:
  assumes "root_ok st" "hex_name h" "bs_open st" "map_of (bs_files st) (blob_path (bs_root st) h) = Some d"
  shows "blob_get cwd (path_str (blob_path (bs_root st) h)) st = Inr d"
  using assms resolve_blob_path [OF assms(1,2), of cwd] by (simp add: blob_get_def)

text \<open>
  C21: the bytes of a write cut short are served as the blob. If \<open>os.write\<close> takes only part of the
  data, the put succeeds and reports the full size; if the process dies after part of the file is
  written, the next put of the same data takes the fragment for the blob. Either way reading the
  returned key gives the fragment.
\<close>

theorem torn_write_served:
  assumes "hex_digest sha" "root_ok st" "bs_open st" "\<forall>m. bs_max st = Some m \<longrightarrow> length data \<le> m"
    "lookup_existing (sha data) st = None" "map_of (bs_files st) (blob_path (bs_root st) (sha data)) = None"
    "bs_committed st = bs_db st" "n < length data" "sqlite_int (mf_next (bs_db st))"
  shows "(\<exists>ref st'. blob_put sha None (Wrote n) now data a st = (Inr ref, st') \<and>
      br_size ref = length data \<and> blob_get cwd (br_store_key ref) st' = Inr (take n data)) \<and>
    (\<exists>ref st'. blob_put sha None (Wrote (length data)) now data a (blob_open (put_crash sha n data st)) = (Inr ref, st') \<and>
      br_size ref = length data \<and> blob_get cwd (br_store_key ref) st' = Inr (take n data)) \<and>
    take n data \<noteq> data"
proof -
  let ?p = "blob_path (bs_root st) (sha data)"
  have hex: "hex_name (sha data)" using assms(1) by (simp add: hex_digest_def)
  define st1 where "st1 = put_file ?p (take n data) (add_dir (shard_dir (bs_root st) (sha data)) st)"
  have w: "write_blob_file (Wrote n) (sha data) data st = (Inr (), st1)"
    using assms(6) by (simp add: write_blob_file_def Let_def st1_def)
  have file1: "map_of (bs_files st1) ?p = Some (take n data)" by (simp add: st1_def map_of_put_file)
  have served: "blob_get cwd (path_str ?p) st' = Inr d"
    if "bs_root st' = bs_root st" "bs_open st'" "map_of (bs_files st') ?p = Some d" for st' d
    using get_at_path [of st' "sha data" d cwd] hex assms(2) that by (simp add: root_ok_def)
  have first: "\<exists>ref st'. blob_put sha None (Wrote n) now data a st = (Inr ref, st') \<and>
      br_size ref = length data \<and> blob_get cwd (br_store_key ref) st' = Inr (take n data)"
    using put_new [where sha = sha and data = data and now = now and a = a, OF assms(3,4,5) w assms(9)] file1 by (auto simp: served)
  define st2 where "st2 = blob_open (put_crash sha n data st)"
  have st2: "bs_root st2 = bs_root st" "bs_open st2" "bs_max st2 = bs_max st" "bs_files st2 = bs_files st1"
    "bs_db st2 = bs_db st"
    using assms(3,5,7) write_file_frame [of "Wrote n" "sha data" data st]
    by (simp_all add: st2_def put_crash_def blob_open_def blob_close_def w)
  have look2: "lookup_existing (sha data) st2 = None" using assms(5) by (simp add: lookup_existing_def st2)
  have w2: "write_blob_file (Wrote (length data)) (sha data) data st2 = (Inr (), add_dir (shard_dir (bs_root st) (sha data)) st2)"
    using file1 by (simp add: write_blob_file_def Let_def st2)
  have "\<exists>ref st'. blob_put sha None (Wrote (length data)) now data a st2 = (Inr ref, st') \<and>
      br_size ref = length data \<and> blob_get cwd (br_store_key ref) st' = Inr (take n data)"
    using put_new [where sha = sha and data = data and now = now and a = a, OF st2(2) _ look2 w2] file1 assms(4,9) by (auto simp: served st2)
  with first assms(8) show ?thesis by (auto simp: st2_def)
qed

subsection \<open>The store as a list of references\<close>

text \<open>
  What the store promises when nothing fails: a list of references with the bytes each stands for,
  where bytes of equal digest are stored once.
\<close>

record ref_spec =
  sp_open :: bool
  sp_max :: "nat option"
  sp_refs :: "(int \<times> blob_ref_row \<times> bytes) list"
  sp_next :: int

definition spec_content :: "string \<Rightarrow> ref_spec \<Rightarrow> bytes option" where
  "spec_content h sp = map_option (\<lambda>(_, _, d). d) (find (\<lambda>(_, r, _). rf_hash r = h) (sp_refs sp))"

definition put_row :: "string \<Rightarrow> utc \<Rightarrow> put_args \<Rightarrow> blob_ref_row" where
  "put_row h now a = \<lparr>rf_hash = h, rf_source = pa_source a, rf_platform_ref = pa_platform_ref a,
     rf_message_id = pa_message_id a, rf_filename = pa_filename a, rf_ingested = isoformat now\<rparr>"

definition fits :: "nat option \<Rightarrow> bytes \<Rightarrow> bool" where
  "fits m data \<longleftrightarrow> (case m of None \<Rightarrow> True | Some k \<Rightarrow> length data \<le> k)"

primrec spec_step :: "digest \<Rightarrow> ref_spec \<Rightarrow> blob_op \<Rightarrow> ref_spec" where
  "spec_step sha sp B_Open = sp\<lparr>sp_open := True\<rparr>"
| "spec_step sha sp B_Close = sp\<lparr>sp_open := False\<rparr>"
| "spec_step sha sp (B_Put bad io now data a) =
     (if sp_open sp \<and> fits (sp_max sp) data
      then sp\<lparr>sp_refs := sp_refs sp @ [(sp_next sp, put_row (sha data) now a,
                 case spec_content (sha data) sp of None \<Rightarrow> data | Some d \<Rightarrow> d)],
              sp_next := sp_next sp + 1\<rparr>
      else sp)"
| "spec_step sha sp (B_Put_Crash n data) = sp"
| "spec_step sha sp (B_Delete cwd bad u rid) =
     (if sp_open sp then sp\<lparr>sp_refs := filter (\<lambda>r. fst r \<noteq> rid) (sp_refs sp)\<rparr> else sp)"
| "spec_step sha sp (B_Delete_Crash rid) = sp"
| "spec_step sha sp (B_Sweep cwd unlink cutoff exclude) =
     (if sp_open sp then sp\<lparr>sp_refs := filter (\<lambda>(_, r, _). \<not> stale cutoff exclude r) (sp_refs sp)\<rparr> else sp)"

primrec clean :: "blob_op \<Rightarrow> bool" where
  "clean B_Open = True"
| "clean B_Close = True"
| "clean (B_Put bad io now data a) = (bad = None \<and> (\<exists>n. io = Wrote n \<and> length data \<le> n))"
| "clean (B_Put_Crash n data) = False"
| "clean (B_Delete cwd bad u rid) = (bad = None \<and> u = None \<and> sqlite_int rid)"
| "clean (B_Delete_Crash rid) = False"
| "clean (B_Sweep cwd unlink cutoff exclude) = (\<forall>i. unlink i = None)"

definition content_of :: "blob_store \<Rightarrow> string \<Rightarrow> bytes" where
  "content_of st h = (case map_of (bs_files st) (blob_path (bs_root st) h) of Some d \<Rightarrow> d | None \<Rightarrow> [])"

definition spec_of :: "blob_store \<Rightarrow> ref_spec" where
  "spec_of st = \<lparr>sp_open = bs_open st, sp_max = bs_max st,
     sp_refs = map (\<lambda>(i, r). (i, r, content_of st (rf_hash r))) (mf_refs (bs_db st)),
     sp_next = mf_next (bs_db st)\<rparr>"

definition blob_hashes :: "blob_store \<Rightarrow> string set" where
  "blob_hashes st = fst ` set (mf_blobs (bs_db st))"

definition tidy :: "digest \<Rightarrow> blob_store \<Rightarrow> bool" where
  "tidy sha st \<longleftrightarrow> blob_safe sha st \<and> bs_committed st = bs_db st \<and>
     blob_hashes st = (\<lambda>r. rf_hash (snd r)) ` set (mf_refs (bs_db st)) \<and>
     fst ` set (bs_files st) = blob_path (bs_root st) ` blob_hashes st \<and>
     (\<forall>d \<in> set (bs_dirs st). length d = Suc (length (bs_root st))) \<and>
     (\<forall>r \<in> set (mf_refs (bs_db st)). sqlite_int (fst r))"

lemma refs_of_empty: "refs_of h db = [] \<longleftrightarrow> h \<notin> (\<lambda>r. rf_hash (snd r)) ` set (mf_refs db)"
  by (simp add: refs_of_def filter_empty_conv split_beta image_iff) blast

lemma tidy_refs: "tidy sha st \<Longrightarrow> h \<in> blob_hashes st \<longleftrightarrow> refs_of h (bs_db st) \<noteq> []"
  by (simp add: refs_of_empty tidy_def)

lemma tidy_file: "tidy sha st \<Longrightarrow> map_of (bs_files st) (blob_path (bs_root st) h) = None \<longleftrightarrow> h \<notin> blob_hashes st"
  using image_iff [of "blob_path (bs_root st) h" "blob_path (bs_root st)" "blob_hashes st"]
  by (simp add: tidy_def map_of_eq_None_iff)

lemma spec_content_of: "spec_content h (spec_of st) = (if refs_of h (bs_db st) = [] then None else Some (content_of st h))"
proof -
  have "map_option (\<lambda>(_, _, d). d) (find (\<lambda>(_, r, _). rf_hash r = h) (map (\<lambda>(i, r). (i, r, f (rf_hash r))) refs)) =
      (if filter (\<lambda>(_, r). rf_hash r = h) refs = [] then None else Some (f h))"
    for refs :: "(int \<times> blob_ref_row) list" and f :: "string \<Rightarrow> bytes"
    by (induction refs) auto
  then show ?thesis by (simp add: spec_content_def spec_of_def refs_of_def)
qed

lemma tidy_get:
  assumes "tidy sha st" "bs_open st" "hex_name h"
  shows "blob_get cwd (path_str (blob_path (bs_root st) h)) st =
    (case spec_content h (spec_of st) of None \<Rightarrow> Inl Blob_Not_Found | Some d \<Rightarrow> Inr d)"
proof -
  let ?p = "blob_path (bs_root st) h"
  have res: "safe_resolve_in_root cwd (path_str ?p) (bs_root st) = Some ?p"
    using assms(1,3) by (intro resolve_blob_path) (simp_all add: tidy_def blob_safe_def)
  show ?thesis
  proof (cases "h \<in> blob_hashes st")
    case True
    then obtain d where d: "map_of (bs_files st) ?p = Some d" using tidy_file [OF assms(1), of h] by auto
    with True res assms(2) show ?thesis
      using tidy_refs [OF assms(1), of h] by (simp add: blob_get_def spec_content_of content_of_def)
  next
    case False
    then have none: "map_of (bs_files st) ?p = None" using tidy_file [OF assms(1)] by simp
    have len: "length ?p = length (bs_root st) + 2" by (simp add: blob_path_def shard_dir_def)
    have "length f = length (bs_root st) + 2" if "(f, d) \<in> set (bs_files st)" for f d
    proof -
      have "f \<in> blob_path (bs_root st) ` blob_hashes st" using assms(1) that unfolding tidy_def by (metis fst_conv image_eqI)
      then show ?thesis by (auto simp: blob_path_def shard_dir_def)
    qed
    then have "\<not> list_ex (\<lambda>(f, _). length f < length ?p \<and> take (length f) ?p = f) (bs_files st)"
      using len by (auto simp: list_ex_iff)
    moreover have "?p \<notin> set (bs_dirs st)" using assms(1) len unfolding tidy_def by fastforce
    moreover have "?p \<noteq> bs_root st" using len by force
    ultimately have "\<not> not_a_file ?p st" by (simp add: not_a_file_def)
    with False none res assms(2) show ?thesis
      using tidy_refs [OF assms(1), of h] by (simp add: blob_get_def spec_content_of)
  qed
qed

lemma tidy_init: "list_all seg_ok base \<Longrightarrow> tidy sha (fs_blob_store base m)"
  using blob_safe_init [of base sha m]
  by (simp add: tidy_def) (simp add: fs_blob_store_def blob_hashes_def empty_manifest_def)

lemma put_existing:
  assumes "lookup_existing (sha data) st = Some found" "bs_open st" "fits (bs_max st) data" "sqlite_int (mf_next (bs_db st))"
  shows "snd (blob_put sha None io now data a st) = commit (snd (insert_ref (put_row (sha data) now a) st))"
  using assms
  by (cases found) (simp add: blob_put_def put_locked_def put_rows_def insert_ref_def Let_def put_row_def fits_def split: option.splits)

lemma put_first:
  assumes "lookup_existing (sha data) st = None" "bs_open st" "fits (bs_max st) data" "sqlite_int (mf_next (bs_db st))"
    "map_of (bs_files st) (blob_path (bs_root st) (sha data)) = None" "length data \<le> n"
  shows "snd (blob_put sha None (Wrote n) now data a st) =
    commit (snd (insert_ref (put_row (sha data) now a)
      (insert_blob (sha data) (pa_mime a) (length data) (isoformat now)
        (put_file (blob_path (bs_root st) (sha data)) data (add_dir (shard_dir (bs_root st) (sha data)) st)))))"
  using assms
  by (simp add: blob_put_def put_locked_def put_rows_def insert_ref_def Let_def put_row_def fits_def
      write_blob_file_def split: option.splits prod.splits)

lemma lookup_hashes: "lookup_existing h st = None \<longleftrightarrow> h \<notin> blob_hashes st"
  by (simp add: lookup_iff blob_hashes_def)

lemma tidyI:
  assumes "blob_safe sha st'" "bs_committed st' = bs_db st'"
    "blob_hashes st' = (\<lambda>r. rf_hash (snd r)) ` set (mf_refs (bs_db st'))"
    "fst ` set (bs_files st') = blob_path (bs_root st') ` blob_hashes st'"
    "\<forall>d \<in> set (bs_dirs st'). length d = Suc (length (bs_root st'))"
    "\<forall>r \<in> set (mf_refs (bs_db st')). sqlite_int (fst r)"
  shows "tidy sha st'"
  using assms by (simp add: tidy_def)

lemma put_tidy:
  assumes "hex_digest sha" "tidy sha st" "bs_open st" "fits (bs_max st) data" "sqlite_int (mf_next (bs_db st))"
    "length data \<le> n"
  shows "tidy sha (snd (blob_put sha None (Wrote n) now data a st)) \<and>
    spec_of (snd (blob_put sha None (Wrote n) now data a st)) = spec_step sha (spec_of st) (B_Put None (Wrote n) now data a)"
proof -
  let ?h = "sha data" and ?st' = "snd (blob_put sha None (Wrote n) now data a st)"
  have safe: "blob_safe sha ?st'" using put_safe [OF assms(1)] assms(2,6) by (simp add: tidy_def)
  note t = assms(2) [unfolded tidy_def]
  show ?thesis
  proof (cases "?h \<in> blob_hashes st")
    case True
    then obtain found where l: "lookup_existing ?h st = Some found" using lookup_hashes [of ?h st] by auto
    have st': "?st' = commit (snd (insert_ref (put_row ?h now a) st))"
      by (rule put_existing [where sha = sha and data = data, OF l assms(3-5)])
    have f: "bs_files ?st' = bs_files st" "bs_root ?st' = bs_root st" "bs_open ?st'" "bs_max ?st' = bs_max st"
      "bs_dirs ?st' = bs_dirs st" "bs_committed ?st' = bs_db ?st'" "mf_blobs (bs_db ?st') = mf_blobs (bs_db st)"
      "mf_refs (bs_db ?st') = mf_refs (bs_db st) @ [(mf_next (bs_db st), put_row ?h now a)]"
      "mf_next (bs_db ?st') = mf_next (bs_db st) + 1"
      using assms(3) by (simp_all add: st' commit_def insert_ref_def Let_def)
    have hash: "rf_hash (put_row ?h now a) = ?h" by (simp add: put_row_def)
    have "tidy sha ?st'"
      by (rule tidyI [OF safe])
         (use t True assms(5) in \<open>simp_all add: f blob_hashes_def hash insert_absorb\<close>)
    moreover have "spec_of ?st' = spec_step sha (spec_of st) (B_Put None (Wrote n) now data a)"
      using True tidy_refs [OF assms(2), of ?h] assms(3,4)
      by (simp add: spec_content_of) (simp add: spec_of_def f content_of_def hash)
    ultimately show ?thesis by blast
  next
    case False
    then have l: "lookup_existing ?h st = None" by (simp add: lookup_hashes)
    have nofile: "map_of (bs_files st) (blob_path (bs_root st) ?h) = None"
      using False tidy_file [OF assms(2)] by simp
    note st' = put_first [where sha = sha and data = data and now = now and a = a, OF l assms(3-5) nofile assms(6)]
    have new: "blob_path (bs_root st) ?h \<notin> fst ` set (bs_files st)" using nofile by (simp add: map_of_eq_None_iff)
    have nb: "map_of (mf_blobs (bs_db st)) ?h = None" using l by (simp add: lookup_existing_def)
    have f: "bs_files ?st' = bs_files st @ [(blob_path (bs_root st) ?h, data)]" "bs_root ?st' = bs_root st" "bs_open ?st'"
      "bs_max ?st' = bs_max st" "set (bs_dirs ?st') = insert (shard_dir (bs_root st) ?h) (set (bs_dirs st))"
      "bs_committed ?st' = bs_db ?st'" "blob_hashes ?st' = insert ?h (blob_hashes st)"
      "mf_refs (bs_db ?st') = mf_refs (bs_db st) @ [(mf_next (bs_db st), put_row ?h now a)]"
      "mf_next (bs_db ?st') = mf_next (bs_db st) + 1"
      using assms(3) new nb
      by (auto simp: st' commit_def insert_ref_def Let_def insert_blob_def put_file_def add_dir_def blob_hashes_def update_new)
    have hash: "rf_hash (put_row ?h now a) = ?h" by (simp add: put_row_def)
    have "tidy sha ?st'"
    proof (rule tidyI [OF safe f(6)])
      show "blob_hashes ?st' = (\<lambda>r. rf_hash (snd r)) ` set (mf_refs (bs_db ?st'))"
        using t by (simp add: f(7,8) hash)
      show "fst ` set (bs_files ?st') = blob_path (bs_root ?st') ` blob_hashes ?st'"
        using t by (simp add: f(1,2,7))
      show "\<forall>d \<in> set (bs_dirs ?st'). length d = Suc (length (bs_root ?st'))"
        using t by (simp add: f(2,5) shard_dir_def)
      show "\<forall>r \<in> set (mf_refs (bs_db ?st')). sqlite_int (fst r)"
        using t assms(5) by (simp add: f(8))
    qed
    moreover have "content_of ?st' (rf_hash (snd r)) = content_of st (rf_hash (snd r))" if "r \<in> set (mf_refs (bs_db st))" for r
    proof -
      have "rf_hash (snd r) \<in> blob_hashes st"
        using assms(2) that unfolding tidy_def by blast
      with False have "rf_hash (snd r) \<noteq> ?h" by auto
      then show ?thesis by (simp add: content_of_def f map_add_def split: option.split)
    qed
    moreover have "content_of ?st' ?h = data" using nofile by (simp add: content_of_def f map_add_def)
    ultimately show ?thesis
      using False tidy_refs [OF assms(2), of ?h] assms(3,4)
      by (simp add: spec_content_of) (simp add: spec_of_def f hash split_beta)
  qed
qed

lemma filter_key:
  assumes "dict_wf d" "map_of d k = Some v"
  shows "length d = Suc (length (filter (\<lambda>p. fst p \<noteq> k) d))"
  using assms
proof (induction d)
  case (Cons p d)
  show ?case
  proof (cases "fst p = k")
    case True
    then have "k \<notin> fst ` set d" using Cons.prems(1) by (auto simp: dict_wf_def)
    then have "filter (\<lambda>p. fst p \<noteq> k) d = d" by (intro filter_True) force
    with True show ?thesis by simp
  next
    case False
    then have "map_of d k = Some v" using Cons.prems(2) by (cases p) simp
    with Cons False show ?thesis by simp
  qed
qed simp

lemma filter_other:
  assumes "distinct (map fst d)" "(k, v) \<in> set d" "P (k, v)"
  shows "length (filter P d) = Suc (length (filter (\<lambda>p. fst p \<noteq> k) (filter P d)))"
proof (rule filter_key)
  have "dict_wf d" using assms(1) by (simp add: dict_wf_def)
  then show "dict_wf (filter P d)" by simp
  then show "map_of (filter P d) k = Some v" using assms(2,3) by (simp add: dict_get_iff)
qed

lemma tidyD:
  assumes "tidy sha st"
  shows "blob_safe sha st" "bs_committed st = bs_db st"
    "blob_hashes st = (\<lambda>r. rf_hash (snd r)) ` set (mf_refs (bs_db st))"
    "fst ` set (bs_files st) = blob_path (bs_root st) ` blob_hashes st"
    "\<forall>d \<in> set (bs_dirs st). length d = Suc (length (bs_root st))"
    "\<forall>r \<in> set (mf_refs (bs_db st)). sqlite_int (fst r)"
    "dict_wf (mf_refs (bs_db st))" "dict_wf (mf_blobs (bs_db st))"
  using assms by (simp_all add: tidy_def blob_safe_def view_ok_def)

lemma tidy_joined:
  assumes "tidy sha st" "map_of (mf_refs (bs_db st)) rid = Some r"
  obtains b where "map_of (mf_blobs (bs_db st)) (rf_hash r) = Some b"
    "bl_path b = path_str (blob_path (bs_root st) (rf_hash r))"
    "joined_ref rid (bs_db st) = Some (rf_hash r, bl_path b)"
    "safe_resolve_in_root cwd (path_str (blob_path (bs_root st) (rf_hash r))) (bs_root st) =
      Some (blob_path (bs_root st) (rf_hash r))"
proof -
  have "rf_hash r \<in> blob_hashes st"
    using imageI [OF map_of_SomeD [OF assms(2)], of "\<lambda>r. rf_hash (snd r)"] by (simp add: tidyD(3) [OF assms(1)])
  then obtain b where b: "map_of (mf_blobs (bs_db st)) (rf_hash r) = Some b"
    unfolding blob_hashes_def by (metis map_of_eq_None_iff not_Some_eq)
  have "hex_name (rf_hash r) \<and> bl_path b = path_str (blob_path (bs_root st) (rf_hash r))"
    using tidyD(1) [OF assms(1)] map_of_SomeD [OF b] by (fastforce simp: blob_safe_def view_ok_def)
  moreover have "root_ok st" using tidyD(1) [OF assms(1)] by (simp add: blob_safe_def)
  ultimately show ?thesis
    using b assms(2) by (intro that [of b]) (simp_all add: joined_ref_def resolve_blob_path)
qed

text \<open>What a clean delete of one reference does.\<close>

definition deletes :: "digest \<Rightarrow> int \<Rightarrow> nat \<Rightarrow> blob_store \<Rightarrow> (blob_error + unit) \<times> blob_store \<Rightarrow> bool" where
  "deletes sha rid n st res \<longleftrightarrow> fst res = Inr () \<and> tidy sha (snd res) \<and> bs_open (snd res) \<and>
     mf_refs (bs_db (snd res)) = filter (\<lambda>r. fst r \<noteq> rid) (mf_refs (bs_db st)) \<and>
     spec_of (snd res) = (spec_of st)\<lparr>sp_refs := filter (\<lambda>r. fst r \<noteq> rid) (sp_refs (spec_of st))\<rparr> \<and>
     mf_next (bs_db (snd res)) = mf_next (bs_db st) \<and>
     length (mf_blobs (bs_db st)) = length (mf_blobs (bs_db (snd res))) + n"

lemma delete_last:
  assumes "tidy sha st" "bs_open st" "sqlite_int rid" "map_of (mf_refs (bs_db st)) rid = Some r"
    "refs_of (rf_hash r) (bs_db (delete_ref rid st)) = []"
  shows "deletes sha rid 1 st (blob_delete cwd None None rid st)"
proof -
  let ?st' = "snd (blob_delete cwd None None rid st)"
  note safe = tidyD(1) [OF assms(1)] and th = tidyD(3) [OF assms(1)] and tf = tidyD(4) [OF assms(1)]
    and td = tidyD(5) [OF assms(1)] and ti = tidyD(6) [OF assms(1)] and wf = tidyD(7,8) [OF assms(1)]
  have safe': "blob_safe sha ?st'" using delete_safe [OF safe] .
  define h where "h = rf_hash r"
  have mem: "(rid, r) \<in> set (mf_refs (bs_db st))" using assms(4) by (rule map_of_SomeD)
  obtain b where b: "map_of (mf_blobs (bs_db st)) h = Some b" "bl_path b = path_str (blob_path (bs_root st) h)"
    "joined_ref rid (bs_db st) = Some (h, bl_path b)"
    and res: "safe_resolve_in_root cwd (path_str (blob_path (bs_root st) h)) (bs_root st) = Some (blob_path (bs_root st) h)"
    by (rule tidy_joined [OF assms(1,4), of cwd]) (simp add: h_def)
  note j = b(3) and path = b(2)
  define refs' where "refs' = filter (\<lambda>r. fst r \<noteq> rid) (mf_refs (bs_db st))"
  have last: "refs_of h (bs_db (delete_ref rid st)) = []" using assms(5) by (simp add: h_def)
  have st': "?st' = drop_file (blob_path (bs_root st) h) (commit (delete_blob h (delete_ref rid st)))"
    and ok: "fst (blob_delete cwd None None rid st) = Inr ()"
    using assms(2,3) last path res
    by (simp_all add: blob_delete_def delete_rows_def j Let_def commit_def delete_blob_def delete_ref_def)
  have f: "bs_root ?st' = bs_root st" "bs_open ?st'" "bs_dirs ?st' = bs_dirs st" "bs_max ?st' = bs_max st"
    "bs_committed ?st' = bs_db ?st'" "mf_refs (bs_db ?st') = refs'" "mf_next (bs_db ?st') = mf_next (bs_db st)"
    "mf_blobs (bs_db ?st') = filter (\<lambda>b. fst b \<noteq> h) (mf_blobs (bs_db st))"
    "bs_files ?st' = filter (\<lambda>f. fst f \<noteq> blob_path (bs_root st) h) (bs_files st)"
    using assms(2) by (simp_all add: st' drop_file_def commit_def delete_blob_def delete_ref_def refs'_def)
  have gone: "rf_hash (snd q) \<noteq> h" if "q \<in> set refs'" for q
    using last that by (auto simp: refs_of_empty delete_ref_def refs'_def)
  have kept: "q \<in> set refs'" if "q \<in> set (mf_refs (bs_db st))" "rf_hash (snd q) \<noteq> h" for q
  proof -
    have "q = (rid, r)" if "fst q = rid"
      using wf(1) mem \<open>q \<in> set (mf_refs (bs_db st))\<close> that by (metis dict_get_iff option.inject prod.collapse)
    with that show ?thesis by (cases "fst q = rid") (simp_all add: refs'_def h_def)
  qed
  have hs: "blob_hashes ?st' = blob_hashes st - {h}" by (auto simp: blob_hashes_def f(8))
  have "blob_hashes ?st' = (\<lambda>r. rf_hash (snd r)) ` set refs'"
  proof -
    have "(\<lambda>r. rf_hash (snd r)) ` set refs' = (\<lambda>r. rf_hash (snd r)) ` set (mf_refs (bs_db st)) - {h}"
    proof -
      have "set refs' = {q \<in> set (mf_refs (bs_db st)). rf_hash (snd q) \<noteq> h}"
        using gone kept unfolding refs'_def by (intro equalityI subsetI) auto
      then show ?thesis by auto
    qed
    then show ?thesis using th hs by simp
  qed
  moreover have "fst ` set (bs_files ?st') = blob_path (bs_root ?st') ` blob_hashes ?st'"
  proof -
    have "fst ` set (bs_files ?st') = fst ` set (bs_files st) - {blob_path (bs_root st) h}" by (auto simp: f(9))
    also have "\<dots> = blob_path (bs_root st) ` blob_hashes st - {blob_path (bs_root st) h}" using tf by simp
    also have "\<dots> = blob_path (bs_root st) ` (blob_hashes st - {h})" by auto
    finally show ?thesis by (simp add: hs f(1))
  qed
  moreover have "\<forall>r \<in> set refs'. sqlite_int (fst r)" using ti by (simp add: refs'_def)
  ultimately have tidy': "tidy sha ?st'"
    using td by (intro tidyI [OF safe' f(5)]) (simp_all add: f(1,3,6))
  have "content_of ?st' (rf_hash (snd q)) = content_of st (rf_hash (snd q))" if "q \<in> set refs'" for q
    using gone [OF that] map_of_drop_file [of "blob_path (bs_root st) h" "commit (delete_blob h (delete_ref rid st))"]
    by (simp add: content_of_def f(1) st' commit_def delete_blob_def delete_ref_def)
  then have spec: "spec_of ?st' = (spec_of st)\<lparr>sp_refs := filter (\<lambda>r. fst r \<noteq> rid) (sp_refs (spec_of st))\<rparr>"
    using assms(2) by (simp add: spec_of_def f refs'_def filter_map o_def split_beta)
  have "length (mf_blobs (bs_db st)) = Suc (length (mf_blobs (bs_db ?st')))"
    using filter_key [OF wf(2) b(1)] by (simp add: f(8))
  then show ?thesis using ok tidy' f(2,6,7) spec by (simp add: deletes_def refs'_def)
qed

lemma delete_shared:
  assumes "tidy sha st" "bs_open st" "sqlite_int rid" "map_of (mf_refs (bs_db st)) rid = Some r"
    "refs_of (rf_hash r) (bs_db (delete_ref rid st)) \<noteq> []"
  shows "deletes sha rid 0 st (blob_delete cwd None None rid st)"
proof -
  let ?st' = "snd (blob_delete cwd None None rid st)"
  note safe = tidyD(1) [OF assms(1)] and th = tidyD(3) [OF assms(1)] and tf = tidyD(4) [OF assms(1)]
    and td = tidyD(5) [OF assms(1)] and ti = tidyD(6) [OF assms(1)] and wf = tidyD(7,8) [OF assms(1)]
  have safe': "blob_safe sha ?st'" using delete_safe [OF safe] .
  define h where "h = rf_hash r"
  have mem: "(rid, r) \<in> set (mf_refs (bs_db st))" using assms(4) by (rule map_of_SomeD)
  obtain b where b: "map_of (mf_blobs (bs_db st)) h = Some b" "bl_path b = path_str (blob_path (bs_root st) h)"
    "joined_ref rid (bs_db st) = Some (h, bl_path b)"
    and res: "safe_resolve_in_root cwd (path_str (blob_path (bs_root st) h)) (bs_root st) = Some (blob_path (bs_root st) h)"
    by (rule tidy_joined [OF assms(1,4), of cwd]) (simp add: h_def)
  note j = b(3) and path = b(2)
  define refs' where "refs' = filter (\<lambda>r. fst r \<noteq> rid) (mf_refs (bs_db st))"
  have shared: "refs_of h (bs_db (delete_ref rid st)) \<noteq> []" using assms(5) by (simp add: h_def)
  have st': "?st' = commit (delete_ref rid st)" and ok: "fst (blob_delete cwd None None rid st) = Inr ()"
    using assms(2,3) shared by (simp_all add: blob_delete_def delete_rows_def j Let_def)
  have f: "bs_root ?st' = bs_root st" "bs_open ?st'" "bs_dirs ?st' = bs_dirs st" "bs_max ?st' = bs_max st"
    "bs_committed ?st' = bs_db ?st'" "mf_refs (bs_db ?st') = refs'" "mf_next (bs_db ?st') = mf_next (bs_db st)"
    "mf_blobs (bs_db ?st') = mf_blobs (bs_db st)" "bs_files ?st' = bs_files st" "blob_hashes ?st' = blob_hashes st"
    using assms(2) by (simp_all add: st' commit_def delete_ref_def refs'_def blob_hashes_def)
  have "(\<lambda>r. rf_hash (snd r)) ` set refs' = (\<lambda>r. rf_hash (snd r)) ` set (mf_refs (bs_db st))"
  proof
    show "(\<lambda>r. rf_hash (snd r)) ` set (mf_refs (bs_db st)) \<subseteq> (\<lambda>r. rf_hash (snd r)) ` set refs'"
    proof (rule image_subsetI)
      fix q assume q: "q \<in> set (mf_refs (bs_db st))"
      show "rf_hash (snd q) \<in> (\<lambda>r. rf_hash (snd r)) ` set refs'"
      proof (cases "fst q = rid")
        case True
        then have "q = (rid, r)" using wf(1) mem q by (metis dict_get_iff option.inject prod.collapse)
        moreover have "h \<in> (\<lambda>r. rf_hash (snd r)) ` set refs'"
          using shared by (simp add: refs_of_empty delete_ref_def refs'_def)
        ultimately show ?thesis by (simp add: h_def)
      next
        case False
        with q have "q \<in> set refs'" by (simp add: refs'_def)
        then show ?thesis by (rule imageI)
      qed
    qed
  qed (auto simp: refs'_def)
  moreover have "\<forall>r \<in> set refs'. sqlite_int (fst r)" using ti by (simp add: refs'_def)
  ultimately have tidy': "tidy sha ?st'"
    using th tf td by (intro tidyI [OF safe' f(5)]) (simp_all add: f(1,3,6,9,10))
  have spec: "spec_of ?st' = (spec_of st)\<lparr>sp_refs := filter (\<lambda>r. fst r \<noteq> rid) (sp_refs (spec_of st))\<rparr>"
    using assms(2) by (simp add: spec_of_def f content_of_def refs'_def filter_map o_def split_beta)
  show ?thesis using ok tidy' f(2,6-8) spec by (simp add: deletes_def refs'_def)
qed

lemma delete_absent_ref:
  assumes "tidy sha st" "bs_open st" "sqlite_int rid" "map_of (mf_refs (bs_db st)) rid = None"
  shows "deletes sha rid 0 st (blob_delete cwd None None rid st)"
proof -
  have d: "blob_delete cwd None None rid st = (Inr (), st)"
    using assms(2-4) by (simp add: blob_delete_def delete_rows_def joined_ref_def)
  have "rid \<notin> fst ` set (mf_refs (bs_db st))" using assms(4) by (simp add: map_of_eq_None_iff)
  then have same: "filter (\<lambda>r. fst r \<noteq> rid) (mf_refs (bs_db st)) = mf_refs (bs_db st)"
    by (intro filter_True) force
  then have "filter (\<lambda>r. fst r \<noteq> rid) (sp_refs (spec_of st)) = sp_refs (spec_of st)"
    by (simp add: spec_of_def filter_map o_def split_beta)
  then show ?thesis using assms(1,2) d same by (simp add: deletes_def)
qed

lemma delete_clean:
  assumes "tidy sha st" "bs_open st" "sqlite_int rid"
  shows "deletes sha rid
    (case map_of (mf_refs (bs_db st)) rid of None \<Rightarrow> 0
     | Some r \<Rightarrow> if length (refs_of (rf_hash r) (bs_db st)) = 1 then 1 else 0) st (blob_delete cwd None None rid st)"
proof (cases "map_of (mf_refs (bs_db st)) rid")
  case None
  with delete_absent_ref [OF assms] show ?thesis by simp
next
  case (Some r)
  have "filter (\<lambda>(_, q). rf_hash q = rf_hash r) (filter (\<lambda>q. fst q \<noteq> rid) (mf_refs (bs_db st))) =
      filter (\<lambda>q. fst q \<noteq> rid) (refs_of (rf_hash r) (bs_db st))"
    by (simp add: refs_of_def conj_commute)
  then have "length (refs_of (rf_hash r) (bs_db st)) = Suc (length (refs_of (rf_hash r) (bs_db (delete_ref rid st))))"
    using filter_other [where P = "\<lambda>(_, q). rf_hash q = rf_hash r", OF _ map_of_SomeD [OF Some]] tidyD(7) [OF assms(1)]
    by (simp add: delete_ref_def refs_of_def dict_wf_def)
  then show ?thesis
    using delete_last [OF assms Some, of cwd] delete_shared [OF assms Some, of cwd] Some by auto
qed

lemma key_of_filtered:
  assumes "dict_wf d" "q \<in> set d"
  shows "fst q \<in> set (map fst (filter P d)) \<longleftrightarrow> P q"
proof -
  obtain k v where q: "q = (k, v)" by (cases q)
  have uniq: "v' = v" if "(k, v') \<in> set d" for v'
    using dict_get_iff [OF assms(1), of k v] dict_get_iff [OF assms(1), of k v'] assms(2) that q by simp
  have mem: "(k, v) \<in> set d" using assms(2) q by simp
  have "k \<in> set (map fst (filter P d)) \<longleftrightarrow> (\<exists>v'. (k, v') \<in> set d \<and> P (k, v'))" by force
  also have "\<dots> \<longleftrightarrow> P (k, v)" using uniq mem by metis
  finally show ?thesis by (simp only: q fst_conv)
qed

lemma sweep_clean:
  assumes "tidy sha st" "bs_open st" "\<forall>i. unlink i = None" "distinct ids" "set ids \<subseteq> fst ` set (mf_refs (bs_db st))"
  shows "\<exists>k st'. sweep_loop cwd unlink ids d u st = (Inr (d + length ids, u + k), st') \<and> tidy sha st' \<and> bs_open st' \<and>
    length (mf_blobs (bs_db st)) = length (mf_blobs (bs_db st')) + k \<and>
    mf_refs (bs_db st') = filter (\<lambda>r. fst r \<notin> set ids) (mf_refs (bs_db st)) \<and>
    spec_of st' = (spec_of st)\<lparr>sp_refs := filter (\<lambda>r. fst r \<notin> set ids) (sp_refs (spec_of st))\<rparr> \<and>
    mf_next (bs_db st') = mf_next (bs_db st)"
  using assms
proof (induction ids arbitrary: d u st)
  case (Cons i ids)
  obtain r where r: "map_of (mf_refs (bs_db st)) i = Some r"
    using Cons.prems(5) by (metis insert_subset list.set(2) map_of_eq_None_iff not_Some_eq)
  have "sqlite_int i" using tidyD(6) [OF Cons.prems(1)] map_of_SomeD [OF r] by fastforce
  note del = delete_clean [OF Cons.prems(1,2) this, of cwd]
  obtain st1 where d1: "blob_delete cwd None None i st = (Inr (), st1)"
    using del by (cases "blob_delete cwd None None i st") (simp add: deletes_def)
  note t1 = del [unfolded deletes_def d1 fst_conv snd_conv]
  have "set ids \<subseteq> fst ` set (mf_refs (bs_db st1))"
  proof
    fix j assume j: "j \<in> set ids"
    then have "j \<noteq> i" "j \<in> fst ` set (mf_refs (bs_db st))" using Cons.prems(4,5) by auto
    then show "j \<in> fst ` set (mf_refs (bs_db st1))" using t1 by force
  qed
  define n where "n = (case map_of (mf_refs (bs_db st)) i of None \<Rightarrow> 0
     | Some r \<Rightarrow> if length (refs_of (rf_hash r) (bs_db st)) = 1 then 1 else (0 :: nat))"
  have "tidy sha st1" "bs_open st1" "distinct ids" using t1 Cons.prems(4) by simp_all
  from Cons.IH [OF this(1,2) Cons.prems(3) this(3) \<open>set ids \<subseteq> fst ` set (mf_refs (bs_db st1))\<close>, of "d + 1" "u + n"]
  obtain k st' where ih: "sweep_loop cwd unlink ids (d + 1) (u + n) st1 = (Inr (d + 1 + length ids, u + n + k), st')"
    "tidy sha st'" "bs_open st'" "length (mf_blobs (bs_db st1)) = length (mf_blobs (bs_db st')) + k"
    "mf_refs (bs_db st') = filter (\<lambda>r. fst r \<notin> set ids) (mf_refs (bs_db st1))"
    "spec_of st' = (spec_of st1)\<lparr>sp_refs := filter (\<lambda>r. fst r \<notin> set ids) (sp_refs (spec_of st1))\<rparr>"
    "mf_next (bs_db st') = mf_next (bs_db st1)" by blast
  have "sweep_loop cwd unlink (i # ids) d u st = (Inr (d + length (i # ids), u + (n + k)), st')"
    using ih(1) r d1 Cons.prems(3) by (simp add: Let_def n_def ac_simps split: if_splits)
  moreover have "length (mf_blobs (bs_db st)) = length (mf_blobs (bs_db st')) + (n + k)"
    using t1 ih(4) by (simp add: n_def)
  moreover have "mf_refs (bs_db st') = filter (\<lambda>r. fst r \<notin> set (i # ids)) (mf_refs (bs_db st))"
    using ih(5) t1 by (simp add: conj_commute)
  moreover have "spec_of st' = (spec_of st)\<lparr>sp_refs := filter (\<lambda>r. fst r \<notin> set (i # ids)) (sp_refs (spec_of st))\<rparr>"
    using ih(6) t1 by (simp add: conj_commute)
  ultimately show ?case using ih(2,3,7) t1 by (intro exI [of _ "n + k"] exI [of _ st']) simp
qed simp

text \<open>
  a sweep that nothing disturbs deletes exactly the references older than the cutoff whose source
  is not excluded, and reports how many there were and how many blobs went with their last reference.
\<close>

theorem sweep_deletes_stale:
  assumes "tidy sha st" "bs_open st" "\<forall>i. unlink i = None"
  shows "\<exists>k st'. sweep_older_than cwd unlink cutoff exclude st =
      (Inr (length (filter (\<lambda>(_, r). stale cutoff exclude r) (mf_refs (bs_db st))), k), st') \<and>
    mf_refs (bs_db st') = filter (\<lambda>(_, r). \<not> stale cutoff exclude r) (mf_refs (bs_db st)) \<and>
    k = card (blob_hashes st - blob_hashes st') \<and> blob_hashes st' \<subseteq> blob_hashes st \<and>
    (\<forall>h. h \<in> blob_hashes st' \<longleftrightarrow> (\<exists>i r. (i, r) \<in> set (mf_refs (bs_db st)) \<and> rf_hash r = h \<and> \<not> stale cutoff exclude r))"
proof -
  let ?old = "filter (\<lambda>(_, r). stale cutoff exclude r) (mf_refs (bs_db st))"
  have wf: "dict_wf (mf_refs (bs_db st))" by (rule tidyD(7) [OF assms(1)])
  have dist: "distinct (map fst ?old)" using wf by (simp add: dict_wf_def distinct_map_filter)
  have "set (map fst ?old) \<subseteq> fst ` set (mf_refs (bs_db st))" by auto
  from sweep_clean [OF assms dist this, of cwd 0 0]
  obtain k st' where s: "sweep_loop cwd unlink (map fst ?old) 0 0 st = (Inr (length ?old, k), st')"
    "tidy sha st'" "length (mf_blobs (bs_db st)) = length (mf_blobs (bs_db st')) + k"
    "mf_refs (bs_db st') = filter (\<lambda>r. fst r \<notin> set (map fst ?old)) (mf_refs (bs_db st))"
    unfolding length_map add_0 by blast
  have keep: "mf_refs (bs_db st') = filter (\<lambda>(_, r). \<not> stale cutoff exclude r) (mf_refs (bs_db st))"
    unfolding s(4)
  proof (rule filter_cong [OF refl])
    fix q assume q: "q \<in> set (mf_refs (bs_db st))"
    from key_of_filtered [OF wf q, of "\<lambda>(_, r). stale cutoff exclude r"]
    show "fst q \<notin> set (map fst ?old) \<longleftrightarrow> (case q of (_, r) \<Rightarrow> \<not> stale cutoff exclude r)"
      by (simp add: split_beta)
  qed
  have hs: "h \<in> blob_hashes st' \<longleftrightarrow> (\<exists>i r. (i, r) \<in> set (mf_refs (bs_db st)) \<and> rf_hash r = h \<and> \<not> stale cutoff exclude r)" for h
    unfolding tidyD(3) [OF s(2)] keep by force
  then have sub: "blob_hashes st' \<subseteq> blob_hashes st"
    unfolding tidyD(3) [OF assms(1)] by force
  have card: "card (blob_hashes q) = length (mf_blobs (bs_db q))" if "tidy sha q" for q
    unfolding blob_hashes_def using distinct_card [of "map fst (mf_blobs (bs_db q))"] tidyD(8) [OF that]
    by (simp add: dict_wf_def)
  have "finite (blob_hashes st')" by (simp add: blob_hashes_def)
  then have "k = card (blob_hashes st - blob_hashes st')"
    using card_Diff_subset [OF _ sub] card [OF assms(1)] card [OF s(2)] s(3) by simp
  then show ?thesis using s(1) assms(2) keep hs sub by (auto simp: sweep_older_than_def)
qed

lemma sweep_spec:
  assumes "tidy sha st" "bs_open st" "\<forall>i. unlink i = None"
  shows "tidy sha (snd (sweep_older_than cwd unlink cutoff exclude st)) \<and>
    spec_of (snd (sweep_older_than cwd unlink cutoff exclude st)) = spec_step sha (spec_of st) (B_Sweep cwd unlink cutoff exclude) \<and>
    mf_next (bs_db (snd (sweep_older_than cwd unlink cutoff exclude st))) = mf_next (bs_db st)"
proof -
  let ?old = "filter (\<lambda>(_, r). stale cutoff exclude r) (mf_refs (bs_db st))"
  have wf: "dict_wf (mf_refs (bs_db st))" by (rule tidyD(7) [OF assms(1)])
  have dist: "distinct (map fst ?old)" using wf by (simp add: dict_wf_def distinct_map_filter)
  have "set (map fst ?old) \<subseteq> fst ` set (mf_refs (bs_db st))" by auto
  from sweep_clean [OF assms dist this, of cwd 0 0]
  obtain k st' where s: "sweep_loop cwd unlink (map fst ?old) 0 0 st = (Inr (length ?old, k), st')"
    "tidy sha st'" "mf_next (bs_db st') = mf_next (bs_db st)"
    "spec_of st' = (spec_of st)\<lparr>sp_refs := filter (\<lambda>r. fst r \<notin> set (map fst ?old)) (sp_refs (spec_of st))\<rparr>"
    unfolding length_map add_0 by blast
  have "filter (\<lambda>r. fst r \<notin> set (map fst ?old)) (sp_refs (spec_of st)) =
      filter (\<lambda>(_, r, _). \<not> stale cutoff exclude r) (sp_refs (spec_of st))"
  proof (rule filter_cong [OF refl])
    fix q assume "q \<in> set (sp_refs (spec_of st))"
    then obtain i r d where q: "q = (i, r, d)" "(i, r) \<in> set (mf_refs (bs_db st))" by (auto simp: spec_of_def)
    from key_of_filtered [OF wf q(2), of "\<lambda>(_, r). stale cutoff exclude r"] q(1)
    show "fst q \<notin> set (map fst ?old) \<longleftrightarrow> (case q of (_, r, _) \<Rightarrow> \<not> stale cutoff exclude r)" by simp
  qed
  moreover have "sp_open (spec_of st)" using assms(2) by (simp add: spec_of_def)
  ultimately show ?thesis using s assms(2) by (simp add: sweep_older_than_def)
qed

lemma next_put: "mf_next (bs_db (snd (put_rows bad now h len a found st))) \<le> mf_next (bs_db st) + 1"
  "mf_next (bs_db st) \<le> mf_next (bs_db (snd (put_rows bad now h len a found st)))"
  by (auto simp: put_rows_def insert_ref_def Let_def commit_def split: prod.split)

lemma clean_step:
  assumes "hex_digest sha" "tidy sha st" "clean op" "1 \<le> mf_next (bs_db st)" "mf_next (bs_db st) < 2 ^ 63"
  shows "tidy sha (blob_step sha st op) \<and> spec_of (blob_step sha st op) = spec_step sha (spec_of st) op \<and>
    1 \<le> mf_next (bs_db (blob_step sha st op)) \<and> mf_next (bs_db (blob_step sha st op)) \<le> mf_next (bs_db st) + 1"
proof (cases op)
  case B_Open
  have "tidy sha (blob_open st)"
    by (rule tidyI) (use assms(2) blob_safe_open [of sha st] in \<open>simp_all add: tidy_def blob_open_def blob_hashes_def\<close>)
  with B_Open assms(2,4) show ?thesis
    by (simp add: tidy_def) (simp add: blob_open_def spec_of_def content_of_def)
next
  case B_Close
  have "tidy sha (blob_close st)"
    by (rule tidyI) (use assms(2) blob_safe_close [of sha st] in \<open>simp_all add: tidy_def blob_close_def blob_hashes_def\<close>)
  with B_Close assms(2,4) show ?thesis
    by (simp add: tidy_def) (simp add: blob_close_def spec_of_def content_of_def)
next
  case (B_Put bad io now data a)
  then obtain n where io: "bad = None" "io = Wrote n" "length data \<le> n" using assms(3) by auto
  show ?thesis
  proof (cases "bs_open st \<and> fits (bs_max st) data")
    case True
    have "sqlite_int (mf_next (bs_db st))" using assms(4,5) by (simp add: sqlite_int_def)
    note p = put_tidy [OF assms(1,2) conjunct1 [OF True] conjunct2 [OF True] this io(3), of now a]
    then have "sp_next (spec_of (snd (blob_put sha None (Wrote n) now data a st))) = mf_next (bs_db st) + 1"
      using True by (simp add: spec_of_def)
    then have "mf_next (bs_db (snd (blob_put sha None (Wrote n) now data a st))) = mf_next (bs_db st) + 1"
      by (simp add: spec_of_def)
    with p B_Put io assms(4) show ?thesis by simp
  next
    case False
    then have "snd (blob_put sha bad io now data a st) = st"
      by (auto simp: blob_put_def fits_def split: option.splits)
    moreover have "spec_step sha (spec_of st) op = spec_of st" using False B_Put by (auto simp: spec_of_def)
    ultimately show ?thesis using B_Put assms(2,4) by simp
  qed
next
  case (B_Delete cwd bad u rid)
  show ?thesis
  proof (cases "bs_open st")
    case True
    then have "sp_open (spec_of st)" by (simp add: spec_of_def)
    with True delete_clean [OF assms(2) True, of rid cwd] assms(3,4) B_Delete show ?thesis
      by (simp add: deletes_def)
  next
    case False
    then have "\<not> sp_open (spec_of st)" by (simp add: spec_of_def)
    with False B_Delete assms(2,4) show ?thesis by (simp add: blob_delete_def)
  qed
next
  case (B_Sweep cwd unlink cutoff exclude)
  show ?thesis
  proof (cases "bs_open st")
    case True
    with sweep_spec [OF assms(2) True, of unlink cwd cutoff exclude] assms(3,4) B_Sweep show ?thesis by simp
  next
    case False
    then have "\<not> sp_open (spec_of st)" by (simp add: spec_of_def)
    with False B_Sweep assms(2,4) show ?thesis by (simp add: sweep_older_than_def)
  qed
qed (use assms(3) in simp_all)

lemma clean_run:
  assumes "hex_digest sha" "tidy sha st" "list_all clean ops" "1 \<le> mf_next (bs_db st)"
    "mf_next (bs_db st) + int (length ops) \<le> 2 ^ 63"
  shows "tidy sha (foldl (blob_step sha) st ops) \<and>
    spec_of (foldl (blob_step sha) st ops) = foldl (spec_step sha) (spec_of st) ops"
  using assms(2-)
proof (induction ops arbitrary: st)
  case (Cons op ops)
  have "mf_next (bs_db st) < 2 ^ 63" using Cons.prems(4) by simp
  note c = clean_step [OF assms(1) Cons.prems(1) _ Cons.prems(3) this, of op]
  from Cons.IH [of "blob_step sha st op"] c Cons.prems(2,4) show ?case by simp
qed simp

definition ref_spec_init :: "nat option \<Rightarrow> ref_spec" where
  "ref_spec_init m = \<lparr>sp_open = False, sp_max = m, sp_refs = [], sp_next = 1\<rparr>"

text \<open>
  C20: without failures the store is the list of its references: after any puts, deletes, sweeps, openings
  and closings its rows are those the abstract store has, and a blob's key reads the bytes the list has for
  its digest, or is not found when no reference is left, files, shards and the manifest notwithstanding.
\<close>

theorem blob_store_refines_references:
  assumes "hex_digest sha" "list_all seg_ok base" "list_all clean ops" "length ops < 2 ^ 63"
  shows "spec_of (foldl (blob_step sha) (fs_blob_store base m) ops) = foldl (spec_step sha) (ref_spec_init m) ops \<and>
    (bs_open (foldl (blob_step sha) (fs_blob_store base m) ops) \<longrightarrow>
     (\<forall>h cwd. hex_name h \<longrightarrow>
       blob_get cwd (path_str (blob_path base h)) (foldl (blob_step sha) (fs_blob_store base m) ops) =
       (case spec_content h (foldl (spec_step sha) (ref_spec_init m) ops) of
          None \<Rightarrow> Inl Blob_Not_Found | Some d \<Rightarrow> Inr d)))"
proof -
  let ?st = "foldl (blob_step sha) (fs_blob_store base m) ops"
  have init: "spec_of (fs_blob_store base m) = ref_spec_init m" "mf_next (bs_db (fs_blob_store base m)) = 1"
    "bs_root (fs_blob_store base m) = base"
    by (simp_all add: spec_of_def ref_spec_init_def fs_blob_store_def empty_manifest_def)
  have "mf_next (bs_db (fs_blob_store base m)) + int (length ops) \<le> 2 ^ 63"
    using assms(4) by (simp add: init(2))
  from clean_run [OF assms(1) tidy_init [OF assms(2), of sha m] assms(3) _ this]
  have run: "tidy sha ?st" "spec_of ?st = foldl (spec_step sha) (ref_spec_init m) ops"
    by (simp_all add: init)
  show ?thesis
    using run tidy_get [OF run(1)] by (auto simp: init(3))
qed

lemma delete_open [simp]: "bs_open (snd (blob_delete cwd bad u rid st)) = bs_open st"
  using delete_rows_frame(3) [of bad rid st]
  by (cases "delete_rows bad rid st") (auto simp: blob_delete_def split: sum.split option.split)

lemma put_rows_open: "bs_open (snd (put_rows bad now h len a found st)) = bs_open st"
  by (simp add: put_rows_def insert_ref_def Let_def commit_def split: prod.split)

lemma put_open [simp]: "bs_open (snd (blob_put sha bad io now data a st)) = bs_open st"
proof (cases "write_blob_file io (sha data) data st")
  case (Pair w st1)
  then have "bs_open st1 = bs_open st" using write_file_frame(4) [of io "sha data" data st] by simp
  then show ?thesis
    by (simp add: blob_put_def put_locked_def Let_def Pair put_rows_open split: option.split sum.split)
qed

subsection \<open>Witnesses\<close>

text \<open>A digest that can be evaluated: the first 64 hexadecimal digits of the bytes.\<close>

definition hex_digit :: "nat \<Rightarrow> char" where
  "hex_digit n = ''0123456789abcdef'' ! (n mod 16)"

definition sample_digest :: digest where
  "sample_digest data =
     take 64 (concat (map (\<lambda>b. [hex_digit (b div 16), hex_digit b]) data) @ replicate 64 (CHR ''0''))"

lemma sample_digest_ok: "hex_digest sample_digest"
proof -
  have "hex_char (''0123456789abcdef'' ! n)" if "n < 16" for n
    unfolding hex_char_def by (rule nth_mem) (use that in simp)
  then have h: "hex_char (hex_digit n)" for n by (simp add: hex_digit_def)
  have "hex_char c" if "c \<in> set (concat (map (\<lambda>b. [hex_digit (b div 16), hex_digit b]) data) @ replicate 64 (CHR ''0''))" for c data
    using that h by (auto simp: hex_char_def [of "CHR ''0''"])
  then have "list_all hex_char (sample_digest data)" for data
    unfolding sample_digest_def list_all_iff by (meson in_set_takeD)
  moreover have "length (sample_digest data) = 64" for data by (simp add: sample_digest_def)
  ultimately show ?thesis by (simp add: hex_digest_def hex_name_def)
qed

definition sample_root :: fpath where
  "sample_root = [''srv'']"

lemma sample_root_ok: "list_all seg_ok sample_root"
  by (simp add: sample_root_def seg_ok_def)

definition sample_time :: "nat \<Rightarrow> utc" where
  "sample_time y = \<lparr>ut_year = y, ut_month = 1, ut_day = 2, ut_hour = 3, ut_min = 4, ut_sec = 5, ut_us = 0\<rparr>"

definition sample_args :: put_args where
  "sample_args = \<lparr>pa_mime = ''audio/ogg'', pa_source = ''telegram'', pa_filename = None,
     pa_platform_ref = None, pa_message_id = None\<rparr>"

abbreviation sample_blobs :: blob_store where
  "sample_blobs \<equiv> foldl (blob_step sample_digest) (fs_blob_store sample_root None) [B_Open]"

lemma sample_blobs_sel [simp]:
  "bs_open (blob_open (fs_blob_store base m))" "bs_max (blob_open (fs_blob_store base m)) = m"
  "bs_files (blob_open (fs_blob_store base m)) = []" "bs_db (blob_open (fs_blob_store base m)) = empty_manifest"
  "bs_committed (blob_open (fs_blob_store base m)) = empty_manifest" "bs_root (blob_open (fs_blob_store base m)) = base"
  "lookup_existing h (blob_open (fs_blob_store base m)) = None"
  by (simp_all add: blob_open_def fs_blob_store_def lookup_existing_def empty_manifest_def)

lemma sample_put:
  obtains ref st where "blob_put sample_digest None (Wrote 2) (sample_time 2026) [7, 8] sample_args sample_blobs = (Inr ref, st)"
    "br_id ref = Some 1" "mf_refs (bs_db st) = [(1, put_row (sample_digest [7, 8]) (sample_time 2026) sample_args)]"
    "bs_open st"
proof -
  have n: "sqlite_int (mf_next (bs_db (blob_open (fs_blob_store sample_root None))))"
    by (simp add: empty_manifest_def sqlite_int_def)
  obtain st1 where w: "write_blob_file (Wrote 2) (sample_digest [7, 8]) [7, 8] (blob_open (fs_blob_store sample_root None)) = (Inr (), st1)"
    by (simp add: write_blob_file_def Let_def)
  from put_new [where sha = sample_digest and data = "[7, 8]" and now = "sample_time 2026" and a = sample_args,
      OF sample_blobs_sel(1) _ sample_blobs_sel(7) w n] that
  show ?thesis by (auto simp: empty_manifest_def put_row_def)
qed

lemma stored_blob_stays_readable_witness:
  "\<exists>ref st d. blob_put sample_digest None (Wrote 2) (sample_time 2026) [7, 8] sample_args sample_blobs = (Inr ref, st) \<and>
     blob_get [] (br_store_key ref) (foldl (blob_step sample_digest) st
       [B_Put None (Wrote 2) (sample_time 2027) [7, 8] sample_args, B_Delete [] (Some 3) None 2,
        B_Delete_Crash 2, B_Open]) = Inr d \<and> sample_digest d = sample_digest [7, 8]"
proof -
  obtain ref st where p: "blob_put sample_digest None (Wrote 2) (sample_time 2026) [7, 8] sample_args sample_blobs = (Inr ref, st)"
    "br_id ref = Some 1" by (rule sample_put)
  from stored_blob_stays_readable [OF sample_digest_ok sample_root_ok _ _ _ p(1,2),
      of "[B_Put None (Wrote 2) (sample_time 2027) [7, 8] sample_args, B_Delete [] (Some 3) None 2, B_Delete_Crash 2, B_Open]"] p(1)
  show ?thesis by (simp add: blob_open_def)
qed

lemma torn_write_served_witness:
  "\<exists>ref st. blob_put sample_digest None (Wrote 1) (sample_time 2026) [7, 8] sample_args sample_blobs = (Inr ref, st) \<and>
     br_size ref = 2 \<and> blob_get [] (br_store_key ref) st = Inr [7]"
proof -
  have "root_ok (blob_open (fs_blob_store sample_root None))" using sample_root_ok by (simp add: root_ok_def)
  moreover have "sqlite_int (mf_next (bs_db (blob_open (fs_blob_store sample_root None))))"
    by (simp add: empty_manifest_def sqlite_int_def)
  ultimately show ?thesis
    using torn_write_served [where sha = sample_digest and st = "blob_open (fs_blob_store sample_root None)" and data = "[7, 8]"
        and n = 1 and now = "sample_time 2026" and a = sample_args and cwd = "[]"] sample_digest_ok
    by auto
qed

lemma blob_store_refines_references_witness:
  "blob_get [] (path_str (blob_path sample_root (sample_digest [7, 8])))
     (foldl (blob_step sample_digest) (fs_blob_store sample_root None)
       [B_Open, B_Put None (Wrote 2) (sample_time 2026) [7, 8] sample_args,
        B_Put None (Wrote 2) (sample_time 2027) [7, 8] sample_args, B_Delete [] None None 1]) = Inr [7, 8]"
proof -
  let ?ops = "[B_Open, B_Put None (Wrote 2) (sample_time 2026) [7, 8] sample_args,
    B_Put None (Wrote 2) (sample_time 2027) [7, 8] sample_args, B_Delete [] None None 1]"
  have c: "list_all clean ?ops" "length ?ops < 2 ^ 63" by (simp_all add: sqlite_int_def)
  have hex: "hex_name (sample_digest [7, 8])" using sample_digest_ok by (simp add: hex_digest_def)
  have spec: "spec_content (sample_digest [7, 8]) (foldl (spec_step sample_digest) (ref_spec_init None) ?ops) = Some [7, 8]"
    by (simp add: ref_spec_init_def fits_def spec_content_def put_row_def)
  note r = blob_store_refines_references [OF sample_digest_ok sample_root_ok c, of None]
  let ?st = "foldl (blob_step sample_digest) (fs_blob_store sample_root None) ?ops"
  have "bs_open ?st = sp_open (spec_of ?st)" by (simp only: spec_of_def ref_spec.select_convs)
  also have "\<dots>" unfolding conjunct1 [OF r] by (simp add: ref_spec_init_def fits_def)
  finally have "blob_get [] (path_str (blob_path sample_root (sample_digest [7, 8]))) ?st =
    (case spec_content (sample_digest [7, 8]) (foldl (spec_step sample_digest) (ref_spec_init None) ?ops) of
       None \<Rightarrow> Inl Blob_Not_Found | Some d \<Rightarrow> Inr d)"
    using conjunct2 [OF r] hex by blast
  then show ?thesis unfolding spec option.case .
qed

lemma year_less: "ut_year a < ut_year b \<Longrightarrow> ut_year b < 10000 \<Longrightarrow> isoformat a < isoformat b"
  using field_less [of "ut_year a" 4 "ut_year b"] unfolding isoformat_def by simp

lemma sweep_deletes_stale_witness:
  "\<exists>ref st k st'. blob_put sample_digest None (Wrote 2) (sample_time 2026) [7, 8] sample_args sample_blobs = (Inr ref, st) \<and>
     sweep_older_than [] (\<lambda>_. None) (sample_time 2027) [''soul''] st = (Inr (1, k), st') \<and> mf_refs (bs_db st') = []"
proof -
  obtain ref st where p: "blob_put sample_digest None (Wrote 2) (sample_time 2026) [7, 8] sample_args sample_blobs = (Inr ref, st)"
    "mf_refs (bs_db st) = [(1, put_row (sample_digest [7, 8]) (sample_time 2026) sample_args)]" "bs_open st" by (rule sample_put)
  have "tidy sample_digest (blob_open (fs_blob_store sample_root None))"
    using clean_step [OF sample_digest_ok tidy_init [OF sample_root_ok], of B_Open None]
    by (simp add: fs_blob_store_def empty_manifest_def)
  from put_tidy [OF sample_digest_ok this, of "[7, 8]" 2 "sample_time 2026" sample_args]
  have t: "tidy sample_digest st"
    using p(1) by (simp add: fits_def empty_manifest_def sqlite_int_def)
  have "isoformat (sample_time 2026) < isoformat (sample_time 2027)"
    by (rule year_less) (simp_all add: sample_time_def)
  then have "stale (sample_time 2027) [''soul''] (put_row (sample_digest [7, 8]) (sample_time 2026) sample_args)"
    by (simp add: stale_def put_row_def sample_args_def)
  with sweep_deletes_stale [OF t p(3), of "\<lambda>_. None" "[]" "sample_time 2027" "[''soul'']"] p
  show ?thesis by auto
qed

end
