(* ===== verification/Blob_Service.thy ===== *)
theory Blob_Service
  imports Blob_Store Sql_Table
begin

text \<open>
  The HTTP service in front of the blob store (src/factory/blobstore): the bearer check, the wire keys
  \<open>sha256:<hex>\<close>, the four handlers with their audit events, the sink the events go to, and the
  sweep command's window.

  Routing and the server are third-party: a request is its method, its path and the headers the handlers
  read, and \<open>blob_service\<close> is the route table. What the disk, SQLite and the event bus do
  during a request is its \<open>service_env\<close>. \<open>R_Crash\<close> is an exception that leaves the
  handler.
\<close>

subsection \<open>Audit events\<close>

record blob_audit_event =
  ae_op :: string
  ae_result :: string
  ae_key :: "string option"
  ae_hash :: "string option"

record audit_sink =
  as_stream :: bool
  as_degraded :: bool
  as_published :: "(string \<times> blob_audit_event) list"
  as_logged :: "(string \<times> blob_audit_event) list"

definition audit_sink_init :: audit_sink where
  "audit_sink_init = \<lparr>as_stream = False, as_degraded = False, as_published = [], as_logged = []\<rparr>"

text \<open>\<open>provision\<close>: \<open>account_ok\<close> is whether the stream answers.\<close>

definition provision :: "bool \<Rightarrow> audit_sink \<Rightarrow> audit_sink" where
  "provision account_ok sink = sink\<lparr>as_stream := True, as_degraded := as_degraded sink \<or> \<not> account_ok\<rparr>"

definition subject_for :: "string \<Rightarrow> string" where
  "subject_for op = ''factory.audit.blobs.'' @ op"

definition sink_emit :: "bool \<Rightarrow> blob_audit_event \<Rightarrow> audit_sink \<Rightarrow> audit_sink" where
  "sink_emit published ev sink =
     (let line = (subject_for (ae_op ev), ev)
      in if as_degraded sink \<or> \<not> as_stream sink then sink\<lparr>as_logged := as_logged sink @ [line]\<rparr>
         else if published then sink\<lparr>as_published := as_published sink @ [line]\<rparr>
         else sink\<lparr>as_degraded := True, as_logged := as_logged sink @ [line]\<rparr>)"

subsection \<open>Requests\<close>

record http_request =
  hr_method :: string
  hr_path :: string
  hr_auth :: "string option"
  hr_source :: "string option"
  hr_platform_ref :: "string option"
  hr_message_id :: "string option"
  hr_filename :: "string option"
  hr_content_type :: "string option"
  hr_body :: bytes

datatype http_response =
    R_Detail nat string
  | R_Created blob_ref string
  | R_Bytes bytes
  | R_Status nat
  | R_Public
  | R_Unrouted
  | R_Crash

record service_env =
  se_sha :: digest
  se_now :: utc
  se_io :: file_io
  se_store_fault :: "nat option"
  se_lookup_fault :: bool
  se_check_fault :: bool
  se_unlink_fault :: "string option"
  se_published :: bool
  se_cwd :: fpath

record blob_app =
  ba_store :: blob_store
  ba_sink :: audit_sink

definition emit_audit :: "service_env \<Rightarrow> string \<Rightarrow> string \<Rightarrow> string option \<Rightarrow> string option \<Rightarrow> blob_app \<Rightarrow> blob_app" where
  "emit_audit env op outcome key h app =
     app\<lparr>ba_sink := sink_emit (se_published env)
        \<lparr>ae_op = op, ae_result = outcome, ae_key = key, ae_hash = h\<rparr> (ba_sink app)\<rparr>"

text \<open>\<open>_http_guard\<close>: what a handler raised becomes a response and an event.\<close>

definition http_guard ::
    "service_env \<Rightarrow> string \<Rightarrow> string option \<Rightarrow> (blob_error + http_response) \<times> blob_app \<Rightarrow> http_response \<times> blob_app" where
  "http_guard env op key res =
     (case res of
        (Inr r, app) \<Rightarrow> (r, app)
      | (Inl e, app) \<Rightarrow>
          if e = Blob_Not_Found
          then (R_Detail 404 ''blob not found'', emit_audit env op ''not_found'' key None app)
          else if is_write_error e
          then (R_Detail 500 ''blob write failed'', emit_audit env op ''write_failed'' key None app)
          else (R_Detail 500 ''internal error'', emit_audit env op ''internal_error'' key None app))"

subsection \<open>Wire keys\<close>

definition wire_prefix :: string where
  "wire_prefix = ''sha256:''"

definition remove_prefix :: "string \<Rightarrow> string \<Rightarrow> string" where
  "remove_prefix p s = (if startswith p s then drop (length p) s else s)"

definition resolve_wire_key :: "bool \<Rightarrow> string \<Rightarrow> blob_store \<Rightarrow> blob_error + string" where
  "resolve_wire_key fault key st =
     (if \<not> startswith wire_prefix key then Inr key
      else if \<not> bs_open st then Inl Blob_State
      else if fault then Inl Raw_Sqlite_Error
      else (case map_of (mf_blobs (bs_db st)) (drop (length wire_prefix) key) of
              None \<Rightarrow> Inl Blob_Not_Found
            | Some b \<Rightarrow> Inr (bl_path b)))"

definition resolve_delete_key :: "string \<Rightarrow> blob_store \<Rightarrow> int option" where
  "resolve_delete_key key st =
     map_option fst
       (if startswith wire_prefix key then latest (refs_of (remove_prefix wire_prefix key) (bs_db st))
        else latest (filter (\<lambda>(_, r). map_option bl_path (map_of (mf_blobs (bs_db st)) (rf_hash r)) = Some key)
               (mf_refs (bs_db st))))"

text \<open>\<open>re.match("^\d+$", key)\<close>, which lets a newline at the end pass, and \<open>int(key)\<close>.\<close>

definition is_digit :: "char \<Rightarrow> bool" where
  "is_digit c \<longleftrightarrow> CHR ''0'' \<le> c \<and> c \<le> CHR ''9''"

definition int_key :: "string \<Rightarrow> string option" where
  "int_key key =
     (let s = (if key \<noteq> [] \<and> last key = CHR 0x0A then butlast key else key)
      in if s \<noteq> [] \<and> list_all is_digit s then Some s else None)"

definition digits_value :: "string \<Rightarrow> int" where
  "digits_value s = foldl (\<lambda>n c. n * 10 + (of_char c - 48)) 0 s"

definition int_max_digits :: nat where
  "int_max_digits = 4300"

subsection \<open>Handlers\<close>

definition default_mime :: string where
  "default_mime = ''application/octet-stream''"

definition mime_of :: "string option \<Rightarrow> string" where
  "mime_of content_type =
     (let raw = (case content_type of None \<Rightarrow> default_mime | Some c \<Rightarrow> c);
          base = py_strip (hd (py_split (CHR '';'') raw))
      in if base = [] then default_mime else base)"

definition handle_put :: "service_env \<Rightarrow> http_request \<Rightarrow> blob_app \<Rightarrow> http_response \<times> blob_app" where
  "handle_put env req app =
     (case hr_source req of
        None \<Rightarrow> (R_Detail 400 ''X-Blob-Source header is required'', app)
      | Some source \<Rightarrow>
          if source = [] then (R_Detail 400 ''X-Blob-Source header is required'', app)
          else
            http_guard env ''put'' None
              (case blob_put (se_sha env) (se_store_fault env) (se_io env) (se_now env) (hr_body req)
                      \<lparr>pa_mime = mime_of (hr_content_type req), pa_source = source, pa_filename = hr_filename req,
                       pa_platform_ref = hr_platform_ref req, pa_message_id = hr_message_id req\<rparr> (ba_store app) of
                 (Inl e, st) \<Rightarrow> (Inl e, app\<lparr>ba_store := st\<rparr>)
               | (Inr ref, st) \<Rightarrow>
                   (Inr (R_Created ref (wire_prefix @ br_hash ref)),
                    emit_audit env ''put'' ''ok'' (Some (wire_prefix @ br_hash ref)) None (app\<lparr>ba_store := st\<rparr>))))"

definition handle_get :: "service_env \<Rightarrow> string \<Rightarrow> blob_app \<Rightarrow> http_response \<times> blob_app" where
  "handle_get env key app =
     http_guard env ''get'' (Some key)
       (case resolve_wire_key (se_lookup_fault env) key (ba_store app) of
          Inl e \<Rightarrow> (Inl e, app)
        | Inr path \<Rightarrow>
            (case blob_get (se_cwd env) path (ba_store app) of
               Inl e \<Rightarrow> (Inl e, app)
             | Inr data \<Rightarrow> (Inr (R_Bytes data), emit_audit env ''get'' ''ok'' (Some key) None app)))"

definition handle_head :: "service_env \<Rightarrow> string \<Rightarrow> blob_app \<Rightarrow> http_response \<times> blob_app" where
  "handle_head env key app =
     (let st = ba_store app; blobs = mf_blobs (bs_db st)
      in if \<not> bs_open st then (R_Detail 500 ''internal error'', app)
         else if se_lookup_fault env
         then (R_Detail 500 ''internal error'', emit_audit env ''exists'' ''internal_error'' (Some key) None app)
         else
           (case (case find_row (\<lambda>_ b. bl_path b = key) blobs of
                    Some (h, _) \<Rightarrow> Some h
                  | None \<Rightarrow> map_option (\<lambda>_. remove_prefix wire_prefix key)
                              (map_of blobs (remove_prefix wire_prefix key))) of
              None \<Rightarrow> (R_Status 404, emit_audit env ''exists'' ''not_found'' (Some key) None app)
            | Some h \<Rightarrow> (R_Status 200, emit_audit env ''exists'' ''ok'' (Some key) (Some h) app)))"

definition delete_checked :: "service_env \<Rightarrow> string \<Rightarrow> int \<Rightarrow> blob_app \<Rightarrow> http_response \<times> blob_app" where
  "delete_checked env key rid app =
     (let st = ba_store app
      in if \<not> bs_open st then (R_Detail 500 ''internal error'', app)
         else if \<not> sqlite_int rid then (R_Crash, app)
         else if se_check_fault env
         then (R_Detail 500 ''internal error'', emit_audit env ''delete'' ''internal_error'' (Some key) None app)
         else if map_of (mf_refs (bs_db st)) rid = None
         then (R_Detail 404 ''blob not found'', emit_audit env ''delete'' ''not_found'' (Some key) None app)
         else
           http_guard env ''delete'' (Some key)
             (case blob_delete (se_cwd env) (se_store_fault env) (se_unlink_fault env) rid st of
                (Inl e, st1) \<Rightarrow> (Inl e, app\<lparr>ba_store := st1\<rparr>)
              | (Inr _, st1) \<Rightarrow>
                  (Inr (R_Status 204), emit_audit env ''delete'' ''ok'' (Some key) None (app\<lparr>ba_store := st1\<rparr>))))"

definition handle_delete :: "service_env \<Rightarrow> string \<Rightarrow> blob_app \<Rightarrow> http_response \<times> blob_app" where
  "handle_delete env key app =
     (case int_key key of
        Some digits \<Rightarrow>
          if length digits > int_max_digits then (R_Crash, app)
          else delete_checked env key (digits_value digits) app
      | None \<Rightarrow>
          if \<not> bs_open (ba_store app) then (R_Detail 500 ''internal error'', app)
          else if se_lookup_fault env
          then (R_Detail 500 ''internal error'', emit_audit env ''delete'' ''internal_error'' (Some key) None app)
          else
            (case resolve_delete_key key (ba_store app) of
               None \<Rightarrow> (R_Detail 404 ''blob not found'', emit_audit env ''delete'' ''not_found'' (Some key) None app)
             | Some rid \<Rightarrow> delete_checked env key rid app))"

subsection \<open>The bearer check and the routes\<close>

definition auth_allowlist :: "string list" where
  "auth_allowlist = [''/healthz'', ''/metrics'']"

definition blobs_prefix :: string where
  "blobs_prefix = ''/blobs/''"

definition upper_char :: "char \<Rightarrow> char" where
  "upper_char c = (if CHR ''a'' \<le> c \<and> c \<le> CHR ''z'' then char_of ((of_char c :: nat) - 32) else c)"

definition op_from_request :: "string \<Rightarrow> string" where
  "op_from_request request_method =
     (let m = map upper_char request_method
      in if m = ''PUT'' then ''put'' else if m = ''GET'' then ''get'' else if m = ''HEAD'' then ''exists''
         else if m = ''DELETE'' then ''delete'' else ''get'')"

definition store_key_from_path :: "string \<Rightarrow> string option" where
  "store_key_from_path path =
     (if startswith blobs_prefix path
      then (let rest = drop (length blobs_prefix) path in if rest = [] then None else Some rest) else None)"

definition bearer_prefix :: string where
  "bearer_prefix = ''Bearer ''"

definition bearer_ok :: "string \<Rightarrow> string option \<Rightarrow> bool" where
  "bearer_ok token auth =
     (let a = (case auth of None \<Rightarrow> [] | Some s \<Rightarrow> s)
      in startswith bearer_prefix a \<and> drop (length bearer_prefix) a = token)"

definition blob_routes :: "service_env \<Rightarrow> http_request \<Rightarrow> blob_app \<Rightarrow> http_response \<times> blob_app" where
  "blob_routes env req app =
     (if hr_path req \<in> set auth_allowlist then (R_Public, app)
      else if hr_method req = ''PUT'' \<and> hr_path req = ''/blobs'' then handle_put env req app
      else if startswith blobs_prefix (hr_path req)
      then
        (let key = drop (length blobs_prefix) (hr_path req)
         in if hr_method req = ''GET'' then handle_get env key app
            else if hr_method req = ''HEAD'' then handle_head env key app
            else if hr_method req = ''DELETE'' then handle_delete env key app
            else (R_Unrouted, app))
      else (R_Unrouted, app))"

definition blob_service :: "string \<Rightarrow> service_env \<Rightarrow> http_request \<Rightarrow> blob_app \<Rightarrow> http_response \<times> blob_app" where
  "blob_service token env req app =
     (if hr_path req \<in> set auth_allowlist \<or> bearer_ok token (hr_auth req) then blob_routes env req app
      else (R_Detail 401 ''unauthorized'',
            emit_audit env (op_from_request (hr_method req)) ''unauthorized''
              (store_key_from_path (hr_path req)) None app))"

subsection \<open>The sweep command\<close>

text \<open>\<open>re.match(r"^(\d+)(d|h)$", value.strip())\<close>; the factor is exact for the sizes a float holds.\<close>

definition parse_duration_secs :: "string \<Rightarrow> int option" where
  "parse_duration_secs value =
     (let s = py_strip value; amount = butlast s
      in if s = [] \<or> amount = [] \<or> \<not> list_all is_digit amount \<or> length amount > int_max_digits then None
         else if last s = CHR ''d'' then Some (digits_value amount * 86400)
         else if last s = CHR ''h'' then Some (digits_value amount * 3600)
         else None)"

definition min_sweep_days :: int where
  "min_sweep_days = 7"

text \<open>The age the command sweeps at, \<open>None\<close> where it exits with an error.\<close>

definition sweep_window :: "string \<Rightarrow> int option" where
  "sweep_window older_than = (case parse_duration_secs older_than of
     None \<Rightarrow> None
   | Some secs \<Rightarrow> if secs < min_sweep_days * 86400 then None else Some secs)"

subsection \<open>What requests do to the store\<close>

lemma emit_audit_store [simp]: "ba_store (emit_audit env op r k h app) = ba_store app"
  by (simp add: emit_audit_def)

lemma guard_store [simp]: "ba_store (snd (http_guard env op key res)) = ba_store (snd res)"
  by (cases res) (simp add: http_guard_def split: sum.split)

definition request_args :: "http_request \<Rightarrow> put_args" where
  "request_args req = \<lparr>pa_mime = mime_of (hr_content_type req),
     pa_source = (case hr_source req of None \<Rightarrow> [] | Some s \<Rightarrow> s), pa_filename = hr_filename req,
     pa_platform_ref = hr_platform_ref req, pa_message_id = hr_message_id req\<rparr>"

lemma put_store:
  "ba_store (snd (handle_put env req app)) = ba_store app \<or>
   ba_store (snd (handle_put env req app)) =
     snd (blob_put (se_sha env) (se_store_fault env) (se_io env) (se_now env) (hr_body req) (request_args req) (ba_store app))"
  by (auto simp: handle_put_def request_args_def split: option.split sum.split prod.split)

lemma get_store [simp]: "ba_store (snd (handle_get env key app)) = ba_store app"
  by (simp add: handle_get_def split: sum.split)

lemma head_store [simp]: "ba_store (snd (handle_head env key app)) = ba_store app"
  by (simp add: handle_head_def Let_def split: option.split prod.split)

lemma delete_store:
  "ba_store (snd (handle_delete env key app)) = ba_store app \<or>
   (\<exists>rid. ba_store (snd (handle_delete env key app)) =
      snd (blob_delete (se_cwd env) (se_store_fault env) (se_unlink_fault env) rid (ba_store app)))"
proof -
  have "ba_store (snd (delete_checked env key rid app)) = ba_store app \<or>
    ba_store (snd (delete_checked env key rid app)) =
      snd (blob_delete (se_cwd env) (se_store_fault env) (se_unlink_fault env) rid (ba_store app))" for rid
    by (auto simp: delete_checked_def Let_def split: sum.split prod.split)
  then show ?thesis by (auto simp: handle_delete_def split: option.split)
qed

lemma service_cases:
  fixes env :: service_env
  obtains "fst (blob_service token env req app) \<in> {R_Detail 401 ''unauthorized'', R_Public, R_Unrouted}"
    "ba_store (snd (blob_service token env req app)) = ba_store app"
  | "blob_service token env req app = handle_put env req app"
  | key where "blob_service token env req app = handle_get env key app"
  | key where "blob_service token env req app = handle_head env key app"
  | key where "hr_method req = ''DELETE''" "blob_service token env req app = handle_delete env key app"
proof (cases "bearer_ok token (hr_auth req) \<and> hr_path req \<notin> set auth_allowlist")
  case False
  then show ?thesis by (intro that(1)) (auto simp: blob_service_def blob_routes_def)
next
  case True
  then have s: "blob_service token env req app = blob_routes env req app" by (simp add: blob_service_def)
  define key where "key = drop (length blobs_prefix) (hr_path req)"
  consider "blob_routes env req app = handle_put env req app" | "blob_routes env req app = handle_get env key app"
    | "blob_routes env req app = handle_head env key app"
    | "hr_method req = ''DELETE''" "blob_routes env req app = handle_delete env key app"
    | "blob_routes env req app = (R_Unrouted, app)"
    using True unfolding blob_routes_def Let_def key_def by presburger
  then show ?thesis
    by cases (use s that in simp_all)
qed

lemma service_store:
  obtains "ba_store (snd (blob_service token env req app)) = ba_store app"
  | "ba_store (snd (blob_service token env req app)) =
      snd (blob_put (se_sha env) (se_store_fault env) (se_io env) (se_now env) (hr_body req) (request_args req) (ba_store app))"
  | rid where "hr_method req = ''DELETE''" "ba_store (snd (blob_service token env req app)) =
      snd (blob_delete (se_cwd env) (se_store_fault env) (se_unlink_fault env) rid (ba_store app))"
proof (cases rule: service_cases [of token env req app])
  case 2
  then show ?thesis using put_store [of env req app] that(1,2) by auto
next
  case (5 key)
  then show ?thesis using delete_store [of env key app] that(1,3) by auto
qed (use that(1) in simp_all)

type_synonym traffic = "service_env \<times> http_request"

definition service_step :: "string \<Rightarrow> blob_app \<Rightarrow> traffic \<Rightarrow> blob_app" where
  "service_step token app er = snd (blob_service token (fst er) (snd er) app)"

definition whole_write :: "digest \<Rightarrow> traffic \<Rightarrow> bool" where
  "whole_write sha er \<longleftrightarrow> se_sha (fst er) = sha \<and>
     (case se_io (fst er) of Wrote n \<Rightarrow> length (hr_body (snd er)) \<le> n | _ \<Rightarrow> True)"

definition no_delete :: "int \<Rightarrow> blob_ref_row \<Rightarrow> traffic \<Rightarrow> bool" where
  "no_delete rid row er \<longleftrightarrow> hr_method (snd er) \<noteq> ''DELETE''"

lemma service_ok:
  assumes "blob_ok sha (ba_store app)" "whole_write sha er"
  shows "blob_ok sha (ba_store (service_step token app er))"
  using assms unfolding service_step_def blob_ok_def whole_write_def
  by (cases rule: service_store [of token "fst er" "snd er" app]) (auto simp: put_safe delete_safe)

lemma service_holds:
  assumes "no_delete rid row er" "holds_ref (ba_store app) rid row"
  shows "holds_ref (ba_store (service_step token app er)) rid row"
  using assms unfolding service_step_def no_delete_def
  by (cases rule: service_store [of token "fst er" "snd er" app]) (auto simp: holds_put)

interpretation http_refs: ref_store "\<lambda>app. blob_ok sha (ba_store app)" "service_step token" "whole_write sha"
  "\<lambda>app. holds_ref (ba_store app)" no_delete "\<lambda>app. content_readable sha (ba_store app)"
  for sha :: digest and token :: string
  by unfold_locales (simp_all add: service_ok service_holds, simp add: blob_ok_def held_readable)

lemma held_blob:
  assumes "blob_safe sha st" "holds_ref st rid row"
  shows "\<exists>b. map_of (mf_blobs (bs_db st)) (rf_hash row) = Some b \<and> bl_path b = path_str (blob_path (bs_root st) (rf_hash row))"
proof -
  have v: "view_ok sha st (bs_db st)" using assms(1) by (simp add: blob_safe_def)
  have "(rid, row) \<in> set (mf_refs (bs_db st))" using assms(2) by (auto simp: holds_ref_def dest: map_of_SomeD)
  then have "rf_hash row \<in> fst ` set (mf_blobs (bs_db st))" using v unfolding view_ok_def by (metis snd_conv)
  then obtain b where b: "map_of (mf_blobs (bs_db st)) (rf_hash row) = Some b"
    by (metis map_of_eq_None_iff not_Some_eq)
  then show ?thesis using v map_of_SomeD [OF b] by (fastforce simp: view_ok_def)
qed

lemma not_public: "blobs_prefix @ key \<notin> set auth_allowlist" "blobs_prefix @ key \<noteq> ''/blobs''"
  by (simp_all add: blobs_prefix_def auth_allowlist_def)

lemma run_open:
  "bs_open (ba_store app) \<Longrightarrow> bs_open (ba_store (foldl (service_step token) app ers))"
proof (induction ers arbitrary: app)
  case (Cons er ers)
  have "bs_open (ba_store (service_step token app er)) = bs_open (ba_store app)"
    unfolding service_step_def by (cases rule: service_store [of token "fst er" "snd er" app]) auto
  with Cons show ?case by simp
qed simp

lemma service_run_root: "bs_root (ba_store (foldl (service_step token) app ers)) = bs_root (ba_store app)"
proof (induction ers arbitrary: app)
  case (Cons er ers)
  have r: "bs_root (snd (blob_put sha bad io now data a st)) = bs_root st" for sha bad io now data a st
    using step_root [of sha st "B_Put bad io now data a"] by simp
  have d: "bs_root (snd (blob_delete cwd bad u rid st)) = bs_root st" for cwd bad u rid st
    using step_root [of undefined st "B_Delete cwd bad u rid"] by simp
  have "bs_root (ba_store (service_step token app er)) = bs_root (ba_store app)"
    unfolding service_step_def by (cases rule: service_store [of token "fst er" "snd er" app]) (auto simp: r d)
  with Cons show ?case by simp
qed simp

lemma created_put:
  assumes "blob_service token env req app = (R_Created ref key, app')"
  shows "blob_put (se_sha env) (se_store_fault env) (se_io env) (se_now env) (hr_body req) (request_args req) (ba_store app) =
      (Inr ref, ba_store app') \<and> key = wire_prefix @ br_hash ref"
proof -
  have g: "fst (http_guard env op k res) = R_Created ref key \<longleftrightarrow> fst res = Inr (R_Created ref key)" for op k res
    by (cases res) (auto simp: http_guard_def split: sum.splits if_splits)
  have no_get: "fst (handle_get env k app) \<noteq> R_Created ref key" for k
    by (simp add: handle_get_def g split: sum.split)
  have no_head: "fst (handle_head env k app) \<noteq> R_Created ref key" for k
    by (simp add: handle_head_def Let_def split: option.split prod.split)
  have no_check: "fst (delete_checked env k rid app) \<noteq> R_Created ref key" for k rid
    by (simp add: delete_checked_def Let_def g split: sum.split prod.split)
  then have no_delete: "fst (handle_delete env k app) \<noteq> R_Created ref key" for k
    by (simp add: handle_delete_def split: option.split)
  have "blob_service token env req app = handle_put env req app"
    by (cases rule: service_cases [of token env req app]) (use assms no_get no_head no_delete in \<open>simp_all, (metis fst_conv)+\<close>)
  with assms have put: "handle_put env req app = (R_Created ref key, app')" by simp
  then obtain source where s: "hr_source req = Some source" "source \<noteq> []"
    by (auto simp: handle_put_def split: option.splits if_splits)
  then show ?thesis
    using put
    by (cases "blob_put (se_sha env) (se_store_fault env) (se_io env) (se_now env) (hr_body req) (request_args req) (ba_store app)")
       (auto simp: handle_put_def request_args_def http_guard_def split: sum.splits if_splits)
qed


lemma sink_emit_once:
  "length (as_published (sink_emit p ev s)) + length (as_logged (sink_emit p ev s)) =
   Suc (length (as_published s) + length (as_logged s))"
  by (simp add: sink_emit_def Let_def)

lemma degraded_sink_stays:
  assumes "as_degraded s"
  shows "as_degraded (sink_emit p ev s) \<and> as_published (sink_emit p ev s) = as_published s"
  using assms by (simp add: sink_emit_def Let_def)

text \<open>
  C24: without the exact bearer token a request outside the health routes is answered 401, leaves the store
  alone, and is reported to the audit sink once, published or logged, under its operation.
\<close>

theorem blob_service_needs_token:
  assumes "hr_auth req \<noteq> Some (bearer_prefix @ token)" "hr_path req \<notin> set auth_allowlist"
  shows "fst (blob_service token env req app) = R_Detail 401 ''unauthorized'' \<and>
    ba_store (snd (blob_service token env req app)) = ba_store app \<and>
    ba_sink (snd (blob_service token env req app)) =
      sink_emit (se_published env) \<lparr>ae_op = op_from_request (hr_method req), ae_result = ''unauthorized'',
        ae_key = store_key_from_path (hr_path req), ae_hash = None\<rparr> (ba_sink app) \<and>
    length (as_published (ba_sink (snd (blob_service token env req app)))) +
      length (as_logged (ba_sink (snd (blob_service token env req app)))) =
      Suc (length (as_published (ba_sink app)) + length (as_logged (ba_sink app)))"
proof -
  have "\<not> bearer_ok token (hr_auth req)"
  proof
    assume "bearer_ok token (hr_auth req)"
    then have "startswith bearer_prefix (case hr_auth req of None \<Rightarrow> [] | Some s \<Rightarrow> s)"
      "drop (length bearer_prefix) (case hr_auth req of None \<Rightarrow> [] | Some s \<Rightarrow> s) = token"
      by (simp_all add: bearer_ok_def Let_def)
    then obtain s where "hr_auth req = Some s" "startswith bearer_prefix s" "drop (length bearer_prefix) s = token"
      by (cases "hr_auth req") (simp_all add: startswith_def bearer_prefix_def)
    then show False using assms(1) by (metis append_take_drop_id startswith_def)
  qed
  then show ?thesis
    using assms(2) sink_emit_once by (simp add: blob_service_def emit_audit_def)
qed

lemma sweep_window_week: "sweep_window s = Some secs \<Longrightarrow> 604800 \<le> secs"
  by (auto simp: sweep_window_def min_sweep_days_def split: option.splits if_splits)

text \<open>A delete by wire key takes the latest reference to the content, whoever made it.\<close>

lemma wire_delete_takes_latest:
  "resolve_delete_key (wire_prefix @ h) st = map_option fst (latest (refs_of h (bs_db st)))"
  by (simp add: resolve_delete_key_def remove_prefix_def)

text \<open>A row number past SQLite's integers escapes the handler, where other unknown rows are answered 404.\<close>

lemma huge_row_crashes:
  "bs_open (ba_store app) \<Longrightarrow> handle_delete env (''9223372036854775808'') app = (R_Crash, app)"
  by (simp add: handle_delete_def int_key_def is_digit_def int_max_digits_def digits_value_def delete_checked_def
      sqlite_int_def)

subsection \<open>Witnesses\<close>

definition sample_service_env :: service_env where
  "sample_service_env = \<lparr>se_sha = sample_digest, se_now = sample_time 2026, se_io = Wrote 2, se_store_fault = None,
     se_lookup_fault = False, se_check_fault = False, se_unlink_fault = None, se_published = True, se_cwd = []\<rparr>"

definition sample_request :: http_request where
  "sample_request = \<lparr>hr_method = ''PUT'', hr_path = ''/blobs'', hr_auth = Some ''Bearer key'', hr_source = Some ''telegram'',
     hr_platform_ref = None, hr_message_id = None, hr_filename = None, hr_content_type = Some ''audio/ogg; q=1'',
     hr_body = [7, 8]\<rparr>"

definition sample_app :: blob_app where
  "sample_app = \<lparr>ba_store = blob_open (fs_blob_store sample_root None), ba_sink = audit_sink_init\<rparr>"

lemma sample_app_ok: "blob_ok sample_digest (ba_store sample_app)"
  using sample_digest_ok blob_safe_open [OF blob_safe_init [OF sample_root_ok]] by (simp add: blob_ok_def sample_app_def)

lemma sample_upload:
  obtains ref key app1 where "blob_service ''key'' sample_service_env sample_request sample_app = (R_Created ref key, app1)"
proof -
  have n: "sqlite_int (mf_next (bs_db (blob_open (fs_blob_store sample_root None))))"
    by (simp add: empty_manifest_def sqlite_int_def)
  obtain st1 where w: "write_blob_file (Wrote 2) (sample_digest [7, 8]) [7, 8] (blob_open (fs_blob_store sample_root None)) = (Inr (), st1)"
    by (simp add: write_blob_file_def Let_def)
  have "\<exists>ref st. blob_put sample_digest None (Wrote 2) (sample_time 2026) [7, 8] a (blob_open (fs_blob_store sample_root None)) = (Inr ref, st)" for a
    using put_new [where sha = sample_digest and data = "[7, 8]" and now = "sample_time 2026" and a = a,
      OF sample_blobs_sel(1) _ sample_blobs_sel(7) w n] by auto
  then obtain ref st where p: "blob_put sample_digest None (Wrote 2) (sample_time 2026) [7, 8]
      \<lparr>pa_mime = mime_of (Some ''audio/ogg; q=1''), pa_source = ''telegram'', pa_filename = None,
       pa_platform_ref = None, pa_message_id = None\<rparr> (blob_open (fs_blob_store sample_root None)) = (Inr ref, st)"
    by blast
  have "blob_service ''key'' sample_service_env sample_request sample_app = handle_put sample_service_env sample_request sample_app"
    by (simp add: blob_service_def blob_routes_def bearer_ok_def bearer_prefix_def startswith_def sample_request_def
        auth_allowlist_def)
  moreover have "\<exists>app1. handle_put sample_service_env sample_request sample_app =
      (R_Created ref (wire_prefix @ br_hash ref), app1)"
    by (simp add: handle_put_def sample_request_def sample_service_env_def sample_app_def p http_guard_def)
  ultimately show ?thesis using that by auto
qed


lemma blob_service_needs_token_witness:
  "fst (blob_service ''key'' sample_service_env (sample_request\<lparr>hr_auth := Some ''Bearer ke''\<rparr>) sample_app) =
     R_Detail 401 ''unauthorized''"
  using blob_service_needs_token [of "sample_request\<lparr>hr_auth := Some ''Bearer ke''\<rparr>" "''key''" sample_service_env sample_app]
  by (simp add: sample_request_def bearer_prefix_def auth_allowlist_def)

end
