(* ===== verification/Ingress_Events.thy ===== *)
theory Ingress_Events
  imports Cli_Parser
begin

text \<open>
  What the webhook ingress makes of a request's payload (src/factory/ingress/payload.py and normalize.py)
  and the event it puts on the bus (the event contract and its subjects).

  Python's \<open>str()\<close> of a JSON value is \<open>json_text\<close>; a number keeps the text \<open>repr\<close>
  gives it. \<open>ingress_env\<close> holds what a request meets outside this code: the HMAC, the JSON parser,
  the clock, the trace id of the context, the database's and the broker's outcomes, and the two checks of
  pydantic on text this code does not look at.
\<close>

datatype ingress_exn = Ex_Verification | Ex_Validation | Ex_Type | Ex_Value | Ex_Attribute | Ex_Unicode | Ex_Os | Ex_Store

subsection \<open>JSON values as text\<close>

fun ujoin :: "ustring \<Rightarrow> ustring list \<Rightarrow> ustring" where
  "ujoin sep [] = []"
| "ujoin sep [x] = x"
| "ujoin sep (x # y # zs) = x @ sep @ ujoin sep (y # zs)"

fun usplit :: "nat \<Rightarrow> ustring \<Rightarrow> ustring list" where
  "usplit c [] = [[]]"
| "usplit c (x # xs) =
     (if x = c then [] # usplit c xs
      else (case usplit c xs of [] \<Rightarrow> [[x]] | w # ws \<Rightarrow> (x # w) # ws))"

definition ureplace :: "nat \<Rightarrow> ustring \<Rightarrow> ustring \<Rightarrow> ustring" where
  "ureplace c new s = concat (map (\<lambda>x. if x = c then new else [x]) s)"

definition uendswith :: "ustring \<Rightarrow> ustring \<Rightarrow> bool" where
  "uendswith suf s \<longleftrightarrow> ustartswith (rev suf) (rev s)"

fun hex_fixed :: "nat \<Rightarrow> nat \<Rightarrow> ustring" where
  "hex_fixed 0 n = []"
| "hex_fixed (Suc k) n = hex_fixed k (n div 16) @ [if n mod 16 < 10 then 48 + n mod 16 else 87 + n mod 16]"

text \<open>\<open>repr\<close> of a string: single quotes unless only they occur in it, escapes for what does not print.\<close>

definition repr_char :: "unicode_db \<Rightarrow> nat \<Rightarrow> nat \<Rightarrow> ustring" where
  "repr_char ud quote c =
     (if c = quote \<or> c = 92 then [92, c]
      else if c = 9 then [92, 116] else if c = 10 then [92, 110] else if c = 13 then [92, 114]
      else if c < 32 \<or> c = 127 then [92, 120] @ hex_fixed 2 c
      else if c < 127 \<or> ud_printable ud c then [c]
      else if c < 0x100 then [92, 120] @ hex_fixed 2 c
      else if c < 0x10000 then [92, 117] @ hex_fixed 4 c
      else [92, 85] @ hex_fixed 8 c)"

definition repr_str :: "unicode_db \<Rightarrow> ustring \<Rightarrow> ustring" where
  "repr_str ud s =
     (let quote = if 39 \<in> set s \<and> 34 \<notin> set s then 34 else 39
      in [quote] @ concat (map (repr_char ud quote) s) @ [quote])"

primrec json_repr :: "unicode_db \<Rightarrow> json \<Rightarrow> ustring" where
  "json_repr ud JNull = ul ''None''"
| "json_repr ud (JBool b) = (if b then ul ''True'' else ul ''False'')"
| "json_repr ud (JInt n) = (if n < 0 then [45] else []) @ nat_digits (nat (abs n))"
| "json_repr ud (JFloat s) = ul s"
| "json_repr ud (JStr s) = repr_str ud s"
| "json_repr ud (JArr xs) = [91] @ ujoin (ul '', '') (map (json_repr ud) xs) @ [93]"
| "json_repr ud (JObj d) =
     [123] @ ujoin (ul '', '') (map (\<lambda>(k, r). repr_str ud k @ ul '': '' @ r)
                                     (map (map_prod id (json_repr ud)) d)) @ [125]"

definition json_text :: "unicode_db \<Rightarrow> json \<Rightarrow> ustring" where
  "json_text ud j = (case j of JStr s \<Rightarrow> s | _ \<Rightarrow> json_repr ud j)"

type_synonym jdict = "(ustring \<times> json) list"

definition jfield_or :: "json \<Rightarrow> jdict \<Rightarrow> string \<Rightarrow> json" where
  "jfield_or dflt d key = (case map_of d (ul key) of Some v \<Rightarrow> v | None \<Rightarrow> dflt)"

definition jfield :: "jdict \<Rightarrow> string \<Rightarrow> json" where
  "jfield d key = jfield_or JNull d key"

text \<open>\<open>node if isinstance(node, dict) else {}\<close> and \<open>out or None\<close>.\<close>

definition dict_of :: "json \<Rightarrow> jdict" where
  "dict_of j = (case j of JObj d \<Rightarrow> d | _ \<Rightarrow> [])"

definition is_dict :: "json \<Rightarrow> bool" where
  "is_dict j \<longleftrightarrow> (case j of JObj d \<Rightarrow> True | _ \<Rightarrow> False)"

definition is_text :: "json \<Rightarrow> bool" where
  "is_text j \<longleftrightarrow> (case j of JStr s \<Rightarrow> True | _ \<Rightarrow> False)"

definition dict_or_none :: "jdict \<Rightarrow> json" where
  "dict_or_none out = (if out = [] then JNull else JObj out)"

text \<open>\<open>for key in keys: if <ok>(node.get(key)): out[key] = node.get(key)\<close>\<close>

definition copy_fields :: "(json \<Rightarrow> bool) \<Rightarrow> string list \<Rightarrow> jdict \<Rightarrow> jdict \<Rightarrow> jdict" where
  "copy_fields keep keys d out =
     fold (\<lambda>key out. if keep (jfield d key) then AList.update (ul key) (jfield d key) out else out) keys out"

definition put :: "bool \<Rightarrow> string \<Rightarrow> json \<Rightarrow> jdict \<Rightarrow> jdict" where
  "put cond key v out = (if cond then AList.update (ul key) v out else out)"

subsection \<open>Payload summaries\<close>

definition id_name :: "jdict \<Rightarrow> jdict" where
  "id_name d = copy_fields is_text [''name'', ''conclusion'', ''status'']
     d (put (jfield d ''id'' \<noteq> JNull) ''id'' (jfield d ''id'') [])"

definition pr_numbers :: "json \<Rightarrow> json list" where
  "pr_numbers prs = (case prs of
       JArr xs \<Rightarrow> map (\<lambda>pr. jfield (dict_of pr) ''number'')
                   (filter (\<lambda>pr. is_dict pr \<and> jfield (dict_of pr) ''number'' \<noteq> JNull) xs)
     | _ \<Rightarrow> [])"

definition check_run_summary :: "json \<Rightarrow> json" where
  "check_run_summary node = (case node of
       JObj d \<Rightarrow>
         (let sha = jfield (dict_of (jfield d ''head'')) ''sha'';
              numbers = pr_numbers (jfield d ''pull_requests'');
              out = put (truthy sha) ''head_sha'' sha (id_name d)
          in dict_or_none (put (numbers \<noteq> []) ''pull_request_numbers'' (JArr numbers) out))
     | _ \<Rightarrow> JNull)"

definition workflow_run_summary :: "json \<Rightarrow> json" where
  "workflow_run_summary node = (case node of
       JObj d \<Rightarrow> dict_or_none (copy_fields is_text
         [''event'', ''head_branch'', ''head_sha'', ''conclusion'', ''status''] d (id_name d))
     | _ \<Rightarrow> JNull)"

definition payload_label_name :: "json \<Rightarrow> ustring option" where
  "payload_label_name label = (case label of
       JObj d \<Rightarrow> (case jfield d ''name'' of JStr s \<Rightarrow> Some s | _ \<Rightarrow> None) | _ \<Rightarrow> None)"

definition pr_label_names :: "json \<Rightarrow> json \<Rightarrow> ustring list" where
  "pr_label_names labels_raw event_label =
     (let labels = (case labels_raw of JArr xs \<Rightarrow> List.map_filter payload_label_name xs | _ \<Rightarrow> [])
      in case payload_label_name event_label of
           Some name \<Rightarrow> if name \<noteq> [] \<and> name \<notin> set labels then labels @ [name] else labels
         | None \<Rightarrow> labels)"

definition pull_request_summary :: "json \<Rightarrow> json \<Rightarrow> json" where
  "pull_request_summary node event_label = (case node of
       JObj d \<Rightarrow>
         (let head = dict_of (jfield d ''head''); sha = jfield head ''sha''; ref = jfield head ''ref'';
              labels = pr_label_names (jfield d ''labels'') event_label;
              out = copy_fields (\<lambda>v. v \<noteq> JNull) [''number'', ''title'', ''state'', ''merged'', ''html_url''] d [];
              out = put (truthy ref) ''head_ref'' ref (put (truthy sha) ''head_sha'' sha out)
          in dict_or_none (put (labels \<noteq> []) ''labels'' (JArr (map JStr labels)) out))
     | _ \<Rightarrow> JNull)"

text \<open>\<open>action in {"labeled", "unlabeled"}\<close>: a list or a dict is not hashable.\<close>

definition label_action :: "json \<Rightarrow> ingress_exn + bool" where
  "label_action action = (case action of
       JArr xs \<Rightarrow> Inl Ex_Type | JObj d \<Rightarrow> Inl Ex_Type
     | _ \<Rightarrow> Inr (action = JStr (ul ''labeled'') \<or> action = JStr (ul ''unlabeled'')))"

definition summarize_github_payload :: "jdict \<Rightarrow> ingress_exn + jdict" where
  "summarize_github_payload payload =
     (let action = jfield payload ''action''; label = jfield payload ''label''
      in case label_action action of
           Inl e \<Rightarrow> Inl e
         | Inr labelled \<Rightarrow> Inr (put (labelled \<and> is_dict label) ''label'' label
             [(ul ''action'', action),
              (ul ''repository'', jfield (dict_of (jfield payload ''repository'')) ''full_name''),
              (ul ''sender'', jfield (dict_of (jfield payload ''sender'')) ''login''),
              (ul ''check_run'', check_run_summary (jfield payload ''check_run'')),
              (ul ''workflow_run'', workflow_run_summary (jfield payload ''workflow_run'')),
              (ul ''pull_request'', pull_request_summary (jfield payload ''pull_request'')
                                     (if labelled then label else JNull))]))"

definition stripped_text :: "unicode_db \<Rightarrow> json \<Rightarrow> ustring" where
  "stripped_text ud j = (case j of JStr s \<Rightarrow> ustrip ud s | _ \<Rightarrow> [])"

definition copy_stripped :: "unicode_db \<Rightarrow> bool \<Rightarrow> string list \<Rightarrow> jdict \<Rightarrow> jdict \<Rightarrow> jdict" where
  "copy_stripped ud overwrite keys d out =
     fold (\<lambda>key out. put (stripped_text ud (jfield d key) \<noteq> [] \<and>
                            (overwrite \<or> map_of out (ul key) = None))
                        key (JStr (stripped_text ud (jfield d key))) out) keys out"

definition pages_deployment_summary :: "unicode_db \<Rightarrow> jdict \<Rightarrow> jdict \<Rightarrow> jdict" where
  "pages_deployment_summary ud data doc =
     copy_stripped ud False [''project_name'', ''project_id''] doc
       (copy_stripped ud True [''project_name'', ''project_id'', ''deployment_id'', ''environment'', ''url'',
                               ''branch'', ''deployment_status''] data [])"

definition summarize_cloudflare_payload :: "unicode_db \<Rightarrow> jdict \<Rightarrow> jdict" where
  "summarize_cloudflare_payload ud payload =
     (let data = dict_of (jfield payload ''data'');
          pages = pages_deployment_summary ud data payload
      in put (pages \<noteq> []) ''pages'' (JObj pages)
           (map (\<lambda>key. (ul key, jfield payload key))
              [''name'', ''text'', ''alert_type'', ''account_name'', ''policy_name'', ''account_id'']
            @ [(ul ''data'', JObj data)]))"

subsection \<open>Kinds, levels and messages\<close>

fun nested_str :: "json \<Rightarrow> string list \<Rightarrow> ustring option" where
  "nested_str node [] = (case node of JStr s \<Rightarrow> Some s | _ \<Rightarrow> None)"
| "nested_str node (key # keys) = (case node of JObj d \<Rightarrow> nested_str (jfield d key) keys | _ \<Rightarrow> None)"

definition github_event_kind :: "unicode_db \<Rightarrow> ustring \<Rightarrow> jdict \<Rightarrow> ustring" where
  "github_event_kind ud event_name payload =
     (let event = ureplace 45 [95] (ustrip ud event_name)
      in case jfield payload ''action'' of
           JStr a \<Rightarrow> if a \<noteq> [] then event @ [46] @ a else event
         | _ \<Rightarrow> event)"

datatype event_level = Lv_Debug | Lv_Info | Lv_Warn | Lv_Error | Lv_Critical

definition is_failure_kind :: "ustring \<Rightarrow> bool" where
  "is_failure_kind kind \<longleftrightarrow> uendswith (ul ''.failure'') kind"

definition github_event_level :: "ustring \<Rightarrow> jdict \<Rightarrow> event_level" where
  "github_event_level kind payload =
     (if nested_str (JObj payload) [''check_run'', ''conclusion''] = Some (ul ''failure'') \<or> is_failure_kind kind
      then Lv_Warn
      else if nested_str (JObj payload) [''workflow_run'', ''conclusion''] = Some (ul ''failure'') then Lv_Warn
      else Lv_Info)"

definition github_event_message :: "ustring \<Rightarrow> jdict \<Rightarrow> ustring" where
  "github_event_message kind payload =
     (case nested_str (JObj payload) [''repository'', ''full_name''] of
        Some repo \<Rightarrow> if repo \<noteq> [] then ul ''github '' @ kind @ ul '' ('' @ repo @ ul '')''
                      else ul ''github '' @ kind
      | None \<Rightarrow> ul ''github '' @ kind)"

fun first_truthy :: "json list \<Rightarrow> json" where
  "first_truthy [] = JStr []"
| "first_truthy (j # js) = (if truthy j then j else first_truthy js)"

definition failing :: "ustring \<Rightarrow> bool" where
  "failing s \<longleftrightarrow> uin (ul ''fail'') s \<or> uin (ul ''error'') s"

definition succeeding :: "ustring \<Rightarrow> bool" where
  "succeeding s \<longleftrightarrow> uin (ul ''success'') s \<or> uin (ul ''succeeded'') s"

definition deployment_failure :: ustring where
  "deployment_failure = ul ''pages.deployment.failure''"

definition deployment_success :: ustring where
  "deployment_success = ul ''pages.deployment.success''"

definition cloudflare_alert_kind :: "unicode_db \<Rightarrow> jdict \<Rightarrow> ustring" where
  "cloudflare_alert_kind ud payload =
     (let blob = ulower (json_text ud (jfield_or (JStr []) payload ''text'')) @ [32] @
                 ulower (json_text ud (jfield_or (JStr []) payload ''name''))
      in if uin (ul ''deployment'') blob \<and> failing blob then deployment_failure
         else if uin (ul ''deployment'') blob \<and> succeeding blob then deployment_success
         else case jfield payload ''alert_type'' of
                JStr a \<Rightarrow> if a \<noteq> [] then ureplace 32 [95] (ureplace 45 [95] a)
                           else ul ''notification.received''
              | _ \<Rightarrow> ul ''notification.received'')"

definition cloudflare_event_kind :: "unicode_db \<Rightarrow> jdict \<Rightarrow> ustring" where
  "cloudflare_event_kind ud payload =
     (case jfield payload ''pages'' of
        JObj pages \<Rightarrow>
          (let status = ulower (json_text ud (first_truthy
                 [jfield pages ''deployment_status'', jfield payload ''text'', jfield payload ''name'']))
           in if failing status then deployment_failure
              else if succeeding status then deployment_success
              else cloudflare_alert_kind ud payload)
      | _ \<Rightarrow> cloudflare_alert_kind ud payload)"

definition cloudflare_event_level :: "ustring \<Rightarrow> event_level" where
  "cloudflare_event_level kind = (if is_failure_kind kind then Lv_Warn else Lv_Info)"

subsection \<open>The event and its subject\<close>

record lyra_event =
  le_trace :: ustring
  le_issued :: time
  le_service :: ustring
  le_kind :: ustring
  le_level :: event_level
  le_message :: "ustring option"
  le_payload :: jdict
  le_tenant :: ustring

datatype loads_result = Loaded json | Bad_Json | Loads_Raised ingress_exn

datatype write_fault = Write_Ok | Execute_Fault | Commit_Fault

record ingress_env =
  ie_hmac :: "nat list \<Rightarrow> nat list \<Rightarrow> ustring"
  ie_loads :: "nat list \<Rightarrow> loads_result"
  ie_ud :: unicode_db
  ie_now :: time
  ie_trace :: ustring
  ie_write :: write_fault
  ie_read_fault :: bool
  ie_text_ok :: "ustring \<Rightarrow> bool"
  ie_dumps :: "lyra_event \<Rightarrow> bool"
  ie_publisher :: bool
  ie_broker_ok :: bool

definition lower_alpha :: "nat \<Rightarrow> bool" where
  "lower_alpha c \<longleftrightarrow> 97 \<le> c \<and> c \<le> 122"

definition ascii_digit :: "nat \<Rightarrow> bool" where
  "ascii_digit c \<longleftrightarrow> 48 \<le> c \<and> c \<le> 57"

definition slug_char :: "nat \<Rightarrow> bool" where
  "slug_char c \<longleftrightarrow> lower_alpha c \<or> ascii_digit c \<or> c = 95 \<or> c = 45"

text \<open>The patterns of the event model and the checks it makes; \<open>ie_text_ok\<close> is pydantic's on a message.\<close>

definition matches_service :: "ustring \<Rightarrow> bool" where
  "matches_service s \<longleftrightarrow> s \<noteq> [] \<and> lower_alpha (hd s) \<and> list_all slug_char s"

definition matches_kind :: "ustring \<Rightarrow> bool" where
  "matches_kind s \<longleftrightarrow> s \<noteq> [] \<and> lower_alpha (hd s) \<and> list_all (\<lambda>c. slug_char c \<or> c = 46) s"

definition matches_tenant :: "ustring \<Rightarrow> bool" where
  "matches_tenant s \<longleftrightarrow> s \<noteq> [] \<and> (lower_alpha (hd s) \<or> ascii_digit (hd s)) \<and> list_all slug_char s"

definition lyra_event_valid :: "ingress_env \<Rightarrow> lyra_event \<Rightarrow> bool" where
  "lyra_event_valid env ev \<longleftrightarrow>
     le_trace ev \<noteq> [] \<and> matches_service (le_service ev) \<and> matches_kind (le_kind ev) \<and>
     matches_tenant (le_tenant ev) \<and>
     (case le_message ev of None \<Rightarrow> True | Some m \<Rightarrow> ie_text_ok env m) \<and>
     (le_level ev = Lv_Error \<or> le_level ev = Lv_Critical \<longrightarrow> le_message ev \<noteq> None \<and> le_message ev \<noteq> Some [])"

text \<open>\<open>raw.replace("-", "").lower()\<close> of a header, which is Latin-1 text.\<close>

definition latin_lower :: "ustring \<Rightarrow> ustring" where
  "latin_lower s = map (\<lambda>c. if (65 \<le> c \<and> c \<le> 90) \<or> (0xC0 \<le> c \<and> c \<le> 0xDE \<and> c \<noteq> 0xD7) then c + 32 else c) s"

definition wire_trace_id_hex :: "ingress_env \<Rightarrow> ustring option \<Rightarrow> ustring" where
  "wire_trace_id_hex env explicit =
     latin_lower (ureplace 45 [] (case explicit of Some t \<Rightarrow> if t \<noteq> [] then t else ie_trace env | None \<Rightarrow> ie_trace env))"

definition build_lyra_event ::
    "ingress_env \<Rightarrow> ustring \<Rightarrow> ustring \<Rightarrow> event_level \<Rightarrow> ustring option \<Rightarrow> jdict \<Rightarrow> ustring option \<Rightarrow> ustring \<Rightarrow>
     ingress_exn + lyra_event" where
  "build_lyra_event env service kind level message payload trace tenant =
     (let ev = \<lparr>le_trace = wire_trace_id_hex env trace, le_issued = ie_now env, le_service = service,
                le_kind = kind, le_level = level, le_message = message, le_payload = payload,
                le_tenant = tenant\<rparr>
      in if lyra_event_valid env ev then Inr ev else Inl Ex_Validation)"

definition safe_char :: "nat \<Rightarrow> bool" where
  "safe_char c \<longleftrightarrow> slug_char c \<or> (65 \<le> c \<and> c \<le> 90)"

definition safe_segment :: "ustring \<Rightarrow> bool" where
  "safe_segment s \<longleftrightarrow> s \<noteq> [] \<and> list_all safe_char s"

definition safe_namespaced :: "ustring \<Rightarrow> bool" where
  "safe_namespaced s \<longleftrightarrow> list_all safe_segment (usplit 46 s)"

definition per_connector_tenant_event :: "ustring \<Rightarrow> ustring \<Rightarrow> ustring \<Rightarrow> ingress_exn + ustring" where
  "per_connector_tenant_event connector tenant kind =
     (if safe_segment connector \<and> safe_segment tenant \<and> safe_namespaced kind
      then Inr (ul ''factory.event.'' @ connector @ [46] @ tenant @ [46] @ kind)
      else Inl Ex_Value)"

end
