(* ===== verification/Ingress.thy ===== *)
theory Ingress
  imports Ingress_Events Sql_Table
begin

text \<open>
  The webhook ingress (src/factory/ingress): its configuration and secrets, the checks of a request's
  signature, the installation registry, the two connectors behind their common interface, the pipeline a
  request goes through, and its routes.

  Names of connectors, header values, tenants and identifiers are code points. An answer is a status with
  its detail, the plain 202, the 202 that names the event's kind, or the exception that leaves the handler
  and becomes a 500. What was published stays in \<open>ig_bus\<close>, oldest first.
\<close>

subsection \<open>Configuration\<close>

record connector_config =
  cn_enabled :: bool
  cn_secret :: ustring

type_synonym ingress_config = "(ustring \<times> connector_config) list"

definition is_enabled :: "ingress_config \<Rightarrow> ustring \<Rightarrow> bool" where
  "is_enabled cfg name = (case map_of cfg name of None \<Rightarrow> False | Some e \<Rightarrow> cn_enabled e)"

datatype secret_file = File_Text ustring | File_Undecodable | File_Missing

record ingress_host =
  io_env :: "ustring \<Rightarrow> ustring"
  io_file :: "ustring \<Rightarrow> secret_file"
  io_ud :: unicode_db

definition read_secret_file :: "ingress_host \<Rightarrow> ustring \<Rightarrow> ingress_exn + ustring" where
  "read_secret_file host path =
     (case io_file host path of
        File_Missing \<Rightarrow> Inl Ex_Os
      | File_Undecodable \<Rightarrow> Inl Ex_Unicode
      | File_Text s \<Rightarrow> let raw = ustrip (io_ud host) s in if raw = [] then Inl Ex_Value else Inr raw)"

definition caught_value_error :: "ingress_exn \<Rightarrow> bool" where
  "caught_value_error e \<longleftrightarrow> e = Ex_Value \<or> e = Ex_Unicode \<or> e = Ex_Validation"

definition secret_from_env :: "ingress_host \<Rightarrow> ustring \<Rightarrow> ingress_exn + ustring option" where
  "secret_from_env host var =
     (let path = ustrip (io_ud host) (io_env host var)
      in if path = [] then Inr None
         else case read_secret_file host path of
                Inr s \<Rightarrow> Inr (Some s)
              | Inl e \<Rightarrow> if caught_value_error e then Inr None else Inl e)"

definition upper_ascii :: "ustring \<Rightarrow> ustring" where
  "upper_ascii s = map (\<lambda>c. if lower_alpha c then c - 32 else c) s"

definition github :: ustring where "github = ul ''github''"
definition cloudflare :: ustring where "cloudflare = ul ''cloudflare''"
definition default_tenant :: ustring where "default_tenant = ul ''default''"

definition secret_env_var :: "ustring \<Rightarrow> ustring" where
  "secret_env_var name =
     (case map_of [(github, ul ''INGRESS_GITHUB_WEBHOOK_SECRET_PATH''),
                   (cloudflare, ul ''INGRESS_CLOUDFLARE_WEBHOOK_SECRET_PATH'')] name of
        Some var \<Rightarrow> var
      | None \<Rightarrow> ul ''INGRESS_'' @ upper_ascii name @ ul ''_WEBHOOK_SECRET_PATH'')"

definition connector_secret :: "ingress_host \<Rightarrow> ustring \<Rightarrow> jdict \<Rightarrow> ingress_exn + ustring option" where
  "connector_secret host name entry =
     and_then (secret_from_env host (secret_env_var name)) (\<lambda>from_env.
       case from_env of
         Some s \<Rightarrow> Inr (Some s)
       | None \<Rightarrow>
           let path = ustrip (io_ud host) (json_text (io_ud host) (jfield_or (JStr []) entry ''secret_path''))
           in if path = [] then Inr None else and_then (read_secret_file host path) (\<lambda>s. Inr (Some s)))"

definition load_connector :: "ingress_host \<Rightarrow> ustring \<Rightarrow> jdict \<Rightarrow> ingress_exn + connector_config" where
  "load_connector host name entry =
     and_then (connector_secret host name entry) (\<lambda>secret.
       Inr \<lparr>cn_enabled = truthy (jfield_or (JBool True) entry ''enabled'') \<and> secret \<noteq> None,
            cn_secret = (case secret of Some s \<Rightarrow> s | None \<Rightarrow> [])\<rparr>)"

fun load_connectors :: "ingress_host \<Rightarrow> jdict \<Rightarrow> ingress_exn + ingress_config" where
  "load_connectors host [] = Inr []"
| "load_connectors host ((name, v) # items) =
     (case v of
        JObj entry \<Rightarrow>
          and_then (load_connector host name entry) (\<lambda>c.
          and_then (load_connectors host items) (\<lambda>cs. Inr ((name, c) # cs)))
      | _ \<Rightarrow> load_connectors host items)"

definition load_config :: "ingress_host \<Rightarrow> jdict \<Rightarrow> ingress_exn + ingress_config" where
  "load_config host data =
     (case jfield_or (JObj []) data ''connector'' of
        JObj items \<Rightarrow> load_connectors host items
      | _ \<Rightarrow> Inl Ex_Attribute)"

subsection \<open>Secrets and signatures\<close>

record secret_resolver =
  sr_connector :: "ustring \<Rightarrow> ingress_exn + ustring"
  sr_tenant :: "ustring \<Rightarrow> ustring \<Rightarrow> ustring option"

definition configured_secret :: "ingress_config \<Rightarrow> ustring \<Rightarrow> ustring option" where
  "configured_secret cfg name =
     (case map_of cfg name of
        Some e \<Rightarrow> if cn_enabled e \<and> cn_secret e \<noteq> [] then Some (cn_secret e) else None
      | None \<Rightarrow> None)"

definition get_connector_secret :: "ingress_config \<Rightarrow> ustring \<Rightarrow> ingress_exn + ustring" where
  "get_connector_secret cfg name =
     (case configured_secret cfg name of Some s \<Rightarrow> Inr s | None \<Rightarrow> Inl Ex_Verification)"

definition get_tenant_secret :: "ingress_config \<Rightarrow> ustring \<Rightarrow> ustring \<Rightarrow> ustring option" where
  "get_tenant_secret cfg name tenant =
     (case configured_secret cfg name of
        Some s \<Rightarrow> if tenant = default_tenant then Some s else None
      | None \<Rightarrow> None)"

definition podman_resolver :: "ingress_config \<Rightarrow> secret_resolver" where
  "podman_resolver cfg = \<lparr>sr_connector = get_connector_secret cfg, sr_tenant = get_tenant_secret cfg\<rparr>"

text \<open>\<open>hmac.compare_digest\<close> refuses text beyond ASCII with a \<open>TypeError\<close>.\<close>

definition compare_digest :: "ustring \<Rightarrow> ustring \<Rightarrow> ingress_exn + bool" where
  "compare_digest a b = (if list_all (\<lambda>c. c < 128) (a @ b) then Inr (a = b) else Inl Ex_Type)"

definition signature_prefix :: ustring where "signature_prefix = ul ''sha256=''"

definition verify_github_signature ::
    "ingress_env \<Rightarrow> nat list \<Rightarrow> ustring option \<Rightarrow> ustring \<Rightarrow> ingress_exn + bool" where
  "verify_github_signature env body header secret =
     (case header of
        None \<Rightarrow> Inr False
      | Some h \<Rightarrow>
          if h = [] \<or> \<not> ustartswith signature_prefix h then Inr False
          else compare_digest (ie_hmac env (utf8_encode secret) body) (drop 7 h))"

definition verify_cloudflare_auth :: "ustring option \<Rightarrow> ustring \<Rightarrow> ingress_exn + bool" where
  "verify_cloudflare_auth header secret =
     (case header of
        None \<Rightarrow> Inr False
      | Some h \<Rightarrow> if h = [] then Inr False else compare_digest h secret)"

subsection \<open>The installation registry\<close>

record installation =
  in_tenant :: ustring
  in_enabled :: bool
  in_updated :: time

type_synonym installations = "((ustring \<times> ustring) \<times> installation) list"

definition valid_tenant_slug :: "ustring \<Rightarrow> bool" where
  "valid_tenant_slug s \<longleftrightarrow>
     s \<noteq> [] \<and> length s \<le> 63 \<and> (lower_alpha (hd s) \<or> ascii_digit (hd s)) \<and> list_all slug_char (tl s)"

definition validate_factory_tenant :: "ustring \<Rightarrow> ingress_exn + ustring" where
  "validate_factory_tenant s = (if valid_tenant_slug s then Inr s else Inl Ex_Verification)"

text \<open>SQLite takes no lone surrogate: the driver raises before the statement runs.\<close>

definition sql_text :: "ustring \<Rightarrow> bool" where
  "sql_text s \<longleftrightarrow> list_all (\<lambda>c. \<not> surrogate c) s"

definition resolve :: "ingress_env \<Rightarrow> installations \<Rightarrow> ustring \<Rightarrow> ustring option \<Rightarrow> ingress_exn + ustring option" where
  "resolve env rows connector external_id =
     (case external_id of
        Some x \<Rightarrow>
          if \<not> (sql_text connector \<and> sql_text x) then Inl Ex_Unicode
          else if ie_read_fault env then Inl Ex_Store
          else (case map_of rows (connector, x) of
                  Some r \<Rightarrow>
                    if in_enabled r
                    then (case validate_factory_tenant (in_tenant r) of Inr t \<Rightarrow> Inr (Some t) | Inl _ \<Rightarrow> Inr None)
                    else Inr None
                | None \<Rightarrow> Inr None)
      | None \<Rightarrow> Inr (if connector = github then Some default_tenant else None))"

definition upsert_lifecycle ::
    "ingress_env \<Rightarrow> ustring \<Rightarrow> ustring \<Rightarrow> ustring \<Rightarrow> bool \<Rightarrow> installations \<Rightarrow> (ingress_exn + unit) \<times> installations" where
  "upsert_lifecycle env connector x tenant enabled rows =
     (if x = [42] then (Inl Ex_Value, rows)
      else case validate_factory_tenant tenant of
        Inl e \<Rightarrow> (Inl e, rows)
      | Inr _ \<Rightarrow>
          if \<not> (sql_text connector \<and> sql_text x) then (Inl Ex_Unicode, rows)
          else if ie_write env = Execute_Fault then (Inl Ex_Store, rows)
          else (if ie_write env = Commit_Fault then Inl Ex_Store else Inr (),
                AList.update (connector, x)
                  \<lparr>in_tenant = tenant, in_enabled = enabled, in_updated = ie_now env\<rparr> rows))"

definition seed ::
    "ingress_env \<Rightarrow> ustring \<Rightarrow> ustring \<Rightarrow> ustring \<Rightarrow> installations \<Rightarrow> (ingress_exn + unit) \<times> installations" where
  "seed env connector x tenant rows = upsert_lifecycle env connector x tenant True rows"

definition list_rows :: "installations \<Rightarrow> ((ustring \<times> ustring) \<times> ustring \<times> bool) list" where
  "list_rows rows = map (\<lambda>(k, r). (k, in_tenant r, in_enabled r))
     (sort_key (\<lambda>(k, r). fst k) (sort_key (\<lambda>(k, r). snd k) rows))"

subsection \<open>Connectors\<close>

record webhook_headers =
  wh_event :: "ustring option"
  wh_delivery :: "ustring option"
  wh_signature :: "ustring option"
  wh_cf_auth :: "ustring option"

datatype connector_family = Centralized_App | Per_Account

record connector =
  co_name :: ustring
  co_family :: connector_family
  co_verify :: "ingress_env \<Rightarrow> webhook_headers \<Rightarrow> nat list \<Rightarrow> secret_resolver \<Rightarrow> ustring option \<Rightarrow> ingress_exn + unit"
  co_external_id :: "ingress_env \<Rightarrow> jdict \<Rightarrow> ustring option"
  co_lifecycle :: "ingress_env \<Rightarrow> webhook_headers \<Rightarrow> jdict \<Rightarrow> installations \<Rightarrow> (ingress_exn + unit) \<times> installations"
  co_normalize :: "ingress_env \<Rightarrow> webhook_headers \<Rightarrow> jdict \<Rightarrow> ustring \<Rightarrow> ingress_exn + lyra_event"

text \<open>\<open>if not verified: raise VerificationError\<close>\<close>

definition raise_unless :: "ingress_exn + bool \<Rightarrow> ingress_exn + unit" where
  "raise_unless r = and_then r (\<lambda>ok. if ok then Inr () else Inl Ex_Verification)"

definition github_verify ::
    "ingress_env \<Rightarrow> webhook_headers \<Rightarrow> nat list \<Rightarrow> secret_resolver \<Rightarrow> ustring option \<Rightarrow> ingress_exn + unit" where
  "github_verify env h body sr path_tenant =
     and_then (sr_connector sr github)
       (\<lambda>secret. raise_unless (verify_github_signature env body (wh_signature h) secret))"

definition installation_id :: "ingress_env \<Rightarrow> jdict \<Rightarrow> ustring option" where
  "installation_id env body =
     (case jfield body ''installation'' of
        JObj d \<Rightarrow> if jfield d ''id'' \<noteq> JNull then Some (json_text (ie_ud env) (jfield d ''id'')) else None
      | _ \<Rightarrow> None)"

definition installation_event :: ustring where "installation_event = ul ''installation''"

definition github_lifecycle ::
    "ingress_env \<Rightarrow> webhook_headers \<Rightarrow> jdict \<Rightarrow> installations \<Rightarrow> (ingress_exn + unit) \<times> installations" where
  "github_lifecycle env h body rows =
     (if wh_event h \<noteq> Some installation_event then (Inr (), rows)
      else case installation_id env body of
        None \<Rightarrow> (Inr (), rows)
      | Some x \<Rightarrow>
          if jfield body ''action'' = JStr (ul ''created'')
          then upsert_lifecycle env github x default_tenant True rows
          else if jfield body ''action'' = JStr (ul ''deleted'')
          then upsert_lifecycle env github x default_tenant False rows
          else (Inr (), rows))"

definition github_normalize ::
    "ingress_env \<Rightarrow> webhook_headers \<Rightarrow> jdict \<Rightarrow> ustring \<Rightarrow> ingress_exn + lyra_event" where
  "github_normalize env h body tenant =
     (let event_name = (case wh_event h of Some e \<Rightarrow> e | None \<Rightarrow> ul ''unknown'');
          kind = github_event_kind (ie_ud env) event_name body
      in and_then (summarize_github_payload body) (\<lambda>payload.
           build_lyra_event env github kind (github_event_level kind body)
             (Some (github_event_message kind body)) payload (wh_delivery h) tenant))"

definition github_connector :: connector where
  "github_connector = \<lparr>co_name = github, co_family = Centralized_App, co_verify = github_verify,
     co_external_id = installation_id, co_lifecycle = github_lifecycle, co_normalize = github_normalize\<rparr>"

definition cloudflare_verify ::
    "ingress_env \<Rightarrow> webhook_headers \<Rightarrow> nat list \<Rightarrow> secret_resolver \<Rightarrow> ustring option \<Rightarrow> ingress_exn + unit" where
  "cloudflare_verify env h body sr path_tenant =
     (case path_tenant of
        None \<Rightarrow> Inl Ex_Verification
      | Some t \<Rightarrow>
          if t = [] then Inl Ex_Verification
          else and_then (validate_factory_tenant t) (\<lambda>tenant.
            case sr_tenant sr cloudflare tenant of
              None \<Rightarrow> Inl Ex_Verification
            | Some secret \<Rightarrow>
                if secret = [] then Inl Ex_Verification
                else raise_unless (verify_cloudflare_auth (wh_cf_auth h) secret)))"

definition account_id :: "ingress_env \<Rightarrow> jdict \<Rightarrow> ustring option" where
  "account_id env body =
     (if jfield body ''account_id'' \<noteq> JNull then Some (json_text (ie_ud env) (jfield body ''account_id''))
      else None)"

definition cloudflare_normalize ::
    "ingress_env \<Rightarrow> webhook_headers \<Rightarrow> jdict \<Rightarrow> ustring \<Rightarrow> ingress_exn + lyra_event" where
  "cloudflare_normalize env h body tenant =
     (let kind = cloudflare_event_kind (ie_ud env) body
      in build_lyra_event env cloudflare kind (cloudflare_event_level kind)
           (Some (ul ''cloudflare '' @ kind)) (summarize_cloudflare_payload (ie_ud env) body) None tenant)"

definition cloudflare_connector :: connector where
  "cloudflare_connector = \<lparr>co_name = cloudflare, co_family = Per_Account, co_verify = cloudflare_verify,
     co_external_id = account_id, co_lifecycle = (\<lambda>env h body rows. (Inr (), rows)),
     co_normalize = cloudflare_normalize\<rparr>"

definition builtin_registry :: "ustring \<Rightarrow> connector option" where
  "builtin_registry name =
     (if name = github then Some github_connector
      else if name = cloudflare then Some cloudflare_connector else None)"

subsection \<open>The pipeline\<close>

record published =
  pu_subject :: ustring
  pu_event :: lyra_event
  pu_msg_id :: "ustring option"

record ingress =
  ig_rows :: installations
  ig_unknown :: "ustring \<Rightarrow> nat"
  ig_bus :: "published list"

definition ingress_init :: ingress where
  "ingress_init = \<lparr>ig_rows = [], ig_unknown = (\<lambda>_. 0), ig_bus = []\<rparr>"

datatype ingress_reply =
    Http_Error nat ustring
  | Accepted
  | Accepted_Kind ustring
  | Crashed ingress_exn

definition record_unknown_installation :: "ustring \<Rightarrow> ingress \<Rightarrow> ingress" where
  "record_unknown_installation name st = st\<lparr>ig_unknown := (ig_unknown st)(name := ig_unknown st name + 1)\<rparr>"

definition publish_event :: "ingress_env \<Rightarrow> lyra_event \<Rightarrow> ustring option \<Rightarrow> ingress \<Rightarrow> (ingress_exn + bool) \<times> ingress" where
  "publish_event env ev msg_id st =
     (case per_connector_tenant_event (le_service ev) (le_tenant ev) (le_kind ev) of
        Inl e \<Rightarrow> (Inl e, st)
      | Inr subj \<Rightarrow>
          if \<not> ie_dumps env ev then (Inl Ex_Value, st)
          else if ie_broker_ok env
          then (Inr True, st\<lparr>ig_bus := ig_bus st @ [\<lparr>pu_subject = subj, pu_event = ev, pu_msg_id = msg_id\<rparr>]\<rparr>)
          else (Inr False, st))"

definition max_body_bytes :: nat where "max_body_bytes = 5 * 1024 * 1024"

definition invalid_auth :: ingress_reply where "invalid_auth = Http_Error 401 (ul ''invalid auth'')"

definition path_tenant_ok :: "ustring option \<Rightarrow> bool" where
  "path_tenant_ok path_tenant = (case path_tenant of None \<Rightarrow> False | Some t \<Rightarrow> t \<noteq> [] \<and> valid_tenant_slug t)"

text \<open>Up to the signature: the connector, or the answer.\<close>

definition webhook_gate ::
    "ingress_env \<Rightarrow> ingress_config \<Rightarrow> (ustring \<Rightarrow> connector option) \<Rightarrow> secret_resolver \<Rightarrow> ustring \<Rightarrow>
     webhook_headers \<Rightarrow> nat list \<Rightarrow> ustring option \<Rightarrow> ingress_reply + connector" where
  "webhook_gate env cfg reg sr name h body path_tenant =
     (if max_body_bytes < length body then Inl (Http_Error 413 (ul ''payload too large''))
      else case reg name of
        None \<Rightarrow> Inl (Http_Error 404 (ul ''unknown connector''))
      | Some c \<Rightarrow>
          if \<not> is_enabled cfg name then Inl (Http_Error 503 (name @ ul '' connector disabled''))
          else if co_family c = Per_Account \<and> \<not> path_tenant_ok path_tenant then Inl invalid_auth
          else (case co_verify c env h body sr path_tenant of
                  Inr _ \<Rightarrow> Inr c
                | Inl e \<Rightarrow> Inl (if e = Ex_Verification then invalid_auth else Crashed e)))"

definition parse_json_object :: "ingress_env \<Rightarrow> nat list \<Rightarrow> ingress_reply + jdict" where
  "parse_json_object env body =
     (case ie_loads env body of
        Bad_Json \<Rightarrow> Inl (Http_Error 400 (ul ''invalid json''))
      | Loads_Raised e \<Rightarrow> Inl (Crashed e)
      | Loaded (JObj d) \<Rightarrow> Inr d
      | Loaded _ \<Rightarrow> Inl (Http_Error 400 (ul ''expected object payload'')))"

text \<open>Normalize and publish under the tenant the registry named.\<close>

definition webhook_publish ::
    "ingress_env \<Rightarrow> connector \<Rightarrow> webhook_headers \<Rightarrow> jdict \<Rightarrow> ustring \<Rightarrow> ingress \<Rightarrow> ingress_reply \<times> ingress" where
  "webhook_publish env c h payload tenant st =
     (case co_normalize c env h payload tenant of
        Inl e \<Rightarrow> (if e = Ex_Validation then Accepted else Crashed e, st)
      | Inr ev \<Rightarrow>
          if ie_publisher env
          then (let msg_id = (case wh_delivery h of Some d \<Rightarrow> if d \<noteq> [] then Some d else None | None \<Rightarrow> None)
                in case publish_event env ev msg_id st of
                     (Inl e, st') \<Rightarrow> (Crashed e, st')
                   | (Inr _, st') \<Rightarrow> (Accepted_Kind (le_kind ev), st'))
          else (Accepted_Kind (le_kind ev), st))"

definition webhook_deliver ::
    "ingress_env \<Rightarrow> connector \<Rightarrow> ustring \<Rightarrow> webhook_headers \<Rightarrow> jdict \<Rightarrow> ustring option \<Rightarrow> ingress \<Rightarrow>
     ingress_reply \<times> ingress" where
  "webhook_deliver env c name h payload path_tenant st =
     (case co_lifecycle c env h payload (ig_rows st) of
        (Inl e, rows) \<Rightarrow> (Crashed e, st\<lparr>ig_rows := rows\<rparr>)
      | (Inr _, rows) \<Rightarrow>
          (let st' = st\<lparr>ig_rows := rows\<rparr>
           in case resolve env rows name (co_external_id c env payload) of
                Inl e \<Rightarrow> (Crashed e, st')
              | Inr None \<Rightarrow> (Accepted, record_unknown_installation name st')
              | Inr (Some tenant) \<Rightarrow>
                  if co_family c = Per_Account \<and> path_tenant \<noteq> Some tenant
                  then (Accepted, record_unknown_installation name st')
                  else webhook_publish env c h payload tenant st'))"

definition handle_webhook ::
    "ingress_env \<Rightarrow> ingress_config \<Rightarrow> (ustring \<Rightarrow> connector option) \<Rightarrow> secret_resolver \<Rightarrow> ustring \<Rightarrow>
     webhook_headers \<Rightarrow> nat list \<Rightarrow> ustring option \<Rightarrow> ingress \<Rightarrow> ingress_reply \<times> ingress" where
  "handle_webhook env cfg reg sr name h body path_tenant st =
     (case webhook_gate env cfg reg sr name h body path_tenant of
        Inl r \<Rightarrow> (r, st)
      | Inr c \<Rightarrow>
          (case parse_json_object env body of
             Inl r \<Rightarrow> (r, st)
           | Inr payload \<Rightarrow> webhook_deliver env c name h payload path_tenant st))"

subsection \<open>Routes and operations\<close>

text \<open>
  \<open>POST /webhook/<name>\<close> and \<open>/webhook/<name>/<tenant>\<close>: the two aliases come first in the route table.
\<close>

definition webhook_route ::
    "ingress_env \<Rightarrow> ingress_config \<Rightarrow> ustring \<Rightarrow> ustring option \<Rightarrow> webhook_headers \<Rightarrow> nat list \<Rightarrow> ingress \<Rightarrow>
     ingress_reply \<times> ingress" where
  "webhook_route env cfg name tenant h body st =
     (let dispatch = (\<lambda>path_tenant.
        handle_webhook env cfg builtin_registry (podman_resolver cfg) name h body path_tenant st)
      in case tenant of
           Some t \<Rightarrow> dispatch (Some t)
         | None \<Rightarrow>
             if name = github then dispatch None
             else if name = cloudflare then dispatch (Some default_tenant)
             else (case builtin_registry name of
                     Some c \<Rightarrow> if co_family c = Per_Account then (Http_Error 404 (ul ''tenant required''), st)
                               else dispatch None
                   | None \<Rightarrow> dispatch None))"

definition health :: "ingress_config \<Rightarrow> (ustring \<times> bool) list" where
  "health cfg = fold (\<lambda>(name, e) d. AList.update name (cn_enabled e) d) cfg [(ul ''ok'', True)]"

text \<open>The application's start: the installation the environment names is seeded.\<close>

definition ingress_startup :: "ingress_env \<Rightarrow> ingress_config \<Rightarrow> ustring \<Rightarrow> ingress \<Rightarrow> (ingress_exn + unit) \<times> ingress" where
  "ingress_startup env cfg gh_env st =
     (let gh_id = ustrip (ie_ud env) gh_env
      in if gh_id \<noteq> [] \<and> is_enabled cfg github
         then (case seed env github gh_id default_tenant (ig_rows st) of
                 (r, rows) \<Rightarrow> (r, st\<lparr>ig_rows := rows\<rparr>))
         else (Inr (), st))"

definition installation_seed ::
    "ingress_env \<Rightarrow> ustring \<Rightarrow> ustring \<Rightarrow> ustring \<Rightarrow> ingress \<Rightarrow> (ingress_exn + unit) \<times> ingress" where
  "installation_seed env connector x tenant st =
     (case validate_factory_tenant tenant of
        Inl e \<Rightarrow> (Inl e, st)
      | Inr _ \<Rightarrow> (case seed env connector x tenant (ig_rows st) of (r, rows) \<Rightarrow> (r, st\<lparr>ig_rows := rows\<rparr>)))"

datatype ingress_op =
    Webhook ingress_env ustring "ustring option" webhook_headers "nat list"
  | Startup ingress_env ustring
  | Cli_Seed ingress_env ustring ustring ustring

fun ingress_step :: "ingress_config \<Rightarrow> ingress_op \<Rightarrow> ingress \<Rightarrow> ingress" where
  "ingress_step cfg (Webhook env name tenant h body) st = snd (webhook_route env cfg name tenant h body st)"
| "ingress_step cfg (Startup env gh_env) st = snd (ingress_startup env cfg gh_env st)"
| "ingress_step cfg (Cli_Seed env connector x tenant) st = snd (installation_seed env connector x tenant st)"

definition ingress_run :: "ingress_config \<Rightarrow> ingress_op list \<Rightarrow> ingress \<Rightarrow> ingress" where
  "ingress_run cfg ops st = fold (ingress_step cfg) ops st"

subsection \<open>Subjects\<close>

lemma and_then_simps [simp]: "and_then (Inl e) f = Inl e" "and_then (Inr x) f = f x"
  by (simp_all add: and_then_def)

lemma and_then_Inl: "and_then r f = Inl e \<longleftrightarrow> r = Inl e \<or> (\<exists>x. r = Inr x \<and> f x = Inl e)"
  by (cases r) auto

lemma usplit_not_Nil [simp]: "usplit c s \<noteq> []"
  by (induction s) (auto split: list.splits)

lemma usplit_at: "c \<notin> set a \<Longrightarrow> usplit c (a @ c # b) = a # usplit c b"
  by (induction a) auto

lemma usplit_whole: "c \<notin> set a \<Longrightarrow> usplit c a = [a]"
  by (induction a) auto

lemma safe_segment_no_dot: "safe_segment s \<Longrightarrow> 46 \<notin> set s"
  by (auto simp: safe_segment_def list_all_iff safe_char_def slug_char_def lower_alpha_def ascii_digit_def)

definition subject_tokens :: "ustring \<Rightarrow> ustring list" where
  "subject_tokens = usplit 46"

lemma subject_tokens_event:
  assumes "per_connector_tenant_event connector tenant kind = Inr subj"
  shows "subject_tokens subj = [ul ''factory'', ul ''event'', connector, tenant] @ usplit 46 kind \<and>
    list_all safe_segment (subject_tokens subj)"
proof -
  have ok: "safe_segment connector" "safe_segment tenant" "safe_namespaced kind"
    and subj: "subj = ul ''factory.event.'' @ connector @ [46] @ tenant @ [46] @ kind"
    using assms by (auto simp: per_connector_tenant_event_def split: if_splits)
  have lead: "ul ''factory.event.'' = ul ''factory'' @ 46 # ul ''event'' @ [46]" by simp
  have words: "safe_segment (ul ''factory'')" "safe_segment (ul ''event'')"
    by (simp_all add: safe_segment_def safe_char_def slug_char_def lower_alpha_def)
  have "subject_tokens subj = [ul ''factory'', ul ''event'', connector, tenant] @ usplit 46 kind"
    unfolding subject_tokens_def subj lead
    using usplit_at [OF safe_segment_no_dot [OF words(1)]] usplit_at [OF safe_segment_no_dot [OF words(2)]]
      usplit_at [OF safe_segment_no_dot [OF ok(1)]] usplit_at [OF safe_segment_no_dot [OF ok(2)]]
    by (simp del: ul_simps)
  then show ?thesis using ok words by (simp add: safe_namespaced_def del: ul_simps)
qed

lemma valid_tenant_slug_safe: "valid_tenant_slug t \<Longrightarrow> safe_segment t \<and> length t \<le> 63"
  by (cases t) (auto simp: valid_tenant_slug_def safe_segment_def safe_char_def slug_char_def list_all_iff)

lemma default_tenant_valid [simp]: "valid_tenant_slug default_tenant"
  by (simp add: valid_tenant_slug_def default_tenant_def slug_char_def lower_alpha_def)

lemma connector_names [simp]: "github \<noteq> cloudflare" "cloudflare \<noteq> github"
  by (simp_all add: github_def cloudflare_def)

lemma sql_names [simp]: "sql_text github" "sql_text cloudflare"
  by (simp_all add: sql_text_def github_def cloudflare_def surrogate_def)

subsection \<open>The registry as a map\<close>

text \<open>
  What the registry promises the pipeline: a map from \<open>(connector, external id)\<close> to the tenant of its
  enabled row. The laws hold where the database takes the operation.
\<close>

definition registry_map :: "installations \<Rightarrow> ustring \<times> ustring \<Rightarrow> ustring option" where
  "registry_map rows k =
     (case map_of rows k of
        Some r \<Rightarrow> if in_enabled r \<and> valid_tenant_slug (in_tenant r) then Some (in_tenant r) else None
      | None \<Rightarrow> None)"

locale installation_registry =
  fixes look :: "'env \<Rightarrow> 'rows \<Rightarrow> ustring \<Rightarrow> ustring option \<Rightarrow> ingress_exn + ustring option"
    and put_row :: "'env \<Rightarrow> ustring \<Rightarrow> ustring \<Rightarrow> ustring \<Rightarrow> bool \<Rightarrow> 'rows \<Rightarrow> (ingress_exn + unit) \<times> 'rows"
    and abs :: "'rows \<Rightarrow> ustring \<times> ustring \<Rightarrow> ustring option"
  assumes look_row: "look env rows n (Some x) = Inr found \<Longrightarrow> found = abs rows (n, x)"
    and put_ok: "put_row env n x t b rows = (Inr (), rows') \<Longrightarrow> abs rows' = (abs rows)((n, x) := if b then Some t else None)"
    and put_any: "put_row env n x t b rows = (r, rows') \<Longrightarrow>
      abs rows' = abs rows \<or> abs rows' = (abs rows)((n, x) := if b then Some t else None)"
begin

lemma put_keeps_absent:
  assumes "abs rows k = None" "\<not> (b \<and> (n, x) = k)"
  shows "abs (snd (put_row env n x t b rows)) k = None"
proof (cases "put_row env n x t b rows")
  case (Pair r rows')
  then show ?thesis using put_any [OF Pair] assms by auto
qed

lemma absent_look:
  assumes "abs rows (n, x) = None" "look env rows n (Some x) = Inr t"
  shows "t = None"
  using assms look_row by fastforce

end

lemma registry_map_update:
  assumes "valid_tenant_slug (in_tenant r)"
  shows "registry_map (AList.update k r rows) = (registry_map rows)(k := if in_enabled r then Some (in_tenant r) else None)"
  using assms by (auto simp: registry_map_def update_conv' fun_eq_iff)

lemma upsert_cases:
  assumes "upsert_lifecycle env n x t b rows = (r, rows')"
  shows "(\<exists>e. r = Inl e \<and> rows' = rows) \<or>
    valid_tenant_slug t \<and> x \<noteq> [42] \<and> (r = Inr () \<or> ie_write env = Commit_Fault \<and> r = Inl Ex_Store) \<and>
    rows' = AList.update (n, x) \<lparr>in_tenant = t, in_enabled = b, in_updated = ie_now env\<rparr> rows"
  using assms by (auto simp: upsert_lifecycle_def validate_factory_tenant_def split: if_splits)

interpretation registry: installation_registry resolve upsert_lifecycle registry_map
proof unfold_locales
  fix env rows n x t
  assume "resolve env rows n (Some x) = Inr t"
  then show "t = registry_map rows (n, x)"
    by (auto simp: resolve_def registry_map_def validate_factory_tenant_def split: if_splits option.splits)
next
  fix env n x t b rows rows'
  assume "upsert_lifecycle env n x t b rows = (Inr (), rows')"
  then show "registry_map rows' = (registry_map rows)((n, x) := if b then Some t else None)"
    by (auto dest!: upsert_cases simp: registry_map_update)
next
  fix env n x t b rows r rows'
  assume "upsert_lifecycle env n x t b rows = (r, rows')"
  then show "registry_map rows' = registry_map rows \<or> registry_map rows' = (registry_map rows)((n, x) := if b then Some t else None)"
    by (auto dest!: upsert_cases simp: registry_map_update)
qed

subsection \<open>What a delivery does\<close>

lemma publish_effect:
  assumes "webhook_publish env c h d tenant st = (reply, st')"
  shows "ig_rows st' = ig_rows st \<and> ig_unknown st' = ig_unknown st \<and>
    (ig_bus st' = ig_bus st \<or>
     (\<exists>ev subj mid. co_normalize c env h d tenant = Inr ev \<and> reply = Accepted_Kind (le_kind ev) \<and>
        per_connector_tenant_event (le_service ev) (le_tenant ev) (le_kind ev) = Inr subj \<and>
        ig_bus st' = ig_bus st @ [\<lparr>pu_subject = subj, pu_event = ev, pu_msg_id = mid\<rparr>]))"
  using assms by (auto simp: webhook_publish_def publish_event_def Let_def split: sum.splits if_splits)

lemma deliver_effect:
  assumes "webhook_deliver env c name h d pt st = (reply, st')"
  shows "ig_rows st' = snd (co_lifecycle c env h d (ig_rows st)) \<and>
    (ig_bus st' = ig_bus st \<or>
     (\<exists>ev subj mid tenant. co_normalize c env h d tenant = Inr ev \<and> reply = Accepted_Kind (le_kind ev) \<and>
        resolve env (ig_rows st') name (co_external_id c env d) = Inr (Some tenant) \<and>
        (co_family c = Per_Account \<longrightarrow> pt = Some tenant) \<and>
        per_connector_tenant_event (le_service ev) (le_tenant ev) (le_kind ev) = Inr subj \<and>
        ig_bus st' = ig_bus st @ [\<lparr>pu_subject = subj, pu_event = ev, pu_msg_id = mid\<rparr>]))"
proof -
  obtain r rows where life: "co_lifecycle c env h d (ig_rows st) = (r, rows)" by fastforce
  show ?thesis
  proof (cases r)
    case (Inl e)
    then show ?thesis using assms life by (auto simp: webhook_deliver_def)
  next
    case (Inr u)
    show ?thesis
    proof (cases "\<exists>tenant. resolve env rows name (co_external_id c env d) = Inr (Some tenant) \<and>
        (co_family c = Per_Account \<longrightarrow> pt = Some tenant)")
      case True
      then obtain tenant where t: "resolve env rows name (co_external_id c env d) = Inr (Some tenant)"
        "co_family c = Per_Account \<longrightarrow> pt = Some tenant" by blast
      then have "webhook_publish env c h d tenant (st\<lparr>ig_rows := rows\<rparr>) = (reply, st')"
        using assms life Inr by (auto simp: webhook_deliver_def Let_def)
      from publish_effect [OF this] t life show ?thesis by auto
    next
      case False
      then have "st' = st\<lparr>ig_rows := rows\<rparr> \<or> st' = record_unknown_installation name (st\<lparr>ig_rows := rows\<rparr>)"
        using assms life Inr by (auto simp: webhook_deliver_def Let_def split: sum.splits option.splits if_splits)
      then show ?thesis using life by (auto simp: record_unknown_installation_def)
    qed
  qed
qed

text \<open>
  What the pipeline relies on from a connector: its events carry its own name and the tenant it was given,
  and its lifecycle writes at most the row the request names, for its own name.
\<close>

locale connector_plugin =
  fixes c :: connector
  assumes normalized: "co_normalize c env h d tenant = Inr ev \<Longrightarrow> le_service ev = co_name c \<and> le_tenant ev = tenant"
    and lifecycle_writes: "co_lifecycle c env h d rows = (Inr (), rows) \<or>
      (\<exists>x b. co_external_id c env d = Some x \<and>
             co_lifecycle c env h d rows = upsert_lifecycle env (co_name c) x default_tenant b rows)"
begin

lemma lifecycle_foreign:
  assumes "fst k \<noteq> co_name c"
  shows "map_of (snd (co_lifecycle c env h d rows)) k = map_of rows k"
  using lifecycle_writes [of env h d rows]
proof (elim disjE exE conjE)
  fix x b
  assume w: "co_lifecycle c env h d rows = upsert_lifecycle env (co_name c) x default_tenant b rows"
  show ?thesis
  proof (cases "upsert_lifecycle env (co_name c) x default_tenant b rows")
    case (Pair r rows')
    then show ?thesis using upsert_cases [OF Pair] w assms by (auto simp: update_conv')
  qed
qed simp

lemma delivered_event:
  assumes "webhook_deliver env c name h d pt st = (reply, st')"
  shows "ig_bus st' = ig_bus st \<or>
    (\<exists>p. ig_bus st' = ig_bus st @ [p] \<and> reply = Accepted_Kind (le_kind (pu_event p)) \<and>
       le_service (pu_event p) = co_name c \<and>
       resolve env (ig_rows st') name (co_external_id c env d) = Inr (Some (le_tenant (pu_event p))) \<and>
       (co_family c = Per_Account \<longrightarrow> pt = Some (le_tenant (pu_event p))) \<and>
       per_connector_tenant_event (co_name c) (le_tenant (pu_event p)) (le_kind (pu_event p)) = Inr (pu_subject p))"
proof (cases "ig_bus st' = ig_bus st")
  case False
  then obtain ev subj mid tenant where e: "co_normalize c env h d tenant = Inr ev" "reply = Accepted_Kind (le_kind ev)"
      "resolve env (ig_rows st') name (co_external_id c env d) = Inr (Some tenant)"
      "co_family c = Per_Account \<longrightarrow> pt = Some tenant"
      "per_connector_tenant_event (le_service ev) (le_tenant ev) (le_kind ev) = Inr subj"
      "ig_bus st' = ig_bus st @ [\<lparr>pu_subject = subj, pu_event = ev, pu_msg_id = mid\<rparr>]"
    using deliver_effect [OF assms] by blast
  have "le_service ev = co_name c" "le_tenant ev = tenant" using normalized [OF e(1)] by simp_all
  with e show ?thesis by (intro disjI2 exI [of _ "\<lparr>pu_subject = subj, pu_event = ev, pu_msg_id = mid\<rparr>"]) simp
qed simp

lemma delivered_nothing:
  assumes "webhook_deliver env c name h d pt st = (reply, st')"
    and "\<And>t. resolve env (ig_rows st') name (co_external_id c env d) \<noteq> Inr (Some t)"
  shows "ig_bus st' = ig_bus st"
  using delivered_event [OF assms(1)] assms(2) by blast

end

lemma build_lyra_event_Inr:
  "build_lyra_event env service kind level message payload trace tenant = Inr ev \<Longrightarrow>
     le_service ev = service \<and> le_tenant ev = tenant \<and> le_kind ev = kind \<and> le_payload ev = payload \<and> lyra_event_valid env ev"
  by (auto simp: build_lyra_event_def Let_def split: if_splits)

interpretation github_plugin: connector_plugin github_connector
proof unfold_locales
  fix env h d tenant ev
  assume "co_normalize github_connector env h d tenant = Inr ev"
  then show "le_service ev = co_name github_connector \<and> le_tenant ev = tenant"
    by (auto simp: github_connector_def github_normalize_def Let_def and_then_Inr dest!: build_lyra_event_Inr)
next
  fix env h d rows
  show "co_lifecycle github_connector env h d rows = (Inr (), rows) \<or>
      (\<exists>x b. co_external_id github_connector env d = Some x \<and>
         co_lifecycle github_connector env h d rows =
           upsert_lifecycle env (co_name github_connector) x default_tenant b rows)"
    by (cases "installation_id env d") (auto simp: github_connector_def github_lifecycle_def)
qed

interpretation cloudflare_plugin: connector_plugin cloudflare_connector
proof unfold_locales
  fix env h d tenant ev
  assume "co_normalize cloudflare_connector env h d tenant = Inr ev"
  then show "le_service ev = co_name cloudflare_connector \<and> le_tenant ev = tenant"
    by (auto simp: cloudflare_connector_def cloudflare_normalize_def Let_def dest!: build_lyra_event_Inr)
qed (simp add: cloudflare_connector_def)

lemma connector_fields [simp]:
  "co_name github_connector = github" "co_family github_connector = Centralized_App"
  "co_verify github_connector = github_verify" "co_external_id github_connector = installation_id"
  "co_lifecycle github_connector = github_lifecycle" "co_normalize github_connector = github_normalize"
  "co_name cloudflare_connector = cloudflare" "co_family cloudflare_connector = Per_Account"
  "co_verify cloudflare_connector = cloudflare_verify" "co_external_id cloudflare_connector = account_id"
  "co_normalize cloudflare_connector = cloudflare_normalize"
  "co_lifecycle cloudflare_connector env h d rows = (Inr (), rows)"
  by (simp_all add: github_connector_def cloudflare_connector_def)

subsection \<open>The gate\<close>

definition route_tenant :: "ustring \<Rightarrow> ustring option \<Rightarrow> ustring option" where
  "route_tenant name tenant = (if tenant = None \<and> name = cloudflare then Some default_tenant else tenant)"

fun accepted :: "ingress_reply \<Rightarrow> bool" where
  "accepted (Http_Error n s) = False"
| "accepted Accepted = True"
| "accepted (Accepted_Kind k) = True"
| "accepted (Crashed e) = False"

text \<open>The credentials a request must carry.\<close>

definition authentic ::
    "ingress_env \<Rightarrow> ingress_config \<Rightarrow> ustring \<Rightarrow> ustring option \<Rightarrow> webhook_headers \<Rightarrow> nat list \<Rightarrow> bool" where
  "authentic env cfg name path_tenant h body \<longleftrightarrow>
     (case configured_secret cfg name of
        None \<Rightarrow> False
      | Some secret \<Rightarrow>
          name = github \<and> wh_signature h = Some (signature_prefix @ ie_hmac env (utf8_encode secret) body) \<or>
          name = cloudflare \<and> wh_cf_auth h = Some secret \<and> path_tenant = Some default_tenant)"

lemma raise_unless_Inr [simp]: "raise_unless r = Inr u \<longleftrightarrow> r = Inr True"
  by (auto simp: raise_unless_def and_then_Inr split: if_splits)

lemma compare_digest_True: "compare_digest a b = Inr True \<longleftrightarrow> a = b \<and> list_all (\<lambda>c. c < 128) a"
  by (auto simp: compare_digest_def)

lemma github_signature_True:
  "verify_github_signature env body header secret = Inr True \<longleftrightarrow>
     header = Some (signature_prefix @ ie_hmac env (utf8_encode secret) body) \<and>
     list_all (\<lambda>c. c < 128) (ie_hmac env (utf8_encode secret) body)"
proof -
  have "length signature_prefix = 7" "signature_prefix \<noteq> []" by (simp_all add: signature_prefix_def)
  then show ?thesis
    by (cases header) (auto simp: verify_github_signature_def compare_digest_True ustartswith_iff)
qed

lemma cloudflare_auth_True:
  "verify_cloudflare_auth header secret = Inr True \<longleftrightarrow>
     header = Some secret \<and> secret \<noteq> [] \<and> list_all (\<lambda>c. c < 128) secret"
  by (cases header) (auto simp: verify_cloudflare_auth_def compare_digest_True)

lemma github_verify_ok:
  "github_verify env h body (podman_resolver cfg) pt = Inr u \<longleftrightarrow>
     (\<exists>secret. configured_secret cfg github = Some secret \<and>
        verify_github_signature env body (wh_signature h) secret = Inr True)"
  by (auto simp: github_verify_def podman_resolver_def get_connector_secret_def and_then_Inr split: option.splits)

lemma cloudflare_verify_ok:
  "cloudflare_verify env h body (podman_resolver cfg) pt = Inr u \<longleftrightarrow>
     (\<exists>secret. configured_secret cfg cloudflare = Some secret \<and> pt = Some default_tenant \<and>
        verify_cloudflare_auth (wh_cf_auth h) secret = Inr True)"
proof -
  have "default_tenant \<noteq> []" by (simp add: default_tenant_def)
  then show ?thesis
    by (auto simp: cloudflare_verify_def podman_resolver_def get_tenant_secret_def and_then_Inr
          validate_factory_tenant_def cloudflare_auth_True split: option.splits if_splits)
qed

lemma builtin_cases:
  "builtin_registry name = Some c \<longleftrightarrow>
     name = github \<and> c = github_connector \<or> name = cloudflare \<and> c = cloudflare_connector"
  by (auto simp: builtin_registry_def)

lemma gate_open:
  assumes "webhook_gate env cfg builtin_registry (podman_resolver cfg) name h body pt = Inr c"
  shows "length body \<le> max_body_bytes \<and> authentic env cfg name pt h body \<and> builtin_registry name = Some c"
proof -
  have c: "builtin_registry name = Some c" and len: "length body \<le> max_body_bytes"
    and v: "co_verify c env h body (podman_resolver cfg) pt = Inr ()"
    using assms by (auto simp: webhook_gate_def split: if_splits option.splits sum.splits)
  have "authentic env cfg name pt h body"
    using c v unfolding builtin_cases
    by (auto simp: github_verify_ok cloudflare_verify_ok github_signature_True cloudflare_auth_True authentic_def)
  with c len show ?thesis by simp
qed

lemma gate_shut: "webhook_gate env cfg reg sr name h body pt = Inl r \<Longrightarrow> \<not> accepted r"
  by (auto simp: webhook_gate_def invalid_auth_def split: if_splits option.splits sum.splits)

lemma parse_shut: "parse_json_object env body = Inl r \<Longrightarrow> \<not> accepted r"
  by (auto simp: parse_json_object_def split: loads_result.splits json.splits)

lemma parse_open: "parse_json_object env body = Inr d \<longleftrightarrow> ie_loads env body = Loaded (JObj d)"
  by (auto simp: parse_json_object_def split: loads_result.splits json.splits)

lemma webhook_route_handle:
  "webhook_route env cfg name tenant h body st =
     handle_webhook env cfg builtin_registry (podman_resolver cfg) name h body (route_tenant name tenant) st"
  by (auto simp: webhook_route_def route_tenant_def Let_def builtin_registry_def split: option.splits)

lemma route_cases:
  assumes "webhook_route env cfg name tenant h body st = (reply, st')"
  shows "(st' = st \<and> \<not> accepted reply) \<or>
    (\<exists>c d. builtin_registry name = Some c \<and> length body \<le> max_body_bytes \<and>
       authentic env cfg name (route_tenant name tenant) h body \<and> ie_loads env body = Loaded (JObj d) \<and>
       webhook_deliver env c name h d (route_tenant name tenant) st = (reply, st'))"
proof (cases "webhook_gate env cfg builtin_registry (podman_resolver cfg) name h body (route_tenant name tenant)")
  case (Inl r)
  then show ?thesis using assms gate_shut by (auto simp: webhook_route_handle handle_webhook_def)
next
  case (Inr c)
  note open_gate = gate_open [OF Inr]
  show ?thesis
  proof (cases "parse_json_object env body")
    case (Inl r)
    then show ?thesis using assms \<open>webhook_gate _ _ _ _ _ _ _ _ = Inr c\<close> parse_shut
      by (auto simp: webhook_route_handle handle_webhook_def)
  next
    case p: (Inr d)
    have "webhook_deliver env c name h d (route_tenant name tenant) st = (reply, st')"
      using assms Inr p by (simp add: webhook_route_handle handle_webhook_def)
    with open_gate p show ?thesis by (auto simp: parse_open)
  qed
qed

text \<open>
  C25: A webhook request that is accepted, or that changes anything (the registry, the counters, the
  bus), is within the size limit and carries the credentials of its connector: for GitHub the HMAC of this
  very body under the configured secret, for Cloudflare the configured secret itself, on the path of the
  default tenant.
\<close>

theorem webhook_needs_credentials:
  assumes "webhook_route env cfg name tenant h body st = (reply, st')" "accepted reply \<or> st' \<noteq> st"
  shows "length body \<le> max_body_bytes \<and> authentic env cfg name (route_tenant name tenant) h body"
  using route_cases [OF assms(1)] assms(2) by blast

subsection \<open>What reaches the bus\<close>

lemma resolve_valid: "resolve env rows n x = Inr (Some t) \<Longrightarrow> valid_tenant_slug t"
  by (auto simp: resolve_def validate_factory_tenant_def split: option.splits if_splits)

definition well_addressed :: "published \<Rightarrow> bool" where
  "well_addressed p \<longleftrightarrow>
     (let ev = pu_event p in
      (le_service ev = github \<or> le_service ev = cloudflare \<and> le_tenant ev = default_tenant) \<and>
      valid_tenant_slug (le_tenant ev) \<and>
      subject_tokens (pu_subject p) =
        [ul ''factory'', ul ''event'', le_service ev, le_tenant ev] @ usplit 46 (le_kind ev) \<and>
      list_all safe_segment (subject_tokens (pu_subject p)))"

lemma authentic_cloudflare: "authentic env cfg cloudflare pt h body \<Longrightarrow> pt = Some default_tenant"
  by (auto simp: authentic_def split: option.splits)

lemma webhook_bus:
  assumes "webhook_route env cfg name tenant h body st = (reply, st')"
  shows "ig_bus st' = ig_bus st \<or> (\<exists>p. ig_bus st' = ig_bus st @ [p] \<and> well_addressed p)"
  using route_cases [OF assms]
proof (elim disjE exE conjE)
  fix c d
  assume c: "builtin_registry name = Some c" and auth: "authentic env cfg name (route_tenant name tenant) h body"
    and del: "webhook_deliver env c name h d (route_tenant name tenant) st = (reply, st')"
  from c have "connector_plugin c"
    unfolding builtin_cases using github_plugin.connector_plugin_axioms cloudflare_plugin.connector_plugin_axioms by blast
  from connector_plugin.delivered_event [OF this del]
show ?thesis
  proof (elim disjE exE conjE)
    fix p
    assume bus: "ig_bus st' = ig_bus st @ [p]" and s: "le_service (pu_event p) = co_name c"
      and r: "resolve env (ig_rows st') name (co_external_id c env d) = Inr (Some (le_tenant (pu_event p)))"
      and f: "co_family c = Per_Account \<longrightarrow> route_tenant name tenant = Some (le_tenant (pu_event p))"
      and subj: "per_connector_tenant_event (co_name c) (le_tenant (pu_event p)) (le_kind (pu_event p)) = Inr (pu_subject p)"
    note t = resolve_valid [OF r]
    have "le_service (pu_event p) = github \<or>
        le_service (pu_event p) = cloudflare \<and> le_tenant (pu_event p) = default_tenant"
      using c s f auth unfolding builtin_cases by (auto dest: authentic_cloudflare)
    then have "well_addressed p"
      using subject_tokens_event [OF subj] t unfolding well_addressed_def Let_def s by blast
    with bus show ?thesis by blast
  qed simp
qed simp

lemma other_ops_bus:
  "ig_bus (snd (ingress_startup env cfg g st)) = ig_bus st"
  "ig_bus (snd (installation_seed env c x t st)) = ig_bus st"
  by (simp_all add: ingress_startup_def installation_seed_def Let_def split: prod.split sum.split)

lemma step_bus:
  "ig_bus (ingress_step cfg op st) = ig_bus st \<or>
   (\<exists>p. ig_bus (ingress_step cfg op st) = ig_bus st @ [p] \<and> well_addressed p)"
proof (cases op)
  case (Webhook env name tenant h body)
  then show ?thesis using webhook_bus [of env cfg name tenant h body st] by (metis ingress_step.simps(1) prod.collapse)
qed (simp_all add: other_ops_bus)

lemma run_well_addressed:
  "list_all well_addressed (ig_bus st) \<Longrightarrow> list_all well_addressed (ig_bus (ingress_run cfg ops st))"
proof (induction ops arbitrary: st)
  case Nil
  then show ?case by (simp add: ingress_run_def)
next
  case (Cons op ops)
  have "list_all well_addressed (ig_bus (ingress_step cfg op st))"
    using Cons.prems step_bus [of cfg op st] by auto
  from Cons.IH [OF this] show ?case by (simp add: ingress_run_def)
qed

text \<open>
  C26: Whatever requests arrive, every subject the ingress ever published reads back, token by token, as
  the event's connector, tenant and kind, so that a subscription to one tenant's events sees that
  tenant's events only: no token is empty or a wildcard, the tenant is a valid slug, and a Cloudflare
  event belongs to the default tenant.
\<close>

theorem published_subjects_read_back:
  assumes "p \<in> set (ig_bus (ingress_run cfg ops ingress_init))" "ev = pu_event p"
  shows "subject_tokens (pu_subject p) =
      [ul ''factory'', ul ''event'', le_service ev, le_tenant ev] @ usplit 46 (le_kind ev) \<and>
    list_all safe_segment (subject_tokens (pu_subject p)) \<and> valid_tenant_slug (le_tenant ev) \<and>
    (le_service ev = github \<or> le_service ev = cloudflare \<and> le_tenant ev = default_tenant)"
  using run_well_addressed [of ingress_init cfg ops] assms
  by (simp add: list_all_iff ingress_init_def well_addressed_def Let_def)

subsection \<open>Removed installations\<close>

lemma github_lifecycle_cases:
  "github_lifecycle env h d rows = (Inr (), rows) \<or>
   (\<exists>y b. installation_id env d = Some y \<and>
      github_lifecycle env h d rows = upsert_lifecycle env github y default_tenant b rows \<and>
      (b \<longrightarrow> wh_event h = Some installation_event \<and> jfield d ''action'' = JStr (ul ''created'')))"
  by (cases "installation_id env d") (auto simp: github_lifecycle_def)

text \<open>The operations that may enrol an installation again.\<close>

fun enrols :: "ustring \<Rightarrow> ingress_op \<Rightarrow> bool" where
  "enrols x (Webhook env name tenant h body) =
     (name = github \<and> wh_event h = Some installation_event \<and>
      (case ie_loads env body of
         Loaded (JObj d) \<Rightarrow> installation_id env d = Some x \<and> jfield d ''action'' = JStr (ul ''created'')
       | _ \<Rightarrow> False))"
| "enrols x (Startup env g) = (ustrip (ie_ud env) g = x)"
| "enrols x (Cli_Seed env connector y tenant) = (connector = github \<and> y = x)"

lemma seed_keeps_absent:
  assumes "registry_map rows (github, x) = None" "connector \<noteq> github \<or> y \<noteq> x"
  shows "registry_map (snd (seed env connector y t rows)) (github, x) = None"
  unfolding seed_def using assms by (intro registry.put_keeps_absent) auto

lemma webhook_keeps_absent:
  assumes "registry_map (ig_rows st) (github, x) = None" "\<not> enrols x (Webhook env name tenant h body)"
    and "webhook_route env cfg name tenant h body st = (reply, st')"
  shows "registry_map (ig_rows st') (github, x) = None"
  using route_cases [OF assms(3)]
proof (elim disjE exE conjE)
  fix c d
  assume c: "builtin_registry name = Some c" and l: "ie_loads env body = Loaded (JObj d)"
    and del: "webhook_deliver env c name h d (route_tenant name tenant) st = (reply, st')"
  have rows: "ig_rows st' = snd (co_lifecycle c env h d (ig_rows st))" using deliver_effect [OF del] by simp
  from c show ?thesis unfolding builtin_cases
  proof (elim disjE conjE)
    assume n: "name = github" "c = github_connector"
    show ?thesis using github_lifecycle_cases [of env h d "ig_rows st"]
    proof (elim disjE exE conjE)
      fix y b
      assume w: "installation_id env d = Some y"
        "github_lifecycle env h d (ig_rows st) = upsert_lifecycle env github y default_tenant b (ig_rows st)"
        "b \<longrightarrow> wh_event h = Some installation_event \<and> jfield d ''action'' = JStr (ul ''created'')"
      have "\<not> (b \<and> y = x)" using assms(2) n l w by auto
      then have "registry_map (snd (upsert_lifecycle env github y default_tenant b (ig_rows st))) (github, x) = None"
        using assms(1) by (intro registry.put_keeps_absent) auto
      then show ?thesis using rows n w by simp
    qed (use rows n assms(1) in simp)
  qed (use rows assms(1) in simp)
qed (use assms(1) in simp)

lemma step_keeps_absent:
  assumes "registry_map (ig_rows st) (github, x) = None" "\<not> enrols x op"
  shows "registry_map (ig_rows (ingress_step cfg op st)) (github, x) = None"
proof (cases op)
  case (Webhook env name tenant h body)
  then show ?thesis
    using webhook_keeps_absent [OF assms(1)] assms(2) by (cases "webhook_route env cfg name tenant h body st") auto
next
  case (Startup env g)
  then have "registry_map (snd (seed env github (ustrip (ie_ud env) g) default_tenant (ig_rows st))) (github, x) = None"
    using assms by (intro seed_keeps_absent) auto
  then show ?thesis using assms(1) Startup by (auto simp: ingress_startup_def Let_def split: prod.splits)
next
  case (Cli_Seed env connector y tenant)
  then have "registry_map (snd (seed env connector y tenant (ig_rows st))) (github, x) = None"
    using assms by (intro seed_keeps_absent) auto
  then show ?thesis using assms(1) Cli_Seed by (auto simp: installation_seed_def split: prod.splits sum.splits)
qed

lemma run_keeps_absent:
  assumes "registry_map (ig_rows st) (github, x) = None" "\<forall>op \<in> set ops. \<not> enrols x op"
  shows "registry_map (ig_rows (ingress_run cfg ops st)) (github, x) = None"
  using assms
proof (induction ops arbitrary: st)
  case Nil
  then show ?case by (simp add: ingress_run_def)
next
  case (Cons op ops)
  have "registry_map (ig_rows (ingress_step cfg op st)) (github, x) = None"
    using Cons.prems by (intro step_keeps_absent) auto
  then show ?case using Cons.IH Cons.prems(2) by (simp add: ingress_run_def)
qed

lemma webhook_silent:
  assumes "registry_map (ig_rows st) (github, x) = None" "\<not> enrols x (Webhook env github tenant h body)"
    and "webhook_route env cfg github tenant h body st = (reply, st')"
    and "ie_loads env body = Loaded (JObj d)" "installation_id env d = Some x"
  shows "ig_bus st' = ig_bus st"
  using route_cases [OF assms(3)]
proof (elim disjE exE conjE)
  fix c d'
  assume c: "builtin_registry github = Some c" and l: "ie_loads env body = Loaded (JObj d')"
    and del: "webhook_deliver env c github h d' (route_tenant github tenant) st = (reply, st')"
  have same: "c = github_connector" "d' = d" using c l assms(4) by (simp_all add: builtin_cases)
  have none: "registry_map (ig_rows st') (github, x) = None"
    by (rule webhook_keeps_absent [OF assms(1-3)])
  have "resolve env (ig_rows st') github (co_external_id c env d') \<noteq> Inr (Some t)" for t
    using registry.absent_look [OF none] assms(5) same by fastforce
  then show ?thesis using github_plugin.delivered_nothing del same(1) by blast
qed simp

lemma removal_takes_effect:
  assumes "webhook_route env cfg github tenant h body st = (reply, st')" "accepted reply"
    and "ie_loads env body = Loaded (JObj d)" "wh_event h = Some installation_event"
    and "jfield d ''action'' = JStr (ul ''deleted'')" "installation_id env d = Some x"
  shows "registry_map (ig_rows st') (github, x) = None"
proof -
  obtain c where c: "builtin_registry github = Some c"
    and del: "webhook_deliver env c github h d (route_tenant github tenant) st = (reply, st')"
    using route_cases [OF assms(1)] assms(2,3) by auto
  have cg: "c = github_connector" using c by (simp add: builtin_cases)
  have life: "github_lifecycle env h d (ig_rows st) = upsert_lifecycle env github x default_tenant False (ig_rows st)"
    using assms by (simp add: github_lifecycle_def)
  obtain r rows where w: "upsert_lifecycle env github x default_tenant False (ig_rows st) = (r, rows)" by fastforce
  have rows: "ig_rows st' = rows" using deliver_effect [OF del] cg life w by simp
  have "r = Inr ()"
  proof (cases r)
    case (Inl e)
    then show ?thesis using del cg life w assms(2) by (auto simp: webhook_deliver_def)
  qed simp
  then show ?thesis using registry.put_ok w rows by simp
qed

text \<open>
  C27: Once GitHub's notice that an installation was deleted has been accepted, no webhook of that
  installation puts anything on the bus any more, whatever requests, seeds and restarts happen in
  between, until the installation is created or seeded again.
\<close>

theorem uninstalled_stays_silent:
  assumes "webhook_route env cfg github t h body st = (reply, st1)" "accepted reply"
    and "ie_loads env body = Loaded (JObj d)" "wh_event h = Some installation_event"
    and "jfield d ''action'' = JStr (ul ''deleted'')" "installation_id env d = Some x"
    and "\<forall>op \<in> set ops. \<not> enrols x op" "st2 = ingress_run cfg ops st1"
    and "webhook_route env' cfg github t' h' body' st2 = (reply', st3)"
    and "ie_loads env' body' = Loaded (JObj d')" "installation_id env' d' = Some x"
    and "\<not> enrols x (Webhook env' github t' h' body')"
  shows "ig_bus st3 = ig_bus st2"
proof -
  have "registry_map (ig_rows st1) (github, x) = None" by (rule removal_takes_effect [OF assms(1-6)])
  from run_keeps_absent [OF this assms(7)] have "registry_map (ig_rows st2) (github, x) = None"
    by (simp add: assms(8))
  from webhook_silent [OF this assms(12) assms(9-11)] show ?thesis .
qed

subsection \<open>A delivery that goes through\<close>

lemma configured_enabled: "configured_secret cfg name = Some s \<Longrightarrow> is_enabled cfg name \<and> s \<noteq> []"
  by (auto simp: configured_secret_def is_enabled_def split: option.splits if_splits)

lemma resolve_registry:
  assumes "sql_text n" "sql_text x" "\<not> ie_read_fault env"
  shows "resolve env rows n (Some x) = Inr (registry_map rows (n, x))"
  using assms by (auto simp: resolve_def registry_map_def validate_factory_tenant_def split: option.splits)

lemma gate_github:
  assumes "configured_secret cfg github = Some secret" "length body \<le> max_body_bytes"
    and "wh_signature h = Some (signature_prefix @ ie_hmac env (utf8_encode secret) body)"
    and "list_all (\<lambda>c. c < 128) (ie_hmac env (utf8_encode secret) body)"
  shows "webhook_gate env cfg builtin_registry (podman_resolver cfg) github h body pt = Inr github_connector"
proof -
  have "github_verify env h body (podman_resolver cfg) pt = Inr ()"
    using assms(1,3,4) by (simp add: github_verify_ok github_signature_True)
  then show ?thesis using configured_enabled [OF assms(1)] assms(2)
    by (simp add: webhook_gate_def builtin_registry_def)
qed

lemma summarize_github_ok:
  "jfield d ''action'' = JStr a \<Longrightarrow> \<exists>p. summarize_github_payload d = Inr p"
  by (simp add: summarize_github_payload_def label_action_def Let_def)

lemma safe_event:
  assumes "valid_tenant_slug t" "safe_namespaced kind"
  shows "per_connector_tenant_event github t kind = Inr (ul ''factory.event.github.'' @ t @ [46] @ kind)"
proof -
  have "safe_segment github" by (simp add: github_def safe_segment_def safe_char_def slug_char_def lower_alpha_def)
  moreover have "ul ''factory.event.'' @ github @ [46] @ t = ul ''factory.event.github.'' @ t" by (simp add: github_def)
  ultimately show ?thesis using assms valid_tenant_slug_safe by (simp add: per_connector_tenant_event_def github_def)
qed

lemma valid_slug_matches: "valid_tenant_slug t \<Longrightarrow> matches_tenant t"
  by (cases t) (auto simp: valid_tenant_slug_def matches_tenant_def slug_char_def)

lemma signed_delivery:
  assumes secret: "configured_secret cfg github = Some secret" "length body \<le> max_body_bytes"
      "wh_signature h = Some (signature_prefix @ ie_hmac env (utf8_encode secret) body)"
      "list_all (\<lambda>c. c < 128) (ie_hmac env (utf8_encode secret) body)"
    and payload: "ie_loads env body = Loaded (JObj d)" "jfield d ''action'' = JStr a" "a \<noteq> []"
      "installation_id env d = Some x" "sql_text x"
    and headers: "wh_event h = Some e" "e \<noteq> installation_event" "wh_delivery h = Some did"
      "latin_lower (ureplace 45 [] did) \<noteq> []"
    and row: "registry_map (ig_rows st) (github, x) = Some tenant"
    and kind: "kind = ureplace 45 [95] (ustrip (ie_ud env) e) @ [46] @ a" "matches_kind kind" "safe_namespaced kind"
    and calm: "\<not> ie_read_fault env" "ie_publisher env" "ie_broker_ok env" "\<And>m. ie_text_ok env m" "\<And>ev. ie_dumps env ev"
  shows "\<exists>ev p. summarize_github_payload d = Inr p \<and>
    webhook_route env cfg github None h body st = (Accepted_Kind kind,
      st\<lparr>ig_bus := ig_bus st @ [\<lparr>pu_subject = ul ''factory.event.github.'' @ tenant @ [46] @ kind,
                                  pu_event = ev, pu_msg_id = Some did\<rparr>]\<rparr>) \<and>
    le_service ev = github \<and> le_tenant ev = tenant \<and> le_kind ev = kind \<and> le_payload ev = p \<and>
    le_level ev = github_event_level kind d"
proof -
  obtain p where p: "summarize_github_payload d = Inr p" using summarize_github_ok [OF payload(2)] by blast
  have t: "valid_tenant_slug tenant" using row by (auto simp: registry_map_def split: option.splits if_splits)
  have did: "did \<noteq> []" using headers(4) by (auto simp: latin_lower_def ureplace_def)
  have k: "github_event_kind (ie_ud env) e d = kind"
    using payload(2,3) kind(1) by (simp add: github_event_kind_def Let_def)
  define ev where "ev = \<lparr>le_trace = latin_lower (ureplace 45 [] did), le_issued = ie_now env, le_service = github,
    le_kind = kind, le_level = github_event_level kind d, le_message = Some (github_event_message kind d),
    le_payload = p, le_tenant = tenant\<rparr>"
  have lvl: "github_event_level kind d \<noteq> Lv_Error" "github_event_level kind d \<noteq> Lv_Critical"
    by (simp_all add: github_event_level_def)
  have "matches_service github"
    by (simp add: matches_service_def github_def slug_char_def lower_alpha_def)
  then have "lyra_event_valid env ev"
    using headers(4) kind(2) valid_slug_matches [OF t] calm(4) lvl by (simp add: lyra_event_valid_def ev_def)
  then have "build_lyra_event env github kind (github_event_level kind d) (Some (github_event_message kind d)) p
      (wh_delivery h) tenant = Inr ev"
    using headers(3) did by (simp add: build_lyra_event_def wire_trace_id_hex_def ev_def Let_def)
  then have n: "github_normalize env h d tenant = Inr ev"
    using headers(1) k p by (simp add: github_normalize_def Let_def)
  have subj: "per_connector_tenant_event (le_service ev) (le_tenant ev) (le_kind ev) =
      Inr (ul ''factory.event.github.'' @ tenant @ [46] @ kind)"
    using safe_event [OF t kind(3)] by (simp add: ev_def)
  have pub: "publish_event env ev (Some did) st = (Inr True, st\<lparr>ig_bus := ig_bus st @
      [\<lparr>pu_subject = ul ''factory.event.github.'' @ tenant @ [46] @ kind, pu_event = ev, pu_msg_id = Some did\<rparr>]\<rparr>)"
    using subj calm by (simp add: publish_event_def)
  have life: "github_lifecycle env h d (ig_rows st) = (Inr (), ig_rows st)"
    using headers(1,2) by (simp add: github_lifecycle_def)
  have res: "resolve env (ig_rows st) github (installation_id env d) = Inr (Some tenant)"
    using resolve_registry [OF sql_names(1) payload(5) calm(1)] row payload(4) by simp
  have lk: "le_kind ev = kind" by (simp add: ev_def)
  have "webhook_publish env github_connector h d tenant st = (Accepted_Kind kind, st\<lparr>ig_bus := ig_bus st @
      [\<lparr>pu_subject = ul ''factory.event.github.'' @ tenant @ [46] @ kind, pu_event = ev, pu_msg_id = Some did\<rparr>]\<rparr>)"
    using n pub headers(3) did calm(2) lk by (simp add: webhook_publish_def)
  then have del: "webhook_deliver env github_connector github h d None st = (Accepted_Kind kind, st\<lparr>ig_bus := ig_bus st @
      [\<lparr>pu_subject = ul ''factory.event.github.'' @ tenant @ [46] @ kind, pu_event = ev, pu_msg_id = Some did\<rparr>]\<rparr>)"
    using life res by (simp add: webhook_deliver_def)
  have "webhook_route env cfg github None h body st = webhook_deliver env github_connector github h d None st"
    using gate_github [OF secret] payload(1)
    by (simp add: webhook_route_handle handle_webhook_def route_tenant_def parse_json_object_def)
  with del p show ?thesis by (intro exI [of _ ev] exI [of _ p]) (simp add: ev_def)
qed


text \<open>
  The installation table implements a map from \<open>(connector, external id)\<close> to tenants: a write
  that succeeds is a map update (a disabled row is no entry), one that fails before the statement runs
  changes nothing, and a lookup reads the map.
\<close>

theorem registry_refines_map:
  "(upsert_lifecycle env n x t b rows = (Inr (), rows') \<longrightarrow>
      registry_map rows' = (registry_map rows)((n, x) := if b then Some t else None)) \<and>
   (upsert_lifecycle env n x t b rows = (Inl e, rows') \<and> ie_write env \<noteq> Commit_Fault \<longrightarrow> rows' = rows) \<and>
   (sql_text n \<and> sql_text y \<and> \<not> ie_read_fault env \<longrightarrow>
      resolve env rows n (Some y) = Inr (registry_map rows (n, y)))"
proof (intro conjI impI)
  assume "upsert_lifecycle env n x t b rows = (Inr (), rows')"
  then show "registry_map rows' = (registry_map rows)((n, x) := if b then Some t else None)" by (rule registry.put_ok)
next
  assume "upsert_lifecycle env n x t b rows = (Inl e, rows') \<and> ie_write env \<noteq> Commit_Fault"
  then show "rows' = rows" by (auto dest: upsert_cases)
next
  assume "sql_text n \<and> sql_text y \<and> \<not> ie_read_fault env"
  then show "resolve env rows n (Some y) = Inr (registry_map rows (n, y))" by (simp add: resolve_registry)
qed

subsection \<open>Configuration\<close>

lemma read_secret_Inr:
  "read_secret_file host path = Inr s \<Longrightarrow> s \<noteq> [] \<and> (\<exists>raw. io_file host path = File_Text raw \<and> s = ustrip (io_ud host) raw)"
  by (auto simp: read_secret_file_def Let_def split: secret_file.splits if_splits)

definition secret_of_file :: "ingress_host \<Rightarrow> ustring \<Rightarrow> bool" where
  "secret_of_file host s \<longleftrightarrow> s \<noteq> [] \<and> (\<exists>path raw. io_file host path = File_Text raw \<and> s = ustrip (io_ud host) raw)"

lemma secret_from_env_Some: "secret_from_env host var = Inr (Some s) \<Longrightarrow> secret_of_file host s"
  by (auto simp: secret_from_env_def Let_def secret_of_file_def dest!: read_secret_Inr split: sum.splits if_splits)

lemma connector_secret_Some:
  assumes "connector_secret host name entry = Inr (Some s)"
  shows "secret_of_file host s"
proof -
  obtain from_env where f: "secret_from_env host (secret_env_var name) = Inr from_env"
    using assms by (auto simp: connector_secret_def and_then_Inr)
  show ?thesis
  proof (cases from_env)
    case None
    then show ?thesis using f assms
      by (auto simp: connector_secret_def and_then_Inr secret_of_file_def Let_def dest!: read_secret_Inr split: if_splits)
  next
    case (Some u)
    then show ?thesis using f assms secret_from_env_Some by (simp add: connector_secret_def)
  qed
qed

lemma load_connector_Inr:
  assumes "load_connector host name entry = Inr c" "cn_enabled c"
  shows "secret_of_file host (cn_secret c)"
proof -
  obtain secret where s: "connector_secret host name entry = Inr secret" "secret \<noteq> None"
    "cn_secret c = (case secret of Some s \<Rightarrow> s | None \<Rightarrow> [])"
    using assms by (auto simp: load_connector_def and_then_Inr)
  then obtain u where "secret = Some u" by blast
  with s connector_secret_Some [of host name entry u] show ?thesis by simp
qed

lemma load_connectors_Inr:
  "load_connectors host items = Inr cfg \<Longrightarrow> (n, c) \<in> set cfg \<Longrightarrow> \<exists>entry. load_connector host n entry = Inr c"
proof (induction items arbitrary: cfg)
  case Nil
  then show ?case by simp
next
  case (Cons i items)
  obtain name v where i: "i = (name, v)" by (cases i)
  show ?case using Cons by (cases v) (auto simp: i and_then_Inr)
qed

text \<open>
  A connector the loaded configuration enables has a secret, which is the stripped, non-empty content
  of a secret file: an unset or blank secret never makes a connector that accepts an empty credential.
\<close>

theorem enabled_connector_has_secret:
  assumes "load_config host data = Inr cfg" "is_enabled cfg name"
  shows "\<exists>s path raw. configured_secret cfg name = Some s \<and> get_connector_secret cfg name = Inr s \<and> s \<noteq> [] \<and>
    io_file host path = File_Text raw \<and> s = ustrip (io_ud host) raw"
proof -
  obtain items where items: "load_connectors host items = Inr cfg"
    using assms(1) by (auto simp: load_config_def split: json.splits)
  obtain c where c: "map_of cfg name = Some c" "cn_enabled c"
    using assms(2) by (auto simp: is_enabled_def split: option.splits)
  from load_connectors_Inr [OF items map_of_SomeD [OF c(1)]] obtain entry where "load_connector host name entry = Inr c" ..
  from load_connector_Inr [OF this c(2)] have s: "secret_of_file host (cn_secret c)" "cn_secret c \<noteq> []"
    by (simp_all add: secret_of_file_def)
  then obtain path raw where "io_file host path = File_Text raw" "cn_secret c = ustrip (io_ud host) raw"
    by (auto simp: secret_of_file_def)
  moreover have "configured_secret cfg name = Some (cn_secret c)" using c s by (simp add: configured_secret_def)
  ultimately show ?thesis using s(2) by (auto simp: get_connector_secret_def)
qed

subsection \<open>Failures\<close>

lemma raise_unless_Inl: "raise_unless r = Inl e \<longleftrightarrow> r = Inl e \<or> r = Inr False \<and> e = Ex_Verification"
  by (auto simp: raise_unless_def and_then_Inl split: if_splits)

lemma compare_digest_Inl: "compare_digest a b = Inl e \<longleftrightarrow> e = Ex_Type \<and> \<not> list_all (\<lambda>c. c < 128) (a @ b)"
  by (auto simp: compare_digest_def)

definition ascii :: "ustring \<Rightarrow> bool" where
  "ascii s \<longleftrightarrow> list_all (\<lambda>c. c < 128) s"

text \<open>Everything a credential check compares.\<close>

definition credentials_ascii :: "ingress_env \<Rightarrow> ingress_config \<Rightarrow> webhook_headers \<Rightarrow> nat list \<Rightarrow> bool" where
  "credentials_ascii env cfg h body \<longleftrightarrow>
     (\<forall>s \<in> set_option (wh_signature h) \<union> set_option (wh_cf_auth h) \<union> set_option (configured_secret cfg cloudflare).
        ascii s) \<and>
     (\<forall>s \<in> set_option (configured_secret cfg github). ascii (ie_hmac env (utf8_encode s) body))"

lemma verify_errors:
  assumes "builtin_registry name = Some c" "co_verify c env h body (podman_resolver cfg) pt = Inl e"
    "e \<noteq> Ex_Verification"
  shows "e = Ex_Type \<and> \<not> credentials_ascii env cfg h body"
  using assms(1) unfolding builtin_cases
proof (elim disjE conjE)
  assume c: "c = github_connector"
  then obtain secret where s: "configured_secret cfg github = Some secret"
    "verify_github_signature env body (wh_signature h) secret = Inl e"
    using assms(2,3)
    by (auto simp: github_verify_def podman_resolver_def get_connector_secret_def and_then_Inl raise_unless_Inl
        split: option.splits)
  then obtain sig where "wh_signature h = Some sig" "e = Ex_Type"
    "\<not> list_all (\<lambda>c. c < 128) (ie_hmac env (utf8_encode secret) body @ drop 7 sig)"
    by (auto simp: verify_github_signature_def compare_digest_Inl split: option.splits if_splits)
  then show ?thesis using s(1)
    by (auto simp: credentials_ascii_def ascii_def list_all_iff dest: in_set_dropD)
next
  assume c: "c = cloudflare_connector"
  then obtain secret where s: "configured_secret cfg cloudflare = Some secret"
    "verify_cloudflare_auth (wh_cf_auth h) secret = Inl e"
    using assms(2,3)
    by (auto simp: cloudflare_verify_def podman_resolver_def get_tenant_secret_def and_then_Inl raise_unless_Inl
        validate_factory_tenant_def split: option.splits if_splits)
  then show ?thesis
    by (auto simp: verify_cloudflare_auth_def compare_digest_Inl credentials_ascii_def ascii_def split: option.splits if_splits)
qed

lemma gate_crash:
  assumes "webhook_gate env cfg builtin_registry (podman_resolver cfg) name h body pt = Inl (Crashed e)"
  shows "e = Ex_Type \<and> \<not> credentials_ascii env cfg h body"
proof -
  obtain c where "builtin_registry name = Some c" "co_verify c env h body (podman_resolver cfg) pt = Inl e"
    "e \<noteq> Ex_Verification"
    using assms by (auto simp: webhook_gate_def invalid_auth_def split: if_splits option.splits sum.splits)
  then show ?thesis by (rule verify_errors)
qed

text \<open>The kind a connector gives a payload.\<close>

definition event_kind :: "ingress_env \<Rightarrow> ustring \<Rightarrow> webhook_headers \<Rightarrow> jdict \<Rightarrow> ustring" where
  "event_kind env name h d =
     (if name = github
      then github_event_kind (ie_ud env) (case wh_event h of Some e \<Rightarrow> e | None \<Rightarrow> ul ''unknown'') d
      else cloudflare_event_kind (ie_ud env) d)"

lemma normalize_kind:
  assumes "builtin_registry name = Some c" "co_normalize c env h d t = Inr ev"
  shows "le_kind ev = event_kind env name h d \<and> lyra_event_valid env ev"
  using assms(1) unfolding builtin_cases
proof (elim disjE conjE)
  assume "name = github" "c = github_connector"
  then show ?thesis using assms(2)
    by (auto simp: github_normalize_def event_kind_def Let_def and_then_Inr dest!: build_lyra_event_Inr)
next
  assume "name = cloudflare" "c = cloudflare_connector"
  then show ?thesis using assms(2)
    by (auto simp: cloudflare_normalize_def event_kind_def Let_def dest!: build_lyra_event_Inr)
qed

definition unhashable :: "json \<Rightarrow> bool" where
  "unhashable j \<longleftrightarrow> (case j of JArr xs \<Rightarrow> True | JObj d \<Rightarrow> True | _ \<Rightarrow> False)"

lemma normalize_errors:
  assumes "builtin_registry name = Some c" "co_normalize c env h d t = Inl e" "e \<noteq> Ex_Validation"
  shows "name = github \<and> e = Ex_Type \<and> unhashable (jfield d ''action'')"
proof -
  have b: "build_lyra_event env s k l m p tr tn \<noteq> Inl e" for s k l m p tr tn
    using assms(3) by (auto simp: build_lyra_event_def Let_def)
  have l: "label_action a = Inl e \<Longrightarrow> e = Ex_Type \<and> unhashable a" for a
    by (auto simp: label_action_def unhashable_def split: json.splits)
  have s: "summarize_github_payload d = Inl e \<Longrightarrow> e = Ex_Type \<and> unhashable (jfield d ''action'')"
    using l by (auto simp: summarize_github_payload_def Let_def split: sum.splits)
  show ?thesis
    using assms(1) unfolding builtin_cases
  proof (elim disjE conjE)
    assume "name = github" "c = github_connector"
    then show ?thesis using assms(2) s by (auto simp: github_normalize_def Let_def and_then_Inl b)
  next
    assume "name = cloudflare" "c = cloudflare_connector"
    then show ?thesis using assms(2) by (auto simp: cloudflare_normalize_def Let_def b)
  qed
qed

lemma lifecycle_errors:
  assumes "builtin_registry name = Some c" "co_lifecycle c env h d rows = (Inl e, rows')"
  shows "\<exists>x. co_external_id c env d = Some x \<and>
    (e = Ex_Value \<and> x = [42] \<or> e = Ex_Unicode \<and> \<not> sql_text x \<or> e = Ex_Store \<and> ie_write env \<noteq> Write_Ok)"
proof -
  have "connector_plugin c" "sql_text (co_name c)"
    using assms(1) github_plugin.connector_plugin_axioms cloudflare_plugin.connector_plugin_axioms
    by (auto simp: builtin_cases)
  then show ?thesis
    using connector_plugin.lifecycle_writes [of c env h d rows] assms(2)
    by (auto simp: upsert_lifecycle_def validate_factory_tenant_def split: if_splits)
qed

lemma service_safe: "builtin_registry name = Some c \<Longrightarrow> safe_segment (co_name c)"
  by (auto simp: builtin_cases github_def cloudflare_def safe_segment_def safe_char_def slug_char_def lower_alpha_def)

lemma publish_crash:
  assumes c: "builtin_registry name = Some c" and t: "valid_tenant_slug t"
    and p: "webhook_publish env c h d t st = (Crashed e, st')"
  shows "(e = Ex_Type \<and> name = github \<and> unhashable (jfield d ''action'')) \<or>
    (e = Ex_Value \<and> matches_kind (event_kind env name h d) \<and> \<not> safe_namespaced (event_kind env name h d)) \<or>
    (e = Ex_Value \<and> (\<exists>ev. lyra_event_valid env ev \<and> \<not> ie_dumps env ev))"
proof (cases "co_normalize c env h d t")
  case (Inl e')
  then have "e' = e" "e \<noteq> Ex_Validation" using p by (auto simp: webhook_publish_def split: if_splits)
  then show ?thesis using normalize_errors [OF c] Inl by auto
next
  case (Inr ev)
  let ?mid = "case wh_delivery h of Some d \<Rightarrow> if d \<noteq> [] then Some d else None | None \<Rightarrow> None"
  have "fst (publish_event env ev ?mid st) = Inl e"
    using p Inr by (auto simp: webhook_publish_def Let_def split: if_splits prod.splits sum.splits)
  moreover have "connector_plugin c"
    using c github_plugin.connector_plugin_axioms cloudflare_plugin.connector_plugin_axioms by (auto simp: builtin_cases)
  note ev = connector_plugin.normalized [OF this Inr] normalize_kind [OF c Inr]
  have "safe_segment (le_service ev)" "safe_segment (le_tenant ev)"
    using ev(1) service_safe [OF c] valid_tenant_slug_safe [OF t] by simp_all
  ultimately show ?thesis using ev(2)
    by (auto simp: publish_event_def per_connector_tenant_event_def lyra_event_valid_def split: if_splits)
qed

lemma resolve_Inl:
  assumes "resolve env rows n x = Inl e" "sql_text n"
  shows "e = Ex_Unicode \<and> (\<exists>y. x = Some y \<and> \<not> sql_text y) \<or> e = Ex_Store \<and> ie_read_fault env"
  using assms by (cases x) (auto simp: resolve_def validate_factory_tenant_def split: option.splits if_splits)

lemma deliver_crash:
  assumes c: "builtin_registry name = Some c" and del: "webhook_deliver env c name h d pt st = (Crashed e, st')"
  shows "e = Ex_Value \<and> co_external_id c env d = Some [42] \<or>
    e = Ex_Unicode \<and> (\<exists>y. co_external_id c env d = Some y \<and> \<not> sql_text y) \<or>
    e = Ex_Store \<and> (ie_write env \<noteq> Write_Ok \<or> ie_read_fault env) \<or>
    e = Ex_Type \<and> name = github \<and> unhashable (jfield d ''action'') \<or>
    e = Ex_Value \<and> matches_kind (event_kind env name h d) \<and> \<not> safe_namespaced (event_kind env name h d) \<or>
    e = Ex_Value \<and> (\<exists>ev. lyra_event_valid env ev \<and> \<not> ie_dumps env ev)"
proof -
  obtain r rows where life: "co_lifecycle c env h d (ig_rows st) = (r, rows)" by fastforce
  show ?thesis
  proof (cases r)
    case (Inl e')
    then have "e' = e" using del life by (simp add: webhook_deliver_def)
    with lifecycle_errors [OF c] life Inl show ?thesis by blast
  next
    case (Inr u)
    show ?thesis
    proof (cases "resolve env rows name (co_external_id c env d)")
      case r: (Inl e')
      have "e' = e" using del life Inr r by (simp add: webhook_deliver_def Let_def)
      moreover have "sql_text name" using c by (auto simp: builtin_cases)
      ultimately show ?thesis using resolve_Inl [OF r] by blast
    next
      case r: (Inr found)
      show ?thesis
      proof (cases "\<exists>t. found = Some t \<and> \<not> (co_family c = Per_Account \<and> pt \<noteq> Some t)")
        case True
        then obtain t where t: "found = Some t" "\<not> (co_family c = Per_Account \<and> pt \<noteq> Some t)" by blast
        have "webhook_publish env c h d t (st\<lparr>ig_rows := rows\<rparr>) = (Crashed e, st')"
          using del life Inr r t by (auto simp: webhook_deliver_def Let_def)
        moreover have "valid_tenant_slug t" using resolve_valid r t(1) by blast
        ultimately show ?thesis using publish_crash [OF c] by blast
      next
        case False
        then show ?thesis using del life Inr r
          by (auto simp: webhook_deliver_def Let_def split: option.splits if_splits)
      qed
    qed
  qed
qed

text \<open>
  C29: The only ways a webhook request ends in an unhandled exception: credentials beyond ASCII (from
  anyone), or, for a request with good credentials, a body the JSON parser raises on, the wildcard or a
  lone surrogate as the external id, the database, an \<open>action\<close> that is a list or a dict, a kind
  the event model accepts and the subject builder refuses, or an event that does not serialise.
\<close>

theorem webhook_failures:
  assumes "webhook_route env cfg name tenant h body st = (Crashed e, st')"
  shows "(e = Ex_Type \<and> \<not> credentials_ascii env cfg h body) \<or>
    authentic env cfg name (route_tenant name tenant) h body \<and>
    (ie_loads env body = Loads_Raised e \<or>
     (\<exists>d c x. ie_loads env body = Loaded (JObj d) \<and> builtin_registry name = Some c \<and> co_external_id c env d = x \<and>
        (e = Ex_Value \<and> x = Some [42] \<or>
         e = Ex_Unicode \<and> (\<exists>y. x = Some y \<and> \<not> sql_text y) \<or>
         e = Ex_Store \<and> (ie_write env \<noteq> Write_Ok \<or> ie_read_fault env) \<or>
         e = Ex_Type \<and> name = github \<and> unhashable (jfield d ''action'') \<or>
         e = Ex_Value \<and> matches_kind (event_kind env name h d) \<and> \<not> safe_namespaced (event_kind env name h d) \<or>
         e = Ex_Value \<and> (\<exists>ev. lyra_event_valid env ev \<and> \<not> ie_dumps env ev))))"
proof -
  let ?pt = "route_tenant name tenant"
  have h: "handle_webhook env cfg builtin_registry (podman_resolver cfg) name h body ?pt st = (Crashed e, st')"
    using assms by (simp add: webhook_route_handle)
  show ?thesis
  proof (cases "webhook_gate env cfg builtin_registry (podman_resolver cfg) name h body ?pt")
    case (Inl r)
    then show ?thesis using h gate_crash by (auto simp: handle_webhook_def)
  next
    case (Inr c)
    note g = gate_open [OF Inr]
    then have c: "builtin_registry name = Some c" by simp
    show ?thesis
    proof (cases "parse_json_object env body")
      case p: (Inl r)
      then have "ie_loads env body = Loads_Raised e"
        using h Inr by (auto simp: handle_webhook_def parse_json_object_def split: loads_result.splits json.splits)
      then show ?thesis using g by blast
    next
      case p: (Inr d)
      have del: "webhook_deliver env c name h d ?pt st = (Crashed e, st')"
        using h Inr p by (simp add: handle_webhook_def)
      have l: "ie_loads env body = Loaded (JObj d)" using p by (simp add: parse_open)
      have "(e = Ex_Value \<and> co_external_id c env d = Some [42] \<or>
         e = Ex_Unicode \<and> (\<exists>y. co_external_id c env d = Some y \<and> \<not> sql_text y) \<or>
         e = Ex_Store \<and> (ie_write env \<noteq> Write_Ok \<or> ie_read_fault env) \<or>
         e = Ex_Type \<and> name = github \<and> unhashable (jfield d ''action'') \<or>
         e = Ex_Value \<and> matches_kind (event_kind env name h d) \<and> \<not> safe_namespaced (event_kind env name h d) \<or>
         e = Ex_Value \<and> (\<exists>ev. lyra_event_valid env ev \<and> \<not> ie_dumps env ev))"
        by (rule deliver_crash [OF c del])
      then show ?thesis using g l c by blast
    qed
  qed
qed

subsection \<open>Cloudflare Pages\<close>

text \<open>
  The kind of a Cloudflare notification does not depend on its \<open>data\<close>: the deployment status
  Pages sends there, which the published summary carries, is never consulted, so a failed deployment
  whose texts do not say so is published as an ordinary notification.
\<close>

theorem cloudflare_kind_ignores_data:
  assumes "\<forall>key. key \<noteq> ul ''data'' \<longrightarrow> map_of d key = map_of d' key"
  shows "cloudflare_event_kind ud d = cloudflare_event_kind ud d' \<and>
    cloudflare_event_level (cloudflare_event_kind ud d) = cloudflare_event_level (cloudflare_event_kind ud d')"
proof -
  have f: "jfield_or j d k = jfield_or j d' k" if "ul k \<noteq> ul ''data''" for j k
    using assms that by (simp add: jfield_or_def)
  have g: "jfield_or j d ''text'' = jfield_or j d' ''text''" "jfield_or j d ''name'' = jfield_or j d' ''name''"
    "jfield_or j d ''alert_type'' = jfield_or j d' ''alert_type''" "jfield_or j d ''pages'' = jfield_or j d' ''pages''" for j
    by (simp_all add: f)
  have k: "cloudflare_alert_kind ud d = cloudflare_alert_kind ud d'"
    unfolding cloudflare_alert_kind_def jfield_def g by (rule refl)
  have "cloudflare_event_kind ud d = cloudflare_event_kind ud d'"
    unfolding cloudflare_event_kind_def jfield_def k g by (rule refl)
  then show ?thesis by simp
qed

subsection \<open>Concrete runs\<close>

definition toy_mac :: "nat list \<Rightarrow> nat list \<Rightarrow> ustring" where
  "toy_mac key body = hex_fixed 2 (sum_list key mod 256) @ hex_fixed 2 (sum_list body mod 256)"

definition notice :: "string \<Rightarrow> jdict" where
  "notice action = [(ul ''action'', JStr (ul action)), (ul ''installation'', JObj [(ul ''id'', JInt 7)])]"

definition sample_loads :: "nat list \<Rightarrow> loads_result" where
  "sample_loads body =
     (if body = [68] then Loaded (JObj (notice ''deleted''))
      else if body = [67] then Loaded (JObj (notice ''completed''))
      else if body = [46] then Loaded (JObj (notice ''a.'')) else Bad_Json)"

definition sample_ingress_env :: ingress_env where
  "sample_ingress_env = \<lparr>ie_hmac = toy_mac, ie_loads = sample_loads, ie_ud = ascii_db, ie_now = 0,
     ie_trace = ul ''t'', ie_write = Write_Ok, ie_read_fault = False, ie_text_ok = (\<lambda>_. True),
     ie_dumps = (\<lambda>_. True), ie_publisher = True, ie_broker_ok = True\<rparr>"

definition sample_ingress_cfg :: ingress_config where
  "sample_ingress_cfg = [(github, \<lparr>cn_enabled = True, cn_secret = ul ''key''\<rparr>)]"

definition signed :: "string \<Rightarrow> nat list \<Rightarrow> webhook_headers" where
  "signed event body = \<lparr>wh_event = Some (ul event), wh_delivery = Some (ul ''d1''),
     wh_signature = Some (signature_prefix @ toy_mac (utf8_encode (ul ''key'')) body), wh_cf_auth = None\<rparr>"

definition seeded :: ingress where
  "seeded = ingress_step sample_ingress_cfg (Cli_Seed sample_ingress_env github [55] (ul ''acme'')) ingress_init"

lemma sample_env_simps [simp]:
  "ie_hmac sample_ingress_env = toy_mac" "ie_loads sample_ingress_env = sample_loads"
  "ie_ud sample_ingress_env = ascii_db" "ie_write sample_ingress_env = Write_Ok"
  "\<not> ie_read_fault sample_ingress_env" "ie_text_ok sample_ingress_env m" "ie_dumps sample_ingress_env ev"
  "ie_publisher sample_ingress_env" "ie_broker_ok sample_ingress_env"
  by (simp_all add: sample_ingress_env_def)

lemma sample_secret: "configured_secret sample_ingress_cfg github = Some (ul ''key'')"
  by (simp add: configured_secret_def sample_ingress_cfg_def)

lemma hex_fixed_ascii: "list_all (\<lambda>c. c < 128) (hex_fixed k n)"
proof (induction k arbitrary: n)
  case (Suc k)
  have "n mod 16 < 16" by simp
  then have "48 + n mod 16 < 128" "87 + n mod 16 < 128" by linarith+
  then show ?case using Suc by simp
qed simp

lemma toy_mac_ascii: "list_all (\<lambda>c. c < 128) (toy_mac k b)"
  by (simp add: toy_mac_def hex_fixed_ascii del: hex_fixed.simps)

lemma notice_fields:
  "jfield (notice a) ''action'' = JStr (ul a)" "installation_id sample_ingress_env (notice a) = Some [55]"
  by (simp_all add: notice_def jfield_def jfield_or_def installation_id_def json_text_def)

lemma seeded_row: "registry_map (ig_rows seeded) (github, [55]) = Some (ul ''acme'')"
  by (simp add: seeded_def installation_seed_def validate_factory_tenant_def valid_tenant_slug_def seed_def
        upsert_lifecycle_def sql_text_def surrogate_def ingress_init_def registry_map_def slug_char_def
        lower_alpha_def github_def)

lemma signed_fields: "wh_event (signed e b) = Some (ul e)" "wh_delivery (signed e b) = Some (ul ''d1'')"
  "wh_signature (signed e b) = Some (signature_prefix @ toy_mac (utf8_encode (ul ''key'')) b)"
  by (simp_all add: signed_def)

lemma sample_delivery:
  "\<exists>ev p. summarize_github_payload (notice ''completed'') = Inr p \<and>
    webhook_route sample_ingress_env sample_ingress_cfg github None (signed ''check_run'' [67]) [67] seeded =
      (Accepted_Kind (ul ''check_run.completed''),
       seeded\<lparr>ig_bus := ig_bus seeded @ [\<lparr>pu_subject = ul ''factory.event.github.'' @ ul ''acme'' @ [46] @ ul ''check_run.completed'',
         pu_event = ev, pu_msg_id = Some (ul ''d1'')\<rparr>]\<rparr>) \<and>
    le_service ev = github \<and> le_tenant ev = ul ''acme'' \<and> le_kind ev = ul ''check_run.completed'' \<and>
    le_payload ev = p \<and> le_level ev = github_event_level (ul ''check_run.completed'') (notice ''completed'')"
proof (rule signed_delivery)
  show "configured_secret sample_ingress_cfg github = Some (ul ''key'')" by (rule sample_secret)
  show "ul ''check_run.completed'' = ureplace 45 [95] (ustrip (ie_ud sample_ingress_env) (ul ''check_run'')) @ [46] @ ul ''completed''"
    by (simp add: ureplace_def ustrip_def ascii_db_def)
  show "matches_kind (ul ''check_run.completed'')"
    by (simp add: matches_kind_def slug_char_def lower_alpha_def)
  show "safe_namespaced (ul ''check_run.completed'')"
    by (simp add: safe_namespaced_def safe_segment_def safe_char_def slug_char_def lower_alpha_def)
  show "latin_lower (ureplace 45 [] (ul ''d1'')) \<noteq> []" by (simp add: latin_lower_def ureplace_def)
  show "ul ''check_run'' \<noteq> installation_event" "ul ''completed'' \<noteq> []" by (simp_all add: installation_event_def)
  show "length [67::nat] \<le> max_body_bytes" by (simp add: max_body_bytes_def)
  show "sql_text [55]" by (simp add: sql_text_def surrogate_def)
qed (simp_all add: toy_mac_ascii sample_loads_def notice_fields signed_fields seeded_row del: ul_simps)

text \<open>The deletion notice of installation 7, which the registry then no longer knows.\<close>

lemma sample_gate:
  "webhook_gate sample_ingress_env sample_ingress_cfg builtin_registry (podman_resolver sample_ingress_cfg) github
     (signed e [b]) [b] None = Inr github_connector"
  by (rule gate_github [OF sample_secret])
     (simp_all add: toy_mac_ascii signed_fields max_body_bytes_def del: ul_simps)

lemma sample_route:
  assumes "sample_loads [b] = Loaded (JObj d)"
  shows "webhook_route sample_ingress_env sample_ingress_cfg github None (signed e [b]) [b] st =
    webhook_deliver sample_ingress_env github_connector github (signed e [b]) d None st"
  using sample_gate assms by (simp add: webhook_route_handle handle_webhook_def route_tenant_def parse_json_object_def)

lemma sample_removal:
  "\<exists>st. webhook_route sample_ingress_env sample_ingress_cfg github None (signed ''installation'' [68]) [68] seeded = (Accepted, st)"
proof -
  obtain r rows where w: "upsert_lifecycle sample_ingress_env github [55] default_tenant False (ig_rows seeded) = (r, rows)"
    by fastforce
  have ok: "r = Inr ()"
    using w by (auto simp: upsert_lifecycle_def validate_factory_tenant_def sql_text_def surrogate_def github_def)
  have "registry_map rows (github, [55]) = None" using registry.put_ok w ok by simp
  then have "resolve sample_ingress_env rows github (Some [55]) = Inr None"
    using resolve_registry [OF sql_names(1), of "[55]" sample_ingress_env rows] by (simp add: sql_text_def surrogate_def)
  moreover have "github_lifecycle sample_ingress_env (signed ''installation'' [68]) (notice ''deleted'') (ig_rows seeded) = (Inr (), rows)"
    using w ok by (simp add: github_lifecycle_def notice_fields signed_fields installation_event_def)
  ultimately show ?thesis
    by (simp add: sample_route sample_loads_def webhook_deliver_def notice_fields)
qed

theorem webhook_needs_credentials_witness:
  "authentic sample_ingress_env sample_ingress_cfg github None (signed ''check_run'' [67]) [67]"
proof -
  obtain ev p where "webhook_route sample_ingress_env sample_ingress_cfg github None (signed ''check_run'' [67]) [67] seeded =
      (Accepted_Kind (ul ''check_run.completed''),
       seeded\<lparr>ig_bus := ig_bus seeded @ [\<lparr>pu_subject = ul ''factory.event.github.'' @ ul ''acme'' @ [46] @ ul ''check_run.completed'',
         pu_event = ev, pu_msg_id = Some (ul ''d1'')\<rparr>]\<rparr>)"
    using sample_delivery by blast
  from webhook_needs_credentials [OF this] show ?thesis by (simp add: route_tenant_def)
qed


theorem published_subjects_read_back_witness:
  "\<exists>p \<in> set (ig_bus (ingress_run sample_ingress_cfg
      [Cli_Seed sample_ingress_env github [55] (ul ''acme''),
       Webhook sample_ingress_env github None (signed ''check_run'' [67]) [67]] ingress_init)).
     subject_tokens (pu_subject p) = [ul ''factory'', ul ''event'', github, ul ''acme''] @ usplit 46 (ul ''check_run.completed'')"
proof -
  obtain ev p where r: "webhook_route sample_ingress_env sample_ingress_cfg github None (signed ''check_run'' [67]) [67] seeded =
      (Accepted_Kind (ul ''check_run.completed''),
       seeded\<lparr>ig_bus := ig_bus seeded @ [\<lparr>pu_subject = ul ''factory.event.github.'' @ ul ''acme'' @ [46] @ ul ''check_run.completed'',
         pu_event = ev, pu_msg_id = Some (ul ''d1'')\<rparr>]\<rparr>)"
    "le_service ev = github" "le_tenant ev = ul ''acme''" "le_kind ev = ul ''check_run.completed''"
    using sample_delivery by blast
  let ?ops = "[Cli_Seed sample_ingress_env github [55] (ul ''acme''),
    Webhook sample_ingress_env github None (signed ''check_run'' [67]) [67]]"
  have "ingress_run sample_ingress_cfg ?ops ingress_init =
      snd (webhook_route sample_ingress_env sample_ingress_cfg github None (signed ''check_run'' [67]) [67] seeded)"
    by (simp add: ingress_run_def seeded_def)
  then have bus: "\<exists>p \<in> set (ig_bus (ingress_run sample_ingress_cfg ?ops ingress_init)). pu_event p = ev"
    by (simp add: r(1))
  then obtain p where p: "p \<in> set (ig_bus (ingress_run sample_ingress_cfg ?ops ingress_init))" "ev = pu_event p" by blast
  from published_subjects_read_back [OF p] r(2-4)
  have "subject_tokens (pu_subject p) = [ul ''factory'', ul ''event'', github, ul ''acme''] @ usplit 46 (ul ''check_run.completed'')"
    by (simp only: simp_thms)
  with p(1) show ?thesis by blast
qed

theorem uninstalled_stays_silent_witness:
  "\<exists>st1 reply st2. webhook_route sample_ingress_env sample_ingress_cfg github None (signed ''installation'' [68]) [68] seeded = (Accepted, st1) \<and>
     webhook_route sample_ingress_env sample_ingress_cfg github None (signed ''check_run'' [67]) [67] st1 = (reply, st2) \<and>
     ig_bus st2 = ig_bus st1"
proof -
  obtain st1 where r1: "webhook_route sample_ingress_env sample_ingress_cfg github None (signed ''installation'' [68]) [68] seeded = (Accepted, st1)"
    using sample_removal by blast
  obtain reply st2 where r2: "webhook_route sample_ingress_env sample_ingress_cfg github None (signed ''check_run'' [67]) [67] st1 = (reply, st2)"
    by fastforce
  have "ig_bus st2 = ig_bus st1"
  proof (rule uninstalled_stays_silent [OF r1, where ops = "[]" and d = "notice ''deleted''" and x = "[55]"])
    show "st1 = ingress_run sample_ingress_cfg [] st1" by (simp add: ingress_run_def)
    show "webhook_route sample_ingress_env sample_ingress_cfg github None (signed ''check_run'' [67]) [67] st1 = (reply, st2)" by (rule r2)
    show "ie_loads sample_ingress_env [67] = Loaded (JObj (notice ''completed''))" by (simp add: sample_loads_def)
    show "\<not> enrols [55] (Webhook sample_ingress_env github None (signed ''check_run'' [67]) [67])"
      by (simp add: signed_fields installation_event_def)
  qed (simp_all add: sample_loads_def notice_fields signed_fields installation_event_def)
  with r1 r2 show ?thesis by blast
qed


text \<open>A signed \<open>check_run\<close> whose action ends in a dot: the event is valid, its subject is not.\<close>

lemma dotted_kind_crashes:
  "webhook_route sample_ingress_env sample_ingress_cfg github None (signed ''check_run'' [46]) [46] seeded = (Crashed Ex_Value, seeded)"
proof -
  have l: "github_lifecycle sample_ingress_env (signed ''check_run'' [46]) (notice ''a.'') (ig_rows seeded) = (Inr (), ig_rows seeded)"
    by (simp add: github_lifecycle_def signed_fields installation_event_def)
  have r: "resolve sample_ingress_env (ig_rows seeded) github (Some [55]) = Inr (Some (ul ''acme''))"
    using resolve_registry [OF sql_names(1), of "[55]" sample_ingress_env "ig_rows seeded"] seeded_row
    by (simp add: sql_text_def surrogate_def del: ul_simps)
  have k: "github_event_kind ascii_db (ul ''check_run'') (notice ''a.'') = ul ''check_run.a.''"
    by (simp add: github_event_kind_def notice_fields ureplace_def ustrip_def ascii_db_def)
  obtain p where p: "summarize_github_payload (notice ''a.'') = Inr p"
    using summarize_github_ok [OF notice_fields(1)] by blast
  let ?ev = "\<lparr>le_trace = wire_trace_id_hex sample_ingress_env (Some (ul ''d1'')), le_issued = ie_now sample_ingress_env,
    le_service = github, le_kind = ul ''check_run.a.'', le_level = github_event_level (ul ''check_run.a.'') (notice ''a.''),
    le_message = Some (github_event_message (ul ''check_run.a.'') (notice ''a.'')), le_payload = p, le_tenant = ul ''acme''\<rparr>"
  have "lyra_event_valid sample_ingress_env ?ev"
    by (simp add: lyra_event_valid_def wire_trace_id_hex_def ureplace_def latin_lower_def matches_service_def
          matches_kind_def matches_tenant_def github_def slug_char_def lower_alpha_def github_event_level_def)
  then have n: "github_normalize sample_ingress_env (signed ''check_run'' [46]) (notice ''a.'') (ul ''acme'') = Inr ?ev"
    by (simp add: github_normalize_def Let_def signed_fields k p build_lyra_event_def del: ul_simps)
  have u: "\<not> safe_namespaced (ul ''check_run.a.'')" by (simp add: safe_namespaced_def safe_segment_def)
  have "publish_event sample_ingress_env ?ev m seeded = (Inl Ex_Value, seeded)" for m
    using u by (simp add: publish_event_def per_connector_tenant_event_def del: ul_simps)
  then have "webhook_publish sample_ingress_env github_connector (signed ''check_run'' [46]) (notice ''a.'') (ul ''acme'') seeded =
      (Crashed Ex_Value, seeded)"
    using n by (simp add: webhook_publish_def del: ul_simps)
  then show ?thesis
    using l r by (simp add: sample_route sample_loads_def webhook_deliver_def notice_fields del: ul_simps)
qed

theorem webhook_failures_witness:
  "authentic sample_ingress_env sample_ingress_cfg github None (signed ''check_run'' [46]) [46]"
proof -
  have "credentials_ascii sample_ingress_env sample_ingress_cfg (signed ''check_run'' [46]) [46]"
    by (simp add: credentials_ascii_def ascii_def signed_def sample_ingress_cfg_def configured_secret_def toy_mac_ascii
          signature_prefix_def)
  with webhook_failures [OF dotted_kind_crashes]
  have "authentic sample_ingress_env sample_ingress_cfg github (route_tenant github None) (signed ''check_run'' [46]) [46]"
    by blast
  then show ?thesis by (simp add: route_tenant_def)
qed

theorem enabled_connector_has_secret_witness:
  "\<exists>s. configured_secret [(github, \<lparr>cn_enabled = True, cn_secret = ul ''key''\<rparr>)] github = Some s \<and> s \<noteq> []"
proof -
  let ?host = "\<lparr>io_env = (\<lambda>_. ul ''/run/s''), io_file = (\<lambda>_. File_Text (ul '' key '')), io_ud = ascii_db\<rparr>"
  have "load_config ?host [(ul ''connector'', JObj [(github, JObj [])])] =
      Inr [(github, \<lparr>cn_enabled = True, cn_secret = ul ''key''\<rparr>)]"
    by (simp add: load_config_def jfield_or_def load_connector_def connector_secret_def secret_from_env_def
          read_secret_file_def ustrip_def ascii_db_def truthy_def Let_def)
  from enabled_connector_has_secret [OF this, of github] show ?thesis
    by (auto simp: is_enabled_def)
qed

theorem cloudflare_kind_ignores_data_witness:
  "cloudflare_event_kind ascii_db
     [(ul ''name'', JStr (ul ''Pages alert'')), (ul ''data'', JObj [(ul ''deployment_status'', JStr (ul ''failure''))])] =
   cloudflare_event_kind ascii_db [(ul ''name'', JStr (ul ''Pages alert''))]"
  using cloudflare_kind_ignores_data [of
    "[(ul ''name'', JStr (ul ''Pages alert'')), (ul ''data'', JObj [(ul ''deployment_status'', JStr (ul ''failure''))])]"
    "[(ul ''name'', JStr (ul ''Pages alert''))]" ascii_db]
  by simp

end
