(* ===== verification/Wire_Codec.thy ===== *)
theory Wire_Codec
  imports Stream_Processor Password_Hash Sql_Table
begin

text \<open>
  The serializer of the bus (packages/roxabi-nats, _serialize.py) and its version check
  (_version_check.py).

  A Python value is a \<open>py_obj\<close>: a dataclass instance carries its class name and its fields in
  declaration order, a datetime the text \<open>isoformat\<close> gives it. Type hints are as
  \<open>get_type_hints\<close> resolves them; a union lists its members other than \<open>None\<close>. What
  \<open>json.dumps\<close> writes \<open>json.loads\<close> reads back, so a message is the JSON value itself; writing
  fails on a lone surrogate (UTF-8) and on a callable outside a field. Pydantic models, which encode
  themselves, are left out, as are hooks a dataclass runs on construction.
\<close>

datatype py_obj =
    P_None
  | P_Bool bool
  | P_Int int
  | P_Float string
  | P_Str ustring
  | P_Bytes bytes
  | P_Time ustring
  | P_Enum string json
  | P_List "py_obj list"
  | P_Dict "(ustring \<times> py_obj) list"
  | P_Data string "(ustring \<times> py_obj) list"
  | P_Callable

datatype wire_exn = W_Type | W_Value | W_Attribute | W_Unicode

datatype type_hint =
    T_Any
  | T_Plain
  | T_Str
  | T_Literal
  | T_Bytes
  | T_Time
  | T_Enum string "json list"
  | T_List type_hint
  | T_Union "type_hint list"
  | T_Data string

text \<open>A field: its name, its hint (none when hints do not resolve), its default.\<close>

record class_field =
  fd_name :: ustring
  fd_hint :: "type_hint option"
  fd_default :: "py_obj option"

record wire_env =
  we_class :: "string \<Rightarrow> class_field list"
  we_iso :: "ustring \<Rightarrow> ustring option"

subsection \<open>Base64 with the standard alphabet\<close>

definition b64_standard :: "char \<Rightarrow> char" where
  "b64_standard c = (if c = CHR ''-'' then CHR ''+'' else if c = CHR ''_'' then CHR ''/'' else c)"

definition b64encode :: "bytes \<Rightarrow> ustring" where
  "b64encode bs = ul (map b64_standard (b64_encode bs))"

definition b64decode :: "ustring \<Rightarrow> bytes option" where
  "b64decode s =
     (if list_all (\<lambda>c. c < 128) s
      then b64_loop 0 0 0 (filter (\<lambda>c. c \<noteq> CHR ''-'' \<and> c \<noteq> CHR ''_'') (map char_of s)) else None)"

definition b64_prefix :: ustring where
  "b64_prefix = ul ''b64:''"

subsection \<open>Encoding\<close>

lemma size_field [termination_simp]:
  "(k, v) \<in> set fs \<Longrightarrow> size v < Suc (size_list (size_prod (\<lambda>_. 0) size) fs)"
  by (induction fs) auto

function wire_encode :: "py_obj \<Rightarrow> json option" where
  "wire_encode P_None = Some JNull"
| "wire_encode (P_Bool b) = Some (JBool b)"
| "wire_encode (P_Int n) = Some (JInt n)"
| "wire_encode (P_Float s) = Some (JFloat s)"
| "wire_encode (P_Str s) = Some (JStr s)"
| "wire_encode (P_Bytes bs) = Some (JStr (b64_prefix @ b64encode bs))"
| "wire_encode (P_Time t) = Some (JStr t)"
| "wire_encode (P_Enum c j) = Some j"
| "wire_encode (P_List xs) = map_option JArr (those (map wire_encode xs))"
| "wire_encode (P_Dict d) = map_option JObj
     (those (map (\<lambda>(k, v). map_option (Pair k) (wire_encode v)) (filter (\<lambda>(k, v). v \<noteq> P_Callable) d)))"
| "wire_encode (P_Data c fs) = map_option JObj
     (those (map (\<lambda>(k, v). map_option (Pair k) (wire_encode v)) (filter (\<lambda>(k, v). v \<noteq> P_Callable) fs)))"
| "wire_encode P_Callable = None"
  by pat_completeness auto
termination
  by (relation "measure size") (auto simp: termination_simp less_Suc_eq_le size_list_estimation')

text \<open>Text that UTF-8 can carry.\<close>

definition utf8_text :: "ustring \<Rightarrow> bool" where
  "utf8_text s \<longleftrightarrow> list_all (\<lambda>c. \<not> surrogate c) s"

fun json_utf8 :: "json \<Rightarrow> bool" where
  "json_utf8 (JStr s) = utf8_text s"
| "json_utf8 (JArr xs) = (\<forall>x \<in> set xs. json_utf8 x)"
| "json_utf8 (JObj d) = (\<forall>(k, v) \<in> set d. utf8_text k \<and> json_utf8 v)"
| "json_utf8 j = True"

definition serialize :: "py_obj \<Rightarrow> wire_exn + json" where
  "serialize v =
     (case wire_encode v of
        None \<Rightarrow> Inl W_Type
      | Some j \<Rightarrow> if json_utf8 j then Inr j else Inl W_Unicode)"

subsection \<open>Decoding\<close>

primrec raw :: "json \<Rightarrow> py_obj" where
  "raw JNull = P_None"
| "raw (JBool b) = P_Bool b"
| "raw (JInt n) = P_Int n"
| "raw (JFloat s) = P_Float s"
| "raw (JStr s) = P_Str s"
| "raw (JArr xs) = P_List (map raw xs)"
| "raw (JObj d) = P_Dict (map (map_prod id raw) d)"

definition b64_text :: "json \<Rightarrow> bool" where
  "b64_text v = (case v of JStr s \<Rightarrow> ustartswith b64_prefix s | _ \<Rightarrow> False)"

definition decode_b64_text :: "json \<Rightarrow> wire_exn + py_obj" where
  "decode_b64_text v =
     (case v of
        JStr s \<Rightarrow> (case b64decode (drop (length b64_prefix) s) of Some bs \<Rightarrow> Inr (P_Bytes bs) | None \<Rightarrow> Inl W_Value)
      | _ \<Rightarrow> Inl W_Value)"

definition decode_bytes :: "json \<Rightarrow> wire_exn + py_obj" where
  "decode_bytes v = (if b64_text v then decode_b64_text v else Inl W_Value)"

definition hint_names :: "class_field list \<Rightarrow> ustring list" where
  "hint_names fs = map fd_name (filter (\<lambda>f. fd_hint f \<noteq> None) fs)"

text \<open>The member with the most fields in the payload, the first of several; else the first without hints.\<close>

definition better_of :: "(string \<times> nat) option \<Rightarrow> string \<Rightarrow> nat \<Rightarrow> (string \<times> nat) option" where
  "better_of best c score =
     (case best of None \<Rightarrow> Some (c, score) | Some (b, n) \<Rightarrow> if n < score then Some (c, score) else Some (b, n))"

definition hint_score :: "wire_env \<Rightarrow> (ustring \<times> json) list \<Rightarrow> string \<Rightarrow> nat" where
  "hint_score env d c = card (set (hint_names (we_class env c)) \<inter> fst ` set d)"

fun best_candidate ::
    "wire_env \<Rightarrow> (ustring \<times> json) list \<Rightarrow> type_hint list \<Rightarrow> (string \<times> nat) option \<Rightarrow> string option \<Rightarrow> string option" where
  "best_candidate env d [] best fallback =
     (case best of Some (c, score) \<Rightarrow> if 0 < score then Some c else fallback | None \<Rightarrow> fallback)"
| "best_candidate env d (T_Data c # hs) best fallback =
     (if hint_names (we_class env c) = []
      then best_candidate env d hs best (case fallback of None \<Rightarrow> Some c | Some f \<Rightarrow> Some f)
      else best_candidate env d hs (better_of best c (hint_score env d c)) fallback)"
| "best_candidate env d (h # hs) best fallback = best_candidate env d hs best fallback"

lemma best_candidate_in:
  "best_candidate env d hs best fallback = Some c \<Longrightarrow>
     T_Data c \<in> set hs \<or> map_option fst best = Some c \<or> fallback = Some c"
proof (induction env d hs best fallback rule: best_candidate.induct)
  case (1 env d best fallback)
  then show ?case by (auto split: option.splits if_splits)
next
  case (2 env d c' hs best fallback)
  show ?case
  proof (cases "hint_names (we_class env c') = []")
    case True
    then show ?thesis using 2 by (auto split: option.splits)
  next
    case False
    have "map_option fst (better_of best c' (hint_score env d c')) = Some c \<Longrightarrow> c = c' \<or> map_option fst best = Some c"
      by (auto simp: better_of_def split: option.splits if_splits)
    then show ?thesis using 2 False by auto
  qed
qed simp_all

lemma candidate_smaller:
  assumes "best_candidate env d hs None None = Some c"
  shows "size (T_Data c) < size (T_Union hs)"
proof -
  have "T_Data c \<in> set hs" using best_candidate_in [OF assms] by simp
  then have "size (T_Data c) \<le> size_list size hs" by (rule size_list_estimation') simp
  then show ?thesis by simp
qed

text \<open>The constructor: a field left out takes its default; without one it raises.\<close>

definition construct :: "string \<Rightarrow> class_field list \<Rightarrow> py_obj option list \<Rightarrow> wire_exn + py_obj" where
  "construct c fs vals =
     (let args = map2 (\<lambda>f v. case v of Some x \<Rightarrow> Some x | None \<Rightarrow> fd_default f) fs vals
      in case those args of
           Some xs \<Rightarrow> Inr (P_Data c (zip (map fd_name fs) xs))
         | None \<Rightarrow> Inl W_Type)"

definition result_map :: "('a \<Rightarrow> 'b) \<Rightarrow> wire_exn + 'a \<Rightarrow> wire_exn + 'b" where
  "result_map f r = (case r of Inl e \<Rightarrow> Inl e | Inr x \<Rightarrow> Inr (f x))"

primrec json_weight :: "json \<Rightarrow> nat" where
  "json_weight JNull = 0"
| "json_weight (JBool b) = 0"
| "json_weight (JInt n) = 0"
| "json_weight (JFloat s) = 0"
| "json_weight (JStr s) = 0"
| "json_weight (JArr xs) = Suc (sum_list (map json_weight xs))"
| "json_weight (JObj d) = Suc (sum_list (map snd (map (map_prod id json_weight) d)))"

lemma weight_item: "x \<in> set xs \<Longrightarrow> json_weight x \<le> sum_list (map json_weight xs)"
  by (simp add: member_le_sum_list)

lemma weight_value: "map_of d k = Some v \<Longrightarrow> json_weight v \<le> sum_list (map (json_weight \<circ> snd) d)"
  by (induction d) (auto split: if_splits)

function wire_decode :: "wire_env \<Rightarrow> type_hint \<Rightarrow> json \<Rightarrow> wire_exn + py_obj" where
  "wire_decode env T_Any v = Inr (raw v)"
| "wire_decode env T_Plain v = Inr (raw v)"
| "wire_decode env T_Str v = Inr (raw v)"
| "wire_decode env T_Literal v = Inr (raw v)"
| "wire_decode env T_Bytes v = decode_bytes v"
| "wire_decode env T_Time v =
     (case v of
        JStr s \<Rightarrow> (case we_iso env s of Some t \<Rightarrow> Inr (P_Time t) | None \<Rightarrow> Inl W_Value)
      | _ \<Rightarrow> Inr (raw v))"
| "wire_decode env (T_Enum c vals) v = (if v \<in> set vals then Inr (P_Enum c v) else Inl W_Value)"
| "wire_decode env (T_List h) v =
     (case v of
        JNull \<Rightarrow> Inr P_None
      | JArr xs \<Rightarrow> result_map P_List (all_ok (map (wire_decode env h) xs))
      | JStr s \<Rightarrow> result_map P_List (all_ok (map (\<lambda>c. wire_decode env h (JStr [c])) s))
      | JObj d \<Rightarrow> result_map P_List (all_ok (map (\<lambda>k. wire_decode env h (JStr k)) (map fst d)))
      | _ \<Rightarrow> Inl W_Type)"
| "wire_decode env (T_Union hs) v =
     (if v = JNull then Inr P_None
      else if T_Bytes \<in> set hs \<and> b64_text v then decode_b64_text v
      else case hs of
        [h] \<Rightarrow> wire_decode env h v
      | _ \<Rightarrow>
          (case v of
             JObj d \<Rightarrow>
               (case best_candidate env d hs None None of
                  Some c \<Rightarrow> wire_decode env (T_Data c) v
                | None \<Rightarrow> Inr (raw v))
           | _ \<Rightarrow> Inr (raw v)))"
| "wire_decode env (T_Data c) v =
     (case v of
        JNull \<Rightarrow> Inr P_None
      | JObj d \<Rightarrow>
          (case all_ok (map (\<lambda>f.
                  case map_of d (fd_name f) of
                    None \<Rightarrow> Inr None
                  | Some x \<Rightarrow>
                      (case fd_hint f of
                         None \<Rightarrow> Inr (Some (raw x))
                       | Some h \<Rightarrow> result_map Some (wire_decode env h x))) (we_class env c)) of
             Inl e \<Rightarrow> Inl e
           | Inr vals \<Rightarrow> construct c (we_class env c) vals)
      | _ \<Rightarrow> Inr (raw v))"
  by pat_completeness auto
termination
  by (relation "measures [\<lambda>(env, h, v). json_weight v, \<lambda>(env, h, v). size h]")
     (auto simp: less_Suc_eq_le weight_item weight_value dest: candidate_smaller)

definition deserialize :: "wire_env \<Rightarrow> string \<Rightarrow> json \<Rightarrow> wire_exn + py_obj" where
  "deserialize env c v = wire_decode env (T_Data c) v"

subsection \<open>Version checks\<close>

type_synonym drop_counter = "(ustring \<times> nat) list"

record drop_log =
  dl_counter :: drop_counter
  dl_last :: "(ustring \<times> time) list"
  dl_lines :: "(time \<times> ustring) list"

definition drop_log_init :: drop_log where
  "drop_log_init = \<lparr>dl_counter = [], dl_last = [], dl_lines = []\<rparr>"

definition log_interval :: time where "log_interval = 60"

definition bump :: "ustring \<Rightarrow> drop_counter \<Rightarrow> drop_counter" where
  "bump key d = AList.update key ((case map_of d key of None \<Rightarrow> 0 | Some n \<Rightarrow> n) + 1) d"

definition version_drop :: "time \<Rightarrow> ustring \<Rightarrow> string \<Rightarrow> drop_log \<Rightarrow> drop_log" where
  "version_drop now envelope kind dl =
     (let key = envelope @ [58] @ ul kind; dl' = dl\<lparr>dl_counter := bump key (dl_counter dl)\<rparr>
      in case map_of (dl_last dl) key of
           Some logged \<Rightarrow>
             if now - logged < log_interval then dl'
             else dl'\<lparr>dl_last := AList.update key now (dl_last dl), dl_lines := dl_lines dl @ [(now, key)]\<rparr>
         | None \<Rightarrow> dl'\<lparr>dl_last := AList.update key now (dl_last dl), dl_lines := dl_lines dl @ [(now, key)]\<rparr>)"

definition schema_version_ok :: "(ustring \<times> json) list \<Rightarrow> int \<Rightarrow> bool" where
  "schema_version_ok payload expected =
     (case map_of payload (ul ''schema_version'') of
        None \<Rightarrow> 1 \<le> expected
      | Some (JInt n) \<Rightarrow> 0 < n \<and> n \<le> expected
      | Some _ \<Rightarrow> False)"

definition check_schema_version ::
    "time \<Rightarrow> (ustring \<times> json) list \<Rightarrow> ustring \<Rightarrow> int \<Rightarrow> drop_log \<Rightarrow> bool \<times> drop_log" where
  "check_schema_version now payload envelope expected dl =
     (if schema_version_ok payload expected then (True, dl) else (False, version_drop now envelope ''schema'' dl))"

text \<open>\<open>[1-9][0-9]*\<close> and its value.\<close>

definition plain_decimal :: "ustring \<Rightarrow> bool" where
  "plain_decimal s \<longleftrightarrow>
     (case s of [] \<Rightarrow> False | c # cs \<Rightarrow> 49 \<le> c \<and> c \<le> 57 \<and> list_all (\<lambda>d. 48 \<le> d \<and> d \<le> 57) cs)"

definition decimal_value :: "ustring \<Rightarrow> nat" where
  "decimal_value s = foldl (\<lambda>n c. 10 * n + (c - 48)) 0 s"

text \<open>\<open>int\<close> raises on more than 4300 digits; the receiver's own version parses.\<close>

definition contract_version_ok :: "(ustring \<times> json) list \<Rightarrow> ustring \<Rightarrow> wire_exn + bool" where
  "contract_version_ok payload expected =
     (let given = (case map_of payload (ul ''contract_version'') of None \<Rightarrow> JStr (ul ''1'') | Some v \<Rightarrow> v)
      in case given of
           JStr s \<Rightarrow>
             if \<not> plain_decimal s then Inr False
             else if 4300 < length s then Inl W_Value
             else Inr (decimal_value s \<le> decimal_value expected)
         | _ \<Rightarrow> Inr False)"

definition check_contract_version ::
    "time \<Rightarrow> (ustring \<times> json) list \<Rightarrow> ustring \<Rightarrow> ustring \<Rightarrow> drop_log \<Rightarrow> (wire_exn + bool) \<times> drop_log" where
  "check_contract_version now payload envelope expected dl =
     (case contract_version_ok payload expected of
        Inl e \<Rightarrow> (Inl e, dl)
      | Inr True \<Rightarrow> (Inr True, dl)
      | Inr False \<Rightarrow> (Inr False, version_drop now envelope ''contract'' dl))"

subsection \<open>Base64 round trip\<close>

lemma b64_standard_index [simp]: "b64_index (b64_standard c) = b64_index c"
  by (simp add: b64_standard_def b64_index_def)

lemma b64_standard_pad [simp]: "b64_standard c = CHR ''='' \<longleftrightarrow> c = CHR ''=''"
  by (simp add: b64_standard_def)

lemma b64_loop_standard: "b64_loop q left pads (map b64_standard cs) = b64_loop q left pads cs"
  by (induction q left pads cs rule: b64_loop.induct) (simp_all split: option.split)

lemma b64_standard_ascii: "of_char c < (128::nat) \<Longrightarrow> of_char (b64_standard c) < (128::nat)"
  by (simp add: b64_standard_def)

lemma b64_encode_ascii: "list_all is_byte bs \<Longrightarrow> is_ascii (b64_encode bs)"
  using b64_encode_chars by (auto simp: is_ascii_def list_all_iff)

lemma b64decode_b64encode:
  assumes "list_all is_byte bs"
  shows "b64decode (b64encode bs) = Some bs"
proof -
  let ?cs = "map b64_standard (b64_encode bs)"
  have ascii: "list_all (\<lambda>c. c < 128) (b64encode bs)"
    using b64_encode_ascii [OF assms] b64_standard_ascii by (auto simp: b64encode_def ul_def is_ascii_def list_all_iff)
  have chars: "map char_of (b64encode bs) = ?cs" by (simp add: b64encode_def ul_def comp_def)
  have none: "filter (\<lambda>c. c \<noteq> CHR ''-'' \<and> c \<noteq> CHR ''_'') ?cs = ?cs"
    by (auto simp: filter_id_conv b64_standard_def)
  have "b64_loop 0 0 0 ?cs = b64_loop 0 0 0 (b64_encode bs)" by (rule b64_loop_standard)
  also have "\<dots> = Some bs" by (rule b64_loop_encode [OF assms])
  finally show ?thesis using ascii by (simp only: b64decode_def chars none) simp
qed

subsection \<open>Round trip\<close>

lemma raw_encode: "wire_encode (raw j) = Some j"
proof (induction j)
  case (JArr xs)
  then have "those (map wire_encode (map raw xs)) = Some xs" by (induction xs) auto
  then show ?case by simp
next
  case (JObj d)
  have r: "raw v \<noteq> P_Callable" for v by (cases v) simp_all
  then have f: "filter (\<lambda>(k, v). v \<noteq> P_Callable) (map (map_prod id raw) d) = map (map_prod id raw) d"
    by (auto simp: filter_id_conv)
  have "those (map (\<lambda>(k, v). map_option (Pair k) (wire_encode v)) (map (map_prod id raw) d)) = Some d"
    using JObj by (induction d) (fastforce simp: map_prod_def)+
  then show ?case by (simp only: raw.simps wire_encode.simps f) simp
qed simp_all

lemma wire_encode_Null: "wire_encode v = Some JNull \<longleftrightarrow> v = P_None \<or> (\<exists>c. v = P_Enum c JNull)"
  by (cases v) (auto simp: map_option_case split: option.splits)

text \<open>
  \<open>describes env h v\<close>: the value \<open>v\<close> is one the hint \<open>h\<close> describes, and one the union it may stand
  in tells apart on the wire.
\<close>

inductive describes :: "wire_env \<Rightarrow> type_hint \<Rightarrow> py_obj \<Rightarrow> bool" for env where
  fits_raw: "h \<in> {T_Any, T_Plain, T_Str, T_Literal} \<Longrightarrow> describes env h (raw j)"
| fits_bytes: "list_all is_byte bs \<Longrightarrow> describes env T_Bytes (P_Bytes bs)"
| fits_time: "we_iso env t = Some t \<Longrightarrow> describes env T_Time (P_Time t)"
| fits_enum: "j \<in> set vals \<Longrightarrow> describes env (T_Enum c vals) (P_Enum c j)"
| fits_list: "(\<And>x. x \<in> set xs \<Longrightarrow> describes env h x) \<Longrightarrow> describes env (T_List h) (P_List xs)"
| fits_none: "describes env (T_Union hs) P_None"
| fits_optional: "describes env h v \<Longrightarrow> wire_encode v \<noteq> Some JNull \<Longrightarrow> describes env (T_Union [h]) v"
| fits_union_raw: "(\<And>h. hs \<noteq> [h]) \<Longrightarrow> \<not> (T_Bytes \<in> set hs \<and> b64_text j) \<Longrightarrow> \<not> (\<exists>d. j = JObj d) \<Longrightarrow>
    describes env (T_Union hs) (raw j)"
| fits_union_data: "(\<And>h. hs \<noteq> [h]) \<Longrightarrow> wire_encode v = Some (JObj d) \<Longrightarrow>
    best_candidate env d hs None None = Some c \<Longrightarrow> describes env (T_Data c) v \<Longrightarrow> describes env (T_Union hs) v"
| fits_data: "map fst fs = map fd_name (we_class env c) \<Longrightarrow> distinct (map fst fs) \<Longrightarrow>
    (\<And>i h. i < length fs \<Longrightarrow> fd_hint (we_class env c ! i) = Some h \<Longrightarrow> describes env h (snd (fs ! i))) \<Longrightarrow>
    (\<And>i. i < length fs \<Longrightarrow> fd_hint (we_class env c ! i) = None \<Longrightarrow> \<exists>j. snd (fs ! i) = raw j) \<Longrightarrow>
    describes env (T_Data c) (P_Data c fs)"

lemma those_map_Some: "(\<And>x. x \<in> set xs \<Longrightarrow> f x = Some (g x)) \<Longrightarrow> those (map f xs) = Some (map g xs)"
  by (induction xs) auto

lemma all_ok_map_Inr: "(\<And>x. x \<in> set xs \<Longrightarrow> f x = Inr (g x)) \<Longrightarrow> all_ok (map f xs) = Inr (map g xs)"
  by (induction xs) auto

definition round_trips :: "wire_env \<Rightarrow> type_hint \<Rightarrow> py_obj \<Rightarrow> bool" where
  "round_trips env h v \<longleftrightarrow> (\<exists>j. wire_encode v = Some j \<and> wire_decode env h j = Inr v)"

lemma round_trips_list:
  assumes "\<And>x. x \<in> set xs \<Longrightarrow> round_trips env h x"
  shows "round_trips env (T_List h) (P_List xs)"
proof -
  define e where "e x = the (wire_encode x)" for x
  have e: "wire_encode x = Some (e x) \<and> wire_decode env h (e x) = Inr x" if "x \<in> set xs" for x
    using assms [OF that] by (auto simp: round_trips_def e_def)
  have "those (map wire_encode xs) = Some (map e xs)" using e by (intro those_map_Some) simp
  moreover have "all_ok (map (\<lambda>x. wire_decode env h (e x)) xs) = Inr (map (\<lambda>x. x) xs)"
    using e by (intro all_ok_map_Inr) simp
  ultimately show ?thesis by (simp add: round_trips_def result_map_def comp_def)
qed

lemma round_trips_data:
  assumes names: "map fst fs = map fd_name (we_class env c)" "distinct (map fst fs)"
    and hinted: "\<And>i h. i < length fs \<Longrightarrow> fd_hint (we_class env c ! i) = Some h \<Longrightarrow> round_trips env h (snd (fs ! i))"
    and plain: "\<And>i. i < length fs \<Longrightarrow> fd_hint (we_class env c ! i) = None \<Longrightarrow> \<exists>j. snd (fs ! i) = raw j"
  shows "round_trips env (T_Data c) (P_Data c fs)"
proof -
  let ?cls = "we_class env c"
  have len: "length ?cls = length fs" using arg_cong [OF names(1), of length] by simp
  define e where "e x = the (wire_encode x)" for x
  have enc: "wire_encode (snd (fs ! i)) = Some (e (snd (fs ! i))) \<and>
      (case fd_hint (?cls ! i) of None \<Rightarrow> Inr (Some (raw (e (snd (fs ! i)))))
       | Some h \<Rightarrow> result_map Some (wire_decode env h (e (snd (fs ! i))))) = Inr (Some (snd (fs ! i)))"
    if "i < length fs" for i
  proof (cases "fd_hint (?cls ! i)")
    case None
    with plain [OF that] obtain j where "snd (fs ! i) = raw j" by blast
    then show ?thesis using None by (simp add: e_def raw_encode)
  next
    case (Some h)
    from hinted [OF that Some] show ?thesis using Some by (auto simp: round_trips_def e_def result_map_def)
  qed
  have enc_all: "wire_encode v = Some (e v)" if "(k, v) \<in> set fs" for k v
    using enc that by (fastforce simp: in_set_conv_nth)
  have "filter (\<lambda>(k, v). v \<noteq> P_Callable) fs = fs" using enc_all by (fastforce simp: filter_id_conv)
  moreover have "those (map (\<lambda>(k, v). map_option (Pair k) (wire_encode v)) fs) = Some (map (\<lambda>(k, v). (k, e v)) fs)"
    using enc_all by (intro those_map_Some) auto
  ultimately have j: "wire_encode (P_Data c fs) = Some (JObj (map (\<lambda>(k, v). (k, e v)) fs))" by simp
  let ?d = "map (\<lambda>(k, v). (k, e v)) fs"
  have look: "map_of ?d (fd_name (?cls ! i)) = Some (e (snd (fs ! i)))" if i: "i < length fs" for i
  proof (rule map_of_is_SomeI)
    show "distinct (map fst ?d)" using names(2) by (simp add: comp_def case_prod_beta)
    have "fd_name (?cls ! i) = fst (fs ! i)" using arg_cong [OF names(1), of "\<lambda>l. l ! i"] i len by simp
    then show "(fd_name (?cls ! i), e (snd (fs ! i))) \<in> set ?d"
      using nth_mem [OF i] by (force simp: case_prod_beta)
  qed
  have "all_ok (map (\<lambda>f. case map_of ?d (fd_name f) of None \<Rightarrow> Inr None
      | Some x \<Rightarrow> (case fd_hint f of None \<Rightarrow> Inr (Some (raw x)) | Some h \<Rightarrow> result_map Some (wire_decode env h x))) ?cls) =
    Inr (map (\<lambda>i. Some (snd (fs ! i))) [0..<length fs])"
  proof -
    have "map (\<lambda>f. case map_of ?d (fd_name f) of None \<Rightarrow> Inr None
      | Some x \<Rightarrow> (case fd_hint f of None \<Rightarrow> Inr (Some (raw x)) | Some h \<Rightarrow> result_map Some (wire_decode env h x))) ?cls =
      map (\<lambda>i. Inr (Some (snd (fs ! i))) :: wire_exn + py_obj option) [0..<length fs]"
      using look enc len by (intro nth_equalityI) simp_all
    then show ?thesis by (simp add: all_ok_map_Inr)
  qed
  moreover have "construct c ?cls (map (\<lambda>i. Some (snd (fs ! i))) [0..<length fs]) = Inr (P_Data c fs)"
  proof -
    have "map2 (\<lambda>f v. case v of Some x \<Rightarrow> Some x | None \<Rightarrow> fd_default f) ?cls (map (\<lambda>i. Some (snd (fs ! i))) [0..<length fs]) =
        map Some (map snd fs)"
      using len by (intro nth_equalityI) simp_all
    moreover have "those (map Some (map snd fs)) = Some (map snd fs)" using those_map_Some [of "map snd fs" Some "\<lambda>x. x"] by simp
    moreover have "zip (map fd_name ?cls) (map snd fs) = fs" using names(1) by (metis zip_map_fst_snd)
    ultimately show ?thesis by (simp add: construct_def)
  qed
  ultimately show ?thesis using j by (simp add: round_trips_def)
qed

lemma decode_union_raw:
  assumes "\<And>h. hs \<noteq> [h]" "\<not> (T_Bytes \<in> set hs \<and> b64_text j)" "\<not> (\<exists>d. j = JObj d)"
  shows "wire_decode env (T_Union hs) j = Inr (raw j)"
proof (cases "j = JNull")
  case False
  have "wire_decode env (T_Union hs) j = (case hs of [h] \<Rightarrow> wire_decode env h j | _ \<Rightarrow> Inr (raw j))"
    using False assms(2,3) by (cases j) (auto simp del: wire_decode.simps(1-8,10) split: list.split)
  also have "\<dots> = Inr (raw j)" using assms(1) by (auto split: list.split)
  finally show ?thesis .
qed simp

lemma decode_union_data:
  assumes "\<And>h. hs \<noteq> [h]" "best_candidate env d hs None None = Some c"
  shows "wire_decode env (T_Union hs) (JObj d) = wire_decode env (T_Data c) (JObj d)"
proof (cases hs)
  case Nil
  then show ?thesis using assms(2) by simp
next
  case (Cons a hs')
  with assms(1) [of a] obtain b hs'' where hs: "hs = a # b # hs''" by (cases hs') auto
  show ?thesis using assms(2) unfolding hs
    by (simp add: b64_text_def del: wire_decode.simps(1-8,10) best_candidate.simps)
qed

lemma fits_round_trips:
  assumes "describes env h v"
  shows "round_trips env h v"
  using assms
proof (induction rule: describes.induct)
  case (fits_raw h j)
  then show ?case by (auto simp: round_trips_def raw_encode)
next
  case (fits_bytes bs)
  have "ustartswith b64_prefix (b64_prefix @ b64encode bs)" by (simp add: ustartswith_iff)
  then show ?case using b64decode_b64encode [OF fits_bytes]
    by (simp add: round_trips_def decode_bytes_def b64_text_def decode_b64_text_def)
next
  case (fits_time t)
  then show ?case by (simp add: round_trips_def)
next
  case (fits_enum j vals c)
  then show ?case by (simp add: round_trips_def)
next
  case (fits_list xs h)
  then show ?case by (intro round_trips_list) simp
next
  case (fits_none hs)
  then show ?case by (simp add: round_trips_def)
next
  case (fits_optional h v)
  then obtain j where j: "wire_encode v = Some j" "wire_decode env h j = Inr v" "j \<noteq> JNull"
    by (auto simp: round_trips_def)
  then show ?case by (cases "h = T_Bytes") (auto simp: round_trips_def decode_bytes_def split: if_splits)
next
  case (fits_union_raw hs j)
  from decode_union_raw [OF this] show ?case by (simp add: round_trips_def raw_encode del: wire_decode.simps)
next
  case (fits_union_data hs v d c)
  then have "wire_decode env (T_Data c) (JObj d) = Inr v" by (simp add: round_trips_def)
  moreover have "\<not> b64_text (JObj d)" by (simp add: b64_text_def)
  ultimately show ?case using fits_union_data(2) decode_union_data [OF fits_union_data(1,3)]
    by (simp add: round_trips_def del: wire_decode.simps)
next
  case (fits_data fs c)
  then show ?case by (intro round_trips_data) auto
qed

text \<open>
  C0: Whatever a dataclass's hints describe, at any depth of nesting, comes back from the bus as it was
  sent: the decoder, given the hint, inverts the encoder.
\<close>

theorem wire_roundtrip:
  assumes "describes env h v"
  shows "\<exists>j. wire_encode v = Some j \<and> wire_decode env h j = Inr v"
  using fits_round_trips [OF assms] by (simp add: round_trips_def)

text \<open>A reply with a list, bytes, an optional time and no text.\<close>

definition reply_env :: wire_env where
  "reply_env = \<lparr>we_class = (\<lambda>c. if c = ''Reply'' then
      [\<lparr>fd_name = ul ''parts'', fd_hint = Some (T_List T_Bytes), fd_default = None\<rparr>,
       \<lparr>fd_name = ul ''sent_at'', fd_hint = Some (T_Union [T_Time]), fd_default = Some P_None\<rparr>,
       \<lparr>fd_name = ul ''text'', fd_hint = Some (T_Union [T_Str]), fd_default = Some P_None\<rparr>] else []), we_iso = Some\<rparr>"

definition sample_reply :: py_obj where
  "sample_reply = P_Data ''Reply'' [(ul ''parts'', P_List [P_Bytes [0, 255, 16], P_Bytes []]),
     (ul ''sent_at'', P_Time (ul ''2026-01-02T03:04:05+00:00'')), (ul ''text'', P_None)]"

lemma sample_fits: "describes reply_env (T_Data ''Reply'') sample_reply"
  unfolding sample_reply_def
proof (rule fits_data, goal_cases)
  case (3 i h)
  have parts: "describes reply_env (T_List T_Bytes) (P_List [P_Bytes [0, 255, 16], P_Bytes []])"
    by (rule fits_list) (auto intro!: fits_bytes simp: is_byte_def)
  have sent: "describes reply_env (T_Union [T_Time]) (P_Time t)" for t
    by (intro fits_optional fits_time) (simp_all add: reply_env_def)
  have none: "describes reply_env (T_Union [T_Str]) P_None" by (rule fits_none)
  from 3(1) have "i = 0 \<or> i = 1 \<or> i = 2" by auto
  then show ?case using 3(2) parts sent none by (auto simp: reply_env_def simp del: ul_simps)
next
  case (4 i)
  from 4(1) have "i = 0 \<or> i = 1 \<or> i = 2" by auto
  then show ?case using 4(2) by (auto simp: reply_env_def simp del: ul_simps)
qed (simp_all add: reply_env_def)

theorem wire_roundtrip_witness:
  "\<exists>j. wire_encode sample_reply = Some j \<and> wire_decode reply_env (T_Data ''Reply'') j = Inr sample_reply"
  by (rule wire_roundtrip [OF sample_fits])

end
