(* ===== verification/Render_Stream.thy ===== *)
theory Render_Stream
  imports Wire_Codec Cli_Parser
begin

text \<open>
  The way of a turn's render events from the hub to an adapter: the codec (nats/render_event_codec.py and
  its registry), the hub's publisher with its keepalives (nats/nats_channel_proxy.py, keepalive.py,
  stream_error.py) and the adapter's decoder (adapters/nats/nats_stream_decoder.py).

  A chunk is the JSON object on the wire. What the broker does with a publish, and when the keepalive
  timer fires, is part of the run: \<open>Step_Event ev ok ticks\<close> is one event, whether its publish
  succeeded, and the keepalives that fired while it was under way.
\<close>

subsection \<open>Render events as dataclasses\<close>

definition s_field :: "string \<Rightarrow> ustring \<Rightarrow> ustring \<times> py_obj" where
  "s_field name s = (ul name, P_Str s)"

definition version_field :: "ustring \<times> py_obj" where
  "version_field = (ul ''schema_version'', P_Int 1)"

fun event_obj :: "render_event \<Rightarrow> py_obj" where
  "event_obj (TextStart i) = P_Data ''TextStartRenderEvent''
     [s_field ''message_id'' i, s_field ''role'' (ul ''assistant''), version_field]"
| "event_obj (TextDelta i t) = P_Data ''TextDeltaRenderEvent''
     [s_field ''message_id'' i, s_field ''delta'' t, version_field]"
| "event_obj (TextEnd i) = P_Data ''TextEndRenderEvent'' [s_field ''message_id'' i, version_field]"
| "event_obj (TextChunk i t) = P_Data ''TextChunkRenderEvent''
     [s_field ''message_id'' i, s_field ''delta'' t, s_field ''role'' (ul ''assistant''), version_field]"
| "event_obj (RunStarted r) = P_Data ''RunStartedRenderEvent'' [s_field ''run_id'' r, version_field]"
| "event_obj (RunFinished r) = P_Data ''RunFinishedRenderEvent''
     [s_field ''run_id'' r, s_field ''outcome'' (ul ''success''), version_field]"
| "event_obj (RunError r m c) = P_Data ''RunErrorRenderEvent''
     [s_field ''run_id'' r, s_field ''message'' m,
      (ul ''code'', case c of None \<Rightarrow> P_None | Some s \<Rightarrow> P_Str (ul s)), version_field]"
| "event_obj (ToolCallStart i name inp) = P_Data ''ToolCallStartRenderEvent''
     [s_field ''tool_call_id'' i, s_field ''tool_name'' name,
      (ul ''input'', case inp of None \<Rightarrow> P_None | Some d \<Rightarrow> raw (JObj d)), version_field]"
| "event_obj (ToolCallArgs i t) = P_Data ''ToolCallArgsRenderEvent''
     [s_field ''tool_call_id'' i, s_field ''delta'' t, version_field]"
| "event_obj (ToolCallEnd i) = P_Data ''ToolCallEndRenderEvent'' [s_field ''tool_call_id'' i, version_field]"
| "event_obj (ToolCallResult i c e) = P_Data ''ToolCallResultRenderEvent''
     [s_field ''tool_call_id'' i, s_field ''content'' c, (ul ''is_error'', P_Bool e), version_field]"
| "event_obj (ReasoningStart i) = P_Data ''ReasoningStartRenderEvent'' [s_field ''message_id'' i, version_field]"
| "event_obj (ReasoningDelta i t) = P_Data ''ReasoningDeltaRenderEvent''
     [s_field ''message_id'' i, s_field ''delta'' t, version_field]"
| "event_obj (ReasoningEnd i) = P_Data ''ReasoningEndRenderEvent'' [s_field ''message_id'' i, version_field]"

text \<open>The classes: names, hints and defaults of their fields.\<close>

definition req :: "string \<Rightarrow> type_hint \<Rightarrow> class_field" where
  "req name h = \<lparr>fd_name = ul name, fd_hint = Some h, fd_default = None\<rparr>"

definition opt :: "string \<Rightarrow> type_hint \<Rightarrow> py_obj \<Rightarrow> class_field" where
  "opt name h d = \<lparr>fd_name = ul name, fd_hint = Some h, fd_default = Some d\<rparr>"

definition version_decl :: class_field where
  "version_decl = opt ''schema_version'' T_Plain (P_Int 1)"

definition role_decl :: class_field where
  "role_decl = opt ''role'' T_Literal (P_Str (ul ''assistant''))"

definition render_classes :: "(string \<times> class_field list) list" where
  "render_classes =
    [(''TextStartRenderEvent'', [req ''message_id'' T_Str, role_decl, version_decl]),
     (''TextDeltaRenderEvent'', [req ''message_id'' T_Str, req ''delta'' T_Str, version_decl]),
     (''TextEndRenderEvent'', [req ''message_id'' T_Str, version_decl]),
     (''TextChunkRenderEvent'', [req ''message_id'' T_Str, req ''delta'' T_Str, role_decl, version_decl]),
     (''RunStartedRenderEvent'', [req ''run_id'' T_Str, version_decl]),
     (''RunFinishedRenderEvent'', [req ''run_id'' T_Str, opt ''outcome'' T_Literal (P_Str (ul ''success'')), version_decl]),
     (''RunErrorRenderEvent'', [req ''run_id'' T_Str, req ''message'' T_Str, opt ''code'' (T_Union [T_Str]) P_None, version_decl]),
     (''ToolCallStartRenderEvent'', [req ''tool_call_id'' T_Str, req ''tool_name'' T_Str,
                                     opt ''input'' (T_Union [T_Plain]) P_None, version_decl]),
     (''ToolCallArgsRenderEvent'', [req ''tool_call_id'' T_Str, req ''delta'' T_Str, version_decl]),
     (''ToolCallEndRenderEvent'', [req ''tool_call_id'' T_Str, version_decl]),
     (''ToolCallResultRenderEvent'', [req ''tool_call_id'' T_Str, req ''content'' T_Str,
                                      opt ''is_error'' T_Plain (P_Bool False), version_decl]),
     (''ReasoningStartRenderEvent'', [req ''message_id'' T_Str, version_decl]),
     (''ReasoningDeltaRenderEvent'', [req ''message_id'' T_Str, req ''delta'' T_Str, version_decl]),
     (''ReasoningEndRenderEvent'', [req ''message_id'' T_Str, version_decl])]"

definition render_env :: wire_env where
  "render_env = \<lparr>we_class = (\<lambda>c. case map_of render_classes c of Some fs \<Rightarrow> fs | None \<Rightarrow> []), we_iso = (\<lambda>_. None)\<rparr>"

subsection \<open>The codec\<close>

record codec_branch =
  cb_event_type :: ustring
  cb_cls :: string
  cb_version :: int
  cb_done :: bool

definition branch :: "string \<Rightarrow> string \<Rightarrow> bool \<Rightarrow> codec_branch" where
  "branch event_type cls done_default =
     \<lparr>cb_event_type = ul event_type, cb_cls = cls, cb_version = 1, cb_done = done_default\<rparr>"

definition codec_registry :: "codec_branch list" where
  "codec_registry =
    [branch ''text_start'' ''TextStartRenderEvent'' False, branch ''text_delta'' ''TextDeltaRenderEvent'' False,
     branch ''text_end'' ''TextEndRenderEvent'' False, branch ''text_chunk'' ''TextChunkRenderEvent'' False,
     branch ''run_started'' ''RunStartedRenderEvent'' False, branch ''run_finished'' ''RunFinishedRenderEvent'' True,
     branch ''run_error'' ''RunErrorRenderEvent'' True, branch ''tool_call_start'' ''ToolCallStartRenderEvent'' False,
     branch ''tool_call_args'' ''ToolCallArgsRenderEvent'' False, branch ''tool_call_end'' ''ToolCallEndRenderEvent'' False,
     branch ''tool_call_result'' ''ToolCallResultRenderEvent'' False,
     branch ''reasoning_start'' ''ReasoningStartRenderEvent'' False,
     branch ''reasoning_delta'' ''ReasoningDeltaRenderEvent'' False,
     branch ''reasoning_end'' ''ReasoningEndRenderEvent'' False]"

definition branch_of_class :: "string \<Rightarrow> codec_branch option" where
  "branch_of_class c = find (\<lambda>b. cb_cls b = c) codec_registry"

definition branch_of_type :: "ustring \<Rightarrow> codec_branch option" where
  "branch_of_type s = find (\<lambda>b. cb_event_type b = s) codec_registry"

definition stream_end_type :: ustring where "stream_end_type = ul ''stream_end''"
definition stream_error_type :: ustring where "stream_error_type = ul ''stream_error''"
definition keepalive_type :: ustring where "keepalive_type = ul ''stream_keepalive''"

definition synthetic_terminals :: "ustring list" where
  "synthetic_terminals = [stream_end_type, stream_error_type]"

definition codec_encode :: "py_obj \<Rightarrow> wire_exn + ustring \<times> json \<times> bool" where
  "codec_encode event =
     (case event of
        P_Data c fs \<Rightarrow>
          (case branch_of_class c of
             None \<Rightarrow> Inl W_Type
           | Some b \<Rightarrow> result_map (\<lambda>payload. (cb_event_type b, payload, cb_done b)) (serialize event))
      | _ \<Rightarrow> Inl W_Type)"

definition drop_unknown :: "ustring \<Rightarrow> drop_log \<Rightarrow> drop_log" where
  "drop_unknown txt dl = dl\<lparr>dl_counter := bump (ul ''unknown:'' @ txt) (dl_counter dl)\<rparr>"

text \<open>The payload is written to JSON and read back before it is decoded; what that raises is caught.\<close>

definition decode_branch :: "codec_branch \<Rightarrow> json \<Rightarrow> py_obj option" where
  "decode_branch b payload =
     (if json_utf8 payload
      then (case deserialize render_env (cb_cls b) payload of Inr event \<Rightarrow> Some event | Inl _ \<Rightarrow> None)
      else None)"

definition codec_decode :: "time \<Rightarrow> json \<Rightarrow> json \<Rightarrow> drop_log \<Rightarrow> (wire_exn + py_obj option) \<times> drop_log" where
  "codec_decode now event_type payload dl =
     (case event_type of
        JStr s \<Rightarrow>
          if s \<in> set synthetic_terminals \<or> s = keepalive_type then (Inr None, dl)
          else (case branch_of_type s of
             None \<Rightarrow> (Inr None, drop_unknown s dl)
           | Some b \<Rightarrow>
               (case payload of
                  JObj d \<Rightarrow>
                    (case check_schema_version now d (ul (cb_cls b)) (cb_version b) dl of
                       (False, dl') \<Rightarrow> (Inr None, dl')
                     | (True, dl') \<Rightarrow> (Inr (decode_branch b payload), dl'))
                | _ \<Rightarrow> (Inl W_Attribute, dl)))
      | JArr xs \<Rightarrow> (Inl W_Type, dl)
      | JObj d \<Rightarrow> (Inl W_Type, dl)
      | j \<Rightarrow> (Inr None, drop_unknown (case py_str j of Inr t \<Rightarrow> t | Inl _ \<Rightarrow> []) dl))"

definition is_terminal :: "json \<Rightarrow> bool" where
  "is_terminal event_type =
     (case event_type of
        JStr s \<Rightarrow> s \<in> set synthetic_terminals \<or> s \<in> cb_event_type ` set (filter cb_done codec_registry)
      | _ \<Rightarrow> False)"

subsection \<open>The hub's side\<close>

type_synonym chunk = "(ustring \<times> json) list"

definition chunk_msg :: "ustring \<Rightarrow> nat \<Rightarrow> ustring \<Rightarrow> json \<Rightarrow> bool \<Rightarrow> chunk" where
  "chunk_msg sid seq event_type payload is_done =
     [(ul ''stream_id'', JStr sid), (ul ''seq'', JInt (int seq)), (ul ''event_type'', JStr event_type),
      (ul ''payload'', payload), (ul ''done'', JBool is_done)]"

definition keepalive_msg :: "ustring \<Rightarrow> nat \<Rightarrow> chunk" where
  "keepalive_msg sid seq = chunk_msg sid seq keepalive_type (JObj []) False"

definition terminal_msg :: "ustring \<Rightarrow> nat \<Rightarrow> chunk" where
  "terminal_msg sid seq = chunk_msg sid seq stream_end_type (JObj []) True"

definition stream_error_msg :: "ustring \<Rightarrow> string \<Rightarrow> chunk" where
  "stream_error_msg sid reason =
     [(ul ''type'', JStr stream_error_type), (ul ''stream_id'', JStr sid), (ul ''reason'', JStr (ul reason))]"

text \<open>\<open>publish_stream_error\<close>: a refusal by the broker is only logged.\<close>

definition publish_stream_error :: "ustring \<Rightarrow> bool \<Rightarrow> chunk list" where
  "publish_stream_error sid ok = (if ok then [stream_error_msg sid ''streaming_exception''] else [])"

text \<open>Keepalives: each takes a sequence number, published or not.\<close>

fun keepalives :: "ustring \<Rightarrow> nat \<Rightarrow> bool list \<Rightarrow> chunk list" where
  "keepalives sid seq [] = []"
| "keepalives sid seq (ok # ticks) =
     (if ok then [keepalive_msg sid seq] else []) @ keepalives sid (seq + 1) ticks"

datatype hub_step = Step_Event render_event bool "bool list" | Step_Tick bool

text \<open>
  The loop of \<open>send_streaming\<close>: \<open>raises\<close> is whether the event source raises after its last event,
  \<open>end_ok\<close> and \<open>err_ok\<close> whether the closing publishes succeed.
\<close>

fun send_chunks :: "ustring \<Rightarrow> nat \<Rightarrow> hub_step list \<Rightarrow> bool \<Rightarrow> bool \<Rightarrow> bool \<Rightarrow> chunk list" where
  "send_chunks sid seq [] raises end_ok err_ok =
     (if raises then publish_stream_error sid err_ok
      else if end_ok then [terminal_msg sid seq] else publish_stream_error sid err_ok)"
| "send_chunks sid seq (Step_Tick ok # steps) raises end_ok err_ok =
     keepalives sid seq [ok] @ send_chunks sid (seq + 1) steps raises end_ok err_ok"
| "send_chunks sid seq (Step_Event ev ok ticks # steps) raises end_ok err_ok =
     (case codec_encode (event_obj ev) of
        Inl e \<Rightarrow> publish_stream_error sid err_ok
      | Inr (event_type, payload, is_done) \<Rightarrow>
          if \<not> ok then keepalives sid seq ticks @ publish_stream_error sid err_ok
          else chunk_msg sid seq event_type payload is_done # keepalives sid seq ticks @
            send_chunks sid (seq + length ticks + 1) steps raises end_ok err_ok)"

text \<open>\<open>send_streaming\<close>: the header with the outbound message, when there is one, then the stream.\<close>

definition stream_start_msg :: "ustring \<Rightarrow> json \<Rightarrow> json \<Rightarrow> chunk" where
  "stream_start_msg sid outbound original =
     [(ul ''type'', JStr (ul ''stream_start'')), (ul ''stream_id'', JStr sid), (ul ''outbound'', outbound),
      (ul ''original_msg'', original)]"

definition send_streaming ::
    "ustring \<Rightarrow> (json \<times> json) option \<Rightarrow> hub_step list \<Rightarrow> bool \<Rightarrow> bool \<Rightarrow> bool \<Rightarrow> chunk list" where
  "send_streaming sid header steps raises end_ok err_ok =
     (case header of None \<Rightarrow> [] | Some (outbound, original) \<Rightarrow> [stream_start_msg sid outbound original]) @
     send_chunks sid 0 steps raises end_ok err_ok"

definition publish_stream_errors :: "(ustring \<times> bool) list \<Rightarrow> string \<Rightarrow> chunk list" where
  "publish_stream_errors ids reason = map (\<lambda>(sid, ok). stream_error_msg sid reason) (filter snd ids)"

subsection \<open>The adapter's side\<close>

text \<open>Waiting for a chunk: a poll brings one, or passes with the hub's health.\<close>

datatype poll = Poll_Chunk chunk | Poll_Idle bool

datatype wait_result = Got chunk | Hub_Unavailable | Chunk_Timeout | Waiting

definition chunk_timeout :: time where "chunk_timeout = 120"
definition liveness_poll :: time where "liveness_poll = 5"

fun wait_for_chunk :: "time \<Rightarrow> time \<Rightarrow> poll list \<Rightarrow> wait_result" where
  "wait_for_chunk step elapsed [] = Waiting"
| "wait_for_chunk step elapsed (Poll_Chunk c # ps) = Got c"
| "wait_for_chunk step elapsed (Poll_Idle healthy # ps) =
     (let elapsed' = elapsed + step
      in if \<not> healthy then Hub_Unavailable
         else if chunk_timeout \<le> elapsed' then Chunk_Timeout
         else wait_for_chunk (min liveness_poll (chunk_timeout - elapsed')) elapsed' ps)"

datatype stream_stop = Ended | Missing_Type | Starved | Stream_Raised wire_exn

text \<open>
  \<open>decode_stream_events\<close> over the chunks the queue brings, with the time each is taken; when no more
  come, the wait above ends the stream (\<open>Starved\<close>). The sequence number is only compared for a log
  line.
\<close>

fun decode_stream :: "(time \<times> chunk) list \<Rightarrow> drop_log \<Rightarrow> py_obj list \<times> stream_stop \<times> drop_log" where
  "decode_stream [] dl = ([], Starved, dl)"
| "decode_stream ((now, c) # q) dl =
     (let event_type = (case map_of c (ul ''event_type'') of Some t \<Rightarrow> t | None \<Rightarrow> JNull)
      in if event_type = JNull then ([], Missing_Type, dl)
         else if event_type = JStr keepalive_type then decode_stream q dl
         else if event_type = JStr stream_error_type then ([], Ended, dl)
         else let payload = (case map_of c (ul ''payload'') of Some p \<Rightarrow> p | None \<Rightarrow> JObj [])
              in case codec_decode now event_type payload dl of
                   (Inl e, dl') \<Rightarrow> ([], Stream_Raised e, dl')
                 | (Inr event, dl') \<Rightarrow>
                     (let out = (case event of Some ev \<Rightarrow> [ev] | None \<Rightarrow> [])
                      in if is_terminal event_type then (out, Ended, dl')
                         else case decode_stream q dl' of (evs, stop, dl'') \<Rightarrow> (out @ evs, stop, dl'')))"

subsection \<open>The codec's laws\<close>

text \<open>
  What the two sides of a stream rely on from a codec: what was encoded is decoded to the same event and
  drops nothing, the sender's end-of-stream flag is the receiver's, and no event uses a sentinel's type.
\<close>

locale event_codec =
  fixes enc :: "'e \<Rightarrow> wire_exn + ustring \<times> json \<times> bool"
    and dec :: "time \<Rightarrow> json \<Rightarrow> json \<Rightarrow> drop_log \<Rightarrow> (wire_exn + py_obj option) \<times> drop_log"
    and terminal :: "json \<Rightarrow> bool"
    and emb :: "'e \<Rightarrow> py_obj"
  assumes dec_enc: "enc e = Inr (t, p, b) \<Longrightarrow> dec now (JStr t) p dl = (Inr (Some (emb e)), dl)"
    and terminal_enc: "enc e = Inr (t, p, b) \<Longrightarrow> terminal (JStr t) = b"
    and no_sentinel: "enc e = Inr (t, p, b) \<Longrightarrow> t \<noteq> keepalive_type \<and> t \<notin> set synthetic_terminals"
begin

lemma enc_injective:
  assumes "enc e = Inr w" "enc e' = Inr w"
  shows "emb e = emb e'"
proof -
  obtain t p b where w: "w = (t, p, b)" by (cases w)
  show ?thesis
    using dec_enc [OF assms(1)[unfolded w], of 0 drop_log_init] dec_enc [OF assms(2)[unfolded w], of 0 drop_log_init]
    by simp
qed

end

lemma fits_dataI:
  assumes "list_all2 (\<lambda>f p. fd_name f = fst p \<and>
      (case fd_hint f of Some h \<Rightarrow> describes env h (snd p) | None \<Rightarrow> \<exists>j. snd p = raw j)) (we_class env c) fs"
    and "distinct (map fst fs)"
  shows "describes env (T_Data c) (P_Data c fs)"
proof (rule fits_data)
  have len: "length (we_class env c) = length fs" using assms(1) by (rule list_all2_lengthD)
  have each: "fd_name (we_class env c ! i) = fst (fs ! i) \<and>
      (case fd_hint (we_class env c ! i) of Some h \<Rightarrow> describes env h (snd (fs ! i)) | None \<Rightarrow> \<exists>j. snd (fs ! i) = raw j)"
    if "i < length fs" for i
    using list_all2_nthD2 [OF assms(1) that] .
  show "map fst fs = map fd_name (we_class env c)" using each len by (intro nth_equalityI) auto
  show "distinct (map fst fs)" by fact
  fix i assume i: "i < length fs"
  show "describes env h (snd (fs ! i))" if "fd_hint (we_class env c ! i) = Some h" for h
    using each [OF i] that by simp
  show "\<exists>j. snd (fs ! i) = raw j" if "fd_hint (we_class env c ! i) = None"
    using each [OF i] that by simp
qed

lemma fits_simple [simp]:
  "describes env T_Str (P_Str s)" "describes env T_Literal (P_Str s)" "describes env T_Plain (P_Int n)" "describes env T_Plain (P_Bool b)"
  "describes env (T_Union [T_Str]) P_None" "describes env (T_Union [T_Plain]) P_None"
  "describes env (T_Union [T_Str]) (P_Str s)" "describes env (T_Union [T_Plain]) (P_Dict (map (map_prod id raw) d))"
  using fits_raw [of T_Str env "JStr s"] fits_raw [of T_Literal env "JStr s"] fits_raw [of T_Plain env "JInt n"]
    fits_raw [of T_Plain env "JBool b"] fits_raw [of T_Plain env "JObj d"] raw_encode [of "JObj d"]
  by (auto intro!: fits_none fits_optional simp del: wire_encode.simps(10))

lemma raw_obj: "raw (JObj d) = P_Dict (map (map_prod id raw) d)"
  by simp

lemma field_names:
  "fd_name (req n h) = ul n" "fd_hint (req n h) = Some h" "fd_name (opt n h d) = ul n" "fd_hint (opt n h d) = Some h"
  by (simp_all add: req_def opt_def)

lemma class_lookup:
  "map_of render_classes c = Some fs \<Longrightarrow> we_class render_env c = fs"
  by (simp add: render_env_def)

definition event_class :: "render_event \<Rightarrow> string" where
  "event_class ev = (case event_obj ev of P_Data c fs \<Rightarrow> c | _ \<Rightarrow> [])"

definition event_fields :: "render_event \<Rightarrow> (ustring \<times> py_obj) list" where
  "event_fields ev = (case event_obj ev of P_Data c fs \<Rightarrow> fs | _ \<Rightarrow> [])"

lemma event_obj_eq: "event_obj ev = P_Data (event_class ev) (event_fields ev)"
  by (cases ev) (simp_all add: event_class_def event_fields_def)

lemma event_fits: "describes render_env (T_Data (event_class ev)) (event_obj ev)"
  unfolding event_obj_eq
proof (rule fits_dataI)
  show "distinct (map fst (event_fields ev))"
    by (cases ev) (simp_all add: event_fields_def s_field_def version_field_def)
  show "list_all2 (\<lambda>f p. fd_name f = fst p \<and>
      (case fd_hint f of Some h \<Rightarrow> describes render_env h (snd p) | None \<Rightarrow> \<exists>j. snd p = raw j))
      (we_class render_env (event_class ev)) (event_fields ev)"
    by (cases ev) (simp_all add: event_fields_def event_class_def s_field_def version_field_def render_env_def
        render_classes_def field_names role_decl_def version_decl_def split: option.split)
qed

fun closing :: "render_event \<Rightarrow> bool" where
  "closing (RunFinished r) = True"
| "closing (RunError r m c) = True"
| "closing ev = False"

lemma event_branch:
  "\<exists>b \<in> set codec_registry. branch_of_class (event_class ev) = Some b \<and> cb_cls b = event_class ev \<and> cb_done b = closing ev"
  by (cases ev) (simp_all add: event_class_def branch_of_class_def codec_registry_def branch_def)

lemma registry_laws:
  "list_all (\<lambda>b. branch_of_type (cb_event_type b) = Some b \<and> cb_version b = 1 \<and>
     cb_event_type b \<noteq> keepalive_type \<and> cb_event_type b \<notin> set synthetic_terminals \<and>
     is_terminal (JStr (cb_event_type b)) = cb_done b) codec_registry"
  by code_simp

lemma registry_types:
  assumes "b \<in> set codec_registry"
  shows "branch_of_type (cb_event_type b) = Some b" "cb_version b = 1" "cb_event_type b \<noteq> keepalive_type"
    "cb_event_type b \<notin> set synthetic_terminals" "is_terminal (JStr (cb_event_type b)) = cb_done b"
  using registry_laws assms by (auto simp only: list_all_iff)

lemma event_wire:
  "\<exists>d. wire_encode (event_obj ev) = Some (JObj d) \<and> schema_version_ok d 1"
proof (cases ev)
  case (RunError r m c)
  then show ?thesis by (cases c) (simp_all add: s_field_def version_field_def schema_version_ok_def)
next
  case (ToolCallStart i n inp)
  have r: "raw (JObj d) \<noteq> P_Callable" for d by simp
  show ?thesis unfolding ToolCallStart
    by (cases inp) (simp_all add: s_field_def version_field_def schema_version_ok_def raw_encode r del: raw.simps(7))
qed (simp_all add: s_field_def version_field_def schema_version_ok_def)

lemma codec_encode_event:
  "codec_encode (event_obj ev) = Inr (t, p, done) \<longleftrightarrow>
     (\<exists>b. branch_of_class (event_class ev) = Some b \<and> t = cb_event_type b \<and> done = cb_done b \<and>
        wire_encode (event_obj ev) = Some p \<and> json_utf8 p)"
  unfolding event_obj_eq
  by (auto simp: codec_encode_def result_map_def serialize_def split: option.splits simp del: wire_encode.simps)

lemma event_round_trip:
  assumes "wire_encode (event_obj ev) = Some p"
  shows "deserialize render_env (event_class ev) p = Inr (event_obj ev)"
  using fits_round_trips [OF event_fits, of ev] assms by (simp add: round_trips_def deserialize_def)

lemma codec_decode_branch:
  assumes "branch_of_type s = Some b" "s \<noteq> keepalive_type" "s \<notin> set synthetic_terminals"
    and "schema_version_ok d (cb_version b)"
  shows "codec_decode now (JStr s) (JObj d) dl = (Inr (decode_branch b (JObj d)), dl)"
  using assms by (simp add: codec_decode_def check_schema_version_def)

lemma event_encoded:
  assumes "codec_encode (event_obj ev) = Inr (t, p, done)"
  obtains b d where "b \<in> set codec_registry" "cb_cls b = event_class ev" "t = cb_event_type b" "done = closing ev"
    "cb_done b = closing ev" "p = JObj d" "schema_version_ok d 1" "wire_encode (event_obj ev) = Some p" "json_utf8 p"
proof -
  obtain b where b: "b \<in> set codec_registry" "branch_of_class (event_class ev) = Some b"
    "cb_cls b = event_class ev" "cb_done b = closing ev"
    using event_branch [of ev] by blast
  have e: "t = cb_event_type b" "done = closing ev" "wire_encode (event_obj ev) = Some p" "json_utf8 p"
    using assms b by (auto simp: codec_encode_event)
  obtain d where "p = JObj d" "schema_version_ok d 1"
    using event_wire [of ev] e(3) by auto
  then show ?thesis using that b e by blast
qed

lemma codec_decode_encode:
  assumes "codec_encode (event_obj ev) = Inr (t, p, done)"
  shows "codec_decode now (JStr t) p dl = (Inr (Some (event_obj ev)), dl)"
  using assms
proof (rule event_encoded)
  fix b d
  assume b: "b \<in> set codec_registry" "cb_cls b = event_class ev" "t = cb_event_type b" "p = JObj d"
    "schema_version_ok d 1" "wire_encode (event_obj ev) = Some p" "json_utf8 p"
  note r = registry_types [OF b(1)]
  have "decode_branch b p = Some (event_obj ev)"
    using event_round_trip [OF b(6)] b(2,7) by (simp add: decode_branch_def)
  moreover have "codec_decode now (JStr t) p dl = (Inr (decode_branch b p), dl)"
    unfolding b(4) by (rule codec_decode_branch) (use r b in simp_all)
  ultimately show ?thesis by simp
qed

interpretation codec: event_codec "\<lambda>ev. codec_encode (event_obj ev)" codec_decode is_terminal event_obj
proof
  fix ev t p fin now dl
  assume e: "codec_encode (event_obj ev) = Inr (t, p, fin)"
  then show "codec_decode now (JStr t) p dl = (Inr (Some (event_obj ev)), dl)" by (rule codec_decode_encode)
  from e show "is_terminal (JStr t) = fin"
    by (rule event_encoded) (simp add: registry_types)
  from e show "t \<noteq> keepalive_type \<and> t \<notin> set synthetic_terminals"
    by (rule event_encoded) (auto dest: registry_types)
qed

lemma closing_flag: "codec_encode (event_obj ev) = Inr (t, p, done) \<Longrightarrow> done = closing ev"
  by (erule event_encoded)

subsection \<open>A stream as the adapter reads it\<close>

definition poison_pill :: chunk where
  "poison_pill = [(ul ''event_type'', JStr stream_error_type), (ul ''done'', JBool True)]"

text \<open>What the listener queues for a message of a stream that is being read.\<close>

definition as_queued :: "chunk \<Rightarrow> chunk" where
  "as_queued c = (if map_of c (ul ''type'') = Some (JStr stream_error_type) then poison_pill else c)"

lemma chunk_keys [simp]:
  "map_of (chunk_msg sid n t p d) (ul ''type'') = None"
  "map_of (chunk_msg sid n t p d) (ul ''event_type'') = Some (JStr t)"
  "map_of (chunk_msg sid n t p d) (ul ''payload'') = Some p"
  "map_of (stream_error_msg sid reason) (ul ''type'') = Some (JStr stream_error_type)"
  "map_of poison_pill (ul ''event_type'') = Some (JStr stream_error_type)"
  by (simp_all add: chunk_msg_def stream_error_msg_def poison_pill_def)

lemma queued_simps [simp]:
  "as_queued (chunk_msg sid n t p d) = chunk_msg sid n t p d"
  "as_queued (stream_error_msg sid reason) = poison_pill"
  by (simp_all add: as_queued_def del: ul_simps)

lemma queued_keepalive [simp]: "as_queued (keepalive_msg sid n) = keepalive_msg sid n"
  by (simp add: keepalive_msg_def)

lemma sentinel_types:
  "keepalive_type \<noteq> stream_error_type" "stream_end_type \<noteq> stream_error_type" "keepalive_type \<noteq> stream_end_type"
  by (simp_all add: keepalive_type_def stream_error_type_def stream_end_type_def)

lemma decode_keepalive: "decode_stream ((now, keepalive_msg sid n) # q) dl = decode_stream q dl"
  by (simp add: keepalive_msg_def del: ul_simps)

lemma decode_poison: "decode_stream ((now, poison_pill) # q) dl = ([], Ended, dl)"
  using sentinel_types by (simp del: ul_simps)

lemma decode_terminal: "decode_stream ((now, terminal_msg sid n) # q) dl = ([], Ended, dl)"
proof -
  have "codec_decode now (JStr stream_end_type) (JObj []) dl = (Inr None, dl)"
    by (simp add: codec_decode_def synthetic_terminals_def)
  moreover have "is_terminal (JStr stream_end_type)" by (simp add: is_terminal_def synthetic_terminals_def)
  ultimately show ?thesis using sentinel_types by (simp add: terminal_msg_def del: ul_simps)
qed

lemma decode_event:
  assumes "codec_encode (event_obj ev) = Inr (t, p, fin)"
  shows "decode_stream ((now, chunk_msg sid n t p fin) # q) dl =
     (if closing ev then ([event_obj ev], Ended, dl)
      else case decode_stream q dl of (evs, stop, dl') \<Rightarrow> (event_obj ev # evs, stop, dl'))"
proof -
  have "t \<noteq> keepalive_type" "t \<noteq> stream_error_type"
    using codec.no_sentinel [OF assms] by (auto simp: synthetic_terminals_def)
  then show ?thesis
    using codec.dec_enc [OF assms, of now dl] codec.terminal_enc [OF assms] closing_flag [OF assms] by (simp del: ul_simps)
qed

lemma decode_keepalives:
  "map snd q = keepalives sid n ticks \<Longrightarrow> decode_stream (q @ q') dl = decode_stream q' dl"
proof (induction sid n ticks arbitrary: q rule: keepalives.induct)
  case (2 sid n ok ticks)
  show ?case
  proof (cases ok)
    case True
    with 2(2) obtain now r where q: "q = (now, keepalive_msg sid n) # r" "map snd r = keepalives sid (n + 1) ticks"
      by (cases q) auto
    from 2(1) [OF q(2)] show ?thesis unfolding q(1) append_Cons decode_keepalive .
  qed (use 2 in simp)
qed simp

lemma queued_keepalives [simp]: "map as_queued (keepalives sid n ticks) = keepalives sid n ticks"
  by (induction sid n ticks rule: keepalives.induct) simp_all

text \<open>
  What a run delivers: its events up to the first that cannot be encoded or published, or up to the
  first that closes the stream.
\<close>

fun delivered :: "hub_step list \<Rightarrow> render_event list" where
  "delivered [] = []"
| "delivered (Step_Tick ok # steps) = delivered steps"
| "delivered (Step_Event ev ok ticks # steps) =
     (case codec_encode (event_obj ev) of
        Inl e \<Rightarrow> []
      | Inr w \<Rightarrow> if \<not> ok then [] else if closing ev then [ev] else ev # delivered steps)"

fun run_events :: "hub_step list \<Rightarrow> render_event list" where
  "run_events [] = []"
| "run_events (Step_Tick ok # steps) = run_events steps"
| "run_events (Step_Event ev ok ticks # steps) = ev # run_events steps"

lemma delivered_prefix: "\<exists>rest. run_events steps = delivered steps @ rest"
  by (induction steps rule: delivered.induct) (auto split: sum.splits)

definition stop_ok :: "bool \<Rightarrow> stream_stop \<Rightarrow> bool" where
  "stop_ok err_ok stop \<longleftrightarrow> stop = Ended \<or> (stop = Starved \<and> \<not> err_ok)"

lemma map_snd_Cons: "map snd q = c # cs \<Longrightarrow> \<exists>now r. q = (now, c) # r \<and> map snd r = cs"
  by (cases q) auto

lemma map_snd_ConsE:
  assumes "map snd q = c # cs"
  obtains now r where "q = (now, c) # r" "map snd r = cs"
  using assms by (cases q) auto

lemma map_snd_append:
  assumes "map snd q = a @ b"
  obtains q1 q2 where "q = q1 @ q2" "map snd q1 = a" "map snd q2 = b"
  using assms by (metis map_eq_append_conv)

lemma decode_error:
  assumes "map snd q = map as_queued (publish_stream_error sid err_ok)"
  shows "\<exists>stop. decode_stream q dl = ([], stop, dl) \<and> stop_ok err_ok stop"
  using assms decode_poison by (auto simp: publish_stream_error_def stop_ok_def dest!: map_snd_Cons split: if_splits)

lemma decode_send:
  "map snd q = map as_queued (send_chunks sid n steps raises end_ok err_ok) \<Longrightarrow>
     \<exists>stop. decode_stream q dl = (map event_obj (delivered steps), stop, dl) \<and> stop_ok err_ok stop"
proof (induction steps arbitrary: n q rule: delivered.induct)
  case 1
  have "decode_stream ((now, terminal_msg sid n) # r) dl = ([], Ended, dl)" for now r by (rule decode_terminal)
  then show ?case using 1 decode_error [of q sid err_ok dl]
    by (auto simp: stop_ok_def terminal_msg_def dest!: map_snd_Cons split: if_splits)
next
  case (2 ok steps)
  let ?rest = "map as_queued (send_chunks sid (n + 1) steps raises end_ok err_ok)"
  have "map snd q = keepalives sid n [ok] @ ?rest"
    using 2(2) by (simp only: send_chunks.simps map_append queued_keepalives)
  then obtain q1 q2 where q: "q = q1 @ q2" "map snd q1 = keepalives sid n [ok]" "map snd q2 = ?rest"
    by (rule map_snd_append)
  show ?case using 2(1) [OF q(3)] unfolding q(1) decode_keepalives [OF q(2)] by simp
next
  case (3 ev ok ticks steps)
  show ?case
  proof (cases "codec_encode (event_obj ev)")
    case (Inl e)
    then show ?thesis using 3(2) decode_error [of q sid err_ok dl] by simp
  next
    case (Inr w)
    obtain t p fin where w: "w = (t, p, fin)" by (cases w)
    note e = Inr [unfolded w]
    show ?thesis
    proof (cases ok)
      case False
      let ?rest = "map as_queued (publish_stream_error sid err_ok)"
      have "map snd q = keepalives sid n ticks @ ?rest" using 3(2) e False by simp
      then obtain q1 q2 where q: "q = q1 @ q2" "map snd q1 = keepalives sid n ticks" "map snd q2 = ?rest"
        by (rule map_snd_append)
      show ?thesis using decode_error [OF q(3), of dl] e False unfolding q(1) decode_keepalives [OF q(2)] by simp
    next
      case True
      let ?rest = "map as_queued (send_chunks sid (n + length ticks + 1) steps raises end_ok err_ok)"
      have "map snd q = chunk_msg sid n t p fin # keepalives sid n ticks @ ?rest" using 3(2) e True by simp
      then obtain now r where r: "q = (now, chunk_msg sid n t p fin) # r" "map snd r = keepalives sid n ticks @ ?rest"
        by (rule map_snd_ConsE)
      from r(2) obtain q1 q2 where s: "r = q1 @ q2" and q: "map snd q1 = keepalives sid n ticks" "map snd q2 = ?rest"
        by (rule map_snd_append)
      have step: "decode_stream q dl = (if closing ev then ([event_obj ev], Ended, dl)
          else case decode_stream q2 dl of (evs, stop, dl') \<Rightarrow> (event_obj ev # evs, stop, dl'))"
        unfolding r(1) s decode_event [OF e] decode_keepalives [OF q(1)] ..
      show ?thesis
      proof (cases "closing ev")
        case True
        then show ?thesis using step e \<open>ok\<close> by (simp add: stop_ok_def)
      next
        case False
        have "delivered (Step_Event ev ok ticks # steps) = ev # delivered steps" using e \<open>ok\<close> False by simp
        moreover obtain stop where "decode_stream q2 dl = (map event_obj (delivered steps), stop, dl)" "stop_ok err_ok stop"
          using 3(1) [OF e _ _ q(2)] \<open>ok\<close> False by auto
        ultimately show ?thesis using step False by simp
      qed
    qed
  qed
qed

definition stamped :: "(nat \<Rightarrow> time) \<Rightarrow> chunk list \<Rightarrow> (time \<times> chunk) list" where
  "stamped clock cs = zip (map clock [0..<length cs]) cs"

lemma stamped_chunks [simp]: "map snd (stamped clock cs) = cs"
  by (simp add: stamped_def)

text \<open>
  Whatever fails on the hub's side of a stream -- an event that cannot be written, a publish the
  broker refuses, keepalives between any two chunks, a source that raises -- the adapter reads a
  beginning of the hub's events, each as it was sent and nothing twice, drops none of them as a version
  mismatch, and its stream ends, unless the broker refused even the error notice.
\<close>

theorem adapter_reads_prefix:
  "\<exists>rest stop. run_events steps = delivered steps @ rest \<and>
     decode_stream (stamped clock (map as_queued (send_chunks sid n steps raises end_ok err_ok))) dl =
       (map event_obj (delivered steps), stop, dl) \<and>
     stop_ok err_ok stop"
  using decode_send [OF stamped_chunks, of clock sid n steps raises end_ok err_ok dl] delivered_prefix [of steps]
  by blast

definition sendable :: "render_event \<Rightarrow> bool" where
  "sendable ev = (case codec_encode (event_obj ev) of Inl e \<Rightarrow> False | Inr w \<Rightarrow> True)"

text \<open>An event can be sent when its text has no lone surrogate.\<close>

fun event_utf8 :: "render_event \<Rightarrow> bool" where
  "event_utf8 (TextStart i) = utf8_text i"
| "event_utf8 (TextDelta i t) = (utf8_text i \<and> utf8_text t)"
| "event_utf8 (TextEnd i) = utf8_text i"
| "event_utf8 (TextChunk i t) = (utf8_text i \<and> utf8_text t)"
| "event_utf8 (RunStarted r) = utf8_text r"
| "event_utf8 (RunFinished r) = utf8_text r"
| "event_utf8 (RunError r m c) = (utf8_text r \<and> utf8_text m)"
| "event_utf8 (ToolCallStart i name inp) =
     (utf8_text i \<and> utf8_text name \<and> (case inp of None \<Rightarrow> True | Some d \<Rightarrow> json_utf8 (JObj d)))"
| "event_utf8 (ToolCallArgs i t) = (utf8_text i \<and> utf8_text t)"
| "event_utf8 (ToolCallEnd i) = utf8_text i"
| "event_utf8 (ToolCallResult i c e) = (utf8_text i \<and> utf8_text c)"
| "event_utf8 (ReasoningStart i) = utf8_text i"
| "event_utf8 (ReasoningDelta i t) = (utf8_text i \<and> utf8_text t)"
| "event_utf8 (ReasoningEnd i) = utf8_text i"

lemma utf8_text_ul [simp]: "utf8_text (ul s)"
proof -
  have "\<not> surrogate (of_char c)" for c :: char
    using nat_of_char_less_256 [of c] by (simp add: surrogate_def del: nat_of_char_less_256)
  then show ?thesis by (simp add: utf8_text_def ul_def list_all_iff)
qed

lemma utf8_text_append: "utf8_text (s @ t) \<longleftrightarrow> utf8_text s \<and> utf8_text t"
  by (simp add: utf8_text_def)

lemma sendable_wire: "sendable ev \<longleftrightarrow> (\<exists>p. wire_encode (event_obj ev) = Some p \<and> json_utf8 p)"
proof -
  obtain b where "branch_of_class (event_class ev) = Some b" using event_branch [of ev] by blast
  then show ?thesis unfolding event_obj_eq [of ev] sendable_def codec_encode_def serialize_def
    by (simp add: result_map_def del: wire_encode.simps split: option.split)
qed

lemma sendable_iff: "sendable ev \<longleftrightarrow> event_utf8 ev"
proof (cases ev)
  case (RunError r m c)
  then show ?thesis by (cases c) (simp_all add: sendable_wire s_field_def version_field_def del: ul_simps)
next
  case (ToolCallStart i n inp)
  have r: "raw (JObj d) \<noteq> P_Callable" for d by simp
  show ?thesis unfolding ToolCallStart
    by (cases inp) (simp_all add: sendable_wire s_field_def version_field_def raw_encode r del: raw.simps(7) ul_simps)
qed (simp_all add: sendable_wire s_field_def version_field_def del: ul_simps)

fun all_published :: "hub_step list \<Rightarrow> bool" where
  "all_published [] = True"
| "all_published (Step_Tick ok # steps) = all_published steps"
| "all_published (Step_Event ev ok ticks # steps) = (ok \<and> sendable ev \<and> all_published steps)"

lemma done_stuck: "proto_step ev proto_done = None"
  by (cases ev) (simp_all add: proto_done_def proto_init_def all_closed_def)

lemma closing_step: "closing ev \<Longrightarrow> proto_step ev p = Some p' \<Longrightarrow> p' = proto_done"
  by (cases ev) (auto split: if_splits)

lemma lawful_delivered:
  "all_published steps \<Longrightarrow> follows (run_events steps) p = Some p' \<Longrightarrow> delivered steps = run_events steps"
proof (induction steps arbitrary: p rule: delivered.induct)
  case (3 ev ok ticks steps)
  obtain q where q: "proto_step ev p = Some q" "follows (run_events steps) q = Some p'"
    using 3(3) by (auto split: option.splits)
  from 3(2) obtain w where w: "codec_encode (event_obj ev) = Inr w" and ok: "ok" "all_published steps"
    by (auto simp: sendable_def split: sum.splits)
  show ?case
  proof (cases "closing ev")
    case True
    then have "follows (run_events steps) proto_done = Some p'" using closing_step q by blast
    then have "run_events steps = []" by (cases "run_events steps") (simp_all add: done_stuck)
    then show ?thesis using w ok True by simp
  next
    case False
    then show ?thesis using 3(1) [OF w _ False ok(2) q(2)] w ok by simp
  qed
qed auto

text \<open>
  C0: A turn's render events reach the adapter whole: when each is written and published, the adapter
  reads exactly what the stream processor yielded, in its order, however keepalives fall between them
  and whether or not the turn failed.
\<close>

theorem turn_reaches_adapter:
  assumes "well_ended evs fin" "all_published steps"
    and "run_events steps = turn_output ud ok mm nm hex run_id b evs fin"
  shows "\<exists>stop. decode_stream (stamped clock (map as_queued (send_chunks sid n steps raises end_ok err_ok))) dl =
       (map event_obj (turn_output ud ok mm nm hex run_id b evs fin), stop, dl) \<and> stop_ok err_ok stop"
proof -
  obtain p where "follows (run_events steps) proto_init = Some p"
    using stream_protocol [OF assms(1)] assms(3) by metis
  from lawful_delivered [OF assms(2) this] show ?thesis
    using decode_send [OF stamped_chunks, of clock sid n steps raises end_ok err_ok dl] assms(3) by simp
qed

text \<open>A turn that breaks off in its text, keepalives between its events.\<close>

definition broken_turn :: "render_event list" where
  "broken_turn = turn_output ascii_db (\<lambda>_. True) None None (\<lambda>n. [n]) (ul ''r1'') True [TextLlm (ul ''let me'')]
     (InfraError ''ConnectionError'')"

definition broken_run :: "hub_step list" where
  "broken_run = Step_Tick True # map (\<lambda>ev. Step_Event ev True [False, True]) broken_turn"

lemma published_run: "all_published (map (\<lambda>ev. Step_Event ev True ticks) evs) \<longleftrightarrow> list_all sendable evs"
  by (induction evs) simp_all

lemma events_of_run: "run_events (map (\<lambda>ev. Step_Event ev ok ticks) evs) = evs"
  by (induction evs) simp_all

lemma broken_turn_eq:
  "broken_turn = [RunStarted (ul ''r1''), TextStart (mint_text_block_id (\<lambda>n. [n]) 0),
     TextDelta (mint_text_block_id (\<lambda>n. [n]) 0) (ul ''let me''), TextEnd (mint_text_block_id (\<lambda>n. [n]) 0),
     RunError (ul ''r1'') (ul ''ConnectionError'') (Some ''stream.error'')]"
  by (simp add: broken_turn_def turn_output_def process_stream_def process_events_def yield_from_def dispatch_event_def
      handle_text_def emit_text_def close_open_blocks_def close_reasoning_if_open_def close_text_if_open_def
      synth_orphan_tool_ends_def stream_init_def reset_result_def note_result_def first_open_def
      state_machine_init_def Let_def sm_open_def sm_close_def sm_get_def sm_is_open_def sm_drain_def block_defs del: ul_simps)

theorem turn_reaches_adapter_witness:
  "\<exists>stop. decode_stream (stamped rat_of_nat (map as_queued (send_chunks (ul ''m1'') 0 broken_run True False True))) drop_log_init =
       (map event_obj (turn_output ascii_db (\<lambda>_. True) None None (\<lambda>n. [n]) (ul ''r1'') True [TextLlm (ul ''let me'')]
          (InfraError ''ConnectionError'')), stop, drop_log_init) \<and> stop_ok True stop"
proof (rule turn_reaches_adapter)
  show "well_ended [TextLlm (ul ''let me'')] (InfraError ''ConnectionError'')" by (simp add: well_ended_def)
  have "list_all event_utf8 broken_turn" by (simp add: broken_turn_eq mint_text_block_id_def utf8_text_append del: ul_simps) (simp add: utf8_text_def surrogate_def del: ul_simps)
  then have "list_all sendable broken_turn" by (simp add: sendable_iff list_all_iff)
  then show "all_published broken_run"
    by (simp add: broken_run_def published_run)
  show "run_events broken_run = turn_output ascii_db (\<lambda>_. True) None None (\<lambda>n. [n]) (ul ''r1'') True
      [TextLlm (ul ''let me'')] (InfraError ''ConnectionError'')"
    unfolding broken_turn_def [symmetric] by (simp add: broken_run_def events_of_run)
qed

subsection \<open>What stops a stream\<close>

text \<open>
  Text with a lone surrogate (a JSON escape the driver passed on) cannot be written: the event ends the
  stream at the hub, and what follows it in the turn is lost with it.
\<close>

text \<open>
  A text delta with a lone surrogate is where a stream ends: the adapter reads what came before it
  and nothing after, though the rest of the turn could be sent.
\<close>

theorem surrogate_ends_stream:
  assumes "\<not> utf8_text t" "all_published before" "\<forall>ev \<in> set (run_events before). \<not> closing ev"
  shows "\<exists>stop. decode_stream (stamped clock (map as_queued
        (send_chunks sid n (before @ Step_Event (TextDelta i t) ok ticks # after) raises end_ok True))) dl =
      (map event_obj (run_events before), stop, dl) \<and> stop = Ended"
proof -
  have "\<not> sendable (TextDelta i t)" using assms(1) by (simp add: sendable_iff)
  then have "delivered (before @ Step_Event (TextDelta i t) ok ticks # after) = run_events before"
    using assms(2,3)
  proof (induction before rule: delivered.induct)
    case 1
    then show ?case by (simp add: sendable_def del: event_obj.simps split: sum.splits)
  next
    case (3 ev ok ticks steps)
    from 3(3) obtain w where w: "codec_encode (event_obj ev) = Inr w" and ok: "ok" "all_published steps"
      by (auto simp: sendable_def split: sum.splits)
    show ?case using 3(1) [OF w _ _ 3(2) ok(2)] w ok 3(4) by simp
  qed simp
  then show ?thesis
    using decode_send [OF stamped_chunks, of clock sid n "before @ Step_Event (TextDelta i t) ok ticks # after" raises end_ok True dl]
    by (simp add: stop_ok_def)
qed

theorem surrogate_ends_stream_witness:
  "\<exists>stop. decode_stream (stamped rat_of_nat (map as_queued
        (send_chunks (ul ''m1'') 0 ([Step_Event (TextStart (ul ''1'')) True []] @
           Step_Event (TextDelta (ul ''1'') [55357]) True [] # [Step_Event (TextEnd (ul ''1'')) True []]) False True True)))
        drop_log_init =
      (map event_obj (run_events [Step_Event (TextStart (ul ''1'')) True []]), stop, drop_log_init) \<and> stop = Ended"
proof (rule surrogate_ends_stream)
  show "\<not> utf8_text [55357]" by (simp add: utf8_text_def surrogate_def)
  have "sendable (TextStart (ul ''1''))" by (simp add: sendable_iff del: ul_simps)
  then show "all_published [Step_Event (TextStart (ul ''1'')) True []]" by simp
  show "\<forall>ev \<in> set (run_events [Step_Event (TextStart (ul ''1'')) True []]). \<not> closing ev" by simp
qed

lemma wait_steps:
  assumes "k < 24" "24 - k \<le> length ps"
  shows "wait_for_chunk liveness_poll (5 * of_nat k) ps \<noteq> Waiting"
  using assms
proof (induction ps arbitrary: k)
  case (Cons p ps)
  show ?case
  proof (cases p)
    case (Poll_Idle healthy)
    show ?thesis
    proof (cases "k = 23")
      case False
      then have k: "Suc k < 24" using Cons(2) by simp
      have "of_nat (Suc k) \<le> (of_nat 23 :: rat)" using k by (simp only: of_nat_le_iff)
      then have "min 5 (120 - 5 * (1 + of_nat k)) = (5 :: rat)" by (simp add: min_def)
      moreover have "24 - Suc k \<le> length ps" using Cons(3) by simp
      ultimately show ?thesis using Cons(1) [OF k] Poll_Idle
        by (simp add: liveness_poll_def chunk_timeout_def Let_def algebra_simps)
    qed (use Poll_Idle in \<open>simp add: liveness_poll_def chunk_timeout_def Let_def\<close>)
  qed simp
qed simp

text \<open>
  The adapter never waits for a chunk for more than 24 polls of the queue: by then it has one, or
  it has given the stream up.
\<close>

theorem waiting_gives_up:
  assumes "24 \<le> length ps"
  shows "wait_for_chunk (min liveness_poll chunk_timeout) 0 ps \<noteq> Waiting"
  using wait_steps [of 0 ps] assms by (simp add: liveness_poll_def chunk_timeout_def)

end
