(* ===== verification/Outbound_Listener.thy ===== *)
theory Outbound_Listener
  imports Render_Stream
begin

text \<open>
  The adapter's side of the bus (adapters/nats/nats_outbound_listener.py, nats_envelope_handlers.py,
  nats_stream_decoder.py, adapters/shared/_inbound_cache.py): the envelopes of the hub are matched to
  cached inbound messages, chunks are queued per stream, and a drain task per stream hands the decoded
  events to the adapter.

  Messages of the subscription are handled one at a time; the drains, the reaper and the adapter's
  inbound side take steps between them. A run is the list of these steps with their times. The classes
  of the contract types are an argument (\<open>wire_env\<close>).
\<close>

subsection \<open>State\<close>

text \<open>
  A drain is the task that reads one stream: created, not yet run; reading, with the original message
  and the outbound header it took and whether its generator still asks for chunks.
\<close>

datatype drain = D_Created | D_Reading py_obj "py_obj option" bool

record listener =
  ls_msgs :: "(json \<times> py_obj) list"
  ls_ts :: "(json \<times> time) list"
  ls_queues :: "(json \<times> chunk list) list"
  ls_tasks :: "(json \<times> drain) list"
  ls_outbound :: "(json \<times> py_obj) list"
  ls_originals :: "(json \<times> json) list"
  ls_terminated :: "(json \<times> time) list"
  ls_drops :: drop_log

definition listener_init :: listener where
  "listener_init = \<lparr>ls_msgs = [], ls_ts = [], ls_queues = [], ls_tasks = [], ls_outbound = [], ls_originals = [],
     ls_terminated = [], ls_drops = drop_log_init\<rparr>"

definition alnum :: "nat \<Rightarrow> bool" where
  "alnum c \<longleftrightarrow> (65 \<le> c \<and> c \<le> 90) \<or> (97 \<le> c \<and> c \<le> 122) \<or> (48 \<le> c \<and> c \<le> 57)"

text \<open>\<open>[A-Za-z0-9_.-]+\<close>; a bot's name has no dot.\<close>

definition nats_token :: "ustring \<Rightarrow> bool" where
  "nats_token s \<longleftrightarrow> s \<noteq> [] \<and> list_all (\<lambda>c. alnum c \<or> c = 95 \<or> c = 46 \<or> c = 45) s"

definition bot_token :: "ustring \<Rightarrow> bool" where
  "bot_token s \<longleftrightarrow> s \<noteq> [] \<and> list_all (\<lambda>c. alnum c \<or> c = 95 \<or> c = 45) s"

definition listener_new :: "ustring \<Rightarrow> ustring \<Rightarrow> wire_exn + listener" where
  "listener_new queue_group bot_id =
     (if queue_group \<noteq> [] \<and> \<not> nats_token queue_group then Inl W_Value
      else if \<not> nats_token bot_id then Inl W_Value
      else if \<not> bot_token bot_id then Inl W_Value
      else Inr listener_init)"

definition max_streams :: nat where "max_streams = 100"
definition max_queue_size :: nat where "max_queue_size = 256"
definition max_terminated_streams :: nat where "max_terminated_streams = 500"
definition cache_max_size :: nat where "cache_max_size = 500"
definition ttl_seconds :: time where "ttl_seconds = 600"

datatype listener_out =
    Call_Send py_obj py_obj
  | Call_Attachment py_obj py_obj
  | Call_Audio py_obj py_obj
  | Call_Streaming json py_obj "py_obj option"
  | Took json time chunk
  | Drained json nat
  | Chunk_Dropped json
  | Pill_Dropped json
  | Late_Error json
  | Adapter_Raised
  | Raised wire_exn

text \<open>An unhashable key raises; other identifiers are compared as JSON values (the hub's are strings).\<close>

definition hashable :: "json \<Rightarrow> bool" where
  "hashable j = (case j of JArr xs \<Rightarrow> False | JObj d \<Rightarrow> False | _ \<Rightarrow> True)"

definition has_key :: "'k \<Rightarrow> ('k \<times> 'v) list \<Rightarrow> bool" where
  "has_key k d \<longleftrightarrow> map_of d k \<noteq> None"

definition data_field :: "string \<Rightarrow> chunk \<Rightarrow> json" where
  "data_field name d = (case map_of d (ul name) of Some j \<Rightarrow> j | None \<Rightarrow> JNull)"

subsection \<open>The cache of inbound messages\<close>

definition cache_put :: "time \<Rightarrow> json \<Rightarrow> py_obj \<Rightarrow> listener \<Rightarrow> listener" where
  "cache_put now msg_id msg ls =
     (let ls' = (if cache_max_size \<le> length (ls_msgs ls)
                 then ls\<lparr>ls_msgs := tl (ls_msgs ls), ls_ts := AList.delete (fst (hd (ls_msgs ls))) (ls_ts ls)\<rparr>
                 else ls)
      in ls'\<lparr>ls_msgs := AList.update msg_id msg (ls_msgs ls'), ls_ts := AList.update msg_id now (ls_ts ls')\<rparr>)"

definition cache_touch :: "time \<Rightarrow> json \<Rightarrow> listener \<Rightarrow> listener" where
  "cache_touch now sid ls =
     (if has_key sid (ls_ts ls) then ls\<lparr>ls_ts := AList.update sid now (ls_ts ls)\<rparr> else ls)"

definition cache_pop :: "json \<Rightarrow> listener \<Rightarrow> listener" where
  "cache_pop sid ls = ls\<lparr>ls_msgs := AList.delete sid (ls_msgs ls), ls_ts := AList.delete sid (ls_ts ls)\<rparr>"

definition cache_resolve :: "wire_env \<Rightarrow> chunk \<Rightarrow> listener \<Rightarrow> wire_exn + (json \<times> py_obj) option" where
  "cache_resolve env d ls =
     (let sid = data_field ''stream_id'' d
      in if sid = JNull then Inr None
         else if \<not> hashable sid then Inl W_Type
         else case map_of (ls_msgs ls) sid of
           Some msg \<Rightarrow> Inr (Some (sid, msg))
         | None \<Rightarrow>
             (let embedded = data_field ''original_msg'' d
              in if embedded = JNull then Inr None
                 else case deserialize env ''InboundMessage'' embedded of
                   Inl e \<Rightarrow> Inr None
                 | Inr msg \<Rightarrow> Inr (Some (sid, msg))))"

definition cache_reap :: "time \<Rightarrow> listener \<Rightarrow> listener" where
  "cache_reap now ls =
     (let stale = fst ` set (filter (\<lambda>(sid, ts). ttl_seconds < now - ts) (ls_ts ls))
      in ls\<lparr>ls_msgs := filter (\<lambda>(sid, _). sid \<notin> stale) (ls_msgs ls),
            ls_ts := filter (\<lambda>(sid, _). sid \<notin> stale) (ls_ts ls)\<rparr>)"

subsection \<open>Envelopes\<close>

text \<open>
  Send, attachment, audio. \<open>adapter_ok\<close> is whether the adapter's call returns; if it raises, the
  message stays cached. Between the call and the end of the handler drains may run; they do not touch
  the entry the handler removes, or remove it themselves.
\<close>

definition deliver :: "wire_env \<Rightarrow> string \<Rightarrow> (py_obj \<Rightarrow> listener_out) \<Rightarrow> bool \<Rightarrow> json \<Rightarrow> json \<Rightarrow> listener \<Rightarrow> listener \<times> listener_out list" where
  "deliver env cls call adapter_ok sid payload ls =
     (case deserialize env cls payload of
        Inl e \<Rightarrow> (ls, [])
      | Inr v \<Rightarrow> if adapter_ok then (cache_pop sid ls, [call v]) else (ls, [call v, Adapter_Raised]))"

definition check_outbound_version :: "time \<Rightarrow> string \<Rightarrow> json \<Rightarrow> listener \<Rightarrow> wire_exn + (bool \<times> listener)" where
  "check_outbound_version now name payload ls =
     (case payload of
        JObj d \<Rightarrow>
          (case check_schema_version now d (ul name) 1 (ls_drops ls) of (ok, dl) \<Rightarrow> Inr (ok, ls\<lparr>ls_drops := dl\<rparr>))
      | _ \<Rightarrow> Inl W_Attribute)"

definition handle_send :: "wire_env \<Rightarrow> time \<Rightarrow> bool \<Rightarrow> chunk \<Rightarrow> listener \<Rightarrow> listener \<times> listener_out list" where
  "handle_send env now adapter_ok d ls =
     (case cache_resolve env d ls of
        Inl e \<Rightarrow> (ls, [Raised e])
      | Inr None \<Rightarrow> (ls, [])
      | Inr (Some (sid, msg)) \<Rightarrow>
          (let outbound = data_field ''outbound'' d
           in if outbound = JNull then (ls, [])
              else case check_outbound_version now ''OutboundMessage'' outbound ls of
                Inl e \<Rightarrow> (ls, [Raised e])
              | Inr (ok, ls') \<Rightarrow>
                  if ok then deliver env ''OutboundMessage'' (Call_Send msg) adapter_ok sid outbound ls' else (ls', [])))"

definition handle_attachment :: "wire_env \<Rightarrow> time \<Rightarrow> bool \<Rightarrow> chunk \<Rightarrow> listener \<Rightarrow> listener \<times> listener_out list" where
  "handle_attachment env now adapter_ok d ls =
     (case cache_resolve env d ls of
        Inl e \<Rightarrow> (ls, [Raised e])
      | Inr None \<Rightarrow> (ls, [])
      | Inr (Some (sid, msg)) \<Rightarrow>
          (let attachment = data_field ''attachment'' d
           in if attachment = JNull then (ls, [])
              else case check_outbound_version now ''OutboundAttachment'' attachment ls of
                Inl e \<Rightarrow> (ls, [Raised e])
              | Inr (ok, ls') \<Rightarrow>
                  if ok then deliver env ''OutboundAttachment'' (\<lambda>a. Call_Attachment a msg) adapter_ok sid attachment ls'
                  else (ls', [])))"

definition handle_audio :: "wire_env \<Rightarrow> bool \<Rightarrow> chunk \<Rightarrow> listener \<Rightarrow> listener \<times> listener_out list" where
  "handle_audio env adapter_ok d ls =
     (case cache_resolve env d ls of
        Inl e \<Rightarrow> (ls, [Raised e])
      | Inr None \<Rightarrow> (ls, [])
      | Inr (Some (sid, msg)) \<Rightarrow>
          (let audio = data_field ''audio'' d
           in if audio = JNull then (ls, [])
              else deliver env ''OutboundAudio'' (\<lambda>a. Call_Audio a msg) adapter_ok sid audio ls))"

text \<open>The store's assignment is inside the handler's \<open>try\<close>: an unhashable id is logged.\<close>

definition handle_stream_start :: "wire_env \<Rightarrow> time \<Rightarrow> chunk \<Rightarrow> listener \<Rightarrow> listener \<times> listener_out list" where
  "handle_stream_start env now d ls =
     (let sid = data_field ''stream_id'' d; outbound = data_field ''outbound'' d
      in if sid = JNull \<or> outbound = JNull then (ls, [])
         else case check_outbound_version now ''OutboundMessage'' outbound ls of
           Inl e \<Rightarrow> (ls, [Raised e])
         | Inr (ok, ls') \<Rightarrow>
             if \<not> ok then (ls', [])
             else if max_streams \<le> length (ls_outbound ls') then (ls', [])
             else (case deserialize env ''OutboundMessage'' outbound of
                Inl e \<Rightarrow> (ls', [])
              | Inr v \<Rightarrow>
                  if \<not> hashable sid then (ls', [])
                  else (let original = data_field ''original_msg'' d; ls2 = ls'\<lparr>ls_outbound := AList.update sid v (ls_outbound ls')\<rparr>
                        in (if original = JNull then ls2
                            else ls2\<lparr>ls_originals := AList.update sid original (ls_originals ls2)\<rparr>, []))))"

definition enqueue_chunk :: "json \<Rightarrow> chunk \<Rightarrow> listener \<Rightarrow> listener \<times> listener_out list" where
  "enqueue_chunk sid d ls =
     (let q = (case map_of (ls_queues ls) sid of Some q \<Rightarrow> q | None \<Rightarrow> [])
      in if max_queue_size \<le> length q
         then (ls\<lparr>ls_queues := AList.update sid q (ls_queues ls)\<rparr>, [Chunk_Dropped sid])
         else (let ls' = ls\<lparr>ls_queues := AList.update sid (q @ [d]) (ls_queues ls)\<rparr>
               in (if has_key sid (ls_tasks ls') then ls'
                   else ls'\<lparr>ls_tasks := AList.update sid D_Created (ls_tasks ls')\<rparr>, [])))"

definition handle_chunk :: "time \<Rightarrow> chunk \<Rightarrow> listener \<Rightarrow> listener \<times> listener_out list" where
  "handle_chunk now d ls =
     (let sid = data_field ''stream_id'' d
      in if sid = JNull then (ls, [])
         else if \<not> hashable sid then (ls, [Raised W_Type])
         else if has_key sid (ls_terminated ls) then (ls, [Chunk_Dropped sid])
         else if \<not> has_key sid (ls_tasks ls) \<and> max_streams \<le> length (ls_tasks ls) then (ls, [Chunk_Dropped sid])
         else enqueue_chunk sid d (if has_key sid (ls_msgs ls) then cache_touch now sid ls else ls))"

definition remember_terminated :: "time \<Rightarrow> json \<Rightarrow> listener \<Rightarrow> listener" where
  "remember_terminated now sid ls =
     (let rest = AList.delete sid (ls_terminated ls);
          kept = (if max_terminated_streams \<le> length rest then tl rest else rest)
      in ls\<lparr>ls_terminated := kept @ [(sid, now)]\<rparr>)"

definition reap_tombstones :: "time \<Rightarrow> listener \<Rightarrow> listener" where
  "reap_tombstones now ls =
     ls\<lparr>ls_terminated := filter (\<lambda>(sid, ts). \<not> ttl_seconds < now - ts) (ls_terminated ls)\<rparr>"

definition stream_known :: "json \<Rightarrow> listener \<Rightarrow> bool" where
  "stream_known sid ls \<longleftrightarrow> has_key sid (ls_msgs ls) \<or> has_key sid (ls_outbound ls) \<or> has_key sid (ls_tasks ls)"

definition handle_stream_error :: "time \<Rightarrow> chunk \<Rightarrow> listener \<Rightarrow> listener \<times> listener_out list" where
  "handle_stream_error now d ls =
     (let sid = data_field ''stream_id'' d
      in if sid = JNull then (ls, [])
         else if \<not> hashable sid then (ls, [Raised W_Type])
         else case map_of (ls_queues ls) sid of
           Some q \<Rightarrow>
             if max_queue_size \<le> length q then (remember_terminated now sid ls, [Pill_Dropped sid])
             else (remember_terminated now sid (ls\<lparr>ls_queues := AList.update sid (q @ [poison_pill]) (ls_queues ls)\<rparr>), [])
         | None \<Rightarrow>
             if \<not> stream_known sid ls then (ls, [Late_Error sid])
             else (let ls' = cache_pop sid (remember_terminated now sid ls)
                   in (ls'\<lparr>ls_outbound := AList.delete sid (ls_outbound ls'), ls_tasks := AList.delete sid (ls_tasks ls'),
                           ls_queues := AList.delete sid (ls_queues ls')\<rparr>, [Late_Error sid])))"

definition handle_raw_message ::
    "wire_env \<Rightarrow> time \<Rightarrow> bool \<Rightarrow> json option \<Rightarrow> listener \<Rightarrow> listener \<times> listener_out list" where
  "handle_raw_message env now adapter_ok msg ls =
     (case msg of
        None \<Rightarrow> (ls, [])
      | Some (JObj d) \<Rightarrow>
          (let msg_type = data_field ''type'' d
           in if msg_type = JStr (ul ''send'') then handle_send env now adapter_ok d ls
              else if msg_type = JStr (ul ''stream_start'') then handle_stream_start env now d ls
              else if msg_type = JStr stream_error_type then handle_stream_error now d ls
              else if msg_type = JStr (ul ''attachment'') then handle_attachment env now adapter_ok d ls
              else if msg_type = JStr (ul ''audio'') then handle_audio env adapter_ok d ls
              else if has_key (ul ''stream_id'') d \<and> has_key (ul ''seq'') d then handle_chunk now d ls
              else (ls, []))
      | Some _ \<Rightarrow> (ls, [Raised W_Attribute]))"

subsection \<open>Draining a stream\<close>

text \<open>\<open>_drain_stream\<close> up to the adapter's call: the original message, taken from the header's copy on a cache miss.\<close>

definition drain_origin :: "wire_env \<Rightarrow> json \<Rightarrow> listener \<Rightarrow> py_obj option \<times> listener" where
  "drain_origin env sid ls =
     (case map_of (ls_msgs ls) sid of
        Some msg \<Rightarrow> (Some msg, ls)
      | None \<Rightarrow>
          (case map_of (ls_originals ls) sid of
             None \<Rightarrow> (None, ls)
           | Some j \<Rightarrow>
               ((case deserialize env ''InboundMessage'' j of Inl e \<Rightarrow> None | Inr msg \<Rightarrow> Some msg),
                ls\<lparr>ls_originals := AList.delete sid (ls_originals ls)\<rparr>)))"

definition drain_start :: "wire_env \<Rightarrow> json \<Rightarrow> listener \<Rightarrow> listener \<times> listener_out list" where
  "drain_start env sid ls =
     (if map_of (ls_tasks ls) sid = Some D_Created then
        (case drain_origin env sid ls of
           (None, ls') \<Rightarrow>
             (ls'\<lparr>ls_tasks := AList.delete sid (ls_tasks ls'), ls_queues := AList.delete sid (ls_queues ls')\<rparr>,
              [Drained sid (case map_of (ls_queues ls') sid of Some q \<Rightarrow> length q | None \<Rightarrow> 0)])
         | (Some msg, ls') \<Rightarrow>
             (let outbound = map_of (ls_outbound ls') sid
              in (ls'\<lparr>ls_outbound := AList.delete sid (ls_outbound ls'),
                      ls_tasks := AList.update sid (D_Reading msg outbound True) (ls_tasks ls')\<rparr>,
                  [Call_Streaming sid msg outbound])))
      else (ls, []))"

text \<open>The adapter asks for the next event: one chunk is taken and decoded; a chunk that ends the stream is the last.\<close>

definition drain_take :: "time \<Rightarrow> json \<Rightarrow> listener \<Rightarrow> listener \<times> listener_out list" where
  "drain_take now sid ls =
     (case (map_of (ls_tasks ls) sid, map_of (ls_queues ls) sid) of
        (Some (D_Reading msg outbound True), Some (c # q)) \<Rightarrow>
          (case decode_stream [(now, c)] (ls_drops ls) of
             (evs, stop, dl) \<Rightarrow>
               (ls\<lparr>ls_queues := AList.update sid q (ls_queues ls),
                   ls_tasks := AList.update sid (D_Reading msg outbound (stop = Starved)) (ls_tasks ls), ls_drops := dl\<rparr>,
                [Took sid now c]))
      | _ \<Rightarrow> (ls, []))"

definition drain_cleanup :: "json \<Rightarrow> listener \<Rightarrow> listener" where
  "drain_cleanup sid ls =
     (let ls' = cache_pop sid ls
      in ls'\<lparr>ls_tasks := AList.delete sid (ls_tasks ls'), ls_queues := AList.delete sid (ls_queues ls'),
             ls_terminated := AList.delete sid (ls_terminated ls'), ls_originals := AList.delete sid (ls_originals ls')\<rparr>)"

definition drain_end :: "json \<Rightarrow> listener \<Rightarrow> listener" where
  "drain_end sid ls =
     (case map_of (ls_tasks ls) sid of Some (D_Reading msg outbound reading) \<Rightarrow> drain_cleanup sid ls | _ \<Rightarrow> ls)"

text \<open>\<open>stop\<close>: the tasks that had begun run their clean-up when the cancellation reaches them.\<close>

definition listener_stop :: "listener \<Rightarrow> listener" where
  "listener_stop ls =
     (let begun = map fst (filter (\<lambda>(sid, t). t \<noteq> D_Created) (ls_tasks ls))
      in fold drain_cleanup begun (ls\<lparr>ls_tasks := [], ls_queues := [], ls_originals := [], ls_outbound := []\<rparr>))"

definition version_mismatch_count :: "ustring \<Rightarrow> listener \<Rightarrow> nat" where
  "version_mismatch_count envelope ls =
     sum_list (map snd (filter (\<lambda>(key, n). ustartswith (envelope @ [58]) key) (dl_counter (ls_drops ls))))"

subsection \<open>Runs\<close>

datatype listener_act =
    Act_Message "json option" bool
  | Act_Inbound json py_obj
  | Act_Start json
  | Act_Take json
  | Act_End json
  | Act_Reap
  | Act_Stop

fun listener_step :: "wire_env \<Rightarrow> time \<Rightarrow> listener_act \<Rightarrow> listener \<Rightarrow> listener \<times> listener_out list" where
  "listener_step env now (Act_Message msg adapter_ok) ls = handle_raw_message env now adapter_ok msg ls"
| "listener_step env now (Act_Inbound msg_id msg) ls = (cache_put now msg_id msg ls, [])"
| "listener_step env now (Act_Start sid) ls = drain_start env sid ls"
| "listener_step env now (Act_Take sid) ls = drain_take now sid ls"
| "listener_step env now (Act_End sid) ls = (drain_end sid ls, [])"
| "listener_step env now Act_Reap ls = (reap_tombstones now (cache_reap now ls), [])"
| "listener_step env now Act_Stop ls = (listener_stop ls, [])"

fun listener_run :: "wire_env \<Rightarrow> (time \<times> listener_act) list \<Rightarrow> listener \<Rightarrow> listener \<times> listener_out list" where
  "listener_run env [] ls = (ls, [])"
| "listener_run env ((now, act) # acts) ls =
     (case listener_step env now act ls of
        (ls', out) \<Rightarrow> (case listener_run env acts ls' of (ls'', outs) \<Rightarrow> (ls'', out @ outs)))"

subsection \<open>What the listener keeps\<close>

definition cache_wf :: "listener \<Rightarrow> bool" where
  "cache_wf ls \<longleftrightarrow> dict_wf (ls_msgs ls) \<and> dict_wf (ls_ts ls) \<and> fst ` set (ls_msgs ls) = fst ` set (ls_ts ls) \<and>
     length (ls_msgs ls) \<le> cache_max_size"

definition queues_small :: "(json \<times> chunk list) list \<Rightarrow> bool" where
  "queues_small qs \<longleftrightarrow> list_all (\<lambda>(sid, q). length q \<le> max_queue_size) qs"

definition streams_wf :: "listener \<Rightarrow> bool" where
  "streams_wf ls \<longleftrightarrow> dict_wf (ls_queues ls) \<and> dict_wf (ls_tasks ls) \<and> fst ` set (ls_queues ls) = fst ` set (ls_tasks ls) \<and>
     length (ls_tasks ls) \<le> max_streams \<and> queues_small (ls_queues ls)"

definition marks_wf :: "listener \<Rightarrow> bool" where
  "marks_wf ls \<longleftrightarrow> dict_wf (ls_outbound ls) \<and> length (ls_outbound ls) \<le> max_streams \<and> dict_wf (ls_originals ls) \<and>
     dict_wf (ls_terminated ls) \<and> length (ls_terminated ls) \<le> max_terminated_streams"

definition listener_wf :: "listener \<Rightarrow> bool" where
  "listener_wf ls \<longleftrightarrow> cache_wf ls \<and> streams_wf ls \<and> marks_wf ls"

lemma has_key_iff: "has_key k d \<longleftrightarrow> k \<in> fst ` set d"
  by (simp add: has_key_def map_of_None_keys)

lemma length_update_le: "length (AList.update k v d) \<le> Suc (length d)"
  by (induction d) auto

lemma length_update_key: "k \<in> fst ` set d \<Longrightarrow> length (AList.update k v d) = length d"
  by (induction d) auto

lemma values_update: "snd ` set (AList.update k v d) \<subseteq> insert v (snd ` set d)"
  by (induction d) auto

lemma values_delete: "snd ` set (AList.delete k d) \<subseteq> snd ` set d"
  by (induction d) auto

lemma queues_small_simps [simp]:
  "queues_small []" "queues_small qs \<Longrightarrow> queues_small (AList.delete sid qs)"
  "queues_small qs \<Longrightarrow> length q \<le> max_queue_size \<Longrightarrow> queues_small (AList.update sid q qs)"
  unfolding queues_small_def by (induction qs) auto

lemma tl_keys: "dict_wf d \<Longrightarrow> d \<noteq> [] \<Longrightarrow> fst ` set (tl d) = fst ` set d - {fst (hd d)}"
  by (cases d) (auto simp: dict_wf_def)

lemma dict_wf_tl' [simp, intro]: "dict_wf d \<Longrightarrow> dict_wf (tl d)"
  by (cases d) auto

lemma keep_keys:
  assumes "fst ` set d = fst ` set e"
  shows "fst ` set (filter (\<lambda>(k, _). P k) d) = fst ` set (filter (\<lambda>(k, _). P k) e)"
proof -
  have f: "fst ` set (filter (\<lambda>(k, _). P k) d) = {k \<in> fst ` set d. P k}" for d :: "('a \<times> 'c) list"
    by (induction d) auto
  have g: "fst ` set (filter (\<lambda>(k, _). P k) e) = {k \<in> fst ` set e. P k}" for e :: "('a \<times> 'b) list"
    by (induction e) auto
  show ?thesis unfolding f g assms ..
qed

text \<open>Which part an operation leaves alone.\<close>

lemma wf_frame [simp]:
  "cache_wf (ls\<lparr>ls_drops := dl\<rparr>) = cache_wf ls" "cache_wf (ls\<lparr>ls_queues := qs\<rparr>) = cache_wf ls"
  "cache_wf (ls\<lparr>ls_tasks := ts\<rparr>) = cache_wf ls" "cache_wf (ls\<lparr>ls_outbound := ob\<rparr>) = cache_wf ls"
  "cache_wf (ls\<lparr>ls_originals := os\<rparr>) = cache_wf ls" "cache_wf (ls\<lparr>ls_terminated := tm\<rparr>) = cache_wf ls"
  "streams_wf (ls\<lparr>ls_drops := dl\<rparr>) = streams_wf ls" "streams_wf (ls\<lparr>ls_msgs := ms\<rparr>) = streams_wf ls"
  "streams_wf (ls\<lparr>ls_ts := t\<rparr>) = streams_wf ls" "streams_wf (ls\<lparr>ls_outbound := ob\<rparr>) = streams_wf ls"
  "streams_wf (ls\<lparr>ls_originals := os\<rparr>) = streams_wf ls" "streams_wf (ls\<lparr>ls_terminated := tm\<rparr>) = streams_wf ls"
  "marks_wf (ls\<lparr>ls_drops := dl\<rparr>) = marks_wf ls" "marks_wf (ls\<lparr>ls_msgs := ms\<rparr>) = marks_wf ls"
  "marks_wf (ls\<lparr>ls_ts := t\<rparr>) = marks_wf ls" "marks_wf (ls\<lparr>ls_queues := qs\<rparr>) = marks_wf ls"
  "marks_wf (ls\<lparr>ls_tasks := ts\<rparr>) = marks_wf ls"
  by (simp_all add: cache_wf_def streams_wf_def marks_wf_def)

lemma cache_put_wf [inv_intros]:
  assumes "listener_wf ls" shows "listener_wf (cache_put now i m ls)"
proof -
  have c: "cache_wf ls" using assms by (simp add: listener_wf_def)
  have "cache_wf (cache_put now i m ls)"
  proof (cases "cache_max_size \<le> length (ls_msgs ls)")
    case True
    then have ne: "ls_msgs ls \<noteq> []" by (auto simp: cache_max_size_def)
    have "length (AList.update i m (tl (ls_msgs ls))) \<le> cache_max_size"
      using length_update_le [of i m "tl (ls_msgs ls)"] c ne by (cases "ls_msgs ls") (auto simp: cache_wf_def)
    then show ?thesis using True c tl_keys [OF _ ne] by (simp add: cache_put_def cache_wf_def Let_def)
  next
    case False
    then show ?thesis using c length_update_le [of i m "ls_msgs ls"] by (simp add: cache_put_def cache_wf_def Let_def)
  qed
  then show ?thesis using assms by (simp add: listener_wf_def cache_put_def Let_def)
qed

lemma cache_touch_wf [inv_intros]: "listener_wf ls \<Longrightarrow> listener_wf (cache_touch now sid ls)"
  by (auto simp: listener_wf_def cache_touch_def cache_wf_def has_key_iff)

lemma cache_pop_wf [inv_intros]: "listener_wf ls \<Longrightarrow> listener_wf (cache_pop sid ls)"
  by (auto simp: listener_wf_def cache_pop_def cache_wf_def intro: le_trans [OF length_delete_le])

lemma cache_reap_wf [inv_intros]: "listener_wf ls \<Longrightarrow> listener_wf (cache_reap now ls)"
proof -
  assume w: "listener_wf ls"
  define keep where "keep = (\<lambda>sid. sid \<notin> fst ` set (filter (\<lambda>(sid, ts). ttl_seconds < now - ts) (ls_ts ls)))"
  have sel: "ls_msgs (cache_reap now ls) = filter (\<lambda>(sid, _). keep sid) (ls_msgs ls)"
      "ls_ts (cache_reap now ls) = filter (\<lambda>(sid, _). keep sid) (ls_ts ls)"
    by (simp_all add: cache_reap_def keep_def Let_def)
  have c: "dict_wf (ls_msgs ls)" "dict_wf (ls_ts ls)" "fst ` set (ls_msgs ls) = fst ` set (ls_ts ls)"
      "length (ls_msgs ls) \<le> cache_max_size"
    using w by (simp_all add: listener_wf_def cache_wf_def)
  have "cache_wf (cache_reap now ls)"
    unfolding cache_wf_def sel using c by (intro conjI dict_wf_filter keep_keys le_trans [OF length_filter_le])
  moreover have "streams_wf (cache_reap now ls)" "marks_wf (cache_reap now ls)"
    using w by (simp_all add: cache_reap_def listener_wf_def Let_def)
  ultimately show ?thesis by (simp add: listener_wf_def)
qed

lemma remember_wf [inv_intros]:
  assumes "listener_wf ls" shows "listener_wf (remember_terminated now sid ls)"
proof -
  let ?rest = "AList.delete sid (ls_terminated ls)"
  have m: "marks_wf ls" using assms by (simp add: listener_wf_def)
  have "set (tl ?rest) \<subseteq> set ?rest" by (cases ?rest) auto
  then have "fst ` set (tl ?rest) \<subseteq> fst ` set (ls_terminated ls) - {sid}"
    using image_mono [of "set (tl ?rest)" "set ?rest" fst] by (simp only: keys_delete)
  then have "sid \<notin> fst ` set (tl ?rest)" by blast
  moreover have "sid \<notin> fst ` set ?rest" by (simp only: keys_delete) blast
  ultimately have new: "dict_wf (tl ?rest @ [(sid, now)])" "dict_wf (?rest @ [(sid, now)])"
    using m by (simp_all add: dict_wf_append_new marks_wf_def)
  have len: "length ?rest \<le> max_terminated_streams"
    using m le_trans [OF length_delete_le] by (auto simp: marks_wf_def)
  have "0 < max_terminated_streams" by (simp add: max_terminated_streams_def)
  then show ?thesis using assms m new len
    by (auto simp: listener_wf_def remember_terminated_def marks_wf_def Let_def)
qed

lemma reap_tombstones_wf [inv_intros]: "listener_wf ls \<Longrightarrow> listener_wf (reap_tombstones now ls)"
  by (auto simp: listener_wf_def reap_tombstones_def marks_wf_def intro: le_trans [OF length_filter_le])

lemma remove_stream_wf [inv_intros]:
  "listener_wf ls \<Longrightarrow> listener_wf (ls\<lparr>ls_tasks := AList.delete sid (ls_tasks ls), ls_queues := AList.delete sid (ls_queues ls)\<rparr>)"
  by (auto simp: listener_wf_def streams_wf_def intro: le_trans [OF length_delete_le])

lemma marks_delete_wf [inv_intros]:
  "listener_wf ls \<Longrightarrow> listener_wf (ls\<lparr>ls_outbound := AList.delete sid (ls_outbound ls)\<rparr>)"
  "listener_wf ls \<Longrightarrow> listener_wf (ls\<lparr>ls_originals := AList.delete sid (ls_originals ls)\<rparr>)"
  "listener_wf ls \<Longrightarrow> listener_wf (ls\<lparr>ls_terminated := AList.delete sid (ls_terminated ls)\<rparr>)"
  "listener_wf ls \<Longrightarrow> listener_wf (ls\<lparr>ls_drops := dl\<rparr>)"
  by (auto simp: listener_wf_def marks_wf_def intro: le_trans [OF length_delete_le])

lemma queue_wf [inv_intros]:
  assumes "listener_wf ls" "sid \<in> fst ` set (ls_tasks ls)" "length q \<le> max_queue_size"
  shows "listener_wf (ls\<lparr>ls_queues := AList.update sid q (ls_queues ls)\<rparr>)"
  using assms by (auto simp: listener_wf_def streams_wf_def)

lemma task_wf [inv_intros]:
  assumes "listener_wf ls" "sid \<in> fst ` set (ls_tasks ls)"
  shows "listener_wf (ls\<lparr>ls_tasks := AList.update sid t (ls_tasks ls)\<rparr>)"
  using assms length_update_key [OF assms(2), of t] by (auto simp: listener_wf_def streams_wf_def)

lemma new_stream_wf:
  assumes "listener_wf ls" "length (ls_tasks ls) < max_streams" "length q \<le> max_queue_size"
  shows "listener_wf (ls\<lparr>ls_queues := AList.update sid q (ls_queues ls), ls_tasks := AList.update sid t (ls_tasks ls)\<rparr>)"
  using assms length_update_le [of sid t "ls_tasks ls"]
  by (auto simp: listener_wf_def streams_wf_def)

lemma queue_bound:
  assumes "listener_wf ls" "map_of (ls_queues ls) sid = Some q"
  shows "length q \<le> max_queue_size"
  using assms(1) map_of_SomeD [OF assms(2)] by (auto simp: listener_wf_def streams_wf_def queues_small_def list_all_iff)

lemma queue_task: "listener_wf ls \<Longrightarrow> map_of (ls_queues ls) sid = Some q \<Longrightarrow> sid \<in> fst ` set (ls_tasks ls)"
  using map_of_None_keys [of "ls_queues ls" sid] by (auto simp: listener_wf_def streams_wf_def)

lemma check_version_wf:
  "listener_wf ls \<Longrightarrow> check_outbound_version now name payload ls = Inr (ok, ls') \<Longrightarrow> listener_wf ls'"
  by (auto simp: check_outbound_version_def intro: inv_intros split: json.splits prod.splits)

lemma deliver_wf: "listener_wf ls \<Longrightarrow> listener_wf (fst (deliver env cls call ok sid payload ls))"
  by (auto simp: deliver_def intro: inv_intros split: sum.splits)

lemma handle_send_wf: "listener_wf ls \<Longrightarrow> listener_wf (fst (handle_send env now ok d ls))"
  by (auto simp: handle_send_def Let_def intro: deliver_wf dest: check_version_wf split: sum.splits option.splits)

lemma handle_attachment_wf: "listener_wf ls \<Longrightarrow> listener_wf (fst (handle_attachment env now ok d ls))"
  by (auto simp: handle_attachment_def Let_def intro: deliver_wf dest: check_version_wf split: sum.splits option.splits)

lemma handle_audio_wf: "listener_wf ls \<Longrightarrow> listener_wf (fst (handle_audio env ok d ls))"
  by (auto simp: handle_audio_def Let_def intro: deliver_wf split: sum.splits option.splits)

lemma header_wf:
  assumes "listener_wf ls" "length (ls_outbound ls) < max_streams"
  shows "listener_wf (ls\<lparr>ls_outbound := AList.update sid v (ls_outbound ls)\<rparr>)"
    "listener_wf (ls\<lparr>ls_outbound := AList.update sid v (ls_outbound ls),
        ls_originals := AList.update sid j (ls_originals ls)\<rparr>)"
  using assms length_update_le [of sid v "ls_outbound ls"] by (auto simp: listener_wf_def marks_wf_def)

lemma handle_stream_start_wf: "listener_wf ls \<Longrightarrow> listener_wf (fst (handle_stream_start env now d ls))"
  by (auto simp: handle_stream_start_def Let_def not_le intro: header_wf dest: check_version_wf split: sum.splits)

lemma enqueue_wf:
  assumes w: "listener_wf ls" and room: "sid \<in> fst ` set (ls_tasks ls) \<or> length (ls_tasks ls) < max_streams"
  shows "listener_wf (fst (enqueue_chunk sid d ls))"
proof (cases "map_of (ls_queues ls) sid")
  case None
  then have new: "sid \<notin> fst ` set (ls_tasks ls)" using w by (auto simp: listener_wf_def streams_wf_def map_of_None_keys)
  then show ?thesis using new_stream_wf [OF w, of "[d]" sid D_Created] room None
    by (simp add: enqueue_chunk_def max_queue_size_def has_key_iff)
next
  case (Some q)
  note t = queue_task [OF w Some] and b = queue_bound [OF w Some]
  show ?thesis using queue_wf [OF w t, of q] queue_wf [OF w t, of "q @ [d]"] b t Some
    by (simp add: enqueue_chunk_def has_key_iff Let_def)
qed

lemma cache_touch_tasks [simp]: "ls_tasks (cache_touch now sid ls) = ls_tasks ls"
  by (simp add: cache_touch_def)

lemma handle_chunk_wf: "listener_wf ls \<Longrightarrow> listener_wf (fst (handle_chunk now d ls))"
  by (auto simp: handle_chunk_def Let_def has_key_iff not_le intro!: enqueue_wf cache_touch_wf)

lemma handle_stream_error_wf:
  assumes w: "listener_wf ls"
  shows "listener_wf (fst (handle_stream_error now d ls))"
proof -
  define sid where "sid = data_field ''stream_id'' d"
  show ?thesis
  proof (cases "map_of (ls_queues ls) sid")
    case None
    let ?ls = "cache_pop sid (remember_terminated now sid ls)"
    have l: "listener_wf ?ls" using w by (intro inv_intros)
    have "listener_wf (?ls\<lparr>ls_outbound := AList.delete sid (ls_outbound ?ls), ls_tasks := AList.delete sid (ls_tasks ?ls),
        ls_queues := AList.delete sid (ls_queues ?ls)\<rparr>)"
      using remove_stream_wf [OF marks_delete_wf(1) [OF l, of sid], of sid] by simp
    then show ?thesis using w None by (simp add: handle_stream_error_def sid_def Let_def)
  next
    case (Some q)
    note t = queue_task [OF w Some]
    have "listener_wf (remember_terminated now sid ls)" using w by (intro inv_intros)
    moreover have "length q < max_queue_size \<Longrightarrow>
        listener_wf (remember_terminated now sid (ls\<lparr>ls_queues := AList.update sid (q @ [poison_pill]) (ls_queues ls)\<rparr>))"
      using w t by (intro inv_intros) simp_all
    ultimately show ?thesis using w Some by (auto simp: handle_stream_error_def sid_def [symmetric] Let_def not_le)
  qed
qed

lemma handle_raw_wf: "listener_wf ls \<Longrightarrow> listener_wf (fst (handle_raw_message env now ok msg ls))"
  using handle_send_wf handle_stream_start_wf handle_stream_error_wf handle_attachment_wf handle_audio_wf handle_chunk_wf
  by (auto simp: handle_raw_message_def Let_def split: option.split json.split)

lemma drain_origin_wf: "listener_wf ls \<Longrightarrow> listener_wf (snd (drain_origin env sid ls))"
  by (auto simp: drain_origin_def intro: inv_intros split: option.split)

lemma drain_origin_tasks: "ls_tasks (snd (drain_origin env sid ls)) = ls_tasks ls"
  by (simp add: drain_origin_def split: option.split)

lemma drain_start_wf:
  assumes w: "listener_wf ls"
  shows "listener_wf (fst (drain_start env sid ls))"
proof (cases "map_of (ls_tasks ls) sid = Some D_Created")
  case True
  obtain m ls' where o': "drain_origin env sid ls = (m, ls')" by (cases "drain_origin env sid ls")
  have l: "listener_wf ls'" "ls_tasks ls' = ls_tasks ls"
    using drain_origin_wf [OF w, of env sid] drain_origin_tasks [of env sid ls] o' by simp_all
  have t: "sid \<in> fst ` set (ls_tasks ls')" using True l(2) map_of_None_keys [of "ls_tasks ls" sid] by auto
  have "listener_wf (ls'\<lparr>ls_outbound := AList.delete sid (ls_outbound ls'), ls_tasks := AList.update sid dr (ls_tasks ls')\<rparr>)" for dr
    using task_wf [OF marks_delete_wf(1) [OF l(1), of sid], of sid dr] t by simp
  then show ?thesis using True o' remove_stream_wf [OF l(1), of sid]
    by (auto simp: drain_start_def Let_def split: option.split)
qed (simp add: drain_start_def w)

lemma drain_take_wf:
  assumes w: "listener_wf ls"
  shows "listener_wf (fst (drain_take now sid ls))"
proof -
  have "listener_wf (ls\<lparr>ls_queues := AList.update sid q (ls_queues ls), ls_tasks := AList.update sid t (ls_tasks ls),
      ls_drops := dl\<rparr>)" if "map_of (ls_queues ls) sid = Some (c # q)" for c q t dl
  proof -
    note k = queue_task [OF w that]
    have "listener_wf (ls\<lparr>ls_queues := AList.update sid q (ls_queues ls)\<rparr>)"
      using queue_bound [OF w that] by (intro queue_wf [OF w k]) simp
    then have "listener_wf (ls\<lparr>ls_queues := AList.update sid q (ls_queues ls), ls_tasks := AList.update sid t (ls_tasks ls)\<rparr>)"
      using task_wf [of "ls\<lparr>ls_queues := AList.update sid q (ls_queues ls)\<rparr>" sid t] k by simp
    from marks_delete_wf(4) [OF this, of dl] show ?thesis .
  qed
  then show ?thesis using w
    by (auto simp: drain_take_def split: option.split drain.split list.split bool.split prod.split simp del: decode_stream.simps)
qed

lemma drain_cleanup_wf: "listener_wf ls \<Longrightarrow> listener_wf (drain_cleanup sid ls)"
  using marks_delete_wf(2) [OF marks_delete_wf(3) [OF remove_stream_wf [OF cache_pop_wf, of ls sid sid], of sid], of sid]
  by (simp add: drain_cleanup_def Let_def)

lemma listener_stop_wf:
  assumes "listener_wf ls" shows "listener_wf (listener_stop ls)"
proof -
  have f: "listener_wf l \<Longrightarrow> listener_wf (fold drain_cleanup ids l)" for ids l
    by (induction ids arbitrary: l) (auto intro: drain_cleanup_wf)
  have "listener_wf (ls\<lparr>ls_tasks := [], ls_queues := [], ls_originals := [], ls_outbound := []\<rparr>)"
    using assms by (simp add: listener_wf_def cache_wf_def streams_wf_def marks_wf_def)
  from f [OF this] show ?thesis by (simp add: listener_stop_def Let_def)
qed

lemma listener_step_wf: "listener_wf ls \<Longrightarrow> listener_wf (fst (listener_step env now act ls))"
  using handle_raw_wf drain_start_wf drain_take_wf drain_cleanup_wf listener_stop_wf
  by (cases act) (auto simp: drain_end_def intro: inv_intros split: option.split drain.split)

lemma listener_run_wf: "listener_wf ls \<Longrightarrow> listener_wf (fst (listener_run env acts ls))"
proof (induction env acts ls rule: listener_run.induct)
  case (2 env now act acts ls)
  then show ?case using listener_step_wf [OF 2(2), of env now act] by (auto split: prod.splits)
qed simp

lemma listener_init_wf: "listener_wf listener_init"
  by (simp add: listener_wf_def cache_wf_def streams_wf_def marks_wf_def listener_init_def)

text \<open>
  C0: Whatever messages, drains, reaps and stops a listener sees, in whatever order, it holds at most 100
  streams with a task and a queue for each and nothing else, at most 256 chunks in a queue, 100 headers,
  500 tombstones and 500 cached messages, each with its time.
\<close>

theorem listener_stays_bounded:
  "listener_wf (fst (listener_run env acts listener_init))"
  using listener_init_wf by (rule listener_run_wf)

subsection \<open>Chunks in order\<close>

definition queue_of :: "listener \<Rightarrow> json \<Rightarrow> chunk list" where
  "queue_of ls sid = (case map_of (ls_queues ls) sid of Some q \<Rightarrow> q | None \<Rightarrow> [])"

fun took :: "json \<Rightarrow> listener_out list \<Rightarrow> (time \<times> chunk) list" where
  "took sid [] = []"
| "took sid (Took sid' now c # outs) = (if sid' = sid then (now, c) # took sid outs else took sid outs)"
| "took sid (out # outs) = took sid outs"

definition other_types :: "json list" where
  "other_types = map (\<lambda>s. JStr (ul s)) [''send'', ''stream_start'', ''attachment'', ''audio'']"

text \<open>The messages of a stream, as they are queued.\<close>

definition stream_message :: "json \<Rightarrow> chunk \<Rightarrow> bool" where
  "stream_message sid d \<longleftrightarrow> data_field ''stream_id'' d = sid \<and>
     (data_field ''type'' d = JStr stream_error_type \<or>
      (data_field ''type'' d \<notin> set other_types \<and> has_key (ul ''stream_id'') d \<and> has_key (ul ''seq'') d))"

fun sent_for :: "json \<Rightarrow> (time \<times> listener_act) list \<Rightarrow> chunk list" where
  "sent_for sid [] = []"
| "sent_for sid ((now, Act_Message (Some (JObj d)) ok) # acts) =
     (if stream_message sid d then as_queued d # sent_for sid acts else sent_for sid acts)"
| "sent_for sid (act # acts) = sent_for sid acts"

text \<open>Nothing of the stream was turned away.\<close>

fun loss :: "json \<Rightarrow> listener_out \<Rightarrow> bool" where
  "loss sid (Chunk_Dropped s) \<longleftrightarrow> s = sid"
| "loss sid (Pill_Dropped s) \<longleftrightarrow> s = sid"
| "loss sid (Late_Error s) \<longleftrightarrow> s = sid"
| "loss sid (Drained s n) \<longleftrightarrow> s = sid"
| "loss sid out \<longleftrightarrow> False"

definition lossless :: "json \<Rightarrow> listener_out list \<Rightarrow> bool" where
  "lossless sid outs \<longleftrightarrow> list_all (\<lambda>out. \<not> loss sid out) outs"

lemma took_append [simp]: "took sid (xs @ ys) = took sid xs @ took sid ys"
  by (induction sid xs rule: took.induct) simp_all

lemma lossless_simps [simp]:
  "lossless sid []" "lossless sid (out # outs) \<longleftrightarrow> \<not> loss sid out \<and> lossless sid outs"
  "lossless sid (xs @ ys) \<longleftrightarrow> lossless sid xs \<and> lossless sid ys"
  by (simp_all add: lossless_def)

lemma queue_of_simps [simp]:
  "queue_of (ls\<lparr>ls_queues := AList.update k q (ls_queues ls')\<rparr>) sid = (if k = sid then q else queue_of ls' sid)"
  "queue_of (ls\<lparr>ls_queues := AList.delete k (ls_queues ls')\<rparr>) sid = (if k = sid then [] else queue_of ls' sid)"
  "queue_of (ls\<lparr>ls_tasks := x1\<rparr>) sid = queue_of ls sid" "queue_of (ls\<lparr>ls_drops := x2\<rparr>) sid = queue_of ls sid"
  "queue_of (ls\<lparr>ls_outbound := x3\<rparr>) sid = queue_of ls sid" "queue_of (ls\<lparr>ls_originals := x4\<rparr>) sid = queue_of ls sid"
  "queue_of (ls\<lparr>ls_terminated := x5\<rparr>) sid = queue_of ls sid" "queue_of (ls\<lparr>ls_msgs := x6\<rparr>) sid = queue_of ls sid"
  "queue_of (ls\<lparr>ls_ts := x7\<rparr>) sid = queue_of ls sid"
  by (simp_all add: queue_of_def update_conv' delete_conv')

lemma queue_of_frame [simp]:
  "queue_of (cache_put now i m ls) sid = queue_of ls sid" "queue_of (cache_touch now k ls) sid = queue_of ls sid"
  "queue_of (cache_pop k ls) sid = queue_of ls sid" "queue_of (cache_reap now ls) sid = queue_of ls sid"
  "queue_of (remember_terminated now k ls) sid = queue_of ls sid" "queue_of (reap_tombstones now ls) sid = queue_of ls sid"
  by (simp_all add: cache_put_def cache_touch_def cache_pop_def cache_reap_def remember_terminated_def reap_tombstones_def Let_def)

text \<open>What the handlers of other messages leave alone: the queue, and nothing is taken.\<close>

definition quiet_for :: "json \<Rightarrow> listener \<Rightarrow> listener \<times> listener_out list \<Rightarrow> bool" where
  "quiet_for sid ls r \<longleftrightarrow> queue_of (fst r) sid = queue_of ls sid \<and> took sid (snd r) = []"

lemma check_version_quiet:
  "check_outbound_version now name payload ls = Inr (ok, ls') \<Longrightarrow> queue_of ls' sid = queue_of ls sid"
  by (auto simp: check_outbound_version_def split: json.splits prod.splits)

lemma other_handlers_quiet:
  "quiet_for sid ls (handle_send env now ok d ls)" "quiet_for sid ls (handle_attachment env now ok d ls)"
  "quiet_for sid ls (handle_audio env ok d ls)" "quiet_for sid ls (handle_stream_start env now d ls)"
  by (auto simp: quiet_for_def handle_send_def handle_attachment_def handle_audio_def handle_stream_start_def deliver_def Let_def
      dest: check_version_quiet split: sum.splits option.splits)

lemma queue_of_Some: "map_of (ls_queues ls) k = Some q \<Longrightarrow> queue_of ls k = q"
  by (simp add: queue_of_def)

lemma chunk_in_order:
  assumes "handle_chunk now d ls = (ls', outs)" "lossless (JStr s) outs"
  shows "took (JStr s) outs = [] \<and>
     queue_of ls' (JStr s) = queue_of ls (JStr s) @ (if data_field ''stream_id'' d = JStr s then [d] else [])"
proof -
  define sid where "sid = data_field ''stream_id'' d"
  have enq: "took (JStr s) outs = [] \<and> queue_of ls' (JStr s) = queue_of l (JStr s) @ (if sid = JStr s then [d] else [])"
    if "enqueue_chunk sid d l = (ls', outs)" for l
    using that assms(2) by (auto simp: enqueue_chunk_def Let_def queue_of_def [of l] split: if_splits option.splits)
  have "data_field ''stream_id'' d = JStr s \<Longrightarrow> hashable sid" by (simp add: sid_def hashable_def)
  then show ?thesis using assms enq
    by (auto simp: handle_chunk_def Let_def sid_def [symmetric] split: if_splits)
qed

lemma error_in_order:
  assumes "handle_stream_error now d ls = (ls', outs)" "lossless (JStr s) outs"
  shows "took (JStr s) outs = [] \<and>
     queue_of ls' (JStr s) = queue_of ls (JStr s) @ (if data_field ''stream_id'' d = JStr s then [poison_pill] else [])"
proof -
  define sid where "sid = data_field ''stream_id'' d"
  have "data_field ''stream_id'' d = JStr s \<Longrightarrow> hashable sid" by (simp add: sid_def hashable_def)
  then show ?thesis using assms
    by (auto simp: handle_stream_error_def Let_def sid_def [symmetric] queue_of_Some split: if_splits option.splits)
qed

lemma queued_eq: "as_queued d = (if data_field ''type'' d = JStr stream_error_type then poison_pill else d)"
  by (simp add: as_queued_def data_field_def split: option.split)

lemma stream_error_not_other: "JStr stream_error_type \<notin> set other_types"
  by (simp add: other_types_def stream_error_type_def)

lemma message_in_order:
  assumes "handle_raw_message env now ok (Some (JObj d)) ls = (ls', outs)" "lossless (JStr s) outs"
  shows "took (JStr s) outs = [] \<and>
     queue_of ls' (JStr s) = queue_of ls (JStr s) @ (if stream_message (JStr s) d then [as_queued d] else [])"
proof -
  define t where "t = data_field ''type'' d"
  have q: "quiet_for (JStr s) ls (ls', outs) \<Longrightarrow> \<not> stream_message (JStr s) d \<Longrightarrow> ?thesis" by (simp add: quiet_for_def)
  have raw: "handle_raw_message env now ok (Some (JObj d)) ls =
      (if t = JStr (ul ''send'') then handle_send env now ok d ls
       else if t = JStr (ul ''stream_start'') then handle_stream_start env now d ls
       else if t = JStr stream_error_type then handle_stream_error now d ls
       else if t = JStr (ul ''attachment'') then handle_attachment env now ok d ls
       else if t = JStr (ul ''audio'') then handle_audio env ok d ls
       else if has_key (ul ''stream_id'') d \<and> has_key (ul ''seq'') d then handle_chunk now d ls else (ls, []))"
    unfolding handle_raw_message_def t_def Let_def by (simp only: option.case json.case)
  consider (other) "t \<in> set other_types" | (error) "t = JStr stream_error_type"
    | (chunk) "t \<notin> set other_types" "t \<noteq> JStr stream_error_type" by blast
  then show ?thesis
  proof cases
    case other
    then have "t \<noteq> JStr stream_error_type" using stream_error_not_other by blast
    then have "quiet_for (JStr s) ls (ls', outs)"
      using other assms(1) [symmetric] unfolding raw other_types_def
      by (auto simp: other_handlers_quiet simp del: ul_simps)
    then show ?thesis using q other \<open>t \<noteq> JStr stream_error_type\<close> by (simp add: stream_message_def t_def)
  next
    case error
    then have "t \<noteq> JStr (ul ''send'')" "t \<noteq> JStr (ul ''stream_start'')" using stream_error_not_other by (auto simp: other_types_def)
    then have "handle_stream_error now d ls = (ls', outs)" using assms(1) error unfolding raw by simp
    from error_in_order [OF this assms(2)] show ?thesis using error by (simp add: stream_message_def t_def queued_eq)
  next
    case chunk
    have r: "handle_raw_message env now ok (Some (JObj d)) ls =
        (if has_key (ul ''stream_id'') d \<and> has_key (ul ''seq'') d then handle_chunk now d ls else (ls, []))"
      using chunk unfolding raw other_types_def by (simp del: ul_simps)
    show ?thesis
    proof (cases "has_key (ul ''stream_id'') d \<and> has_key (ul ''seq'') d")
      case True
      with assms(1) r have "handle_chunk now d ls = (ls', outs)" by simp
      from chunk_in_order [OF this assms(2)] show ?thesis
        using chunk True by (simp add: stream_message_def t_def queued_eq del: ul_simps)
    next
      case False
      then have "\<not> stream_message (JStr s) d" using chunk unfolding stream_message_def t_def by blast
      moreover have "ls' = ls" "outs = []" using assms(1) False unfolding r by (simp_all only: if_False prod.inject)
      ultimately show ?thesis by simp
    qed
  qed
qed

lemma start_in_order:
  assumes "drain_start env k ls = (ls', outs)" "lossless sid outs"
  shows "took sid outs = [] \<and> queue_of ls' sid = queue_of ls sid"
proof -
  have o': "queue_of (snd (drain_origin env k ls)) sid = queue_of ls sid"
    by (simp add: drain_origin_def split: option.split)
  obtain m l where l: "drain_origin env k ls = (m, l)" by (cases "drain_origin env k ls")
  show ?thesis using assms o' l
    by (auto simp: drain_start_def Let_def split: if_splits option.splits)
qed

lemma take_in_order:
  assumes "drain_take now k ls = (ls', outs)"
  shows "map snd (took sid outs) @ queue_of ls' sid = queue_of ls sid"
  using assms
  by (auto simp: drain_take_def queue_of_Some simp del: decode_stream.simps
      split: option.splits drain.splits list.splits bool.splits prod.splits)

lemma end_in_order: "k \<noteq> sid \<Longrightarrow> queue_of (drain_end k ls) sid = queue_of ls sid"
  by (simp add: drain_end_def drain_cleanup_def Let_def split: option.split drain.split)

definition keeps_reading :: "json \<Rightarrow> listener_act \<Rightarrow> bool" where
  "keeps_reading sid act \<longleftrightarrow> act \<noteq> Act_End sid \<and> act \<noteq> Act_Stop"

lemma step_in_order:
  assumes "listener_step env now act ls = (ls', outs)" "lossless (JStr s) outs" "keeps_reading (JStr s) act"
  shows "map snd (took (JStr s) outs) @ queue_of ls' (JStr s) = queue_of ls (JStr s) @ sent_for (JStr s) [(now, act)]"
proof (cases act)
  case (Act_Message msg ok)
  show ?thesis
  proof (cases "\<exists>d. msg = Some (JObj d)")
    case True
    then obtain d where m: "msg = Some (JObj d)" by blast
    from message_in_order [of env now ok d ls ls' outs s] assms show ?thesis unfolding Act_Message m by simp
  next
    case False
    then have "ls' = ls \<and> took (JStr s) outs = [] \<and> sent_for (JStr s) [(now, act)] = []"
      using assms(1) unfolding Act_Message
      by (cases msg; cases "the msg") (auto simp: handle_raw_message_def)
    then show ?thesis by simp
  qed
next
  case (Act_Start k)
  then show ?thesis using start_in_order [of env k ls ls' outs "JStr s"] assms by simp
next
  case (Act_Take k)
  then show ?thesis using take_in_order [of now k ls ls' outs "JStr s"] assms by simp
next
  case (Act_End k)
  then show ?thesis using end_in_order [of k "JStr s" ls] assms by (auto simp: keeps_reading_def)
qed (use assms in \<open>auto simp: keeps_reading_def\<close>)

lemma sent_for_Cons: "sent_for sid (a # acts) = sent_for sid [a] @ sent_for sid acts"
  by (cases "(sid, [a])" rule: sent_for.cases) simp_all

lemma run_in_order:
  "listener_run env acts ls = (ls', outs) \<Longrightarrow> lossless (JStr s) outs \<Longrightarrow> list_all (keeps_reading (JStr s)) (map snd acts) \<Longrightarrow>
     map snd (took (JStr s) outs) @ queue_of ls' (JStr s) = queue_of ls (JStr s) @ sent_for (JStr s) acts"
proof (induction env acts ls arbitrary: outs rule: listener_run.induct)
  case (2 env now act acts ls)
  obtain l1 o1 where one: "listener_step env now act ls = (l1, o1)" by (cases "listener_step env now act ls")
  obtain o2 where rest: "listener_run env acts l1 = (ls', o2)" "outs = o1 @ o2"
    using 2(2) one by (auto split: prod.splits)
  have l: "lossless (JStr s) o1" "lossless (JStr s) o2" using 2(3) rest(2) by simp_all
  have "map snd (took (JStr s) o2) @ queue_of ls' (JStr s) = queue_of l1 (JStr s) @ sent_for (JStr s) acts"
    using 2(1) [OF one [symmetric] rest(1) l(2)] 2(4) by simp
  moreover have "map snd (took (JStr s) o1) @ queue_of l1 (JStr s) = queue_of ls (JStr s) @ sent_for (JStr s) [(now, act)]"
    using step_in_order [OF one l(1)] 2(4) by simp
  ultimately show ?case unfolding rest(2) sent_for_Cons [of _ _ acts] by (simp del: sent_for.simps)
qed simp

lemma decode_prefix: "\<exists>rest. fst (decode_stream (q @ q') dl) = fst (decode_stream q dl) @ rest"
proof (induction q arbitrary: dl)
  case (Cons a q)
  obtain now c where a: "a = (now, c)" by (cases a)
  define t where "t = (case map_of c (ul ''event_type'') of Some t \<Rightarrow> t | None \<Rightarrow> JNull)"
  define p where "p = (case map_of c (ul ''payload'') of Some p \<Rightarrow> p | None \<Rightarrow> JObj [])"
  obtain r dl' where r: "codec_decode now t p dl = (r, dl')" by (cases "codec_decode now t p dl")
  have step: "decode_stream ((now, c) # q) dl =
      (if t = JNull then ([], Missing_Type, dl) else if t = JStr keepalive_type then decode_stream q dl
       else if t = JStr stream_error_type then ([], Ended, dl)
       else case r of Inl e \<Rightarrow> ([], Stream_Raised e, dl')
         | Inr event \<Rightarrow> (let out = (case event of Some ev \<Rightarrow> [ev] | None \<Rightarrow> [])
             in if is_terminal t then (out, Ended, dl')
                else case decode_stream q dl' of (evs, stop, dl'') \<Rightarrow> (out @ evs, stop, dl'')))" for q
    by (simp add: t_def [symmetric] p_def [symmetric] r Let_def del: ul_simps split: sum.split)
  consider (over) "t = JNull \<or> t = JStr stream_error_type \<or> is_terminal t \<or> (\<exists>e. r = Inl e)"
    | (keep) "t = JStr keepalive_type" | (event) ev where "t \<noteq> JNull" "t \<noteq> JStr keepalive_type" "t \<noteq> JStr stream_error_type"
        "\<not> is_terminal t" "r = Inr ev"
    by (cases r) auto
  then show ?case
  proof cases
    case over
    show ?thesis
    proof (cases "t = JStr keepalive_type")
      case True
      then show ?thesis using Cons [of dl] unfolding a append_Cons step by (cases "t = JNull") (simp_all del: decode_stream.simps)
    qed (use over in \<open>auto simp: a step Let_def simp del: decode_stream.simps split: sum.split\<close>)
  next
    case keep
    then show ?thesis using Cons [of dl] unfolding a append_Cons step by (cases "t = JNull") (simp_all del: decode_stream.simps)
  next
    case event
    then show ?thesis using Cons [of dl'] unfolding a append_Cons step
      by (auto simp: Let_def case_prod_beta simp del: decode_stream.simps)
  qed
qed simp

text \<open>
  C0: A stream that nothing was turned away from is read in order: whatever other messages, drains, cache
  evictions and reaps fall between, what the adapter has decoded is a beginning of the events the hub
  delivered, and all of them once its queue is empty.
\<close>

theorem listener_reads_stream:
  assumes "listener_run env acts ls = (ls', outs)" "lossless (JStr sid) outs"
    and "list_all (keeps_reading (JStr sid)) (map snd acts)" "queue_of ls (JStr sid) = []"
    and "sent_for (JStr sid) acts = map as_queued (send_chunks sid n steps raises end_ok err_ok)"
  shows "\<exists>rest. map event_obj (delivered steps) = fst (decode_stream (took (JStr sid) outs) dl) @ rest \<and>
     (queue_of ls' (JStr sid) = [] \<longrightarrow> rest = [])"
proof -
  let ?t = "took (JStr sid) outs" and ?left = "map (Pair 0) (queue_of ls' (JStr sid))"
  have all: "map snd (?t @ ?left) = map as_queued (send_chunks sid n steps raises end_ok err_ok)"
    using run_in_order [OF assms(1-3)] assms(4,5) by (simp add: comp_def)
  have full: "fst (decode_stream (?t @ ?left) dl) = map event_obj (delivered steps)"
    using decode_send [OF all, of dl] by auto
  show ?thesis
  proof (cases "queue_of ls' (JStr sid) = []")
    case True
    then show ?thesis using full by simp
  next
    case False
    then show ?thesis using full decode_prefix [of ?t ?left dl] by simp
  qed
qed

lemma decode_cong:
  assumes "map_of c (ul ''event_type'') = map_of c' (ul ''event_type'')"
    and "map_of c (ul ''payload'') = map_of c' (ul ''payload'')"
    and "\<And>dl. decode_stream q dl = decode_stream q' dl"
  shows "decode_stream ((now, c) # q) dl = decode_stream ((now, c') # q') dl"
  unfolding decode_stream.simps assms by (rule refl)

text \<open>The decoder compares sequence numbers and goes on: whatever they are, it reads the same events.\<close>

theorem sequence_not_enforced:
  "decode_stream (map (\<lambda>(now, n, t, p, b). (now, chunk_msg sid n t p b)) cs) dl =
   decode_stream (map (\<lambda>(now, n, t, p, b). (now, chunk_msg sid 0 t p b)) cs) dl"
proof (induction cs arbitrary: dl)
  case (Cons c cs)
  obtain now n t p b where c: "c = (now, n, t, p, b)" by (metis surj_pair)
  show ?case unfolding c list.map prod.case by (rule decode_cong) (simp_all add: Cons del: ul_simps)
qed simp

subsection \<open>What is never given back\<close>

text \<open>What can free a header: its drain's start, a stream error for it, a stop.\<close>

definition frees_header :: "(json \<times> py_obj) list \<Rightarrow> listener_act \<Rightarrow> bool" where
  "frees_header headers act =
     (case act of
        Act_Start sid \<Rightarrow> has_key sid headers
      | Act_Message (Some (JObj d)) ok \<Rightarrow>
          data_field ''type'' d = JStr stream_error_type \<and> has_key (data_field ''stream_id'' d) headers
      | Act_Stop \<Rightarrow> True
      | _ \<Rightarrow> False)"

lemma outbound_frame [simp]:
  "ls_outbound (cache_put now i m ls) = ls_outbound ls" "ls_outbound (cache_touch now k ls) = ls_outbound ls"
  "ls_outbound (cache_pop k ls) = ls_outbound ls" "ls_outbound (cache_reap now ls) = ls_outbound ls"
  "ls_outbound (remember_terminated now k ls) = ls_outbound ls" "ls_outbound (reap_tombstones now ls) = ls_outbound ls"
  by (simp_all add: cache_put_def cache_touch_def cache_pop_def cache_reap_def remember_terminated_def reap_tombstones_def Let_def)

lemma check_version_outbound:
  "check_outbound_version now name payload ls = Inr (ok, ls') \<Longrightarrow> ls_outbound ls' = ls_outbound ls"
  by (auto simp: check_outbound_version_def split: json.splits prod.splits)

lemma handlers_outbound:
  "ls_outbound (fst (handle_send env now ok d ls)) = ls_outbound ls"
  "ls_outbound (fst (handle_attachment env now ok d ls)) = ls_outbound ls"
  "ls_outbound (fst (handle_audio env ok d ls)) = ls_outbound ls"
  "ls_outbound (fst (handle_chunk now d ls)) = ls_outbound ls"
  "max_streams \<le> length (ls_outbound ls) \<Longrightarrow> ls_outbound (fst (handle_stream_start env now d ls)) = ls_outbound ls"
  "\<not> has_key (data_field ''stream_id'' d) (ls_outbound ls) \<Longrightarrow>
     ls_outbound (fst (handle_stream_error now d ls)) = ls_outbound ls"
  by (auto simp: handle_send_def handle_attachment_def handle_audio_def handle_chunk_def enqueue_chunk_def deliver_def
      handle_stream_start_def handle_stream_error_def has_key_iff delete_absent Let_def
      dest: check_version_outbound split: sum.splits option.splits)

lemma drain_outbound: "\<not> has_key sid (ls_outbound ls) \<Longrightarrow> ls_outbound (fst (drain_start env sid ls)) = ls_outbound ls"
proof -
  assume k: "\<not> has_key sid (ls_outbound ls)"
  have "ls_outbound (snd (drain_origin env sid ls)) = ls_outbound ls"
    by (simp add: drain_origin_def split: option.split)
  then show ?thesis using k
    by (auto simp: drain_start_def Let_def has_key_iff delete_absent case_prod_beta split: option.split)
qed

lemma step_outbound:
  assumes "max_streams \<le> length (ls_outbound ls)" "\<not> frees_header (ls_outbound ls) act"
  shows "ls_outbound (fst (listener_step env now act ls)) = ls_outbound ls"
proof (cases act)
  case (Act_Message msg ok)
  then show ?thesis using assms handlers_outbound
    by (auto simp: frees_header_def handle_raw_message_def Let_def simp del: ul_simps split: option.splits json.splits)
next
  case (Act_Start sid)
  then show ?thesis using assms(2) by (simp add: frees_header_def drain_outbound)
next
  case (Act_Take sid)
  then show ?thesis by (auto simp: drain_take_def simp del: decode_stream.simps split: option.split drain.split list.split bool.split prod.split)
next
  case (Act_End sid)
  then show ?thesis by (simp add: drain_end_def drain_cleanup_def Let_def split: option.split drain.split)
qed (use assms in \<open>simp_all add: frees_header_def\<close>)

text \<open>
  Once a hundred headers wait for streams that never begin, the listener refuses every later header:
  no reap, no time that passes and no other stream gives one back.
\<close>

theorem full_headers_stay:
  assumes "max_streams \<le> length (ls_outbound ls)" "list_all (\<lambda>act. \<not> frees_header (ls_outbound ls) act) (map snd acts)"
  shows "ls_outbound (fst (listener_run env acts ls)) = ls_outbound ls"
  using assms
proof (induction env acts ls rule: listener_run.induct)
  case (2 env now act acts ls)
  obtain l out where one: "listener_step env now act ls = (l, out)" by (cases "listener_step env now act ls")
  then have "ls_outbound l = ls_outbound ls" using step_outbound [of ls act env now] 2(2,3) by simp
  then show ?case using 2(1) [OF one [symmetric]] 2(2,3) one by (simp add: case_prod_beta)
qed simp

text \<open>A stream that fails before its first chunk: its header, then the error notice.\<close>

fun error_rounds :: "json \<Rightarrow> json \<Rightarrow> ustring list \<Rightarrow> (time \<times> listener_act) list" where
  "error_rounds outbound original [] = []"
| "error_rounds outbound original (sid # sids) =
     (0, Act_Message (Some (JObj (stream_start_msg sid outbound original))) True) #
     (0, Act_Message (Some (JObj (stream_error_msg sid ''streaming_exception''))) True) #
     error_rounds outbound original sids"

lemma start_fields [simp]:
  "data_field ''type'' (stream_start_msg sid ob orig) = JStr (ul ''stream_start'')"
  "data_field ''stream_id'' (stream_start_msg sid ob orig) = JStr sid"
  "data_field ''outbound'' (stream_start_msg sid ob orig) = ob"
  "data_field ''original_msg'' (stream_start_msg sid ob orig) = orig"
  "data_field ''type'' (stream_error_msg sid reason) = JStr stream_error_type"
  "data_field ''stream_id'' (stream_error_msg sid reason) = JStr sid"
  by (simp_all add: data_field_def stream_start_msg_def stream_error_msg_def)

lemma start_type: "ul ''stream_start'' \<noteq> ul ''send''" "stream_error_type \<noteq> ul ''send''" "stream_error_type \<noteq> ul ''stream_start''"
  by (simp_all add: stream_error_type_def)

lemma error_round:
  assumes "deserialize env ''OutboundMessage'' (JObj od) = Inr v" "schema_version_ok od 1" "original \<noteq> JNull"
    and ls: "ls_outbound ls = []" "ls_queues ls = []" "ls_tasks ls = []" "JStr sid \<notin> fst ` set (ls_originals ls)"
  shows "\<exists>ls' out. listener_run env (error_rounds (JObj od) original [sid]) ls = (ls', out) \<and>
     ls_outbound ls' = [] \<and> ls_queues ls' = [] \<and> ls_tasks ls' = [] \<and>
     ls_originals ls' = ls_originals ls @ [(JStr sid, original)]"
proof -
  let ?start = "handle_raw_message env 0 True (Some (JObj (stream_start_msg sid (JObj od) original))) ls"
  let ?mid = "ls\<lparr>ls_drops := ls_drops ls, ls_outbound := [(JStr sid, v)], ls_originals := ls_originals ls @ [(JStr sid, original)]\<rparr>"
  have v: "check_outbound_version 0 ''OutboundMessage'' (JObj od) ls = Inr (True, ls\<lparr>ls_drops := ls_drops ls\<rparr>)"
    using assms(2) by (simp add: check_outbound_version_def check_schema_version_def)
  have start: "?start = (?mid, [])"
    using assms v start_type by (simp add: handle_raw_message_def handle_stream_start_def max_streams_def hashable_def
        update_new Let_def del: ul_simps)
  have "stream_known (JStr sid) ?mid" by (simp add: stream_known_def has_key_def)
  then have error: "\<exists>l out. handle_raw_message env 0 True (Some (JObj (stream_error_msg sid ''streaming_exception''))) ?mid = (l, out) \<and>
      ls_outbound l = [] \<and> ls_queues l = [] \<and> ls_tasks l = [] \<and> ls_originals l = ls_originals ls @ [(JStr sid, original)]"
    using ls start_type by (simp add: handle_raw_message_def handle_stream_error_def hashable_def remember_terminated_def
        cache_pop_def Let_def del: ul_simps)
  then show ?thesis using start by (auto simp del: ul_simps)
qed

lemma run_append: "listener_run env (as @ bs) ls =
    (case listener_run env as ls of (ls', out) \<Rightarrow> (case listener_run env bs ls' of (ls'', outs) \<Rightarrow> (ls'', out @ outs)))"
proof (induction as arbitrary: ls)
  case (Cons a as)
  obtain now act where a: "a = (now, act)" by (cases a)
  obtain l out where one: "listener_step env now act ls = (l, out)" by (cases "listener_step env now act ls")
  show ?case using Cons [of l] unfolding a by (simp add: one case_prod_beta del: listener_step.simps)
qed (simp add: case_prod_beta)

text \<open>
  C0: The copies of original messages that headers bring are not bounded: every stream that fails before
  its first chunk leaves one behind, though its header and its cached message are removed.
\<close>

theorem originals_pile_up:
  assumes "deserialize env ''OutboundMessage'' (JObj od) = Inr v" "schema_version_ok od 1" "original \<noteq> JNull"
    and "distinct sids"
  shows "map fst (ls_originals (fst (listener_run env (error_rounds (JObj od) original sids) listener_init))) = map JStr sids"
proof -
  have "map fst (ls_originals (fst (listener_run env (error_rounds (JObj od) original sids) ls))) =
      map fst (ls_originals ls) @ map JStr sids"
    if "ls_outbound ls = []" "ls_queues ls = []" "ls_tasks ls = []" "JStr ` set sids \<inter> fst ` set (ls_originals ls) = {}" for ls
    using assms(4) that
  proof (induction sids arbitrary: ls)
    case (Cons sid sids)
    have new: "JStr sid \<notin> fst ` set (ls_originals ls)" using Cons(6) by auto
    obtain ls' out where r: "listener_run env (error_rounds (JObj od) original [sid]) ls = (ls', out)"
      and ls': "ls_outbound ls' = []" "ls_queues ls' = []" "ls_tasks ls' = []"
        "ls_originals ls' = ls_originals ls @ [(JStr sid, original)]"
      using error_round [OF assms(1-3) Cons(3-5) new] by blast
    have "JStr ` set sids \<inter> fst ` set (ls_originals ls') = {}" using Cons(2,6) ls'(4) by auto
    from Cons(1) [OF _ ls'(1-3) this] Cons(2)
    have ih: "map fst (ls_originals (fst (listener_run env (error_rounds (JObj od) original sids) ls'))) =
        map fst (ls_originals ls) @ JStr sid # map JStr sids" by (simp add: ls'(4))
    have "error_rounds (JObj od) original (sid # sids) = error_rounds (JObj od) original [sid] @ error_rounds (JObj od) original sids"
      by simp
    then have "listener_run env (error_rounds (JObj od) original (sid # sids)) ls =
        (case listener_run env (error_rounds (JObj od) original sids) ls' of (ls'', outs) \<Rightarrow> (ls'', out @ outs))"
      by (simp only: run_append r prod.case)
    then show ?case using ih by (simp add: case_prod_beta del: error_rounds.simps)
  qed simp
  from this [of listener_init] show ?thesis by (simp add: listener_init_def)
qed


text \<open>The hypotheses of the two leaks can hold.\<close>

definition lax_env :: wire_env where
  "lax_env = \<lparr>we_class = (\<lambda>_. []), we_iso = (\<lambda>_. None)\<rparr>"

theorem originals_pile_up_witness:
  "map fst (ls_originals (fst (listener_run lax_env (error_rounds (JObj []) (JObj []) [ul ''m1'', ul ''m2'', ul ''m3'']) listener_init)))
     = map JStr [ul ''m1'', ul ''m2'', ul ''m3'']"
proof (rule originals_pile_up)
  show "deserialize lax_env ''OutboundMessage'' (JObj []) = Inr (P_Data ''OutboundMessage'' [])"
    by (simp add: deserialize_def lax_env_def construct_def)
qed (simp_all add: schema_version_ok_def)

definition crowded :: listener where
  "crowded = listener_init\<lparr>ls_outbound := map (\<lambda>n. (JInt (int n), P_None)) [0..<100]\<rparr>"

theorem full_headers_stay_witness:
  "ls_outbound (fst (listener_run lax_env
      [(700, Act_Reap), (800, Act_Message (Some (JObj (stream_start_msg (ul ''m1'') (JObj []) (JObj [])))) True), (900, Act_End (JInt 1))]
      crowded)) = ls_outbound crowded"
proof (rule full_headers_stay)
  show "max_streams \<le> length (ls_outbound crowded)" by (simp add: crowded_def max_streams_def)
  show "list_all (\<lambda>act. \<not> frees_header (ls_outbound crowded) act) (map snd
      [(700, Act_Reap), (800, Act_Message (Some (JObj (stream_start_msg (ul ''m1'') (JObj []) (JObj [])))) True), (900, Act_End (JInt 1))])"
    using start_type by (simp add: frees_header_def del: ul_simps)
qed

text \<open>A stream of one event and its end, read while it arrives.\<close>

lemma chunk_fields [simp]:
  "data_field ''type'' (chunk_msg sid n t p b) = JNull" "data_field ''stream_id'' (chunk_msg sid n t p b) = JStr sid"
  "has_key (ul ''stream_id'') (chunk_msg sid n t p b)" "has_key (ul ''seq'') (chunk_msg sid n t p b)"
  by (simp_all add: data_field_def chunk_msg_def has_key_def)

lemma has_key_simps: "\<not> has_key k []" "has_key k ((k', v) # d) \<longleftrightarrow> k = k' \<or> has_key k d"
  by (simp_all add: has_key_iff)

definition chunk_act :: "time \<Rightarrow> chunk \<Rightarrow> time \<times> listener_act" where
  "chunk_act now c = (now, Act_Message (Some (JObj c)) True)"

definition small_chunks :: "chunk list" where
  "small_chunks = send_chunks (ul ''m1'') 0 [Step_Event (RunStarted (ul ''r1'')) True []] False True True"

definition small_run :: "(time \<times> listener_act) list" where
  "small_run = [(0, Act_Inbound (JStr (ul ''m1'')) (P_Str (ul ''hi''))), chunk_act 1 (small_chunks ! 0),
     (1, Act_Start (JStr (ul ''m1''))), (2, Act_Take (JStr (ul ''m1''))), chunk_act 3 (small_chunks ! 1),
     (4, Act_Take (JStr (ul ''m1'')))]"

lemma small_chunks_eq:
  "\<exists>p. codec_encode (event_obj (RunStarted (ul ''r1''))) = Inr (ul ''run_started'', p, False) \<and>
     small_chunks = [chunk_msg (ul ''m1'') 0 (ul ''run_started'') p False, terminal_msg (ul ''m1'') 1]"
proof -
  have "sendable (RunStarted (ul ''r1''))" by (simp add: sendable_iff del: ul_simps)
  then obtain t p b where e: "codec_encode (event_obj (RunStarted (ul ''r1''))) = Inr (t, p, b)"
    by (auto simp: sendable_def split: sum.splits)
  moreover have "branch_of_class (event_class (RunStarted (ul ''r1''))) =
      Some (branch ''run_started'' ''RunStartedRenderEvent'' False)"
    by (simp add: branch_of_class_def codec_registry_def event_class_def branch_def)
  ultimately have "t = ul ''run_started''" "b = False"
    by (auto simp: codec_encode_event branch_def simp del: ul_simps event_obj.simps)
  then show ?thesis using e by (simp add: small_chunks_def del: event_obj.simps ul_simps)
qed

lemma small_run_reads:
  "\<exists>ls' outs. listener_run lax_env small_run listener_init = (ls', outs) \<and> lossless (JStr (ul ''m1'')) outs \<and>
     queue_of ls' (JStr (ul ''m1'')) = [] \<and> sent_for (JStr (ul ''m1'')) small_run = map as_queued small_chunks"
proof -
  obtain p where e: "codec_encode (event_obj (RunStarted (ul ''r1''))) = Inr (ul ''run_started'', p, False)"
    and c: "small_chunks = [chunk_msg (ul ''m1'') 0 (ul ''run_started'') p False, terminal_msg (ul ''m1'') 1]"
    using small_chunks_eq by blast
  have d: "decode_stream [(2, chunk_msg (ul ''m1'') 0 (ul ''run_started'') p False)] dl =
      ([event_obj (RunStarted (ul ''r1''))], Starved, dl)" for dl
    using decode_event [OF e, of 2 "ul ''m1''" 0 "[]" dl] by simp
  have f: "decode_stream [(4, chunk_msg (ul ''m1'') n stream_end_type (JObj []) True)] dl = ([], Ended, dl)" for n dl
    using decode_terminal [of 4 "ul ''m1''" n "[]" dl] by (simp only: terminal_msg_def)
  show ?thesis using d f
    by (simp add: small_run_def c chunk_act_def listener_init_def cache_put_def cache_max_size_def handle_raw_message_def
        handle_chunk_def enqueue_chunk_def drain_start_def drain_origin_def drain_take_def cache_touch_def hashable_def has_key_simps
        max_streams_def max_queue_size_def queue_of_def stream_message_def queued_eq other_types_def
        terminal_msg_def Let_def del: ul_simps decode_stream.simps)
qed

theorem listener_reads_stream_witness:
  "map event_obj (delivered [Step_Event (RunStarted (ul ''r1'')) True []]) =
     fst (decode_stream (took (JStr (ul ''m1'')) (snd (listener_run lax_env small_run listener_init))) drop_log_init)"
proof -
  obtain ls' outs where r: "listener_run lax_env small_run listener_init = (ls', outs)" and l: "lossless (JStr (ul ''m1'')) outs"
    and q: "queue_of ls' (JStr (ul ''m1'')) = []" and s: "sent_for (JStr (ul ''m1'')) small_run = map as_queued small_chunks"
    using small_run_reads by blast
  have k: "list_all (keeps_reading (JStr (ul ''m1''))) (map snd small_run)"
    by (simp add: small_run_def chunk_act_def keeps_reading_def del: ul_simps)
  have i: "queue_of listener_init (JStr (ul ''m1'')) = []" by (simp add: queue_of_def listener_init_def)
  from listener_reads_stream [OF r l k i s [unfolded small_chunks_def], of drop_log_init] q r show ?thesis
    by (simp del: ul_simps event_obj.simps decode_stream.simps delivered.simps)
qed

end
