(* ===== verification/Spec2Isabelle.thy ===== *)
theory Spec2Isabelle
  imports Hub_Pipeline Cli_Parser Dashboard_Rpc Blob_Service Ingress Outbound_Listener
begin

text \<open>
  Roxabi factory: the hub of a chat-agent platform. Messages arrive from platform adapters
  (Telegram, Discord, web, CLI), the hub resolves who sent them and what they may do, and hands the
  cleared ones to a pool, one per conversation, where an agent answers; the agent's output streams
  back through the processor to the adapters. This library
  models the decisions on that way: identity, trust, access, limits, routing, the life of a pool, and
  what of an answer or an error reaches the bus. Operators work through a web console, whose requests
  the hub answers from an identity store of its own.

  \<^bold>\<open>Theories and the code they model\<close> (paths below src/src/factory unless said otherwise)

  \<^item> Prelude: ordered dictionaries, Python string helpers, results as sums.
  \<^item> Circuit_Breaker: core/lifecycle/circuit_breaker.py and the NATS breaker of
    packages/roxabi-nats. The locale \<open>breaker\<close> states what a caller relies on; it is interpreted on
    both breakers. Lemmas: reachable well-formedness, a single probe, the open window, the trip counts.
  \<^item> Rate_Limiter: core/hub/hub_rate_limit.py and the attempt limiter of
    infrastructure/stores/identity/pairing.py. The locale \<open>window_log\<close> is the contract of a pruned
    log; the limiter is refined against one that keeps every message.
  \<^item> User_Store: the platform-key grammar, the user registry with its two caches
    (infrastructure/stores/identity/user_store.py) and the link challenges. The invariant \<open>us_inv\<close>
    ties the caches to the identity table; every operation keeps it.
  \<^item> Auth: trust levels, the grant store with its scheduled revocations, the authenticator.
  \<^item> Agent_Grants: who may use an agent. The locale \<open>identity_port\<close> is what it needs of the user
    store and is interpreted on it; the cached decision is refined against the grant table; pairing
    codes.
  \<^item> Message: the inbound message, the command parser, the debouncer.
  \<^item> Event_Bus: the telemetry fan-out.
  \<^item> Pool_Manager: the pool table, stale and least-recently-used eviction. \<open>evict_to_cap\<close> is a loop
    the code does not bound, so it is a \<open>partial_function\<close>; that it returns is a theorem.
  \<^item> Hub_Pipeline: registration, binding resolution, every middleware stage, the chain and the
    dispatch of its result, composed as the code composes them.
  \<^item> Unicode_Text: strings as code points, UTF-8 with Python's error handlers.
  \<^item> Error_Text: packages/roxabi-contracts/.../errors.py, core/cli/cli_error_classify.py and
    core/messaging/utils/user_error_resolver.py: what may leave an error's text.
  \<^item> Stream_Processor: streaming/state_machine.py and core/processors/stream_*.py. The locale
    \<open>block_tracker\<close> is the contract of the tracker of open blocks; the processor is refined against
    the protocol an adapter follows (\<open>proto_step\<close>), handler by handler.
  \<^item> Cli_Parser: core/cli/cli_streaming_parser.py and core/cli/protocol/cli_streaming.py, composed
    with the processor.
  \<^item> Sql_Table: the statements of the identity store over keyed rows. The locale \<open>one_way\<close> is the
    contract of a row whose state no operation takes back.
  \<^item> Password_Hash: infrastructure/stores/identity/password_hash.py with its base64 and integer
    parsing; the key derivation is an argument.
  \<^item> Control_Plane: the dashboard's identity store (infrastructure/stores/identity/control_plane_*.py)
    and core/auth/control_plane*.py: users, invites, sessions, API keys, organizations, jobs, links to
    chat accounts, resource authorization.
  \<^item> Control_Plane_Laws: its invariant over every run of operations, what each operation leaves alone,
    and \<open>one_way\<close> interpreted on invites, keys, links and disabled accounts.
  \<^item> Dashboard_Rpc: the wrapper of the dashboard requests (bootstrap/factory/dashboard/) and the
    handlers of identity, organizations and jobs, on top of the store.
  \<^item> Blob_Store: packages/roxabi-blobs, the content-addressed files behind voice notes and attachments,
    with crashes and refused system calls as operations. The locale \<open>ref_store\<close> is the contract of
    counted references; the store is refined against a plain list of them.
  \<^item> Blob_Service: blobstore/, the HTTP service in front of it; \<open>ref_store\<close> holds of it too.
  \<^item> Ingress_Events: ingress/payload.py, ingress/normalize.py and the event contract: what a webhook's
    payload becomes on the bus.
  \<^item> Ingress: the webhook pipeline of ingress/ with its configuration, signatures, connectors and the
    installation registry. The locales \<open>installation_registry\<close> and \<open>connector_plugin\<close> are
    the contracts of the table and of a connector, interpreted on the SQLite store and on both connectors.
    Lemmas: credentials, the form of published subjects, removed installations, the unhandled exceptions.
  \<^item> Spec2Isabelle (this theory): properties that span components.

  \<^bold>\<open>Conventions\<close>. State is a record, an operation returns the updated record; a raise or an
  early return is a value. The clock, fresh identifiers and collaborators plugged into the hub (the
  command routers, the speech-to-text service, the authorizer and link-checker ports) are arguments.
  Operations the code runs under one lock or within one step of the event loop are one step here;
  where an await lets others in between, the steps are separate operations of a run.

  \<^bold>\<open>Not modelled\<close>. Network and database drivers, rendering and delivery by the adapters, the
  agent processes themselves, the console's HTTP routes and pages, and deployment code; SQL tables are modelled by the rows
  the statements read and write.
\<close>

subsection \<open>Across components: who reaches an agent\<close>

definition sample_grants :: grant_store where
  "sample_grants = foldl grant_step (grant_store_init [])
     [GGrant ''aria'' \<lparr>pr_kind = USER, pr_id = ''rx:user:1''\<rparr> USE ''admin'' ''cli'']"

definition granting_hub :: hub where
  "granting_hub = sample_hub\<lparr>h_authorizer :=
     Some (\<lambda>agent u roles. authorize (Some sample_users) agent u roles sample_grants)\<rparr>"

lemma granting_hub_submits:
  "fst (process 0 ''s1'' ''t1'' (sample_message ''m1'' ''hello'') granting_hub) =
     SubmitToPool ''telegram:main:chat:1''
       ((sample_message ''m1'' ''hello'')\<lparr>m_trace_id := Some ''t1'', m_trust_level := TRUSTED\<rparr>)"
  by code_simp

text \<open>
  C34: on a hub whose authorizer is the grant store, in whatever state grants and revocations have
  left it, a message of a sender who is not an admin is submitted to a pool only if the grant table
  holds a \<open>use\<close> row of the bound agent for one of the sender's linked identities or roles.
\<close>

theorem chat_reaches_agent_only_by_grant:
  assumes "h_authorizer h = Some (\<lambda>agent u roles. authorize us agent u roles gs)"
    "gs = foldl grant_step (grant_store_init []) ops"
    "process now fresh trace_id msg h = (SubmitToPool pid m, h')"
    "\<not> m_is_admin (fst (resolve_message_trust now msg h))"
  shows "\<exists>b. resolve_binding (h_bindings h) msg = Some b \<and> bd_pool_id b = pid \<and>
     table_allows (expand_user_principals us (m_user_id msg)) (set (m_roles msg)) (bd_agent_name b)
       (gs_rows gs)"
proof -
  have inv: "gs_inv gs" unfolding assms(2) by (rule grant_run_inv) simp
  from process_submit [OF assms(3)] assms(1,4) show ?thesis
    by (auto simp: cleared_def Let_def authorize_iff [OF inv])
qed

theorem chat_reaches_agent_only_by_grant_witness:
  "\<exists>b. resolve_binding (h_bindings granting_hub) (sample_message ''m1'' ''hello'') = Some b \<and>
     bd_pool_id b = ''telegram:main:chat:1'' \<and>
     table_allows (expand_user_principals (Some sample_users) ''tg:user:7'') {} (bd_agent_name b)
       (gs_rows sample_grants)"
proof -
  let ?m = "sample_message ''m1'' ''hello''"
  have a: "h_authorizer granting_hub =
      Some (\<lambda>agent u roles. authorize (Some sample_users) agent u roles sample_grants)"
    by (simp add: granting_hub_def)
  have p: "process 0 ''s1'' ''t1'' ?m granting_hub = (SubmitToPool ''telegram:main:chat:1''
       (?m\<lparr>m_trace_id := Some ''t1'', m_trust_level := TRUSTED\<rparr>),
       snd (process 0 ''s1'' ''t1'' ?m granting_hub))"
    using granting_hub_submits by (metis prod.collapse)
  have n: "\<not> m_is_admin (fst (resolve_message_trust 0 ?m granting_hub))" by code_simp
  from chat_reaches_agent_only_by_grant [OF a sample_grants_def p n] show ?thesis
    by (simp add: sample_message_def)
qed

end
